(* ===== verification/Prelude.thy ===== *)
theory Prelude
  imports Main "HOL-Library.Word"
begin

text \<open>
  Shared vocabulary of the development: C++ exceptions and failed assertions as values, the result
  type of a fallible operation with its sequencing, the machine integers the code uses, the null
  pointer of an executor, and the generic lemmas on lists and words that several components share.
\<close>

unbundle bit_operations_syntax

section \<open>Errors as values\<close>

text \<open>
  What can stop an operation: an exception object (its class and its message), a failed
  \<^verbatim>\<open>assert\<close>, or behaviour the C++ standard leaves undefined (a null dereference, a read out of
  range, rethrowing a null \<^verbatim>\<open>exception_ptr\<close>). An exception thrown by a user callback is known by a
  number only.
\<close>

datatype exn =
    Logic_error string
  | Runtime_error string
  | Invalid_argument string
  | Bad_function_call
  | Assert_failed
  | Undefined_behaviour
  | User_exn nat

type_synonym 'a outcome = "exn + 'a"

definition ret :: "'a \<Rightarrow> 'a outcome" where
  "ret x = Inr x"

definition bind_outcome :: "'a outcome \<Rightarrow> ('a \<Rightarrow> 'b outcome) \<Rightarrow> 'b outcome" where
  "bind_outcome m f = (case m of Inl e \<Rightarrow> Inl e | Inr x \<Rightarrow> f x)"

definition logicAssert :: "bool \<Rightarrow> string \<Rightarrow> unit outcome" where
  "logicAssert x errorMsg = (if x then Inr () else Inl (Logic_error errorMsg))"

definition cassert :: "bool \<Rightarrow> unit outcome" where
  "cassert x = (if x then Inr () else Inl Assert_failed)"

named_theorems outcome_simps

lemma bind_Inl [simp, outcome_simps]: "bind_outcome (Inl e) f = Inl e"
  by (simp add: bind_outcome_def)

lemma bind_Inr [simp, outcome_simps]: "bind_outcome (Inr x) f = f x"
  by (simp add: bind_outcome_def)

lemma ret_eq [simp, outcome_simps]: "ret x = Inr x"
  by (simp add: ret_def)

lemma bind_logicAssert [outcome_simps]:
  "bind_outcome (logicAssert x m) f = (if x then f () else Inl (Logic_error m))"
  by (simp add: logicAssert_def)

lemma bind_cassert [outcome_simps]:
  "bind_outcome (cassert x) f = (if x then f () else Inl Assert_failed)"
  by (simp add: cassert_def)

lemma bind_Inr_iff:
  "bind_outcome m f = Inr y \<longleftrightarrow> (\<exists>x. m = Inr x \<and> f x = Inr y)"
  by (cases m) auto

lemma bind_Inl_iff:
  "bind_outcome m f = Inl e \<longleftrightarrow> m = Inl e \<or> (\<exists>x. m = Inr x \<and> f x = Inl e)"
  by (cases m) auto

section \<open>Machine integers and pointers\<close>

type_synonym u8 = "8 word"
type_synonym u32 = "32 word"
type_synonym u64 = "64 word"

text \<open>An \<^verbatim>\<open>Executor*\<close> is null (\<open>None\<close>) or names an executor by a number.\<close>

type_synonym executor_ptr = "nat option"

text \<open>An \<^verbatim>\<open>Executor::Context\<close> is a pointer-sized integer; 0 is \<^verbatim>\<open>NULLCTX\<close>.\<close>

abbreviation NULLCTX :: u64 where
  "NULLCTX \<equiv> 0"

section \<open>Generic lemmas\<close>

lemma unat_plus_one_u8: "unat (x + 1 :: u8) = (unat x + 1) mod 256"
  by (simp add: unat_word_ariths)

lemma unat_minus_one_word:
  fixes x :: "'a::len word"
  assumes "x \<noteq> 0"
  shows "unat (x - 1) = unat x - 1"
  using assms by (simp add: unat_minus_one)

lemma unat_plus_small:
  fixes x y :: "'a::len word"
  assumes "unat x + unat y < 2 ^ LENGTH('a)"
  shows "unat (x + y) = unat x + unat y"
  using assms by (simp add: unat_word_ariths)

lemma list_update_nth_map:
  "i < length xs \<Longrightarrow> map f (xs[i := x]) = (map f xs)[i := f x]"
  by (simp add: map_update)

end
