(* ===== verification/Try_Value.thy ===== *)
theory Try_Value
  imports Prelude
begin

text \<open>
  The result container of every asynchronous operation: \<^verbatim>\<open>Try<T>\<close> and \<^verbatim>\<open>Try<void>\<close> of \<^verbatim>\<open>src/Try.h\<close>,
  \<^verbatim>\<open>Unit\<close> of \<^verbatim>\<open>src/Unit.h\<close>, and \<^verbatim>\<open>LocalState<T>\<close> of \<^verbatim>\<open>src/LocalState.h\<close>, the inline state of a
  future that has no promise.
\<close>

section \<open>Unit\<close>

datatype Unit = Unit

definition Unit_eq :: "Unit \<Rightarrow> Unit \<Rightarrow> bool" where
  "Unit_eq x y = True"

definition Unit_neq :: "Unit \<Rightarrow> Unit \<Rightarrow> bool" where
  "Unit_neq x y = False"

section \<open>Try<T>\<close>

text \<open>
  An \<^verbatim>\<open>std::exception_ptr\<close> may be null. \<^verbatim>\<open>Try<T>\<close> holds a \<^verbatim>\<open>std::variant\<close> of nothing, a value and an
  \<^verbatim>\<open>exception_ptr\<close>; its alternative is known even when the \<^verbatim>\<open>exception_ptr\<close> is null.
\<close>

type_synonym exception_ptr = "exn option"

datatype 'a Try = Nothing | Value 'a | Exc exception_ptr

definition rethrow_exception :: "exception_ptr \<Rightarrow> 'a outcome" where
  "rethrow_exception p = (case p of None \<Rightarrow> Inl Undefined_behaviour | Some e \<Rightarrow> Inl e)"

definition Try_default :: "'a Try" where
  "Try_default = Nothing"

definition Try_of_value :: "'a \<Rightarrow> 'a Try" where
  "Try_of_value v = Value v"

definition Try_of_exception :: "exception_ptr \<Rightarrow> 'a Try" where
  "Try_of_exception e = Exc e"

definition Try_hasError :: "'a Try \<Rightarrow> bool" where
  "Try_hasError t = (case t of Exc _ \<Rightarrow> True | _ \<Rightarrow> False)"

definition Try_available :: "'a Try \<Rightarrow> bool" where
  "Try_available t = (\<not> Try_hasError t)"

definition Try_checkHasTry :: "'a Try \<Rightarrow> unit outcome" where
  "Try_checkHasTry t = (case t of
     Value _ \<Rightarrow> Inr ()
   | Exc p \<Rightarrow> rethrow_exception p
   | Nothing \<Rightarrow> Inl (Logic_error ''Try object is empty''))"

text \<open>\<^verbatim>\<open>std::get<T>\<close> throws when another alternative is held; after the check it cannot.\<close>

definition Try_get :: "'a Try \<Rightarrow> 'a outcome" where
  "Try_get t = (case t of Value v \<Rightarrow> Inr v | _ \<Rightarrow> Inl (Logic_error ''bad_variant_access''))"

definition Try_value :: "'a Try \<Rightarrow> 'a outcome" where
  "Try_value t = bind_outcome (Try_checkHasTry t) (\<lambda>_. Try_get t)"

definition Try_emplace :: "'a \<Rightarrow> 'a Try \<Rightarrow> 'a Try" where
  "Try_emplace v t = Value v"

definition Try_setException :: "exception_ptr \<Rightarrow> 'a Try \<Rightarrow> 'a Try" where
  "Try_setException e t = (case t of Exc _ \<Rightarrow> Exc e | _ \<Rightarrow> Exc e)"

definition Try_assign_exception :: "exception_ptr \<Rightarrow> 'a Try \<Rightarrow> 'a Try" where
  "Try_assign_exception e t = (case t of Exc _ \<Rightarrow> Exc e | _ \<Rightarrow> Exc e)"

definition Try_getException :: "'a Try \<Rightarrow> exception_ptr outcome" where
  "Try_getException t =
     bind_outcome (logicAssert (Try_hasError t) ''Try object doesn't has an error'')
       (\<lambda>_. case t of Exc p \<Rightarrow> Inr p | _ \<Rightarrow> Inl (Logic_error ''bad_variant_access''))"

section \<open>Try<void>\<close>

record TryVoid =
  tv_error :: exception_ptr

definition TryVoid_default :: TryVoid where
  "TryVoid_default = \<lparr>tv_error = None\<rparr>"

definition TryVoid_of_exception :: "exception_ptr \<Rightarrow> TryVoid" where
  "TryVoid_of_exception e = \<lparr>tv_error = e\<rparr>"

definition TryVoid_assign_exception :: "exception_ptr \<Rightarrow> TryVoid \<Rightarrow> TryVoid" where
  "TryVoid_assign_exception e t = t\<lparr>tv_error := e\<rparr>"

text \<open>Move assignment between two distinct objects swaps their errors.\<close>

definition TryVoid_move_assign :: "TryVoid \<Rightarrow> TryVoid \<Rightarrow> TryVoid \<times> TryVoid" where
  "TryVoid_move_assign this other = (this\<lparr>tv_error := tv_error other\<rparr>, other\<lparr>tv_error := tv_error this\<rparr>)"

definition TryVoid_hasError :: "TryVoid \<Rightarrow> bool" where
  "TryVoid_hasError t = (tv_error t \<noteq> None)"

definition TryVoid_value :: "TryVoid \<Rightarrow> unit outcome" where
  "TryVoid_value t = (if TryVoid_hasError t then rethrow_exception (tv_error t) else Inr ())"

definition TryVoid_setException :: "exception_ptr \<Rightarrow> TryVoid \<Rightarrow> TryVoid" where
  "TryVoid_setException e t = t\<lparr>tv_error := e\<rparr>"

definition TryVoid_getError :: "TryVoid \<Rightarrow> exception_ptr" where
  "TryVoid_getError t = tv_error t"

section \<open>Conversions and makeTryCall\<close>

definition Try_to_void :: "'a Try \<Rightarrow> TryVoid" where
  "Try_to_void t = (case t of Exc p \<Rightarrow> TryVoid_of_exception p | _ \<Rightarrow> TryVoid_default)"

definition Try_of_void :: "TryVoid \<Rightarrow> Unit Try" where
  "Try_of_void other = (if TryVoid_hasError other then Exc (tv_error other) else Value Unit)"

text \<open>
  A callable is what invoking it gives: a value or the exception it throws. \<^verbatim>\<open>makeTryCall\<close> catches
  the exception; its two instances are for a result type other than \<^verbatim>\<open>void\<close> and for \<^verbatim>\<open>void\<close>.
\<close>

definition makeTryCall :: "('b \<Rightarrow> 'a outcome) \<Rightarrow> 'b \<Rightarrow> 'a Try" where
  "makeTryCall f args = (case f args of Inr v \<Rightarrow> Try_of_value v | Inl e \<Rightarrow> Try_of_exception (Some e))"

definition makeTryCall_void :: "('b \<Rightarrow> unit outcome) \<Rightarrow> 'b \<Rightarrow> TryVoid" where
  "makeTryCall_void f args =
     (case f args of Inr _ \<Rightarrow> TryVoid_default | Inl e \<Rightarrow> TryVoid_of_exception (Some e))"

lemmas Try_defs =
  Try_default_def Try_of_value_def Try_of_exception_def Try_hasError_def Try_available_def
  Try_checkHasTry_def Try_get_def Try_value_def Try_emplace_def Try_setException_def
  Try_assign_exception_def Try_getException_def rethrow_exception_def

lemmas TryVoid_defs =
  TryVoid_default_def TryVoid_of_exception_def TryVoid_assign_exception_def
  TryVoid_move_assign_def TryVoid_hasError_def TryVoid_value_def TryVoid_setException_def
  TryVoid_getError_def

lemma Try_value_simps [simp]:
  "Try_value (Value v) = Inr v"
  "Try_value (Exc (Some e)) = Inl e"
  "Try_value (Exc None) = Inl Undefined_behaviour"
  "Try_value Nothing = Inl (Logic_error ''Try object is empty'')"
  by (simp_all add: Try_defs)

lemma Try_hasError_simps [simp]:
  "Try_hasError (Value v) = False" "Try_hasError (Exc p) = True" "Try_hasError Nothing = False"
  by (simp_all add: Try_hasError_def)

lemma Try_available_simps [simp]:
  "Try_available (Value v)" "\<not> Try_available (Exc p)" "Try_available Nothing"
  by (simp_all add: Try_available_def)

section \<open>LocalState<T>\<close>

record 'a LocalState =
  ls_try_value :: "'a Try"
  ls_executor :: executor_ptr

definition LocalState_default :: "'a LocalState" where
  "LocalState_default = \<lparr>ls_try_value = Try_default, ls_executor = None\<rparr>"

definition LocalState_of_value :: "'a \<Rightarrow> 'a LocalState" where
  "LocalState_of_value v = \<lparr>ls_try_value = Try_of_value v, ls_executor = None\<rparr>"

definition LocalState_of_try :: "'a Try \<Rightarrow> 'a LocalState" where
  "LocalState_of_try t = \<lparr>ls_try_value = t, ls_executor = None\<rparr>"

definition LocalState_hasResult :: "'a LocalState \<Rightarrow> bool" where
  "LocalState_hasResult ls = Try_available (ls_try_value ls)"

text \<open>Move assignment between two distinct objects swaps both members.\<close>

definition LocalState_move_assign ::
    "'a LocalState \<Rightarrow> 'a LocalState \<Rightarrow> 'a LocalState \<times> 'a LocalState" where
  "LocalState_move_assign this other =
     (this\<lparr>ls_try_value := ls_try_value other, ls_executor := ls_executor other\<rparr>,
      other\<lparr>ls_try_value := ls_try_value this, ls_executor := ls_executor this\<rparr>)"

definition LocalState_setExecutor :: "executor_ptr \<Rightarrow> 'a LocalState \<Rightarrow> 'a LocalState" where
  "LocalState_setExecutor ex ls = ls\<lparr>ls_executor := ex\<rparr>"

definition LocalState_getExecutor :: "'a LocalState \<Rightarrow> executor_ptr" where
  "LocalState_getExecutor ls = ls_executor ls"

text \<open>
  \<open>inExecutor e\<close> stands for \<^verbatim>\<open>e->currentThreadInExecutor()\<close>, a virtual function of the executor.
\<close>

definition LocalState_currentThreadInExecutor :: "(nat \<Rightarrow> bool) \<Rightarrow> 'a LocalState \<Rightarrow> bool" where
  "LocalState_currentThreadInExecutor inExecutor ls =
     (case ls_executor ls of None \<Rightarrow> False | Some e \<Rightarrow> inExecutor e)"

definition LocalState_setContinuation ::
    "('a Try \<Rightarrow> 'b outcome) \<Rightarrow> 'a LocalState \<Rightarrow> 'b outcome" where
  "LocalState_setContinuation f ls =
     bind_outcome (cassert (Try_available (ls_try_value ls))) (\<lambda>_. f (ls_try_value ls))"

section \<open>Properties\<close>

text \<open>Converting a \<^verbatim>\<open>Try<void>\<close> to \<^verbatim>\<open>Try<Unit>\<close> and back gives the original. Converting a
  \<^verbatim>\<open>Try<Unit>\<close> to \<^verbatim>\<open>Try<void>\<close> and back gives the original exactly when it was neither empty nor
  holding a null exception pointer, the two contents \<^verbatim>\<open>Try<void>\<close> cannot represent.\<close>

theorem Try_void_roundtrip:
  "Try_to_void (Try_of_void w) = w \<and>
   (Try_of_void (Try_to_void t) = t \<longleftrightarrow> t \<noteq> Nothing \<and> t \<noteq> Exc None)"
proof
  show "Try_to_void (Try_of_void w) = w"
    by (cases w) (auto simp: Try_to_void_def Try_of_void_def TryVoid_defs)
  show "Try_of_void (Try_to_void t) = t \<longleftrightarrow> t \<noteq> Nothing \<and> t \<noteq> Exc None"
  proof (cases t)
    case (Value u)
    then show ?thesis by (cases u) (simp add: Try_to_void_def Try_of_void_def TryVoid_defs)
  qed (auto simp: Try_to_void_def Try_of_void_def TryVoid_defs)
qed

text \<open>\<^verbatim>\<open>makeTryCall\<close> turns every outcome of the callable into a \<^verbatim>\<open>Try\<close> that is never empty and
  whose \<^verbatim>\<open>value()\<close> returns what the callable returned or throws what it threw; \<^verbatim>\<open>available()\<close> is
  then the same as having succeeded.\<close>

theorem makeTryCall_value:
  "Try_value (makeTryCall f args) = f args \<and>
   makeTryCall f args \<noteq> Nothing \<and>
   (Try_available (makeTryCall f args) \<longleftrightarrow> (\<exists>v. f args = Inr v)) \<and>
   TryVoid_value (makeTryCall_void g args) = g args"
  by (cases "f args"; cases "g args")
     (auto simp: makeTryCall_def makeTryCall_void_def Try_of_value_def Try_of_exception_def
        TryVoid_defs rethrow_exception_def)

lemma Try_getException_after_set:
  "Try_getException (Try_setException p t) = Inr p"
  by (cases t) (simp_all add: Try_defs outcome_simps)

lemma LocalState_default_hasResult: "LocalState_hasResult LocalState_default"
  by (simp add: LocalState_hasResult_def LocalState_default_def Try_default_def)

lemma LocalState_error_no_result: "\<not> LocalState_hasResult (LocalState_of_try (Exc p))"
  by (simp add: LocalState_hasResult_def LocalState_of_try_def)

end
