(* ===== verification/Future_State.thy ===== *)
theory Future_State
  imports Try_Value
begin

text \<open>
  The state shared by a \<^verbatim>\<open>Future\<close> and its \<^verbatim>\<open>Promise\<close> (\<^verbatim>\<open>src/FutureState.h\<close>): its four-valued atomic
  state word, its reference counts, the dispatch of the continuation, and the race between
  \<^verbatim>\<open>setResult\<close> and \<^verbatim>\<open>setContinuation\<close> on two threads, one atomic access per step.

  The continuation is an abstract token of type \<open>'k\<close>. What an executor answers is a parameter of
  the model (\<open>exec_env\<close>): it is user code behind the virtual functions of \<^verbatim>\<open>Executor\<close>.
\<close>

section \<open>The state word\<close>

definition State_START :: u8 where "State_START = 0"
definition State_ONLY_RESULT :: u8 where "State_ONLY_RESULT = push_bit 0 1"
definition State_ONLY_CONTINUATION :: u8 where "State_ONLY_CONTINUATION = push_bit 1 1"
definition State_DONE :: u8 where "State_DONE = push_bit 5 1"

definition State_or :: "u8 \<Rightarrow> u8 \<Rightarrow> u8" where
  "State_or lhs rhs = lhs OR rhs"

definition State_and :: "u8 \<Rightarrow> u8 \<Rightarrow> u8" where
  "State_and lhs rhs = lhs AND rhs"

lemmas State_defs =
  State_START_def State_ONLY_RESULT_def State_ONLY_CONTINUATION_def State_DONE_def

lemma State_values [simp]:
  "State_START = 0" "State_ONLY_RESULT = 1" "State_ONLY_CONTINUATION = 2" "State_DONE = 32"
  by (simp_all add: State_defs)

section \<open>The record and its plain operations\<close>

text \<open>
  \<open>fs_deleted\<close> records that \<^verbatim>\<open>delete this\<close> ran; \<open>fs_continuation\<close> is \<open>None\<close> while the union member
  is not constructed and after its destructor ran.
\<close>

record ('a, 'k) FutureState =
  fs_state :: u8
  fs_attached :: u8
  fs_continuationRef :: u8
  fs_try_value :: "'a Try"
  fs_continuation :: "'k option"
  fs_executor :: executor_ptr
  fs_context :: u64
  fs_promiseRef :: u64
  fs_forceSched :: bool
  fs_deleted :: bool

definition FutureState_new :: "('a, 'k) FutureState" where
  "FutureState_new =
     \<lparr>fs_state = State_START, fs_attached = 0, fs_continuationRef = 0, fs_try_value = Nothing,
      fs_continuation = None, fs_executor = None, fs_context = NULLCTX, fs_promiseRef = 0,
      fs_forceSched = False, fs_deleted = False\<rparr>"

definition FutureState_hasResult :: "('a, 'k) FutureState \<Rightarrow> bool" where
  "FutureState_hasResult s =
     (let allow = State_or State_DONE State_ONLY_RESULT
      in State_and (fs_state s) allow \<noteq> State_START)"

definition FutureState_hasContinuation :: "('a, 'k) FutureState \<Rightarrow> bool" where
  "FutureState_hasContinuation s =
     (let allow = State_or State_DONE State_ONLY_CONTINUATION
      in State_and (fs_state s) allow \<noteq> State_START)"

definition FutureState_getTry :: "('a, 'k) FutureState \<Rightarrow> 'a Try" where
  "FutureState_getTry s = fs_try_value s"

definition FutureState_setExecutor ::
    "executor_ptr \<Rightarrow> ('a, 'k) FutureState \<Rightarrow> ('a, 'k) FutureState" where
  "FutureState_setExecutor ex s = s\<lparr>fs_executor := ex\<rparr>"

definition FutureState_getExecutor :: "('a, 'k) FutureState \<Rightarrow> executor_ptr" where
  "FutureState_getExecutor s = fs_executor s"

text \<open>\<open>checkout e\<close> is \<^verbatim>\<open>e->checkout()\<close>, a virtual function of the executor.\<close>

definition FutureState_checkOut ::
    "(nat \<Rightarrow> u64) \<Rightarrow> ('a, 'k) FutureState \<Rightarrow> ('a, 'k) FutureState" where
  "FutureState_checkOut checkout s =
     (case fs_executor s of None \<Rightarrow> s | Some e \<Rightarrow> s\<lparr>fs_context := checkout e\<rparr>)"

definition FutureState_setForceSched ::
    "bool \<Rightarrow> ('a, 'k) FutureState \<Rightarrow> ('a, 'k) FutureState" where
  "FutureState_setForceSched force s =
     (if fs_executor s = None \<and> force then s else s\<lparr>fs_forceSched := force\<rparr>)"

definition FutureState_currentThreadInExecutor ::
    "(nat \<Rightarrow> bool) \<Rightarrow> ('a, 'k) FutureState \<Rightarrow> bool" where
  "FutureState_currentThreadInExecutor inExecutor s =
     (case fs_executor s of None \<Rightarrow> False | Some e \<Rightarrow> inExecutor e)"

section \<open>Dispatching the continuation\<close>

text \<open>
  The answers of the executors: whether the calling thread belongs to one, what \<^verbatim>\<open>schedule\<close> returns
  or throws, and what \<^verbatim>\<open>checkin\<close> returns or throws for a context and the \<^verbatim>\<open>prompt\<close> option.
\<close>

record exec_env =
  env_inExecutor :: "nat \<Rightarrow> bool"
  env_schedule :: "nat \<Rightarrow> bool outcome"
  env_checkin :: "nat \<Rightarrow> u64 \<Rightarrow> bool \<Rightarrow> bool outcome"

datatype dispatch = Inplace | Via_schedule nat | Via_checkin nat u64 bool

definition is_std_exception :: "exn \<Rightarrow> bool" where
  "is_std_exception e =
     (case e of Logic_error _ \<Rightarrow> True | Runtime_error _ \<Rightarrow> True | Invalid_argument _ \<Rightarrow> True
      | Bad_function_call \<Rightarrow> True
      | _ \<Rightarrow> False)"

text \<open>
  An answer \<^verbatim>\<open>false\<close> is thrown as a \<^verbatim>\<open>runtime_error\<close>; the handler runs the continuation in place for
  that and for every other standard exception.
\<close>

definition dispatch_or_inplace :: "dispatch \<Rightarrow> bool outcome \<Rightarrow> dispatch outcome" where
  "dispatch_or_inplace how answer =
     (case bind_outcome answer (\<lambda>ok.
        if \<not> ok then Inl (Runtime_error ''schedule continuation in executor failed'') else Inr how) of
        Inr d \<Rightarrow> Inr d
      | Inl x \<Rightarrow> if is_std_exception x then Inr Inplace else Inl x)"

definition scheduleContinuation ::
    "exec_env \<Rightarrow> bool \<Rightarrow> ('a, 'k) FutureState \<Rightarrow> dispatch outcome" where
  "scheduleContinuation env triggerByContinuation s =
     bind_outcome (logicAssert (fs_state s = State_DONE) ''FutureState is not DONE'') (\<lambda>_.
     if \<not> fs_forceSched s \<and>
        (fs_executor s = None \<or> triggerByContinuation \<or>
         FutureState_currentThreadInExecutor (env_inExecutor env) s)
     then Inr Inplace
     else
       (case fs_executor s of
          None \<Rightarrow> Inl Undefined_behaviour
        | Some e \<Rightarrow>
            if NULLCTX = fs_context s
            then dispatch_or_inplace (Via_schedule e) (env_schedule env e)
            else dispatch_or_inplace (Via_checkin e (fs_context s) (\<not> fs_forceSched s))
                   (env_checkin env e (fs_context s) (\<not> fs_forceSched s))))"

section \<open>Reference counts\<close>

definition attachOne :: "('a, 'k) FutureState \<Rightarrow> ('a, 'k) FutureState" where
  "attachOne s = s\<lparr>fs_attached := fs_attached s + 1\<rparr>"

definition detachOne :: "('a, 'k) FutureState \<Rightarrow> ('a, 'k) FutureState outcome" where
  "detachOne s =
     (let old = fs_attached s; s' = s\<lparr>fs_attached := old - 1\<rparr>
      in bind_outcome (cassert (old \<ge> 1)) (\<lambda>_.
         Inr (if old = 1 then s'\<lparr>fs_deleted := True\<rparr> else s')))"

definition refContinuation :: "('a, 'k) FutureState \<Rightarrow> ('a, 'k) FutureState" where
  "refContinuation s = s\<lparr>fs_continuationRef := fs_continuationRef s + 1\<rparr>"

definition derefContinuation :: "('a, 'k) FutureState \<Rightarrow> ('a, 'k) FutureState outcome" where
  "derefContinuation s =
     (let old = fs_continuationRef s; s' = s\<lparr>fs_continuationRef := old - 1\<rparr>
      in bind_outcome (cassert (old \<ge> 1)) (\<lambda>_.
         Inr (if old = 1 then s'\<lparr>fs_continuation := None\<rparr> else s')))"

text \<open>A \<^verbatim>\<open>ContinuationReference\<close> holds one reference of each kind while it lives.\<close>

definition ContinuationReference_attach :: "('a, 'k) FutureState \<Rightarrow> ('a, 'k) FutureState" where
  "ContinuationReference_attach s = refContinuation (attachOne s)"

definition ContinuationReference_detach ::
    "('a, 'k) FutureState \<Rightarrow> ('a, 'k) FutureState outcome" where
  "ContinuationReference_detach s = bind_outcome (derefContinuation s) detachOne"

definition attachPromise :: "('a, 'k) FutureState \<Rightarrow> ('a, 'k) FutureState" where
  "attachPromise s = attachOne (s\<lparr>fs_promiseRef := fs_promiseRef s + 1\<rparr>)"

section \<open>setResult and setContinuation without interference\<close>

text \<open>
  One call with no other thread active. The result says how the continuation was dispatched, if it
  was. A \<^verbatim>\<open>switch\<close> on \<^verbatim>\<open>START\<close> whose compare-exchange fails falls through to the next case; without
  interference the compare-exchange succeeds.
\<close>

definition setResult ::
    "exec_env \<Rightarrow> 'a Try \<Rightarrow> ('a, 'k) FutureState \<Rightarrow> (dispatch option \<times> ('a, 'k) FutureState) outcome"
where
  "setResult env value s =
     bind_outcome (logicAssert (\<not> FutureState_hasResult s) ''FutureState already has a result'') (\<lambda>_.
     let s = s\<lparr>fs_try_value := value\<rparr>; state = fs_state s
     in if state = State_START then Inr (None, s\<lparr>fs_state := State_ONLY_RESULT\<rparr>)
        else if state = State_ONLY_CONTINUATION then
          (let s = s\<lparr>fs_state := State_DONE\<rparr>
           in bind_outcome (scheduleContinuation env False s) (\<lambda>d. Inr (Some d, s)))
        else Inl (Logic_error ''State Transfer Error''))"

definition setContinuation ::
    "exec_env \<Rightarrow> 'k \<Rightarrow> ('a, 'k) FutureState \<Rightarrow> (dispatch option \<times> ('a, 'k) FutureState) outcome"
where
  "setContinuation env func s =
     bind_outcome
       (logicAssert (\<not> FutureState_hasContinuation s) ''FutureState already has a continuation'') (\<lambda>_.
     let s = s\<lparr>fs_continuation := Some func\<rparr>; state = fs_state s
     in if state = State_START then Inr (None, s\<lparr>fs_state := State_ONLY_CONTINUATION\<rparr>)
        else if state = State_ONLY_RESULT then
          (let s = s\<lparr>fs_state := State_DONE\<rparr>
           in bind_outcome (scheduleContinuation env True s) (\<lambda>d. Inr (Some d, s)))
        else Inl (Logic_error ''State Transfer Error''))"

text \<open>
  \<^verbatim>\<open>detachPromise\<close> up to its final \<^verbatim>\<open>detachOne()\<close>, which the caller performs after the dispatched
  continuation has run.
\<close>

definition detachPromise ::
    "exec_env \<Rightarrow> ('a, 'k) FutureState \<Rightarrow> (dispatch option \<times> ('a, 'k) FutureState) outcome" where
  "detachPromise env s =
     (let old = fs_promiseRef s; s = s\<lparr>fs_promiseRef := old - 1\<rparr>
      in bind_outcome (cassert (old \<ge> 1)) (\<lambda>_.
         if \<not> FutureState_hasResult s \<and> old = 1
         then setResult env (Exc (Some (Runtime_error ''Promise is broken''))) s
         else Inr (None, s)))"

section \<open>setResult and setContinuation as two racing threads\<close>

text \<open>
  The program points of one \<^verbatim>\<open>setResult\<close> (producer) and one \<^verbatim>\<open>setContinuation\<close> (consumer) call. The
  argument of a \<open>cas2\<close> point is the local variable \<^verbatim>\<open>state\<close>, which a failed
  \<^verbatim>\<open>compare_exchange_strong\<close> overwrites with the value it read.
\<close>

datatype producer_pc =
    P_check | P_write | P_load | P_cas1 | P_assert u8 | P_cas2 u8 | P_schedule | P_done | P_error exn

datatype consumer_pc =
    C_check | C_write | C_load | C_cas1 | C_assert u8 | C_cas2 u8 | C_schedule | C_done | C_error exn

text \<open>
  \<open>sys_ran\<close> lists the calls of the continuation with the value each got; \<open>sys_tasks\<close> holds the tasks
  an executor has accepted and not run.
\<close>

record ('a, 'k) race =
  sys_fs :: "('a, 'k) FutureState"
  sys_producer :: producer_pc
  sys_consumer :: consumer_pc
  sys_ran :: "('k option \<times> 'a Try) list"
  sys_tasks :: "dispatch list"

definition run_continuation :: "('a, 'k) race \<Rightarrow> ('a, 'k) race" where
  "run_continuation r =
     r\<lparr>sys_ran := sys_ran r @ [(fs_continuation (sys_fs r), fs_try_value (sys_fs r))]\<rparr>"

definition perform_dispatch :: "dispatch \<Rightarrow> ('a, 'k) race \<Rightarrow> ('a, 'k) race" where
  "perform_dispatch d r =
     (case d of Inplace \<Rightarrow> run_continuation r | _ \<Rightarrow> r\<lparr>sys_tasks := sys_tasks r @ [d]\<rparr>)"

definition set_state :: "u8 \<Rightarrow> ('a, 'k) race \<Rightarrow> ('a, 'k) race" where
  "set_state x r = r\<lparr>sys_fs := (sys_fs r)\<lparr>fs_state := x\<rparr>\<rparr>"

fun setResult_step ::
    "exec_env \<Rightarrow> 'a Try \<Rightarrow> producer_pc \<Rightarrow> ('a, 'k) race \<Rightarrow> ('a, 'k) race option" where
  "setResult_step env value P_check r = Some
     (if FutureState_hasResult (sys_fs r)
      then r\<lparr>sys_producer := P_error (Logic_error ''FutureState already has a result'')\<rparr>
      else r\<lparr>sys_producer := P_write\<rparr>)"
| "setResult_step env value P_write r = Some
     (r\<lparr>sys_fs := (sys_fs r)\<lparr>fs_try_value := value\<rparr>, sys_producer := P_load\<rparr>)"
| "setResult_step env value P_load r = Some
     (let state = fs_state (sys_fs r)
      in if state = State_START then r\<lparr>sys_producer := P_cas1\<rparr>
         else if state = State_ONLY_CONTINUATION then r\<lparr>sys_producer := P_cas2 state\<rparr>
         else r\<lparr>sys_producer := P_error (Logic_error ''State Transfer Error'')\<rparr>)"
| "setResult_step env value P_cas1 r = Some
     (if fs_state (sys_fs r) = State_START
      then (set_state State_ONLY_RESULT r)\<lparr>sys_producer := P_done\<rparr>
      else r\<lparr>sys_producer := P_assert (fs_state (sys_fs r))\<rparr>)"
| "setResult_step env value (P_assert state) r = Some
     (if fs_state (sys_fs r) = State_ONLY_CONTINUATION then r\<lparr>sys_producer := P_cas2 state\<rparr>
      else r\<lparr>sys_producer := P_error Assert_failed\<rparr>)"
| "setResult_step env value (P_cas2 state) r = Some
     (if fs_state (sys_fs r) = state
      then (set_state State_DONE r)\<lparr>sys_producer := P_schedule\<rparr>
      else r\<lparr>sys_producer := P_error (Logic_error ''State Transfer Error'')\<rparr>)"
| "setResult_step env value P_schedule r = Some
     (case scheduleContinuation env False (sys_fs r) of
        Inr d \<Rightarrow> (perform_dispatch d r)\<lparr>sys_producer := P_done\<rparr>
      | Inl e \<Rightarrow> r\<lparr>sys_producer := P_error e\<rparr>)"
| "setResult_step env value P_done r = None"
| "setResult_step env value (P_error e) r = None"

fun setContinuation_step ::
    "exec_env \<Rightarrow> 'k \<Rightarrow> consumer_pc \<Rightarrow> ('a, 'k) race \<Rightarrow> ('a, 'k) race option" where
  "setContinuation_step env func C_check r = Some
     (if FutureState_hasContinuation (sys_fs r)
      then r\<lparr>sys_consumer := C_error (Logic_error ''FutureState already has a continuation'')\<rparr>
      else r\<lparr>sys_consumer := C_write\<rparr>)"
| "setContinuation_step env func C_write r = Some
     (r\<lparr>sys_fs := (sys_fs r)\<lparr>fs_continuation := Some func\<rparr>, sys_consumer := C_load\<rparr>)"
| "setContinuation_step env func C_load r = Some
     (let state = fs_state (sys_fs r)
      in if state = State_START then r\<lparr>sys_consumer := C_cas1\<rparr>
         else if state = State_ONLY_RESULT then r\<lparr>sys_consumer := C_cas2 state\<rparr>
         else r\<lparr>sys_consumer := C_error (Logic_error ''State Transfer Error'')\<rparr>)"
| "setContinuation_step env func C_cas1 r = Some
     (if fs_state (sys_fs r) = State_START
      then (set_state State_ONLY_CONTINUATION r)\<lparr>sys_consumer := C_done\<rparr>
      else r\<lparr>sys_consumer := C_assert (fs_state (sys_fs r))\<rparr>)"
| "setContinuation_step env func (C_assert state) r = Some
     (if fs_state (sys_fs r) = State_ONLY_RESULT then r\<lparr>sys_consumer := C_cas2 state\<rparr>
      else r\<lparr>sys_consumer := C_error Assert_failed\<rparr>)"
| "setContinuation_step env func (C_cas2 state) r = Some
     (if fs_state (sys_fs r) = state
      then (set_state State_DONE r)\<lparr>sys_consumer := C_schedule\<rparr>
      else r\<lparr>sys_consumer := C_error (Logic_error ''State Transfer Error'')\<rparr>)"
| "setContinuation_step env func C_schedule r = Some
     (case scheduleContinuation env True (sys_fs r) of
        Inr d \<Rightarrow> (perform_dispatch d r)\<lparr>sys_consumer := C_done\<rparr>
      | Inl e \<Rightarrow> r\<lparr>sys_consumer := C_error e\<rparr>)"
| "setContinuation_step env func C_done r = None"
| "setContinuation_step env func (C_error e) r = None"

text \<open>
  A step of the system: one thread takes one step, or an executor runs a task it accepted (the
  lambda of \<^verbatim>\<open>scheduleContinuation\<close>, which calls the continuation).
\<close>

inductive race_step ::
    "exec_env \<Rightarrow> 'a Try \<Rightarrow> 'k \<Rightarrow> ('a, 'k) race \<Rightarrow> ('a, 'k) race \<Rightarrow> bool"
  for env :: exec_env and v :: "'a Try" and func :: 'k where
  producer: "setResult_step env v (sys_producer r) r = Some r' \<Longrightarrow> race_step env v func r r'"
| consumer: "setContinuation_step env func (sys_consumer r) r = Some r' \<Longrightarrow> race_step env v func r r'"
| task: "sys_tasks r = d # ds \<Longrightarrow>
     race_step env v func r (run_continuation (r\<lparr>sys_tasks := ds\<rparr>))"

definition race_init :: "('a, 'k) FutureState \<Rightarrow> ('a, 'k) race" where
  "race_init s =
     \<lparr>sys_fs = s, sys_producer = P_check, sys_consumer = C_check, sys_ran = [], sys_tasks = []\<rparr>"

inductive race_reachable ::
    "exec_env \<Rightarrow> 'a Try \<Rightarrow> 'k \<Rightarrow> ('a, 'k) FutureState \<Rightarrow> ('a, 'k) race \<Rightarrow> bool"
  for env :: exec_env and v :: "'a Try" and func :: 'k and s :: "('a, 'k) FutureState" where
  start: "race_reachable env v func s (race_init s)"
| step: "race_reachable env v func s r \<Longrightarrow> race_step env v func r r' \<Longrightarrow>
     race_reachable env v func s r'"

inductive_cases race_stepE: "race_step env v func r r'"

end
