(* ===== verification/Future_Api.thy ===== *)
theory Future_Api
  imports Future_State
begin

text \<open>
  \<^verbatim>\<open>Future<T>\<close> and \<^verbatim>\<open>Promise<T>\<close> (\<^verbatim>\<open>src/Future.h\<close>, \<^verbatim>\<open>src/Promise.h\<close>) over an explicit heap of shared
  states: a \<^verbatim>\<open>FutureState*\<close> is an index into the heap. All futures carry values of one type \<open>'a\<close>.
  A continuation is the lambda the code builds, with the promise it captured.

  A continuation that runs in place may set another promise, whose continuation may run in place in
  its turn. This nesting is a stack of pending work (\<open>work list\<close>), executed by \<open>exec_work\<close> with fuel.
\<close>

section \<open>Futures, promises, continuations and the heap\<close>

record 'a Future =
  fut_shared :: "nat option"
  fut_local :: "'a LocalState"

record Promise =
  pr_shared :: "nat option"
  pr_hasFuture :: bool

text \<open>
  \<open>K_then isTry f p\<close> is the lambda of \<^verbatim>\<open>thenImpl\<close> for a callable that does not return a future,
  \<open>K_then_future isTry f p\<close> the one for a callable that does, \<open>K_forward p\<close> the inner lambda that
  forwards the result of that future, and \<open>K_user n\<close> a continuation passed to
  \<^verbatim>\<open>Future::setContinuation\<close> from outside, known by a number.
\<close>

datatype 'a kont =
    K_then bool "'a Try \<Rightarrow> 'a outcome" nat
  | K_then_future bool "'a Try \<Rightarrow> 'a Future outcome" nat
  | K_forward nat
  | K_user nat

type_synonym 'a cell = "('a, 'a kont) FutureState"

text \<open>\<open>w_tasks\<close>: states whose continuation an executor accepted; \<open>w_calls\<close>: the user continuations
  called so far, with the value each got.\<close>

record 'a world =
  w_heap :: "'a cell list"
  w_tasks :: "nat list"
  w_calls :: "(nat \<times> 'a Try) list"

definition deref :: "'a world \<Rightarrow> nat \<Rightarrow> 'a cell outcome" where
  "deref w p = (if p < length (w_heap w) then Inr (w_heap w ! p) else Inl Undefined_behaviour)"

definition store :: "nat \<Rightarrow> 'a cell \<Rightarrow> 'a world \<Rightarrow> 'a world" where
  "store p s w = w\<lparr>w_heap := (w_heap w)[p := s]\<rparr>"

definition update_cell :: "nat \<Rightarrow> ('a cell \<Rightarrow> 'a cell) \<Rightarrow> 'a world \<Rightarrow> 'a world outcome" where
  "update_cell p f w = bind_outcome (deref w p) (\<lambda>s. Inr (store p (f s) w))"

section \<open>Running continuations\<close>

text \<open>
  \<open>W_set p t\<close>: \<^verbatim>\<open>setResult\<close> on state \<open>p\<close>. \<open>W_run p\<close>: take a \<^verbatim>\<open>ContinuationReference\<close> and call the
  continuation with the moved result. \<open>W_call k t\<close>: the body of a lambda. \<open>W_release p\<close>: the
  \<^verbatim>\<open>ContinuationReference\<close> goes out of scope. \<open>W_detach p\<close>: the destructor of a promise. \<open>W_drop p\<close>:
  the destructor of a future, and the last line of \<^verbatim>\<open>detachPromise\<close>.
\<close>

datatype 'a work =
    W_set nat "'a Try"
  | W_run nat
  | W_call "'a kont" "'a Try"
  | W_release nat
  | W_detach nat
  | W_drop nat

definition after_dispatch :: "nat \<Rightarrow> dispatch option \<Rightarrow> 'a world \<Rightarrow> 'a work list \<times> 'a world" where
  "after_dispatch p d w =
     (case d of
        None \<Rightarrow> ([], w)
      | Some Inplace \<Rightarrow> ([W_run p], w)
      | Some _ \<Rightarrow> ([], w\<lparr>w_tasks := w_tasks w @ [p]\<rparr>))"

definition do_setResult ::
    "exec_env \<Rightarrow> nat \<Rightarrow> 'a Try \<Rightarrow> 'a world \<Rightarrow> ('a work list \<times> 'a world) outcome" where
  "do_setResult env p t w =
     bind_outcome (deref w p) (\<lambda>s.
     bind_outcome (setResult env t s) (\<lambda>(d, s').
     Inr (after_dispatch p d (store p s' w))))"

definition do_setContinuation ::
    "exec_env \<Rightarrow> nat \<Rightarrow> 'a kont \<Rightarrow> 'a world \<Rightarrow> ('a work list \<times> 'a world) outcome" where
  "do_setContinuation env p k w =
     bind_outcome (deref w p) (\<lambda>s.
     bind_outcome (setContinuation env k s) (\<lambda>(d, s').
     Inr (after_dispatch p d (store p s' w))))"

text \<open>The promise a destroyed lambda releases.\<close>

fun captured_promises :: "'a kont \<Rightarrow> nat list" where
  "captured_promises (K_then _ _ p) = [p]"
| "captured_promises (K_then_future _ _ p) = [p]"
| "captured_promises (K_forward p) = [p]"
| "captured_promises (K_user _) = []"

definition Future_set_continuation ::
    "exec_env \<Rightarrow> 'a Future \<Rightarrow> 'a kont \<Rightarrow> 'a world \<Rightarrow> ('a work list \<times> 'a world) outcome" where
  "Future_set_continuation env fut k w =
     bind_outcome (cassert (fut_shared fut \<noteq> None \<or> LocalState_hasResult (fut_local fut))) (\<lambda>_.
     case fut_shared fut of
       Some p \<Rightarrow> do_setContinuation env p k w
     | None \<Rightarrow> LocalState_setContinuation (\<lambda>t. Inr ([W_call k t], w)) (fut_local fut))"

text \<open>
  The body of a lambda. In \<open>K_then_future\<close> the promise has moved into the inner lambda when
  \<^verbatim>\<open>f2.setContinuation\<close> is called, so a standard exception it throws reaches the handler's
  \<^verbatim>\<open>p.setException\<close> on a null promise. The temporary future \<open>f2\<close> is dropped afterwards.
\<close>

fun call_kont ::
    "exec_env \<Rightarrow> 'a kont \<Rightarrow> 'a Try \<Rightarrow> 'a world \<Rightarrow> ('a work list \<times> 'a world) outcome" where
  "call_kont env (K_then isTry f p) t w =
     (if \<not> isTry \<and> Try_hasError t
      then bind_outcome (Try_getException t) (\<lambda>e. Inr ([W_set p (Exc e)], w))
      else Inr ([W_set p (makeTryCall f t)], w))"
| "call_kont env (K_then_future isTry f p) t w =
     (if \<not> isTry \<and> Try_hasError t
      then bind_outcome (Try_getException t) (\<lambda>e. Inr ([W_set p (Exc e)], w))
      else case f t of
             Inl e \<Rightarrow> Inr ([W_set p (Exc (Some e))], w)
           | Inr f2 \<Rightarrow>
              (case Future_set_continuation env f2 (K_forward p) w of
                 Inl e \<Rightarrow> Inl (if is_std_exception e then Logic_error ''Promise is broken'' else e)
               | Inr (ws, w) \<Rightarrow>
                   Inr (ws @ (case fut_shared f2 of None \<Rightarrow> [] | Some q \<Rightarrow> [W_drop q]), w)))"
| "call_kont env (K_forward p) t w = Inr ([W_set p t], w)"
| "call_kont env (K_user n) t w = Inr ([], w\<lparr>w_calls := w_calls w @ [(n, t)]\<rparr>)"

fun work_step :: "exec_env \<Rightarrow> 'a work \<Rightarrow> 'a world \<Rightarrow> ('a work list \<times> 'a world) outcome" where
  "work_step env (W_set p t) w = do_setResult env p t w"
| "work_step env (W_run p) w =
     bind_outcome (deref w p) (\<lambda>s.
     case fs_continuation s of
       None \<Rightarrow> Inl Undefined_behaviour
     | Some k \<Rightarrow> Inr ([W_call k (fs_try_value s), W_release p],
                      store p (ContinuationReference_attach s) w))"
| "work_step env (W_call k t) w = call_kont env k t w"
| "work_step env (W_release p) w =
     bind_outcome (deref w p) (\<lambda>s.
     bind_outcome (ContinuationReference_detach s) (\<lambda>s'.
     Inr (if fs_continuation s' = None
          then (case fs_continuation s of None \<Rightarrow> [] | Some k \<Rightarrow> map W_detach (captured_promises k))
          else [], store p s' w)))"
| "work_step env (W_detach p) w =
     bind_outcome (deref w p) (\<lambda>s.
     bind_outcome (detachPromise env s) (\<lambda>(d, s').
     let (ws, w) = after_dispatch p d (store p s' w) in Inr (ws @ [W_drop p], w)))"
| "work_step env (W_drop p) w =
     bind_outcome (deref w p) (\<lambda>s.
     bind_outcome (detachOne s) (\<lambda>s'. Inr ([], store p s' w)))"

text \<open>
  Exactly one step per list entry; the work a step creates runs before the rest, as nested calls do.
\<close>

fun exec_work :: "nat \<Rightarrow> exec_env \<Rightarrow> 'a work list \<Rightarrow> 'a world \<Rightarrow> 'a world outcome option" where
  "exec_work fuel env [] w = Some (Inr w)"
| "exec_work 0 env (x # xs) w = None"
| "exec_work (Suc fuel) env (x # xs) w =
     (case work_step env x w of
        Inl e \<Rightarrow> Some (Inl e)
      | Inr (ys, w') \<Rightarrow> exec_work fuel env (ys @ xs) w')"

section \<open>Promise\<close>

definition Promise_new :: "'a world \<Rightarrow> Promise \<times> 'a world" where
  "Promise_new w =
     (let p = length (w_heap w)
      in (\<lparr>pr_shared = Some p, pr_hasFuture = False\<rparr>,
          w\<lparr>w_heap := w_heap w @ [attachPromise FutureState_new]\<rparr>))"

definition Promise_valid :: "Promise \<Rightarrow> bool" where
  "Promise_valid pr = (pr_shared pr \<noteq> None)"

definition Promise_destroy :: "Promise \<Rightarrow> 'a work list" where
  "Promise_destroy pr = (case pr_shared pr of None \<Rightarrow> [] | Some p \<Rightarrow> [W_detach p])"

definition Promise_copy :: "Promise \<Rightarrow> 'a world \<Rightarrow> (Promise \<times> 'a world) outcome" where
  "Promise_copy other w =
     (case pr_shared other of
        None \<Rightarrow> Inl Undefined_behaviour
      | Some p \<Rightarrow> bind_outcome (update_cell p attachPromise w) (\<lambda>w.
          Inr (\<lparr>pr_shared = Some p, pr_hasFuture = pr_hasFuture other\<rparr>, w)))"

text \<open>
  Copy assignment between two distinct promises destroys the old reference first; \<open>same\<close> says that
  both sides are one object. The destructor's work is returned.
\<close>

definition Promise_copy_assign ::
    "bool \<Rightarrow> Promise \<Rightarrow> Promise \<Rightarrow> 'a world \<Rightarrow> (Promise \<times> 'a work list \<times> 'a world) outcome" where
  "Promise_copy_assign same this other w =
     (if same then Inr (this, [], w)
      else bind_outcome (Promise_copy other w) (\<lambda>(pr, w). Inr (pr, Promise_destroy this, w)))"

text \<open>Moving out leaves the source null; move assignment swaps.\<close>

definition Promise_move :: "Promise \<Rightarrow> Promise \<times> Promise" where
  "Promise_move other =
     (\<lparr>pr_shared = pr_shared other, pr_hasFuture = pr_hasFuture other\<rparr>,
      other\<lparr>pr_shared := None, pr_hasFuture := False\<rparr>)"

definition Promise_move_assign :: "Promise \<Rightarrow> Promise \<Rightarrow> Promise \<times> Promise" where
  "Promise_move_assign this other = (other, this)"

definition Future_of_shared :: "nat \<Rightarrow> 'a world \<Rightarrow> ('a Future \<times> 'a world) outcome" where
  "Future_of_shared p w =
     bind_outcome (update_cell p attachOne w) (\<lambda>w.
     Inr (\<lparr>fut_shared = Some p, fut_local = LocalState_default\<rparr>, w))"

definition getFuture :: "Promise \<Rightarrow> 'a world \<Rightarrow> ('a Future \<times> Promise \<times> 'a world) outcome" where
  "getFuture pr w =
     bind_outcome (logicAssert (Promise_valid pr) ''Promise is broken'') (\<lambda>_.
     bind_outcome (logicAssert (\<not> pr_hasFuture pr) ''Promise already has a future'') (\<lambda>_.
     bind_outcome (Future_of_shared (the (pr_shared pr)) w) (\<lambda>(fut, w).
     Inr (fut, pr\<lparr>pr_hasFuture := True\<rparr>, w))))"

definition Promise_checkout :: "(nat \<Rightarrow> u64) \<Rightarrow> Promise \<Rightarrow> 'a world \<Rightarrow> 'a world outcome" where
  "Promise_checkout co pr w =
     (case pr_shared pr of None \<Rightarrow> Inr w | Some p \<Rightarrow> update_cell p (FutureState_checkOut co) w)"

definition Promise_forceSched :: "Promise \<Rightarrow> 'a world \<Rightarrow> 'a world outcome" where
  "Promise_forceSched pr w =
     (case pr_shared pr of None \<Rightarrow> Inr w | Some p \<Rightarrow> update_cell p (FutureState_setForceSched True) w)"

definition Promise_setTry :: "exec_env \<Rightarrow> Promise \<Rightarrow> 'a Try \<Rightarrow> 'a world \<Rightarrow> ('a work list \<times> 'a world) outcome"
where
  "Promise_setTry env pr t w =
     bind_outcome (logicAssert (Promise_valid pr) ''Promise is broken'') (\<lambda>_.
     do_setResult env (the (pr_shared pr)) t w)"

definition Promise_setValue :: "exec_env \<Rightarrow> Promise \<Rightarrow> 'a \<Rightarrow> 'a world \<Rightarrow> ('a work list \<times> 'a world) outcome"
where
  "Promise_setValue env pr v w =
     bind_outcome (logicAssert (Promise_valid pr) ''Promise is broken'') (\<lambda>_.
     do_setResult env (the (pr_shared pr)) (Try_of_value v) w)"

definition Promise_setException ::
    "exec_env \<Rightarrow> Promise \<Rightarrow> exception_ptr \<Rightarrow> 'a world \<Rightarrow> ('a work list \<times> 'a world) outcome" where
  "Promise_setException env pr e w =
     bind_outcome (logicAssert (Promise_valid pr) ''Promise is broken'') (\<lambda>_.
     do_setResult env (the (pr_shared pr)) (Try_of_exception e) w)"

definition Promise_setUnit :: "exec_env \<Rightarrow> Promise \<Rightarrow> Unit world \<Rightarrow> (Unit work list \<times> Unit world) outcome"
where
  "Promise_setUnit env pr w =
     bind_outcome (logicAssert (Promise_valid pr) ''Promise is broken'') (\<lambda>_.
     do_setResult env (the (pr_shared pr)) (Try_of_value Unit) w)"

section \<open>Future\<close>

definition Future_of_try :: "'a Try \<Rightarrow> 'a Future" where
  "Future_of_try t = \<lparr>fut_shared = None, fut_local = LocalState_of_try t\<rparr>"

definition Future_destroy :: "'a Future \<Rightarrow> 'a world \<Rightarrow> 'a world outcome" where
  "Future_destroy fut w =
     (case fut_shared fut of
        None \<Rightarrow> Inr w
      | Some p \<Rightarrow> bind_outcome (deref w p) (\<lambda>s.
          bind_outcome (detachOne s) (\<lambda>s'. Inr (store p s' w))))"

definition Future_move :: "'a Future \<Rightarrow> 'a Future \<times> 'a Future" where
  "Future_move other =
     (\<lparr>fut_shared = fut_shared other,
       fut_local = \<lparr>ls_try_value = ls_try_value (fut_local other), ls_executor = ls_executor (fut_local other)\<rparr>\<rparr>,
      other\<lparr>fut_shared := None, fut_local := (fut_local other)\<lparr>ls_executor := None\<rparr>\<rparr>)"

definition Future_move_assign :: "'a Future \<Rightarrow> 'a Future \<Rightarrow> 'a Future \<times> 'a Future" where
  "Future_move_assign this other =
     (let (l1, l2) = LocalState_move_assign (fut_local this) (fut_local other)
      in (this\<lparr>fut_shared := fut_shared other, fut_local := l1\<rparr>,
          other\<lparr>fut_shared := fut_shared this, fut_local := l2\<rparr>))"

definition Future_valid :: "'a Future \<Rightarrow> bool" where
  "Future_valid fut = (fut_shared fut \<noteq> None \<or> LocalState_hasResult (fut_local fut))"

definition Future_hasResult :: "'a Future \<Rightarrow> 'a world \<Rightarrow> bool outcome" where
  "Future_hasResult fut w =
     (if LocalState_hasResult (fut_local fut) then Inr True
      else case fut_shared fut of
             None \<Rightarrow> Inl Undefined_behaviour
           | Some p \<Rightarrow> bind_outcome (deref w p) (\<lambda>s. Inr (FutureState_hasResult s)))"

definition Future_getTry :: "'a Future \<Rightarrow> 'a world \<Rightarrow> 'a Try outcome" where
  "Future_getTry fut w =
     bind_outcome (logicAssert (Future_valid fut) ''Future is broken.'') (\<lambda>_.
     bind_outcome (Future_hasResult fut w) (\<lambda>ready.
     bind_outcome (logicAssert ready ''Future is not ready'') (\<lambda>_.
     case fut_shared fut of
       Some p \<Rightarrow> bind_outcome (deref w p) (\<lambda>s. Inr (FutureState_getTry s))
     | None \<Rightarrow> Inr (ls_try_value (fut_local fut)))))"

definition Future_result :: "'a Future \<Rightarrow> 'a world \<Rightarrow> 'a Try outcome" where
  "Future_result fut w = Future_getTry fut w"

definition Future_value :: "'a Future \<Rightarrow> 'a world \<Rightarrow> 'a outcome" where
  "Future_value fut w = bind_outcome (Future_result fut w) Try_value"

text \<open>
  \<^verbatim>\<open>wait\<close> up to the point where the thread blocks: \<open>Ready\<close> when it returns at once, \<open>Blocked\<close> with
  the fresh promise and future after the continuation that will set it is in place. The moved
  future is the one \<^verbatim>\<open>wait\<close> leaves in \<^verbatim>\<open>*this\<close> when it wakes up.
\<close>

datatype 'a wait_result = Ready | Blocked "'a Future" "'a work list" "'a world"

definition Future_currentThreadInExecutor ::
    "(nat \<Rightarrow> bool) \<Rightarrow> 'a Future \<Rightarrow> 'a world \<Rightarrow> bool outcome" where
  "Future_currentThreadInExecutor inExecutor fut w =
     bind_outcome (cassert (Future_valid fut)) (\<lambda>_.
     case fut_shared fut of
       Some p \<Rightarrow> bind_outcome (deref w p) (\<lambda>s. Inr (FutureState_currentThreadInExecutor inExecutor s))
     | None \<Rightarrow> Inr (LocalState_currentThreadInExecutor inExecutor (fut_local fut)))"

definition Future_wait :: "exec_env \<Rightarrow> 'a Future \<Rightarrow> 'a world \<Rightarrow> 'a wait_result outcome" where
  "Future_wait env fut w =
     bind_outcome (logicAssert (Future_valid fut) ''Future is broken.'') (\<lambda>_.
     bind_outcome (Future_hasResult fut w) (\<lambda>ready.
     if ready then Inr Ready
     else bind_outcome (Future_currentThreadInExecutor (env_inExecutor env) fut w) (\<lambda>inside.
          bind_outcome (cassert (\<not> inside)) (\<lambda>_.
          let (pr, w) = Promise_new w
          in bind_outcome (getFuture pr w) (\<lambda>(future, pr, w).
             case fut_shared fut of
               None \<Rightarrow> Inl Undefined_behaviour
             | Some p \<Rightarrow>
                 bind_outcome (update_cell p (FutureState_setExecutor None) w) (\<lambda>w.
                 bind_outcome (do_setContinuation env p (K_forward (the (pr_shared pr))) w) (\<lambda>(ws, w).
                 Inr (Blocked future ws w))))))))"

definition Future_get_ready :: "exec_env \<Rightarrow> 'a Future \<Rightarrow> 'a world \<Rightarrow> 'a outcome option" where
  "Future_get_ready env fut w =
     (case Future_wait env fut w of
        Inl e \<Rightarrow> Some (Inl e)
      | Inr Ready \<Rightarrow> Some (Future_value fut w)
      | Inr (Blocked _ _ _) \<Rightarrow> None)"

definition Future_setExecutor :: "executor_ptr \<Rightarrow> 'a Future \<Rightarrow> 'a world \<Rightarrow> ('a Future \<times> 'a world) outcome"
where
  "Future_setExecutor ex fut w =
     (case fut_shared fut of
        Some p \<Rightarrow> bind_outcome (update_cell p (FutureState_setExecutor ex) w) (\<lambda>w. Inr (fut, w))
      | None \<Rightarrow> Inr (fut\<lparr>fut_local := LocalState_setExecutor ex (fut_local fut)\<rparr>, w))"

definition Future_getExecutor :: "'a Future \<Rightarrow> 'a world \<Rightarrow> executor_ptr outcome" where
  "Future_getExecutor fut w =
     (case fut_shared fut of
        Some p \<Rightarrow> bind_outcome (deref w p) (\<lambda>s. Inr (FutureState_getExecutor s))
      | None \<Rightarrow> Inr (LocalState_getExecutor (fut_local fut)))"

definition Future_via :: "executor_ptr \<Rightarrow> 'a Future \<Rightarrow> 'a world \<Rightarrow> ('a Future \<times> 'a world) outcome" where
  "Future_via ex fut w = bind_outcome (Future_setExecutor ex fut w) (\<lambda>(fut, w). Inr (fst (Future_move fut), w))"

text \<open>
  \<^verbatim>\<open>thenImpl\<close> for a callable that does not return a future, and for one that does. On a ready local
  state the callable runs at once; on a shared state the continuation is set.
\<close>

definition thenImpl ::
    "exec_env \<Rightarrow> bool \<Rightarrow> ('a Try \<Rightarrow> 'a outcome) \<Rightarrow> 'a Future \<Rightarrow> 'a world \<Rightarrow>
     ('a Future \<times> 'a work list \<times> 'a world) outcome" where
  "thenImpl env isTry f fut w =
     bind_outcome (logicAssert (Future_valid fut) ''Future is broken.'') (\<lambda>_.
     case fut_shared fut of
       None \<Rightarrow>
         bind_outcome (Future_setExecutor (LocalState_getExecutor (fut_local fut))
                         (Future_of_try (makeTryCall f (ls_try_value (fut_local fut)))) w) (\<lambda>(nf, w).
         Inr (nf, [], w))
     | Some s \<Rightarrow>
         (let (pr, w) = Promise_new w
          in bind_outcome (getFuture pr w) (\<lambda>(nf, pr, w).
             bind_outcome (Future_getExecutor fut w) (\<lambda>ex.
             bind_outcome (Future_setExecutor ex nf w) (\<lambda>(nf, w).
             bind_outcome (do_setContinuation env s (K_then isTry f (the (pr_shared pr))) w) (\<lambda>(ws, w).
             Inr (nf, ws, w)))))))"

definition thenImpl_future ::
    "exec_env \<Rightarrow> bool \<Rightarrow> ('a Try \<Rightarrow> 'a Future outcome) \<Rightarrow> 'a Future \<Rightarrow> 'a world \<Rightarrow>
     ('a Future \<times> 'a work list \<times> 'a world) outcome" where
  "thenImpl_future env isTry f fut w =
     bind_outcome (logicAssert (Future_valid fut) ''Future is broken.'') (\<lambda>_.
     case fut_shared fut of
       None \<Rightarrow>
         (case f (ls_try_value (fut_local fut)) of
            Inl e \<Rightarrow> Inr (Future_of_try (Exc (Some e)), [], w)
          | Inr nf \<Rightarrow>
              bind_outcome (Future_getExecutor nf w) (\<lambda>ex.
              if ex = None
              then bind_outcome (Future_setExecutor (LocalState_getExecutor (fut_local fut)) nf w)
                     (\<lambda>(nf, w). Inr (nf, [], w))
              else Inr (nf, [], w)))
     | Some s \<Rightarrow>
         (let (pr, w) = Promise_new w
          in bind_outcome (getFuture pr w) (\<lambda>(nf, pr, w).
             bind_outcome (Future_getExecutor fut w) (\<lambda>ex.
             bind_outcome (Future_setExecutor ex nf w) (\<lambda>(nf, w).
             bind_outcome (do_setContinuation env s (K_then_future isTry f (the (pr_shared pr))) w) (\<lambda>(ws, w).
             Inr (nf, ws, w)))))))"

definition thenTry ::
    "exec_env \<Rightarrow> ('a Try \<Rightarrow> 'a outcome) \<Rightarrow> 'a Future \<Rightarrow> 'a world \<Rightarrow>
     ('a Future \<times> 'a work list \<times> 'a world) outcome" where
  "thenTry env f fut w = thenImpl env True f fut w"

text \<open>The lambda of \<^verbatim>\<open>thenValue\<close> takes the \<^verbatim>\<open>Try\<close> apart itself, so \<^verbatim>\<open>isTry\<close> holds for it too.\<close>

definition thenValue ::
    "exec_env \<Rightarrow> ('a \<Rightarrow> 'a outcome) \<Rightarrow> 'a Future \<Rightarrow> 'a world \<Rightarrow>
     ('a Future \<times> 'a work list \<times> 'a world) outcome" where
  "thenValue env f fut w = thenImpl env True (\<lambda>t. bind_outcome (Try_value t) f) fut w"

definition makeReadyFuture :: "'a \<Rightarrow> 'a Future" where
  "makeReadyFuture v = Future_of_try (Try_of_value v)"

definition makeReadyFuture_try :: "'a Try \<Rightarrow> 'a Future" where
  "makeReadyFuture_try t = Future_of_try t"

definition makeReadyFuture_exception :: "exception_ptr \<Rightarrow> 'a Future" where
  "makeReadyFuture_exception e = Future_of_try (Try_of_exception e)"

definition makeReadyFuture_void :: "Unit Future" where
  "makeReadyFuture_void = Future_of_try (Try_of_value Unit)"

end
