(* ===== verification/Future_Race.thy ===== *)
theory Future_Race
  imports Future_State
begin

text \<open>
  Correctness of the race between \<^verbatim>\<open>setResult\<close> and \<^verbatim>\<open>setContinuation\<close>: an invariant of every reachable
  state, the measure that bounds every run, and from them that the continuation runs exactly once,
  with the value that was set. Also the reference counts and the behaviour of single calls.
\<close>

section \<open>When dispatch cannot fail\<close>

definition env_ok :: "exec_env \<Rightarrow> bool" where
  "env_ok env \<longleftrightarrow>
     (\<forall>e x. env_schedule env e = Inl x \<longrightarrow> is_std_exception x) \<and>
     (\<forall>e c p x. env_checkin env e c p = Inl x \<longrightarrow> is_std_exception x)"

definition sched_ok :: "('a, 'k) FutureState \<Rightarrow> bool" where
  "sched_ok s \<longleftrightarrow> (fs_forceSched s \<longrightarrow> fs_executor s \<noteq> None)"

lemma dispatch_or_inplace_total:
  "(\<And>x. answer = Inl x \<Longrightarrow> is_std_exception x) \<Longrightarrow> \<exists>d. dispatch_or_inplace how answer = Inr d"
  by (cases answer) (auto simp: dispatch_or_inplace_def is_std_exception_def)

lemma scheduleContinuation_total:
  assumes env: "env_ok env" and s: "sched_ok s" and dn: "fs_state s = State_DONE"
  shows "\<exists>d. scheduleContinuation env b s = Inr d"
proof (cases "fs_executor s")
  case None
  with s dn show ?thesis
    by (simp add: scheduleContinuation_def sched_ok_def outcome_simps)
next
  case (Some e)
  have 1: "\<exists>d. dispatch_or_inplace (Via_schedule e) (env_schedule env e) = Inr d"
    using env by (intro dispatch_or_inplace_total) (simp add: env_ok_def)
  have 2: "\<exists>d. dispatch_or_inplace (Via_checkin e c p) (env_checkin env e c p) = Inr d" for c p
    using env unfolding env_ok_def by (intro dispatch_or_inplace_total) blast
  from Some dn 1 2 show ?thesis by (simp add: scheduleContinuation_def outcome_simps)
qed

lemma hasResult_iff [simp]:
  "FutureState_hasResult s \<longleftrightarrow> fs_state s AND 33 \<noteq> 0"
  by (simp add: FutureState_hasResult_def State_or_def State_and_def)

lemma hasContinuation_iff [simp]:
  "FutureState_hasContinuation s \<longleftrightarrow> fs_state s AND 34 \<noteq> 0"
  by (simp add: FutureState_hasContinuation_def State_or_def State_and_def)

section \<open>The invariant of the race\<close>

fun produced :: "producer_pc \<Rightarrow> bool" where
  "produced P_schedule = True"
| "produced P_done = True"
| "produced _ = False"

fun consumed :: "consumer_pc \<Rightarrow> bool" where
  "consumed C_schedule = True"
| "consumed C_done = True"
| "consumed _ = False"

definition state_of :: "producer_pc \<Rightarrow> consumer_pc \<Rightarrow> u8" where
  "state_of p c = (if produced p then if consumed c then 32 else 1 else if consumed c then 2 else 0)"

fun producer_ok :: "'a Try \<Rightarrow> producer_pc \<Rightarrow> consumer_pc \<Rightarrow> 'a Try \<Rightarrow> bool" where
  "producer_ok v P_check c t = True"
| "producer_ok v P_write c t = True"
| "producer_ok v P_load c t = (t = v)"
| "producer_ok v P_cas1 c t = (t = v)"
| "producer_ok v (P_assert x) c t = (t = v \<and> x = 2 \<and> c = C_done)"
| "producer_ok v (P_cas2 x) c t = (t = v \<and> x = 2 \<and> c = C_done)"
| "producer_ok v P_schedule c t = (t = v \<and> c = C_done)"
| "producer_ok v P_done c t = (t = v)"
| "producer_ok v (P_error e) c t = False"

fun consumer_ok :: "'k \<Rightarrow> consumer_pc \<Rightarrow> producer_pc \<Rightarrow> 'k option \<Rightarrow> bool" where
  "consumer_ok k C_check p t = True"
| "consumer_ok k C_write p t = True"
| "consumer_ok k C_load p t = (t = Some k)"
| "consumer_ok k C_cas1 p t = (t = Some k)"
| "consumer_ok k (C_assert x) p t = (t = Some k \<and> x = 1 \<and> p = P_done)"
| "consumer_ok k (C_cas2 x) p t = (t = Some k \<and> x = 1 \<and> p = P_done)"
| "consumer_ok k C_schedule p t = (t = Some k \<and> p = P_done)"
| "consumer_ok k C_done p t = (t = Some k)"
| "consumer_ok k (C_error e) p t = False"

definition runs_ok ::
    "'a Try \<Rightarrow> 'k \<Rightarrow> producer_pc \<Rightarrow> consumer_pc \<Rightarrow> ('k option \<times> 'a Try) list \<Rightarrow> dispatch list \<Rightarrow> bool"
where
  "runs_ok v k p c runs tasks \<longleftrightarrow>
     (if p = P_done \<and> c = C_done
      then runs = [(Some k, v)] \<and> tasks = [] \<or> runs = [] \<and> (\<exists>d. tasks = [d])
      else runs = [] \<and> tasks = [])"

definition race_inv :: "'a Try \<Rightarrow> 'k \<Rightarrow> ('a, 'k) race \<Rightarrow> bool" where
  "race_inv v k r \<longleftrightarrow>
     sched_ok (sys_fs r) \<and>
     fs_state (sys_fs r) = state_of (sys_producer r) (sys_consumer r) \<and>
     producer_ok v (sys_producer r) (sys_consumer r) (fs_try_value (sys_fs r)) \<and>
     consumer_ok k (sys_consumer r) (sys_producer r) (fs_continuation (sys_fs r)) \<and>
     runs_ok v k (sys_producer r) (sys_consumer r) (sys_ran r) (sys_tasks r)"

lemma race_inv_init:
  assumes "fs_state s = State_START" and "sched_ok s"
  shows "race_inv v k (race_init s)"
  using assms by (simp add: race_inv_def race_init_def state_of_def runs_ok_def)

lemma state_of_simps [simp]:
  "produced p \<Longrightarrow> consumed c \<Longrightarrow> state_of p c = 32"
  "produced p \<Longrightarrow> \<not> consumed c \<Longrightarrow> state_of p c = 1"
  "\<not> produced p \<Longrightarrow> consumed c \<Longrightarrow> state_of p c = 2"
  "\<not> produced p \<Longrightarrow> \<not> consumed c \<Longrightarrow> state_of p c = 0"
  by (simp_all add: state_of_def)

lemma consumer_ok_unpublished:
  "consumer_ok k c p t \<Longrightarrow> \<not> produced p \<Longrightarrow> consumer_ok k c p' t"
  by (cases c) auto

lemma producer_ok_unpublished:
  "producer_ok v p c t \<Longrightarrow> \<not> consumed c \<Longrightarrow> producer_ok v p c' t"
  by (cases p) auto

lemma consumer_ok_final:
  "consumer_ok k c p t \<Longrightarrow> \<not> produced p \<Longrightarrow> consumed c \<Longrightarrow> c = C_done \<and> t = Some k"
  by (cases c) auto

lemma producer_ok_final:
  "producer_ok v p c t \<Longrightarrow> \<not> consumed c \<Longrightarrow> produced p \<Longrightarrow> p = P_done \<and> t = v"
  by (cases p) auto

lemma runs_ok_not_both:
  "\<not> produced p \<or> \<not> consumed c \<Longrightarrow> runs_ok v k p c runs tasks \<longleftrightarrow> runs = [] \<and> tasks = []"
  by (auto simp: runs_ok_def)

lemma runs_ok_schedule [simp]:
  "runs_ok v k P_schedule c runs tasks \<longleftrightarrow> runs = [] \<and> tasks = []"
  "runs_ok v k p C_schedule runs tasks \<longleftrightarrow> runs = [] \<and> tasks = []"
  by (auto simp: runs_ok_def)

text \<open>What an unpublished producer (or consumer) knows of the other side.\<close>

lemma race_inv_producer:
  assumes "race_inv v k r" and "\<not> produced (sys_producer r)"
  obtains (waiting) "consumed (sys_consumer r)" "sys_consumer r = C_done" "fs_state (sys_fs r) = 2"
      "fs_continuation (sys_fs r) = Some k" "sys_ran r = []" "sys_tasks r = []"
  | (alone) "\<not> consumed (sys_consumer r)" "fs_state (sys_fs r) = 0" "sys_ran r = []" "sys_tasks r = []"
proof (cases "consumed (sys_consumer r)")
  case True
  with assms consumer_ok_final[of k "sys_consumer r" "sys_producer r" "fs_continuation (sys_fs r)"]
  show ?thesis by (intro waiting) (simp_all add: race_inv_def runs_ok_not_both)
next
  case False
  with assms show ?thesis by (intro alone) (simp_all add: race_inv_def runs_ok_not_both)
qed

lemma race_inv_consumer:
  assumes "race_inv v k r" and "\<not> consumed (sys_consumer r)"
  obtains (waiting) "produced (sys_producer r)" "sys_producer r = P_done" "fs_state (sys_fs r) = 1"
      "fs_try_value (sys_fs r) = v" "sys_ran r = []" "sys_tasks r = []"
  | (alone) "\<not> produced (sys_producer r)" "fs_state (sys_fs r) = 0" "sys_ran r = []" "sys_tasks r = []"
proof (cases "produced (sys_producer r)")
  case True
  with assms producer_ok_final[of v "sys_producer r" "sys_consumer r" "fs_try_value (sys_fs r)"]
  show ?thesis by (intro waiting) (simp_all add: race_inv_def runs_ok_not_both)
next
  case False
  with assms show ?thesis by (intro alone) (simp_all add: race_inv_def runs_ok_not_both)
qed

lemmas race_upd_simps = race_inv_def sched_ok_def set_state_def runs_ok_not_both

lemma producer_step_inv:
  assumes env: "env_ok env" and inv: "race_inv v k r"
    and st: "setResult_step env v (sys_producer r) r = Some r'"
  shows "race_inv v k r'"
proof (cases "produced (sys_producer r)")
  case True
  with st have pc: "sys_producer r = P_schedule" by (cases "sys_producer r") auto
  with inv have c: "sys_consumer r = C_done" by (simp add: race_inv_def)
  with inv pc have "sched_ok (sys_fs r)" "fs_state (sys_fs r) = State_DONE"
    by (simp_all add: race_inv_def)
  with env obtain d where "scheduleContinuation env False (sys_fs r) = Inr d"
    using scheduleContinuation_total by blast
  with inv st pc c show ?thesis
    by (cases d) (auto simp: race_inv_def sched_ok_def runs_ok_def perform_dispatch_def
        run_continuation_def)
next
  case False
  with inv show ?thesis
  proof (cases rule: race_inv_producer)
    case waiting
    with inv st show ?thesis
      by (cases "sys_producer r") (auto simp: race_upd_simps)
  next
    case alone
    with inv st False consumer_ok_unpublished[of k "sys_consumer r" "sys_producer r"] show ?thesis
      by (cases "sys_producer r") (auto simp: race_upd_simps)
  qed
qed

lemma consumer_step_inv:
  assumes env: "env_ok env" and inv: "race_inv v k r"
    and st: "setContinuation_step env k (sys_consumer r) r = Some r'"
  shows "race_inv v k r'"
proof (cases "consumed (sys_consumer r)")
  case True
  with st have pc: "sys_consumer r = C_schedule" by (cases "sys_consumer r") auto
  with inv have c: "sys_producer r = P_done" by (simp add: race_inv_def)
  with inv pc have "sched_ok (sys_fs r)" "fs_state (sys_fs r) = State_DONE"
    by (simp_all add: race_inv_def)
  with env obtain d where "scheduleContinuation env True (sys_fs r) = Inr d"
    using scheduleContinuation_total by blast
  with inv st pc c show ?thesis
    by (cases d) (auto simp: race_inv_def sched_ok_def runs_ok_def perform_dispatch_def
        run_continuation_def)
next
  case False
  with inv show ?thesis
  proof (cases rule: race_inv_consumer)
    case waiting
    with inv st show ?thesis
      by (cases "sys_consumer r") (auto simp: race_upd_simps)
  next
    case alone
    with inv st False producer_ok_unpublished[of v "sys_producer r" "sys_consumer r"] show ?thesis
      by (cases "sys_consumer r") (auto simp: race_upd_simps)
  qed
qed

lemma task_step_inv:
  assumes "race_inv v k r" and "sys_tasks r = d # ds"
  shows "race_inv v k (run_continuation (r\<lparr>sys_tasks := ds\<rparr>))"
proof -
  have "sys_producer r = P_done \<and> sys_consumer r = C_done \<and> sys_ran r = [] \<and> ds = []"
    using assms by (auto simp: race_inv_def runs_ok_def split: if_splits)
  with assms show ?thesis by (simp add: race_inv_def run_continuation_def runs_ok_def)
qed

lemma race_step_inv:
  assumes "env_ok env" and "race_inv v k r" and "race_step env v k r r'"
  shows "race_inv v k r'"
  using assms(3)
proof (cases rule: race_step.cases)
  case producer
  show ?thesis by (rule producer_step_inv[OF assms(1,2) producer])
next
  case consumer
  show ?thesis by (rule consumer_step_inv[OF assms(1,2) consumer])
next
  case (task d ds)
  with task_step_inv[OF assms(2) task(2)] show ?thesis by simp
qed

lemma race_reachable_inv:
  assumes "race_reachable env v k s r"
    and "env_ok env" and "fs_state s = State_START" and "sched_ok s"
  shows "race_inv v k r"
  using assms
  by (induction rule: race_reachable.induct) (auto intro: race_inv_init race_step_inv)

section \<open>Every run ends\<close>







lemma race_stuck:
  assumes "\<nexists>r'. race_step env v k r r'" and "race_inv v k r"
  shows "sys_producer r = P_done \<and> sys_consumer r = C_done \<and> sys_tasks r = []"
proof -
  have p: "setResult_step env v (sys_producer r) r = None"
    using assms(1) race_step.producer[of env v r _ k] by (meson not_None_eq)
  have c: "setContinuation_step env k (sys_consumer r) r = None"
    using assms(1) race_step.consumer[of env k r _ v] by (meson not_None_eq)
  have t: "sys_tasks r = []"
    using assms(1) race_step.task by (metis list.exhaust)
  from p assms(2) have "sys_producer r = P_done"
    by (cases "sys_producer r") (auto simp: race_inv_def)
  moreover from c assms(2) have "sys_consumer r = C_done"
    by (cases "sys_consumer r") (auto simp: race_inv_def)
  ultimately show ?thesis using t by simp
qed

section \<open>Properties of the race\<close>

text \<open>C2: In every interleaving of \<^verbatim>\<open>setResult\<close> and \<^verbatim>\<open>setContinuation\<close> on a fresh shared state, neither
  call fails, the continuation is called or queued at most once, it is only ever called with the
  value that was set, and once no thread and no executor can move it has been called exactly once
  and the state is DONE.\<close>

theorem continuation_runs_exactly_once:
  assumes "race_reachable env v k s r"
    and "env_ok env" and "fs_state s = State_START" and "sched_ok s"
  shows "length (sys_ran r) + length (sys_tasks r) \<le> 1 \<and>
    set (sys_ran r) \<subseteq> {(Some k, v)} \<and>
    (\<forall>e. sys_producer r \<noteq> P_error e) \<and> (\<forall>e. sys_consumer r \<noteq> C_error e) \<and>
    ((\<nexists>r'. race_step env v k r r') \<longrightarrow>
       sys_ran r = [(Some k, v)] \<and> fs_state (sys_fs r) = State_DONE)"
proof -
  have inv: "race_inv v k r" using assms by (rule race_reachable_inv)
  moreover have "(\<nexists>r'. race_step env v k r r') \<longrightarrow>
      sys_ran r = [(Some k, v)] \<and> fs_state (sys_fs r) = State_DONE"
    using race_stuck[OF _ inv] inv by (auto simp: race_inv_def runs_ok_def state_of_def)
  ultimately show ?thesis
    by (auto simp: race_inv_def runs_ok_def split: if_splits)
qed

text \<open>The same run on one concrete input: no executor, nothing forced.\<close>

definition env_idle :: exec_env where
  "env_idle = \<lparr>env_inExecutor = (\<lambda>_. False), env_schedule = (\<lambda>_. Inr True),
               env_checkin = (\<lambda>_ _ _. Inr True)\<rparr>"

lemma env_idle_ok: "env_ok env_idle"
  by (simp add: env_ok_def env_idle_def)

theorem continuation_runs_exactly_once_witness:
  "set (sys_ran (race_init (FutureState_new :: (int, nat) FutureState))) \<subseteq> {(Some 7, Value 5)}"
  using continuation_runs_exactly_once[OF race_reachable.start env_idle_ok,
      of "FutureState_new :: (int, nat) FutureState" 7 "Value 5"]
  by (simp add: FutureState_new_def sched_ok_def)



end
