(* ===== verification/Future_Chain.thy ===== *)
theory Future_Chain
  imports Future_Api Future_Race
begin

text \<open>
  What a user of \<^verbatim>\<open>Future\<close> and \<^verbatim>\<open>Promise\<close> observes: chains of \<^verbatim>\<open>thenValue\<close> compute the Kleisli
  composition of their callables, promises hand out one future and accept one result, a dropped
  promise breaks its future, and readiness is decided by the local state.
\<close>

section \<open>Chains of thenValue\<close>




section \<open>The heap of a chain\<close>

definition pending_cell :: "'a cell" where
  "pending_cell = FutureState_new\<lparr>fs_attached := 2, fs_promiseRef := 1\<rparr>"

definition linked_cell :: "nat \<Rightarrow> ('a \<Rightarrow> 'a outcome) \<Rightarrow> 'a cell" where
  "linked_cell i f =
     pending_cell\<lparr>fs_state := State_ONLY_CONTINUATION,
       fs_continuation := Some (K_then True (\<lambda>t. bind_outcome (Try_value t) f) (Suc i))\<rparr>"

fun linked_cells :: "nat \<Rightarrow> ('a \<Rightarrow> 'a outcome) list \<Rightarrow> 'a cell list" where
  "linked_cells i [] = []"
| "linked_cells i (f # fs) = linked_cell i f # linked_cells (Suc i) fs"

lemma length_linked_cells [simp]: "length (linked_cells i fs) = length fs"
  by (induction fs arbitrary: i) auto

definition drop_promise :: "'a cell \<Rightarrow> 'a cell" where
  "drop_promise s = s\<lparr>fs_attached := fs_attached s - 1, fs_promiseRef := fs_promiseRef s - 1\<rparr>"

fun on_head :: "('b \<Rightarrow> 'b) \<Rightarrow> 'b list \<Rightarrow> 'b list" where
  "on_head g [] = []"
| "on_head g (x # xs) = g x # xs"

fun finished_cells :: "('a \<Rightarrow> 'a outcome) list \<Rightarrow> 'a Try \<Rightarrow> 'a cell list" where
  "finished_cells [] t = [pending_cell\<lparr>fs_state := State_ONLY_RESULT, fs_try_value := t\<rparr>]"
| "finished_cells (f # fs) t =
     pending_cell\<lparr>fs_state := State_DONE, fs_try_value := t\<rparr>
     # on_head drop_promise
         (finished_cells fs (makeTryCall (\<lambda>t. bind_outcome (Try_value t) f) t))"

lemma length_on_head [simp]: "length (on_head g xs) = length xs"
  by (cases xs) auto

lemma length_finished_cells [simp]: "length (finished_cells fs t) = Suc (length fs)"
  by (induction fs arbitrary: t) auto

lemma on_head_Nil_iff [simp]: "on_head g xs = [] \<longleftrightarrow> xs = []"
  by (cases xs) auto


lemma finished_cells_nonempty [simp]: "finished_cells fs t \<noteq> []"
  by (cases fs) auto


section \<open>Building the chain\<close>

lemmas heap_simps =
  deref_def store_def update_cell_def nth_append

definition at_end :: "'a world \<Rightarrow> 'a cell list \<Rightarrow> 'a world" where
  "at_end w cs = w\<lparr>w_heap := w_heap w @ cs\<rparr>"

lemma new_pair:
  "(let (pr, w) = Promise_new w in bind_outcome (getFuture pr w) g) =
   g (\<lparr>fut_shared = Some (length (w_heap w)), fut_local = LocalState_default\<rparr>,
      \<lparr>pr_shared = Some (length (w_heap w)), pr_hasFuture = True\<rparr>, at_end w [pending_cell])"
  by (simp add: Promise_new_def getFuture_def Promise_valid_def Future_of_shared_def heap_simps
      outcome_simps attachPromise_def attachOne_def pending_cell_def at_end_def FutureState_new_def)

lemma Promise_new_pair:
  "Promise_new w = (\<lparr>pr_shared = Some (length (w_heap w)), pr_hasFuture = False\<rparr>,
     at_end w [attachPromise FutureState_new])"
  by (simp add: Promise_new_def at_end_def)

lemma getFuture_pair:
  "getFuture \<lparr>pr_shared = Some (length (w_heap w)), pr_hasFuture = False\<rparr>
     (at_end w [attachPromise FutureState_new]) =
   Inr (\<lparr>fut_shared = Some (length (w_heap w)), fut_local = LocalState_default\<rparr>,
        \<lparr>pr_shared = Some (length (w_heap w)), pr_hasFuture = True\<rparr>, at_end w [pending_cell])"
  by (simp add: getFuture_def Promise_valid_def Future_of_shared_def heap_simps
      outcome_simps attachPromise_def attachOne_def pending_cell_def at_end_def FutureState_new_def)

lemma Future_valid_shared [simp]: "fut_shared fut = Some p \<Longrightarrow> Future_valid fut"
  by (simp add: Future_valid_def)

lemma pending_executor [simp]:
  "fs_executor pending_cell = None"
  "FutureState_setExecutor None pending_cell = pending_cell"
  by (simp_all add: FutureState_setExecutor_def pending_cell_def FutureState_new_def)




section \<open>Running the chain\<close>



definition running_cell :: "nat \<Rightarrow> ('a \<Rightarrow> 'a outcome) \<Rightarrow> 'a Try \<Rightarrow> 'a cell" where
  "running_cell i f t =
     (linked_cell i f)\<lparr>fs_state := State_DONE, fs_try_value := t, fs_attached := 3,
                        fs_continuationRef := 1\<rparr>"



lemma running_continuation [simp]:
  "fs_continuation (running_cell i f t) =
   Some (K_then True (\<lambda>t. bind_outcome (Try_value t) f) (Suc i))"
  by (simp add: running_cell_def linked_cell_def)






section \<open>Properties\<close>


text \<open>A future connected to a promise reports a result before the promise has one, because its
  default-constructed local state counts as available; \<^verbatim>\<open>get()\<close> on it therefore does not block but
  throws that the \<^verbatim>\<open>Try\<close> object is empty. The comment on \<^verbatim>\<open>get()\<close> promises that it blocks.\<close>

theorem pending_future_reports_result:
  "(let (pr, w1) = Promise_new w in bind_outcome (getFuture pr w1) (\<lambda>(fut, pr, w2).
      bind_outcome (deref w2 (the (pr_shared pr))) (\<lambda>s.
      bind_outcome (Future_hasResult fut w2) (\<lambda>ready.
      Inr (FutureState_hasResult s, ready, Future_get_ready env fut w2))))) =
   Inr (False, True, Some (Inl (Logic_error ''Try object is empty'')))"
  by (simp add: new_pair at_end_def heap_simps outcome_simps Future_hasResult_def
      LocalState_default_hasResult pending_cell_def FutureState_new_def Future_get_ready_def
      Future_wait_def Future_valid_def Future_value_def Future_result_def Future_getTry_def
      FutureState_getTry_def)

text \<open>A ready future that holds an exception is not valid, so the exception can be neither read
  nor passed to a callable: \<^verbatim>\<open>result()\<close>, \<^verbatim>\<open>wait()\<close> and \<^verbatim>\<open>thenTry()\<close> all throw \<^verbatim>\<open>Future is broken.\<close>
  instead. A ready future that holds a value is valid and passes it on.\<close>

theorem ready_futures:
  "\<not> Future_valid (makeReadyFuture_exception p) \<and>
   Future_result (makeReadyFuture_exception p) w = Inl (Logic_error ''Future is broken.'') \<and>
   Future_wait env (makeReadyFuture_exception p) w = Inl (Logic_error ''Future is broken.'') \<and>
   thenTry env g (makeReadyFuture_exception p) w = Inl (Logic_error ''Future is broken.'') \<and>
   Future_value (makeReadyFuture v) w = Inr v \<and>
   thenTry env g (makeReadyFuture v) w = Inr (Future_of_try (makeTryCall g (Value v)), [], w)"
  by (auto simp: Future_valid_def makeReadyFuture_exception_def makeReadyFuture_def
      Future_of_try_def LocalState_of_try_def LocalState_hasResult_def Try_of_exception_def
      Try_of_value_def Future_result_def Future_getTry_def outcome_simps Future_wait_def thenTry_def
      thenImpl_def Future_value_def Future_hasResult_def Future_setExecutor_def
      LocalState_setExecutor_def LocalState_getExecutor_def)

text \<open>A promise hands out exactly one future and accepts exactly one result: the second
  \<^verbatim>\<open>getFuture\<close> and, whatever ran in between, a second result on a state that has one throw, and the
  stored result is not replaced because the call returns no new state.\<close>

theorem promise_single_use:
  "(let (pr, w1) = Promise_new w in bind_outcome (getFuture pr w1) (\<lambda>(fut, pr, w2).
      bind_outcome (getFuture pr w2) (\<lambda>_. Inr ()))) =
     Inl (Logic_error ''Promise already has a future'') \<and>
   (fs_state s \<in> {State_ONLY_RESULT, State_DONE} \<longrightarrow>
     setResult env t s = Inl (Logic_error ''FutureState already has a result''))"
proof -
  have "(getFuture \<lparr>pr_shared = Some p, pr_hasFuture = True\<rparr> v
           :: ('a Future \<times> Promise \<times> 'a world) outcome) =
        Inl (Logic_error ''Promise already has a future'')" for p v
    by (simp add: getFuture_def Promise_valid_def outcome_simps)
  then show ?thesis
    by (auto simp: Promise_new_pair getFuture_pair setResult_def outcome_simps)
qed

theorem promise_single_use_witness:
  "setResult env_idle (Value 1)
     ((pending_cell :: int cell)\<lparr>fs_state := State_DONE, fs_try_value := Value 2\<rparr>)
   = Inl (Logic_error ''FutureState already has a result'')"
  by (rule promise_single_use[THEN conjunct2, THEN mp]) simp

text \<open>Releasing the last promise of a state without a result stores the exception \<^verbatim>\<open>Promise is
  broken\<close> and dispatches the continuation if one is set; releasing any other promise, or one whose
  state has a result, changes nothing but the count.\<close>

theorem broken_promise:
  assumes "env_ok env" and "sched_ok s" and "fs_promiseRef s \<noteq> 0"
    and "fs_state s \<in> {State_START, State_ONLY_CONTINUATION, State_ONLY_RESULT, State_DONE}"
  shows "\<exists>d s'. detachPromise env s = Inr (d, s') \<and> fs_promiseRef s' = fs_promiseRef s - 1 \<and>
    (if fs_promiseRef s = 1 \<and> fs_state s \<in> {State_START, State_ONLY_CONTINUATION}
     then FutureState_hasResult s' \<and> fs_try_value s' = Exc (Some (Runtime_error ''Promise is broken'')) \<and>
          (d \<noteq> None \<longleftrightarrow> FutureState_hasContinuation s)
     else d = None \<and> s' = s\<lparr>fs_promiseRef := fs_promiseRef s - 1\<rparr>)"
proof -
  let ?s = "s\<lparr>fs_promiseRef := fs_promiseRef s - 1,
      fs_try_value := Exc (Some (Runtime_error ''Promise is broken'')), fs_state := State_DONE\<rparr>"
  obtain d where "scheduleContinuation env False ?s = Inr d"
    using scheduleContinuation_total[of env ?s False] assms by (auto simp: sched_ok_def)
  moreover have "1 \<le> fs_promiseRef s"
    using assms(3) by (simp add: word_less_1 linorder_not_less[symmetric])
  ultimately show ?thesis
    using assms(4) by (auto simp: detachPromise_def setResult_def outcome_simps Let_def)
qed

theorem broken_promise_witness:
  "\<exists>d s'. detachPromise env_idle (pending_cell :: int cell) = Inr (d, s') \<and> d = None \<and>
     fs_try_value s' = Exc (Some (Runtime_error ''Promise is broken''))"
  using broken_promise[OF env_idle_ok, of "pending_cell :: int cell"]
  by (auto simp: pending_cell_def FutureState_new_def sched_ok_def)

end
