(* ===== verification/Future_Awaiters.thy ===== *)
theory Future_Awaiters
  imports Future_Chain
begin

text \<open>
  What waits for futures: the two awaiters through which a Lazy awaits one
  (\<^verbatim>\<open>src/coro/FutureAwaiter.h\<close>, \<^verbatim>\<open>src/coro/ResumeBySchedule.h\<close>) and \<^verbatim>\<open>collectAll\<close> of a range of futures
  (\<^verbatim>\<open>src/Collect.h\<close>), on the heap of shared states. Both ask \<^verbatim>\<open>hasResult\<close> first.
\<close>

section \<open>Awaiting a future in a Lazy\<close>

text \<open>
  What the continuation does when it is called: resume the coroutine in place, check it in at the
  executor with the context checked out before, or schedule it there.
\<close>

datatype resumption = Resume_inplace | Resume_checkin nat u64 | Resume_schedule nat

text \<open>
  The outcome of the await expression, or a coroutine that waits for the user continuation \<open>n\<close>, with
  what that will do.
\<close>

datatype 'a awaited = Goes_on "'a outcome" | Suspended nat resumption "'a work list" "'a world"

definition FutureAwaiter_await_ready :: "'a Future \<Rightarrow> 'a world \<Rightarrow> bool outcome" where
  "FutureAwaiter_await_ready fut w = Future_hasResult fut w"

definition FutureAwaiter_lambda :: "executor_ptr \<Rightarrow> u64 \<Rightarrow> resumption" where
  "FutureAwaiter_lambda ex ctx = (case ex of Some e \<Rightarrow> Resume_checkin e ctx | None \<Rightarrow> Resume_inplace)"

definition FutureAwaiter_await_suspend ::
    "exec_env \<Rightarrow> (nat \<Rightarrow> u64) \<Rightarrow> executor_ptr \<Rightarrow> nat \<Rightarrow> 'a Future \<Rightarrow> 'a world \<Rightarrow> 'a awaited outcome" where
  "FutureAwaiter_await_suspend env checkout ex n fut w =
     (let ctx = (case ex of None \<Rightarrow> NULLCTX | Some e \<Rightarrow> checkout e)
      in bind_outcome (Future_set_continuation env fut (K_user n) w) (\<lambda>(ws, w).
           Inr (Suspended n (FutureAwaiter_lambda ex ctx) ws w)))"

definition FutureAwaiter_await_resume :: "'a Future \<Rightarrow> 'a world \<Rightarrow> 'a outcome" where
  "FutureAwaiter_await_resume fut w = Future_value fut w"

definition FutureResumeBySchedule_await_ready :: "'a Future \<Rightarrow> 'a world \<Rightarrow> bool outcome" where
  "FutureResumeBySchedule_await_ready fut w = Future_hasResult fut w"

definition FutureResumeBySchedule_await_suspend ::
    "exec_env \<Rightarrow> executor_ptr \<Rightarrow> nat \<Rightarrow> 'a Future \<Rightarrow> 'a world \<Rightarrow> 'a awaited outcome" where
  "FutureResumeBySchedule_await_suspend env ex n fut w =
     bind_outcome (Future_set_continuation env fut (K_user n) w) (\<lambda>(ws, w).
       Inr (Suspended n (case ex of Some e \<Rightarrow> Resume_schedule e | None \<Rightarrow> Resume_inplace) ws w))"

definition FutureResumeBySchedule_await_resume :: "'a Future \<Rightarrow> 'a world \<Rightarrow> 'a outcome" where
  "FutureResumeBySchedule_await_resume fut w = Future_value fut w"

text \<open>\<^verbatim>\<open>co_await\<close> of a future, and of \<^verbatim>\<open>ResumeBySchedule\<close> of it, by a Lazy on the executor \<open>ex\<close>.\<close>

definition co_await_future ::
    "exec_env \<Rightarrow> (nat \<Rightarrow> u64) \<Rightarrow> executor_ptr \<Rightarrow> nat \<Rightarrow> 'a Future \<Rightarrow> 'a world \<Rightarrow> 'a awaited outcome" where
  "co_await_future env checkout ex n fut w =
     bind_outcome (FutureAwaiter_await_ready fut w) (\<lambda>ready.
       if ready then Inr (Goes_on (FutureAwaiter_await_resume fut w))
       else FutureAwaiter_await_suspend env checkout ex n fut w)"

definition co_await_ResumeBySchedule ::
    "exec_env \<Rightarrow> executor_ptr \<Rightarrow> nat \<Rightarrow> 'a Future \<Rightarrow> 'a world \<Rightarrow> 'a awaited outcome" where
  "co_await_ResumeBySchedule env ex n fut w =
     bind_outcome (FutureResumeBySchedule_await_ready fut w) (\<lambda>ready.
       if ready then Inr (Goes_on (FutureResumeBySchedule_await_resume fut w))
       else FutureResumeBySchedule_await_suspend env ex n fut w)"

section \<open>collectAll of futures\<close>

text \<open>
  The shared context: the vector of results, the promise of the vector and how many lambdas and local
  variables hold it. The promise lives on a heap of its own, as its values have another type.
\<close>

record 'a CollectContext =
  cc_results :: "'a Try list"
  cc_promise :: Promise
  cc_refs :: nat

definition CollectContext_new :: "nat \<Rightarrow> Promise \<Rightarrow> 'a CollectContext" where
  "CollectContext_new n p = \<lparr>cc_results = replicate n Try_default, cc_promise = p, cc_refs = 1\<rparr>"

fun allReady :: "'a Future list \<Rightarrow> 'a world \<Rightarrow> bool outcome" where
  "allReady [] w = Inr True"
| "allReady (f # fs) w =
     bind_outcome (Future_hasResult f w) (\<lambda>ready. if \<not> ready then Inr False else allReady fs w)"

text \<open>The loop over ready futures calls \<^verbatim>\<open>results()\<close>, which Future does not have; it is read as \<^verbatim>\<open>result()\<close>.\<close>

fun ready_results :: "'a Future list \<Rightarrow> 'a world \<Rightarrow> 'a Try list outcome" where
  "ready_results [] w = Inr []"
| "ready_results (f # fs) w =
     bind_outcome (Future_result f w) (\<lambda>t. bind_outcome (ready_results fs w) (\<lambda>ts. Inr (t # ts)))"

text \<open>The lambda of input \<open>i\<close> is the user continuation \<open>i\<close>; each one set holds the context.\<close>

fun collect_loop ::
    "exec_env \<Rightarrow> nat \<Rightarrow> 'a Future list \<Rightarrow> 'a CollectContext \<Rightarrow> 'a world \<Rightarrow>
     ('a CollectContext \<times> 'a work list \<times> 'a world) outcome" where
  "collect_loop env i [] ctx w = Inr (ctx, [], w)"
| "collect_loop env i (f # fs) ctx w =
     bind_outcome (Future_hasResult f w) (\<lambda>ready.
       if ready
       then bind_outcome (Future_result f w) (\<lambda>t.
              collect_loop env (Suc i) fs (ctx\<lparr>cc_results := (cc_results ctx)[i := t]\<rparr>) w)
       else bind_outcome (Future_set_continuation env f (K_user i) w) (\<lambda>(ws, w).
              bind_outcome (collect_loop env (Suc i) fs (ctx\<lparr>cc_refs := Suc (cc_refs ctx)\<rparr>) w) (\<lambda>(ctx, ws', w).
              Inr (ctx, ws @ ws', w))))"

definition collect_lambda :: "nat \<Rightarrow> 'a Try \<Rightarrow> 'a CollectContext \<Rightarrow> 'a CollectContext" where
  "collect_lambda i t ctx = ctx\<lparr>cc_results := (cc_results ctx)[i := t]\<rparr>"

text \<open>A reference to the context goes; with the last one its destructor sets the promise.\<close>

definition CollectContext_release ::
    "exec_env \<Rightarrow> 'a CollectContext \<Rightarrow> 'a Try list world \<Rightarrow>
     ('a CollectContext \<times> 'a Try list work list \<times> 'a Try list world) outcome" where
  "CollectContext_release env ctx wv =
     (let ctx = ctx\<lparr>cc_refs := cc_refs ctx - 1\<rparr>
      in if cc_refs ctx = 0
         then bind_outcome (Promise_setValue env (cc_promise ctx) (cc_results ctx) wv) (\<lambda>(ws, wv).
                Inr (ctx, ws @ Promise_destroy (cc_promise ctx), wv))
         else Inr (ctx, [], wv))"

datatype 'a collected =
    Collected_ready "'a Try list Future"
  | Collecting "'a Try list Future" "'a CollectContext" "'a work list" "'a world" "'a Try list work list" "'a Try list world"

definition collectAll_futures ::
    "exec_env \<Rightarrow> 'a Future list \<Rightarrow> 'a world \<Rightarrow> 'a Try list world \<Rightarrow> 'a collected outcome" where
  "collectAll_futures env futs w wv =
     bind_outcome (allReady futs w) (\<lambda>ready.
       if ready
       then bind_outcome (ready_results futs w) (\<lambda>results. Inr (Collected_ready (Future_of_try (Try_of_value results))))
       else
         (let (pr, wv) = Promise_new wv
          in bind_outcome (getFuture pr wv) (\<lambda>(future, pr, wv).
             bind_outcome (collect_loop env 0 futs (CollectContext_new (length futs) pr) w) (\<lambda>(ctx, ws, w).
             bind_outcome (CollectContext_release env ctx wv) (\<lambda>(ctx, wsv, wv).
             Inr (Collecting future ctx ws w wsv wv))))))"

section \<open>Properties\<close>

text \<open>What the state a future looks at holds now.\<close>

definition current_try :: "'a Future \<Rightarrow> 'a world \<Rightarrow> 'a Try" where
  "current_try fut w = (case fut_shared fut of None \<Rightarrow> ls_try_value (fut_local fut) | Some p \<Rightarrow> fs_try_value (w_heap w ! p))"

text \<open>Every future that is made by a promise or ready with a value has an available local state.\<close>

definition usable_future :: "'a Future \<Rightarrow> 'a world \<Rightarrow> bool" where
  "usable_future fut w \<longleftrightarrow>
     LocalState_hasResult (fut_local fut) \<and> (case fut_shared fut of None \<Rightarrow> True | Some p \<Rightarrow> p < length (w_heap w))"

lemma usable_hasResult: "usable_future fut w \<Longrightarrow> Future_hasResult fut w = Inr True"
  by (simp add: usable_future_def Future_hasResult_def)

lemma usable_result: "usable_future fut w \<Longrightarrow> Future_result fut w = Inr (current_try fut w)"
  by (auto simp: usable_future_def Future_result_def Future_getTry_def Future_valid_def Future_hasResult_def
      outcome_simps deref_def FutureState_getTry_def current_try_def split: option.splits)

lemma usable_of_promise:
  "bind_outcome (getFuture pr w) (\<lambda>(fut, pr, w). Inr (fut, w)) = Inr (fut, w') \<Longrightarrow> usable_future fut w'"
  by (auto simp: getFuture_def Future_of_shared_def update_cell_def deref_def store_def bind_Inr_iff usable_future_def
      LocalState_default_hasResult logicAssert_def split: if_splits prod.splits)

text \<open>A Lazy never waits for a future. One from a promise counts as ready before the promise is
  set, so both awaiters go on at once: with the value or the exception when it has one, and with the
  exception of an empty \<^verbatim>\<open>Try\<close> when it has none. On a ready future that holds an exception they read
  through a null pointer.\<close>

theorem co_await_never_waits:
  "(usable_future fut w \<longrightarrow>
     co_await_future env checkout ex n fut w = Inr (Goes_on (Try_value (current_try fut w))) \<and>
     co_await_ResumeBySchedule env ex n fut w = Inr (Goes_on (Try_value (current_try fut w)))) \<and>
   co_await_future env checkout ex n (makeReadyFuture_exception e) w = Inl Undefined_behaviour \<and>
   (let (pr, w1) = Promise_new w in bind_outcome (getFuture pr w1) (\<lambda>(fut, pr, w2). co_await_future env checkout ex n fut w2)) =
     Inr (Goes_on (Inl (Logic_error ''Try object is empty'')))"
proof (intro conjI impI)
  assume "usable_future fut w"
  then show "co_await_future env checkout ex n fut w = Inr (Goes_on (Try_value (current_try fut w)))"
    "co_await_ResumeBySchedule env ex n fut w = Inr (Goes_on (Try_value (current_try fut w)))"
    by (simp_all add: co_await_future_def FutureAwaiter_await_ready_def FutureAwaiter_await_resume_def
        co_await_ResumeBySchedule_def FutureResumeBySchedule_await_ready_def FutureResumeBySchedule_await_resume_def
        usable_hasResult usable_result Future_value_def)
next
  show "co_await_future env checkout ex n (makeReadyFuture_exception e) w = Inl Undefined_behaviour"
    by (simp add: co_await_future_def FutureAwaiter_await_ready_def Future_hasResult_def makeReadyFuture_exception_def
        Future_of_try_def Try_of_exception_def LocalState_error_no_result)
next
  show "(let (pr, w1) = Promise_new w in bind_outcome (getFuture pr w1) (\<lambda>(fut, pr, w2). co_await_future env checkout ex n fut w2)) =
     Inr (Goes_on (Inl (Logic_error ''Try object is empty'')))"
    by (simp add: new_pair heap_simps outcome_simps at_end_def co_await_future_def FutureAwaiter_await_ready_def
        Future_hasResult_def LocalState_default_hasResult FutureAwaiter_await_resume_def Future_value_def Future_result_def
        Future_getTry_def Future_valid_def FutureState_getTry_def pending_cell_def FutureState_new_def)
qed

lemma co_await_never_waits_witness:
  "\<forall>env checkout ex n w. co_await_future env checkout ex n (makeReadyFuture 5) w = Inr (Goes_on (Inr (5::nat)))"
  using co_await_never_waits [THEN conjunct1, of "makeReadyFuture (5::nat)"]
  by (simp add: usable_future_def makeReadyFuture_def Future_of_try_def LocalState_of_try_def LocalState_hasResult_def
      Try_of_value_def Try_value_def Try_checkHasTry_def Try_get_def current_try_def Try_available_def Try_hasError_def)

lemma usable_all:
  "\<forall>fut\<in>set futs. usable_future fut w \<Longrightarrow>
   allReady futs w = Inr True \<and> ready_results futs w = Inr (map (\<lambda>f. current_try f w) futs)"
  by (induction futs) (simp_all add: usable_hasResult usable_result)

text \<open>collectAll of futures that come from promises or are ready with a value does not wait for
  them: it returns at once a ready future with one entry per input, in order, which is empty for each
  input whose promise has no result yet, and sets no continuation.\<close>

theorem collectAll_of_futures_does_not_wait:
  assumes "\<forall>fut\<in>set futs. usable_future fut w"
  shows "collectAll_futures env futs w wv =
    Inr (Collected_ready (makeReadyFuture (map (\<lambda>f. current_try f w) futs)))"
  using usable_all [OF assms] by (simp add: collectAll_futures_def makeReadyFuture_def)

text \<open>A pending future next to a ready one.\<close>

lemma collectAll_of_futures_does_not_wait_witness:
  "\<forall>env wv. (let (pr, w1) = Promise_new \<lparr>w_heap = [], w_tasks = [], w_calls = []\<rparr> in
    bind_outcome (getFuture pr w1) (\<lambda>(fut, pr, w2). collectAll_futures env [fut, makeReadyFuture 5] w2 wv)) =
   Inr (Collected_ready (makeReadyFuture [Nothing, Value (5::nat)]))"
proof (intro allI)
  fix env wv
  define w2 where "w2 = \<lparr>w_heap = [pending_cell :: nat cell], w_tasks = [], w_calls = []\<rparr>"
  define fut :: "nat Future" where "fut = \<lparr>fut_shared = Some 0, fut_local = LocalState_default\<rparr>"
  have "\<forall>f\<in>set [fut, makeReadyFuture 5]. usable_future f w2"
    by (simp add: usable_future_def fut_def w2_def LocalState_default_def Try_default_def makeReadyFuture_def Future_of_try_def
        LocalState_of_try_def LocalState_hasResult_def Try_of_value_def Try_available_def Try_hasError_def)
  from collectAll_of_futures_does_not_wait [OF this, of env wv]
  have "collectAll_futures env [fut, makeReadyFuture 5] w2 wv = Inr (Collected_ready (makeReadyFuture [Nothing, Value 5]))"
    by (simp add: current_try_def fut_def w2_def pending_cell_def FutureState_new_def Try_default_def makeReadyFuture_def
        Future_of_try_def LocalState_of_try_def Try_of_value_def)
  then show "(let (pr, w1) = Promise_new \<lparr>w_heap = [], w_tasks = [], w_calls = []\<rparr> in
    bind_outcome (getFuture pr w1) (\<lambda>(fut, pr, w2). collectAll_futures env [fut, makeReadyFuture 5] w2 wv)) =
   Inr (Collected_ready (makeReadyFuture [Nothing, Value (5::nat)]))"
    by (simp add: new_pair heap_simps outcome_simps at_end_def fut_def w2_def)
qed

end
