(* ===== verification/Uthread.thy ===== *)
theory Uthread
  imports Future_Awaiters
begin

text \<open>
  Stackful coroutines: the switching of \<^verbatim>\<open>src/uthread/internal/thread.cc\<close> on top of the two functions of Boost.Context, written
  in assembly, and \<^verbatim>\<open>join\<close>, \<^verbatim>\<open>await\<close> and \<^verbatim>\<open>async\<close> of \<^verbatim>\<open>src/uthread\<close> on the heap of futures.
\<close>

section \<open>Contexts\<close>

text \<open>A \<^verbatim>\<open>jmp_buf_link*\<close>: the global context of the plain thread, or the one of the uthread of this number.\<close>

datatype link_ptr = Unthreaded_context | Context_of nat

text \<open>What user code does: create a uthread with this function, switch into or out of one, anything else.\<close>

datatype 'e uop = Create "'e uop list" | Switch_in nat | Switch_out nat | Event 'e

text \<open>
  Where a suspended context goes on: at the start of \<^verbatim>\<open>s_main\<close>, or after the jump in one of the members, with the
  function that is being executed (\<open>None\<close> the plain thread's, \<open>Some q\<close> that of the uthread \<open>q\<close>) and the rest of its code.
\<close>

datatype 'e resume_point =
    At_s_main
  | After_switch_in link_ptr "nat option" "'e uop list"
  | After_switch_out link_ptr "nat option" "'e uop list"
  | After_initial_switch_in nat

record jmp_buf_link =
  fcontext :: "nat option"
  link :: "link_ptr option"
  uth_thread :: "nat option"

record 'e uthread_machine =
  um_contexts :: "link_ptr \<Rightarrow> jmp_buf_link"
  g_current_context :: "link_ptr option"
  um_suspended :: "nat \<Rightarrow> 'e resume_point option"
  um_next :: nat
  um_funcs :: "'e uop list list"
  um_events :: "'e list"

definition jmp_buf_link_new :: jmp_buf_link where
  "jmp_buf_link_new = \<lparr>fcontext = None, link = None, uth_thread = None\<rparr>"

definition um_new :: "'e uthread_machine" where
  "um_new = \<lparr>um_contexts = (\<lambda>_. jmp_buf_link_new), g_current_context = None, um_suspended = (\<lambda>_. None),
     um_next = 0, um_funcs = [], um_events = []\<rparr>"

definition um_update :: "link_ptr \<Rightarrow> (jmp_buf_link \<Rightarrow> jmp_buf_link) \<Rightarrow> 'e uthread_machine \<Rightarrow> 'e uthread_machine" where
  "um_update c f m = m\<lparr>um_contexts := (um_contexts m)(c := f (um_contexts m c))\<rparr>"

text \<open>
  \<^verbatim>\<open>_fl_jump_fcontext\<close> suspends the running context and goes on in \<open>to\<close>, which gets the suspended one and \<open>vp\<close>; a
  context can be resumed once. \<^verbatim>\<open>_f1_make_fcontext\<close> makes a context that starts with a function.
\<close>

datatype 'e control = Running "nat option" "'e uop list" | Resuming "'e resume_point" nat "nat option"

definition jump_fcontext ::
    "nat option \<Rightarrow> nat option \<Rightarrow> 'e resume_point \<Rightarrow> 'e uthread_machine \<Rightarrow> ('e control \<times> 'e uthread_machine) outcome" where
  "jump_fcontext to vp here m =
     (case to of
        None \<Rightarrow> Inl Undefined_behaviour
      | Some a \<Rightarrow>
          (case um_suspended m a of
             None \<Rightarrow> Inl Undefined_behaviour
           | Some r \<Rightarrow>
               Inr (Resuming r (um_next m) vp,
                    m\<lparr>um_suspended := (um_suspended m)(a := None, um_next m \<mapsto> here), um_next := um_next m + 1\<rparr>)))"

definition make_fcontext :: "'e uthread_machine \<Rightarrow> nat \<times> 'e uthread_machine" where
  "make_fcontext m =
     (um_next m, m\<lparr>um_suspended := (um_suspended m)(um_next m \<mapsto> At_s_main), um_next := um_next m + 1\<rparr>)"

section \<open>\<open>jmp_buf_link\<close>\<close>

definition link_switch_in ::
    "link_ptr \<Rightarrow> nat option \<Rightarrow> 'e uop list \<Rightarrow> 'e uthread_machine \<Rightarrow> ('e control \<times> 'e uthread_machine) outcome" where
  "link_switch_in c flow rest m =
     (let old = g_current_context m;
          m = um_update c (\<lambda>x. x\<lparr>link := (case old of None \<Rightarrow> Some Unthreaded_context | Some l \<Rightarrow> Some l)\<rparr>)
                (m\<lparr>g_current_context := Some c\<rparr>)
      in jump_fcontext (fcontext (um_contexts m c)) (uth_thread (um_contexts m c)) (After_switch_in c flow rest) m)"

definition link_switch_out ::
    "link_ptr \<Rightarrow> nat option \<Rightarrow> 'e uop list \<Rightarrow> 'e uthread_machine \<Rightarrow> ('e control \<times> 'e uthread_machine) outcome" where
  "link_switch_out c flow rest m =
     (let m = m\<lparr>g_current_context := link (um_contexts m c)\<rparr>
      in case link (um_contexts m c) of
           None \<Rightarrow> Inl Undefined_behaviour
         | Some l \<Rightarrow> jump_fcontext (fcontext (um_contexts m l)) (uth_thread (um_contexts m c)) (After_switch_out c flow rest) m)"

definition initial_switch_in_completed :: "nat \<Rightarrow> 'e uthread_machine \<Rightarrow> ('e control \<times> 'e uthread_machine) outcome" where
  "initial_switch_in_completed q m =
     (case link (um_contexts m (Context_of q)) of
        None \<Rightarrow> Inl Undefined_behaviour
      | Some l \<Rightarrow> jump_fcontext (fcontext (um_contexts m l)) (uth_thread (um_contexts m (Context_of q))) (After_initial_switch_in q) m)"

section \<open>\<open>thread_context\<close>\<close>

text \<open>The constructor, through \<^verbatim>\<open>setup\<close>.\<close>

definition thread_context_new ::
    "'e uop list \<Rightarrow> nat option \<Rightarrow> 'e uop list \<Rightarrow> 'e uthread_machine \<Rightarrow> ('e control \<times> 'e uthread_machine) outcome" where
  "thread_context_new func flow rest m =
     (let q = length (um_funcs m);
          (f, m) = make_fcontext (m\<lparr>um_funcs := um_funcs m @ [func]\<rparr>);
          m = um_update (Context_of q) (\<lambda>_. \<lparr>fcontext = Some f, link = None, uth_thread = Some q\<rparr>) m
      in link_switch_in (Context_of q) flow rest m)"

text \<open>\<open>ndebug\<close> says that \<^verbatim>\<open>assert\<close> is compiled away. \<^verbatim>\<open>s_main\<close> up to the first jump of \<^verbatim>\<open>main\<close>.\<close>

definition s_main :: "bool \<Rightarrow> nat \<Rightarrow> nat option \<Rightarrow> 'e uthread_machine \<Rightarrow> ('e control \<times> 'e uthread_machine) outcome" where
  "s_main ndebug fctx q m =
     (case (g_current_context m, q) of
        (Some c, Some q) \<Rightarrow>
          bind_outcome (if ndebug then Inr () else cassert (uth_thread (um_contexts m c) = Some q)) (\<lambda>_.
          case link (um_contexts m (Context_of q)) of
            None \<Rightarrow> Inl Undefined_behaviour
          | Some l \<Rightarrow> initial_switch_in_completed q (um_update l (\<lambda>x. x\<lparr>fcontext := Some fctx\<rparr>) m))
      | _ \<Rightarrow> Inl Undefined_behaviour)"

text \<open>
  One step; \<open>None\<close> when the plain thread has nothing left to do. Without \<^verbatim>\<open>assert\<close> \<^verbatim>\<open>main\<close> goes
  on behind \<^verbatim>\<open>initial_switch_in_completed\<close> with the function. After it comes \<^verbatim>\<open>final_switch_out\<close>, which has no definition.
\<close>

fun uthread_step ::
    "bool \<Rightarrow> 'e control \<Rightarrow> 'e uthread_machine \<Rightarrow> ('e control \<times> 'e uthread_machine) outcome option" where
  "uthread_step ndebug (Running None []) m = None"
| "uthread_step ndebug (Running (Some q) []) m = Some (Inl Undefined_behaviour)"
| "uthread_step ndebug (Running flow (Create func # rest)) m = Some (thread_context_new func flow rest m)"
| "uthread_step ndebug (Running flow (Switch_in q # rest)) m = Some (link_switch_in (Context_of q) flow rest m)"
| "uthread_step ndebug (Running flow (Switch_out q # rest)) m = Some (link_switch_out (Context_of q) flow rest m)"
| "uthread_step ndebug (Running flow (Event e # rest)) m = Some (Inr (Running flow rest, m\<lparr>um_events := um_events m @ [e]\<rparr>))"
| "uthread_step ndebug (Resuming At_s_main fctx q) m = Some (s_main ndebug fctx q m)"
| "uthread_step ndebug (Resuming (After_switch_in c flow rest) fctx q) m =
     Some (Inr (Running flow rest, um_update c (\<lambda>x. x\<lparr>fcontext := Some fctx\<rparr>) m))"
| "uthread_step ndebug (Resuming (After_switch_out c flow rest) fctx q) m =
     (case link (um_contexts m c) of
        None \<Rightarrow> Some (Inl Undefined_behaviour)
      | Some l \<Rightarrow> Some (Inr (Running flow rest, um_update l (\<lambda>x. x\<lparr>fcontext := Some fctx\<rparr>) m)))"
| "uthread_step ndebug (Resuming (After_initial_switch_in p) fctx q) m =
     (if ndebug then Some (Inr (Running (Some p) (um_funcs m ! p), m)) else Some (Inl Assert_failed))"

fun uthread_run :: "bool \<Rightarrow> nat \<Rightarrow> 'e control \<Rightarrow> 'e uthread_machine \<Rightarrow> 'e uthread_machine outcome option" where
  "uthread_run ndebug 0 c m = None"
| "uthread_run ndebug (Suc fuel) c m =
     (case uthread_step ndebug c m of
        None \<Rightarrow> Some (Inr m)
      | Some (Inl e) \<Rightarrow> Some (Inl e)
      | Some (Inr (c, m)) \<Rightarrow> uthread_run ndebug fuel c m)"

text \<open>\<^verbatim>\<open>thread_impl::can_switch_out\<close> and \<^verbatim>\<open>thread_impl::get\<close>.\<close>

definition can_switch_out :: "'e uthread_machine \<Rightarrow> bool" where
  "can_switch_out m = (case g_current_context m of None \<Rightarrow> False | Some c \<Rightarrow> uth_thread (um_contexts m c) \<noteq> None)"

definition uthread_get :: "'e uthread_machine \<Rightarrow> nat option outcome" where
  "uthread_get m =
     (case g_current_context m of None \<Rightarrow> Inl Undefined_behaviour | Some c \<Rightarrow> Inr (uth_thread (um_contexts m c)))"

section \<open>The size of a stack\<close>

definition default_base_stack_size :: nat where
  "default_base_stack_size = 512 * 1024"

text \<open>
  \<open>env_kb\<close> is what \<^verbatim>\<open>strtoll\<close> makes of the environment variable; the product is a signed 64-bit one, which may
  overflow. The static variable keeps only the default.
\<close>

definition get_base_stack_size :: "int option \<Rightarrow> nat \<Rightarrow> nat outcome \<times> nat" where
  "get_base_stack_size env_kb stack_size =
     (let default = (Inr default_base_stack_size, default_base_stack_size)
      in if stack_size \<noteq> 0 then (Inr stack_size, stack_size)
         else (case env_kb of
                 None \<Rightarrow> default
               | Some kb \<Rightarrow>
                   if kb > 0 \<and> kb < 2 ^ 63 - 1
                   then (if 1024 * kb < 2 ^ 63 then Inr (nat (1024 * kb)) else Inl Undefined_behaviour, stack_size)
                   else default))"

definition thread_context_stack_size :: "int option \<Rightarrow> nat \<Rightarrow> nat \<Rightarrow> nat outcome" where
  "thread_context_stack_size env_kb static_size stack_size =
     (if stack_size \<noteq> 0 then Inr stack_size else fst (get_base_stack_size env_kb static_size))"

section \<open>\<open>Uthread\<close>, \<open>await\<close> and \<open>async\<close>\<close>

text \<open>A \<^verbatim>\<open>Uthread\<close>: its executor, and its context with the promise \<^verbatim>\<open>done_\<close>, whose future holds a truth value.\<close>

record uthread_object =
  uth_ex :: executor_ptr
  uth_done :: "Promise option"
  uth_joined :: bool

text \<open>The callback is called before \<^verbatim>\<open>join\<close> returns, or is the continuation \<open>n\<close> of the future of \<^verbatim>\<open>done_\<close>.\<close>

datatype joined = Not_joined | Called_back | Callback_set "bool work list"

definition Uthread_join ::
    "exec_env \<Rightarrow> (nat \<Rightarrow> u64) \<Rightarrow> nat \<Rightarrow> uthread_object \<Rightarrow> bool world \<Rightarrow>
     (joined \<times> uthread_object \<times> bool world) outcome" where
  "Uthread_join env checkout n u w =
     (case uth_done u of
        None \<Rightarrow> Inr (Not_joined, u, w)
      | Some p \<Rightarrow>
          if uth_joined u then Inr (Not_joined, u, w)
          else
            (let u = u\<lparr>uth_joined := True\<rparr>
             in bind_outcome (getFuture p w) (\<lambda>(f, p, w).
                let u = u\<lparr>uth_done := Some p\<rparr>
                in bind_outcome (Future_via (uth_ex u) f w) (\<lambda>(f, w).
                   bind_outcome (Future_hasResult f w) (\<lambda>ready.
                   if ready then bind_outcome (Future_destroy f w) (\<lambda>w. Inr (Called_back, u, w))
                   else if uth_ex u = None
                   then bind_outcome (Future_set_continuation env f (K_user n) w) (\<lambda>(ws, w).
                        bind_outcome (Future_destroy f w) (\<lambda>w. Inr (Callback_set ws, u, w)))
                   else bind_outcome (Promise_forceSched p w) (\<lambda>w.
                        bind_outcome (Promise_checkout checkout p w) (\<lambda>w.
                        bind_outcome (Future_set_continuation env f (K_user n) w) (\<lambda>(ws, w).
                        bind_outcome (Future_destroy f w) (\<lambda>w.
                        Inr (Callback_set ws, u\<lparr>uth_done := None\<rparr>, w))))))))))"

text \<open>\<^verbatim>\<open>await\<close> of a future: it returns, or goes on to wait in the uthread.\<close>

datatype 'a uthread_await = Await_returns "'a outcome" | Await_waits

definition uthread_await :: "exec_env \<Rightarrow> 'a Future \<Rightarrow> 'a world \<Rightarrow> 'a uthread_await outcome" where
  "uthread_await env fut w =
     bind_outcome (logicAssert (Future_valid fut) ''Future is broken'') (\<lambda>_.
     bind_outcome (Future_hasResult fut w) (\<lambda>ready.
     if ready then Inr (Await_returns (Future_value fut w))
     else bind_outcome (Future_getExecutor fut w) (\<lambda>ex.
          bind_outcome (logicAssert (ex \<noteq> None) ''Future has not a Executor'') (\<lambda>_.
          bind_outcome (logicAssert (env_inExecutor env (the ex)) ''await invoked not in Executor'') (\<lambda>_.
          Inr Await_waits)))))"

text \<open>The constructor of \<^verbatim>\<open>Uthread\<close>, called in the plain thread, with a function that is one event: whether the function has run.\<close>

definition uthread_construct :: "bool \<Rightarrow> unit uthread_machine \<Rightarrow> bool \<times> unit uthread_machine" where
  "uthread_construct ndebug um =
     (case uthread_run ndebug 4 (Running None [Create [Event ()]]) um of
        Some (Inr um') \<Rightarrow> (um_events um' \<noteq> um_events um, um')
      | _ \<Rightarrow> (False, um))"

datatype Launch = Prompt | Schedule | Current

text \<open>
  The end of \<^verbatim>\<open>Uthread(attr, proc).detach()\<close>: what running the function leaves to do, and then the destructors of \<^verbatim>\<open>done_\<close>, whose
  heap is \<open>wb\<close>, and of the promise in \<^verbatim>\<open>proc\<close>.
\<close>

definition uthread_detached ::
    "bool \<Rightarrow> exec_env \<Rightarrow> (nat \<Rightarrow> u64) \<Rightarrow> executor_ptr \<Rightarrow> (unit \<Rightarrow> 'a) \<Rightarrow> Promise \<Rightarrow> unit uthread_machine \<Rightarrow> 'a world \<Rightarrow> bool world \<Rightarrow>
     ('a work list \<times> unit uthread_machine \<times> 'a world \<times> bool world) outcome" where
  "uthread_detached ndebug env checkout ex f p um w wb =
     (let (ran, um) = uthread_construct ndebug um;
          (pd, wb) = Promise_new wb
      in bind_outcome
           (if ran
            then bind_outcome (if ex = None then Inr w else bind_outcome (Promise_forceSched p w) (Promise_checkout checkout p))
                   (\<lambda>w. Promise_setValue env p (f ()) w)
            else Inr ([], w)) (\<lambda>(ws, w).
         bind_outcome (Uthread_join env checkout 0 \<lparr>uth_ex = ex, uth_done = Some pd, uth_joined = False\<rparr> wb) (\<lambda>(j, u, wb).
         Inr (ws @ Promise_destroy p, um, w, wb))))"

text \<open>\<^verbatim>\<open>async\<close> with a future; under \<open>Schedule\<close> the executor is handed the construction of the uthread as a task.\<close>

datatype 'a async_result = Async_scheduled Promise | Async_ran "'a work list" "unit uthread_machine" "bool world"

definition uthread_async ::
    "bool \<Rightarrow> exec_env \<Rightarrow> (nat \<Rightarrow> u64) \<Rightarrow> Launch \<Rightarrow> executor_ptr \<Rightarrow> (unit \<Rightarrow> 'a) \<Rightarrow> unit uthread_machine \<Rightarrow> 'a world \<Rightarrow> bool world \<Rightarrow>
     ('a Future \<times> 'a async_result \<times> 'a world) outcome" where
  "uthread_async ndebug env checkout policy ex f um w wb =
     bind_outcome (if policy = Schedule \<and> \<not> ndebug then cassert (ex \<noteq> None) else Inr ()) (\<lambda>_.
     let (p, w) = Promise_new w
     in bind_outcome (getFuture p w) (\<lambda>(fut, p, w).
        bind_outcome (Future_via ex fut w) (\<lambda>(rc, w).
        case policy of
          Schedule \<Rightarrow> if ex = None then Inl Undefined_behaviour else Inr (rc, Async_scheduled p, w)
        | Current \<Rightarrow>
            bind_outcome (uthread_detached ndebug env checkout ex f p um w wb) (\<lambda>(ws, um, w, wb).
            Inr (rc, Async_ran ws um wb, w))
        | Prompt \<Rightarrow> if ndebug then Inr (rc, Async_ran (Promise_destroy p) um wb, w) else Inl Assert_failed)))"

end
