(* ===== verification/Uthread_Props.thy ===== *)
theory Uthread_Props
  imports Uthread
begin

text \<open>
  What the contexts of the uthreads do: after its creation a uthread is parked before its function, and nothing brings it any further.
\<close>

section \<open>The machine of the plain thread\<close>

text \<open>With \<open>n\<close> uthreads made, all that is suspended waits in \<^verbatim>\<open>initial_switch_in_completed\<close>.\<close>

definition um_inv :: "nat \<Rightarrow> 'e uthread_machine \<Rightarrow> bool" where
  "um_inv n m \<longleftrightarrow>
     length (um_funcs m) = n \<and>
     g_current_context m = (if n = 0 then None else Some (Context_of (n - 1))) \<and>
     (\<forall>a r. um_suspended m a = Some r \<longrightarrow> (\<exists>q. r = After_initial_switch_in q)) \<and>
     (\<forall>q < n. uth_thread (um_contexts m (Context_of q)) = Some q)"

lemma um_inv_new: "um_inv 0 um_new"
  by (simp add: um_inv_def um_new_def)

text \<open>Creating a uthread takes three steps and comes back to the creator.\<close>

lemma create_returns:
  assumes inv: "um_inv n m"
  obtains m' where "um_inv (Suc n) m'" "um_events m' = um_events m" "um_funcs m' = um_funcs m @ [func]"
    "\<And>fuel. uthread_run nd (Suc (Suc (Suc fuel))) (Running None (Create func # rest)) m = uthread_run nd fuel (Running None rest) m'"
proof -
  define c where "c = Context_of n"
  define l where "l = (if n = 0 then Unthreaded_context else Context_of (n - 1))"
  have cl: "c \<noteq> l" by (auto simp: c_def l_def)
  let ?a = "um_next m"
  have len: "length (um_funcs m) = n" and old: "(case g_current_context m of None \<Rightarrow> Some Unthreaded_context | Some l \<Rightarrow> Some l) = Some l"
    using inv by (auto simp: um_inv_def l_def)
  define m1 where "m1 = m\<lparr>um_funcs := um_funcs m @ [func], g_current_context := Some c,
      um_contexts := (um_contexts m)(c := \<lparr>fcontext = Some ?a, link = Some l, uth_thread = Some n\<rparr>),
      um_suspended := (um_suspended m)(?a := None, ?a + 1 \<mapsto> After_switch_in c None rest), um_next := ?a + 2\<rparr>"
  have step1: "uthread_step nd (Running None (Create func # rest)) m = Some (Inr (Resuming At_s_main (?a + 1) (Some n), m1))"
    by (simp add: thread_context_new_def make_fcontext_def link_switch_in_def um_update_def jump_fcontext_def len c_def[symmetric]
        old Let_def m1_def)
  define m2 where "m2 = m1\<lparr>um_contexts := (um_contexts m1)(l := (um_contexts m1 l)\<lparr>fcontext := Some (?a + 1)\<rparr>),
      um_suspended := (um_suspended m1)(?a + 1 := None, ?a + 2 \<mapsto> After_initial_switch_in n), um_next := ?a + 3\<rparr>"
  have step2: "uthread_step nd (Resuming At_s_main (?a + 1) (Some n)) m1
      = Some (Inr (Resuming (After_switch_in c None rest) (?a + 2) (Some n), m2))"
    using cl by (simp add: s_main_def m1_def m2_def c_def[symmetric] cassert_def initial_switch_in_completed_def um_update_def jump_fcontext_def)
  define m3 where "m3 = um_update c (\<lambda>x. x\<lparr>fcontext := Some (?a + 2)\<rparr>) m2"
  have step3: "uthread_step nd (Resuming (After_switch_in c None rest) (?a + 2) (Some n)) m2 = Some (Inr (Running None rest, m3))"
    by (simp add: m3_def)
  have "um_inv (Suc n) m3"
    using inv cl by (auto simp: um_inv_def m3_def m2_def m1_def um_update_def c_def l_def less_Suc_eq split: if_splits)
  moreover have "um_events m3 = um_events m" "um_funcs m3 = um_funcs m @ [func]" by (simp_all add: m3_def m2_def m1_def um_update_def)
  moreover have "uthread_run nd (Suc (Suc (Suc fuel))) (Running None (Create func # rest)) m = uthread_run nd fuel (Running None rest) m3" for fuel
    by (simp only: uthread_run.simps step1 step2 step3 option.case sum.case prod.case)
  ultimately show thesis by (rule that)
qed




section \<open>No uthread runs\<close>


text \<open>The code of the plain thread, in every place where code waits.\<close>

fun plain_point :: "'e resume_point \<Rightarrow> bool" where
  "plain_point (After_switch_in c flow rest) \<longleftrightarrow> flow = None"
| "plain_point (After_switch_out c flow rest) \<longleftrightarrow> flow = None"
| "plain_point _ \<longleftrightarrow> True"


definition plain_machine :: "'e uthread_machine \<Rightarrow> bool" where
  "plain_machine m \<longleftrightarrow> (\<forall>a r. um_suspended m a = Some r \<longrightarrow> plain_point r)"

lemma plain_update [simp]: "plain_machine (um_update c f m) = plain_machine m" "plain_machine (m\<lparr>g_current_context := x\<rparr>) = plain_machine m"
  "plain_machine (m\<lparr>um_events := es\<rparr>) = plain_machine m" "plain_machine (m\<lparr>um_funcs := fs\<rparr>) = plain_machine m"
  by (simp_all add: plain_machine_def um_update_def)





text \<open>What the plain thread does itself, and the uthreads it makes, up to its first switch.\<close>

fun is_switch :: "'e uop \<Rightarrow> bool" where
  "is_switch (Switch_in q) = True"
| "is_switch (Switch_out q) = True"
| "is_switch _ = False"

definition own_events :: "'e uop list \<Rightarrow> 'e list" where
  "own_events ops = concat (map (\<lambda>op. case op of Event e \<Rightarrow> [e] | _ \<Rightarrow> []) ops)"

definition created :: "'e uop list \<Rightarrow> 'e uop list list" where
  "created ops = concat (map (\<lambda>op. case op of Create f \<Rightarrow> [f] | _ \<Rightarrow> []) ops)"

lemma run_plain:
  assumes "um_inv n m" "\<not> (\<exists>op\<in>set ops. is_switch op)"
  shows "\<exists>m' k. um_inv (n + length (created ops)) m' \<and> um_events m' = um_events m @ own_events ops \<and>
    um_funcs m' = um_funcs m @ created ops \<and>
    k \<le> 3 * length ops \<and> (\<forall>fuel. uthread_run nd (k + fuel) (Running None (ops @ rest)) m = uthread_run nd fuel (Running None rest) m')"
  using assms
proof (induction ops arbitrary: n m)
  case Nil
  then show ?case by (intro exI[of _ m] exI[of _ 0]) (simp add: created_def own_events_def)
next
  case (Cons op ops)
  then have "\<not> (\<exists>op\<in>set ops. is_switch op)" "\<not> is_switch op" by auto
  note IH = Cons.IH[OF _ this(1)]
  show ?case
  proof (cases op)
    case (Create func)
    obtain m1 where m1: "um_inv (Suc n) m1" "um_events m1 = um_events m" "um_funcs m1 = um_funcs m @ [func]"
      and run1: "\<And>fuel. uthread_run nd (Suc (Suc (Suc fuel))) (Running None (Create func # ops @ rest)) m
        = uthread_run nd fuel (Running None (ops @ rest)) m1"
      by (rule create_returns[OF Cons.prems(1), of func nd "ops @ rest"]) blast
    from IH[OF m1(1)] obtain m' k where m': "um_inv (Suc n + length (created ops)) m'" "um_events m' = um_events m1 @ own_events ops"
      "um_funcs m' = um_funcs m1 @ created ops" "k \<le> 3 * length ops"
      and run: "\<And>fuel. uthread_run nd (k + fuel) (Running None (ops @ rest)) m1 = uthread_run nd fuel (Running None rest) m'"
      by auto
    have "uthread_run nd (Suc (Suc (Suc k)) + fuel) (Running None ((op # ops) @ rest)) m = uthread_run nd fuel (Running None rest) m'" for fuel
      using run1[of "k + fuel"] run[of fuel] by (simp add: Create)
    then show ?thesis
      by (intro exI[of _ m'] exI[of _ "Suc (Suc (Suc k))"]) (use m' m1 in \<open>simp add: Create created_def own_events_def\<close>)
  next
    case (Event e)
    have "um_inv n (m\<lparr>um_events := um_events m @ [e]\<rparr>)" using Cons.prems by (simp add: um_inv_def)
    from IH[OF this] obtain m' k where m': "um_inv (n + length (created ops)) m'" "um_events m' = um_events m @ e # own_events ops"
      "um_funcs m' = um_funcs m @ created ops" "k \<le> 3 * length ops"
      and run: "\<And>fuel. uthread_run nd (k + fuel) (Running None (ops @ rest)) (m\<lparr>um_events := um_events m @ [e]\<rparr>)
         = uthread_run nd fuel (Running None rest) m'" by auto
    show ?thesis
      by (intro exI[of _ m'] exI[of _ "Suc k"]) (use m' run in \<open>simp add: Event created_def own_events_def\<close>)
  qed (use \<open>\<not> is_switch op\<close> in simp_all)
qed





section \<open>\<open>join\<close>, \<open>await\<close> and \<open>async\<close>\<close>

lemma uthread_construct_parks:
  assumes "um_inv n um"
  obtains um' where "uthread_construct nd um = (False, um')" "um_inv (Suc n) um'" "um_events um' = um_events um"
proof -
  obtain m' k where m': "um_inv (n + length (created [Create [Event ()]])) m'" "um_events m' = um_events um @ own_events [Create [Event ()]]"
    and k: "k \<le> 3" and run: "\<And>fuel. uthread_run nd (k + fuel) (Running None [Create [Event ()]]) um = uthread_run nd fuel (Running None []) m'"
    using run_plain[OF assms, of "[Create [Event ()]]" nd "[]"] by auto
  have "uthread_run nd 4 (Running None [Create [Event ()]]) um = Some (Inr m')"
    using run[of "Suc (3 - k)"] k by (simp add: numeral_eq_Suc)
  with m' show thesis by (intro that[of m']) (simp_all add: uthread_construct_def created_def own_events_def)
qed

text \<open>\<^verbatim>\<open>join\<close> calls back at once, since the future of \<^verbatim>\<open>done_\<close> counts as ready from the start.\<close>

lemma join_calls_back:
  assumes "Promise_new wb = (pd, wb1)"
  shows "\<exists>u' wb'. Uthread_join env checkout n \<lparr>uth_ex = ex, uth_done = Some pd, uth_joined = False\<rparr> wb1 = Inr (Called_back, u', wb')"
  using assms
  by (auto simp: Uthread_join_def Promise_new_pair at_end_def getFuture_def Promise_valid_def Future_of_shared_def heap_simps
      outcome_simps attachPromise_def attachOne_def FutureState_new_def Future_via_def Future_setExecutor_def Future_move_def
      Future_hasResult_def LocalState_default_hasResult LocalState_hasResult_def LocalState_default_def Future_destroy_def detachOne_def Let_def
      FutureState_setExecutor_def Try_available_def Try_default_def Try_hasError_def)

text \<open>C22: \<^verbatim>\<open>async\<close> on the current thread returns a future that fails: the function is never called, \<^verbatim>\<open>detach\<close> finds the uthread done
  before it started, and the uthread's destructor breaks the promise, so the result is the exception that the promise is
  broken. \<^verbatim>\<open>await\<close> of a future whose promise is not set does not wait either but throws that the \<^verbatim>\<open>Try\<close> is empty.\<close>

theorem uthread_async_breaks_promise:
  assumes um: "um_inv n um"
  shows "(\<exists>rc ws um' wb' w'. uthread_async nd env checkout Current ex f um w wb = Inr (rc, Async_ran ws um' wb', w') \<and>
      um_events um' = um_events um \<and>
      (\<exists>w''. exec_work 2 env ws w' = Some (Inr w'') \<and>
         Future_result rc w'' = Inr (Exc (Some (Runtime_error ''Promise is broken''))))) \<and>
    (let (pr, w1) = Promise_new w in bind_outcome (getFuture pr w1) (\<lambda>(fut, pr, w2). uthread_await env fut w2)) =
      Inr (Await_returns (Inl (Logic_error ''Try object is empty'')))"
proof
  obtain um' where um': "uthread_construct nd um = (False, um')" "um_events um' = um_events um"
    by (rule uthread_construct_parks[OF um])
  obtain pd wb1 where pd: "Promise_new wb = (pd, wb1)" by fastforce
  obtain u' wb' where join: "Uthread_join env checkout 0 \<lparr>uth_ex = ex, uth_done = Some pd, uth_joined = False\<rparr> wb1 = Inr (Called_back, u', wb')"
    using join_calls_back[OF pd] by blast
  define p where "p = length (w_heap w)"
  define cell where "cell = FutureState_setExecutor ex (pending_cell :: 'a cell)"
  define fin where "fin = cell\<lparr>fs_state := State_ONLY_RESULT, fs_attached := 1, fs_promiseRef := 0,
      fs_try_value := Exc (Some (Runtime_error ''Promise is broken''))\<rparr>"
  define rc :: "'a Future" where "rc = \<lparr>fut_shared = Some p, fut_local = LocalState_default\<rparr>"
  define w' where "w' = at_end w [cell]"
  have async: "uthread_async nd env checkout Current ex f um w wb = Inr (rc, Async_ran [W_detach p] um' wb', w')"
    by (simp add: uthread_async_def new_pair Future_via_def Future_setExecutor_def heap_simps outcome_simps at_end_def
        uthread_detached_def um' pd join Promise_destroy_def Future_move_def rc_def p_def w'_def cell_def LocalState_default_def)
  show "\<exists>rc ws um' wb' w'. uthread_async nd env checkout Current ex f um w wb = Inr (rc, Async_ran ws um' wb', w') \<and>
      um_events um' = um_events um \<and>
      (\<exists>w''. exec_work 2 env ws w' = Some (Inr w'') \<and>
         Future_result rc w'' = Inr (Exc (Some (Runtime_error ''Promise is broken''))))"
  proof (intro exI conjI)
    show "exec_work 2 env [W_detach p] w' = Some (Inr (at_end w [fin]))"
      by (simp add: w'_def cell_def numeral_2_eq_2 p_def heap_simps at_end_def outcome_simps detachPromise_def pending_cell_def
          FutureState_new_def setResult_def FutureState_setExecutor_def Let_def after_dispatch_def detachOne_def fin_def)
    show "Future_result rc (at_end w [fin]) = Inr (Exc (Some (Runtime_error ''Promise is broken'')))"
      by (simp add: rc_def at_end_def p_def fin_def Future_result_def Future_getTry_def Future_valid_def Future_hasResult_def
          LocalState_default_hasResult FutureState_getTry_def outcome_simps heap_simps)
  qed (rule async, rule um'(2))
next
  show "(let (pr, w1) = Promise_new w in bind_outcome (getFuture pr w1) (\<lambda>(fut, pr, w2). uthread_await env fut w2)) =
      Inr (Await_returns (Inl (Logic_error ''Try object is empty'')))"
    by (simp add: new_pair heap_simps outcome_simps at_end_def uthread_await_def
        Future_hasResult_def LocalState_default_hasResult Future_value_def Future_result_def
        Future_getTry_def Future_valid_def FutureState_getTry_def pending_cell_def FutureState_new_def)
qed

lemma uthread_async_breaks_promise_witness:
  "\<forall>env checkout. \<exists>rc ws um wb w. uthread_async False env checkout Current (Some 1) (\<lambda>_. 7::nat) um_new
      \<lparr>w_heap = [], w_tasks = [], w_calls = []\<rparr> \<lparr>w_heap = [], w_tasks = [], w_calls = []\<rparr> = Inr (rc, Async_ran ws um wb, w) \<and>
    um_events um = []"
  using uthread_async_breaks_promise[OF um_inv_new, THEN conjunct1] by (fastforce simp: um_new_def)

text \<open>
  Without assertions the second switch into a uthread runs its function, but nothing comes back: the switch that ended the creation left
  a context behind that was already resumed.
\<close>

lemma without_assertions:
  "uthread_run True 20 (Running None [Create [Event 1, Switch_out 0], Switch_in 0, Event (2::nat)]) um_new = Some (Inl Undefined_behaviour)"
  "uthread_run True 20 (Running None [Create [Event 1], Switch_in 0, Event (2::nat)]) um_new = Some (Inl Undefined_behaviour)"
  by (simp_all add: numeral_eq_Suc thread_context_new_def make_fcontext_def link_switch_in_def link_switch_out_def um_update_def
      jump_fcontext_def um_new_def jmp_buf_link_new_def s_main_def initial_switch_in_completed_def)

end
