(* ===== verification/Thread_Pool.thy ===== *)
theory Thread_Pool
  imports Prelude "HOL-Library.Multiset"
begin

text \<open>
  The blocking queue of \<^verbatim>\<open>src/util/Queue.h\<close> and the thread pool of \<^verbatim>\<open>src/util/ThreadPool.h\<close>: one queue
  per worker, optional work stealing, shutdown by draining. A task is an abstract value of type
  \<open>'t\<close>. What the environment decides is an argument: whether a \<^verbatim>\<open>try_to_lock\<close> succeeds, and the
  value of \<^verbatim>\<open>std::rand()\<close>. Each operation runs under the queue's mutex, so it is one step.
\<close>

section \<open>Queue<T>\<close>

record 'a Queue =
  q_queue :: "'a list"
  q_stop :: bool

definition Queue_new :: "'a Queue" where
  "Queue_new = \<lparr>q_queue = [], q_stop = False\<rparr>"

definition Queue_push :: "'a \<Rightarrow> 'a Queue \<Rightarrow> 'a Queue" where
  "Queue_push elem q = q\<lparr>q_queue := q_queue q @ [elem]\<rparr>"

definition Queue_try_push :: "bool \<Rightarrow> 'a \<Rightarrow> 'a Queue \<Rightarrow> 'a Queue option" where
  "Queue_try_push lock elem q =
     (if \<not> lock then None else Some (q\<lparr>q_queue := q_queue q @ [elem]\<rparr>))"

text \<open>\<^verbatim>\<open>pop\<close> waits until the queue has an element or was stopped.\<close>

datatype 'a pop_result = Pop_blocked | Pop_false | Pop_item 'a "'a Queue"

definition Queue_pop :: "'a Queue \<Rightarrow> 'a pop_result" where
  "Queue_pop q =
     (if \<not> (q_queue q \<noteq> [] \<or> q_stop q) then Pop_blocked
      else case q_queue q of
             [] \<Rightarrow> Pop_false
           | item # rest \<Rightarrow> Pop_item item (q\<lparr>q_queue := rest\<rparr>))"

definition Queue_try_pop :: "bool \<Rightarrow> 'a Queue \<Rightarrow> ('a \<times> 'a Queue) option" where
  "Queue_try_pop lock q =
     (if \<not> lock then None
      else case q_queue q of [] \<Rightarrow> None | item # rest \<Rightarrow> Some (item, q\<lparr>q_queue := rest\<rparr>))"

text \<open>The predicate may be the null function.\<close>

definition Queue_try_pop_if ::
    "bool \<Rightarrow> ('a \<Rightarrow> bool) option \<Rightarrow> 'a Queue \<Rightarrow> ('a \<times> 'a Queue) option" where
  "Queue_try_pop_if lock predict q =
     (if \<not> lock then None
      else case q_queue q of
             [] \<Rightarrow> None
           | item # rest \<Rightarrow>
               (case predict of
                  Some pr \<Rightarrow> if \<not> pr item then None else Some (item, q\<lparr>q_queue := rest\<rparr>)
                | None \<Rightarrow> Some (item, q\<lparr>q_queue := rest\<rparr>)))"

definition Queue_size :: "'a Queue \<Rightarrow> nat" where
  "Queue_size q = length (q_queue q)"

definition Queue_empty :: "'a Queue \<Rightarrow> bool" where
  "Queue_empty q = (q_queue q = [])"

definition Queue_stop :: "'a Queue \<Rightarrow> 'a Queue" where
  "Queue_stop q = q\<lparr>q_stop := True\<rparr>"

lemmas Queue_defs =
  Queue_new_def Queue_push_def Queue_try_push_def Queue_pop_def Queue_try_pop_def
  Queue_try_pop_if_def Queue_size_def Queue_empty_def Queue_stop_def

section \<open>The interface the pool uses\<close>

text \<open>
  The pool needs of its queues that pushing appends, that taking removes the first element, and that
  nothing else changes the elements. \<open>taken\<close> is the pool-level consequence: over a vector of queues,
  a push adds exactly one task and a take removes exactly one.
\<close>

locale task_queue =
  fixes push :: "'a \<Rightarrow> 'q \<Rightarrow> 'q"
    and take_one :: "'q \<Rightarrow> ('a \<times> 'q) option"
    and items :: "'q \<Rightarrow> 'a list"
  assumes items_push: "items (push x q) = items q @ [x]"
    and items_take: "take_one q = Some (x, q') \<Longrightarrow> items q = x # items q'"
begin

definition all_items :: "'q list \<Rightarrow> 'a multiset" where
  "all_items qs = sum_list (map (\<lambda>q. mset (items q)) qs)"

lemma all_items_Nil [simp]: "all_items [] = {#}"
  and all_items_Cons [simp]: "all_items (q # qs) = mset (items q) + all_items qs"
  by (simp_all add: all_items_def)

lemma all_items_split:
  "i < length qs \<Longrightarrow>
   all_items qs = mset (items (qs ! i)) + all_items (List.take i qs @ drop (Suc i) qs)"
  by (subst id_take_nth_drop[of i qs]) (simp_all add: all_items_def)

lemma all_items_update:
  "i < length qs \<Longrightarrow>
   all_items (qs[i := q]) = mset (items q) + all_items (List.take i qs @ drop (Suc i) qs)"
  by (simp add: upd_conv_take_nth_drop all_items_def)

lemma all_items_push:
  "i < length qs \<Longrightarrow> all_items (qs[i := push x (qs ! i)]) = add_mset x (all_items qs)"
  by (simp add: all_items_update all_items_split[of i qs] items_push)

lemma all_items_take:
  "i < length qs \<Longrightarrow> take_one (qs ! i) = Some (x, q') \<Longrightarrow>
   all_items qs = add_mset x (all_items (qs[i := q']))"
  by (simp add: all_items_update all_items_split[of i qs] items_take)

end

definition pop_option :: "'a Queue \<Rightarrow> ('a \<times> 'a Queue) option" where
  "pop_option q = (case Queue_pop q of Pop_item x q' \<Rightarrow> Some (x, q') | _ \<Rightarrow> None)"

interpretation popq: task_queue Queue_push pop_option q_queue
  by unfold_locales (auto simp: Queue_defs pop_option_def split: if_splits list.splits)

interpretation tryq: task_queue Queue_push "Queue_try_pop lock" q_queue for lock
  by unfold_locales (auto simp: Queue_defs split: if_splits list.splits)

interpretation stealq: task_queue Queue_push "Queue_try_pop_if lock predict" q_queue for lock predict
  by unfold_locales (auto simp: Queue_defs split: if_splits list.splits option.splits)

section \<open>ThreadPool\<close>

record 't WorkItem =
  canSteal :: bool
  wi_fn :: "'t option"

definition WorkItem_default :: "'t WorkItem" where
  "WorkItem_default = \<lparr>canSteal = False, wi_fn = None\<rparr>"

datatype ERROR_TYPE = ERROR_NONE | ERROR_POOL_HAS_STOP | ERROR_POOL_ITEM_IS_NULL

record 't ThreadPool =
  tp_threadNum :: int
  tp_queues :: "'t WorkItem Queue list"
  tp_stop :: bool
  tp_enableWorkSteal :: bool

text \<open>The thread count fits the \<^verbatim>\<open>int32_t\<close> it is stored in.\<close>

definition ThreadPool_new :: "nat \<Rightarrow> bool \<Rightarrow> 't ThreadPool" where
  "ThreadPool_new threadNum enableWorkSteal =
     \<lparr>tp_threadNum = int threadNum, tp_queues = replicate threadNum Queue_new, tp_stop = False,
      tp_enableWorkSteal = enableWorkSteal\<rparr>"

text \<open>
  The attempts of a loop over \<^verbatim>\<open>i\<close>: \<open>lock i\<close> says whether the \<^verbatim>\<open>try_to_lock\<close> of attempt \<open>i\<close> succeeds.
\<close>

fun try_push_loop ::
    "(nat \<Rightarrow> bool) \<Rightarrow> 'a \<Rightarrow> nat list \<Rightarrow> 'a Queue list \<Rightarrow> 'a Queue list option" where
  "try_push_loop lock item [] qs = None"
| "try_push_loop lock item (i # is) qs =
     (case Queue_try_push (lock i) item (qs ! (i mod length qs)) of
        Some q \<Rightarrow> Some (qs[i mod length qs := q])
      | None \<Rightarrow> try_push_loop lock item is qs)"

definition scheduleById ::
    "(nat \<Rightarrow> bool) \<Rightarrow> nat \<Rightarrow> 't option \<Rightarrow> int \<Rightarrow> 't ThreadPool \<Rightarrow> (ERROR_TYPE \<times> 't ThreadPool) outcome"
where
  "scheduleById lock rand f tid p =
     (if f = None then Inr (ERROR_POOL_ITEM_IS_NULL, p)
      else if tp_stop p then Inr (ERROR_POOL_HAS_STOP, p)
      else
        (let item = \<lparr>canSteal = True, wi_fn = f\<rparr>; qs = tp_queues p; n = length qs
         in if tid = -1 then
              (case (if tp_enableWorkSteal p then try_push_loop lock item [0..<2 * n] qs else None) of
                 Some qs' \<Rightarrow> Inr (ERROR_NONE, p\<lparr>tp_queues := qs'\<rparr>)
               | None \<Rightarrow>
                   if n = 0 then Inl Undefined_behaviour
                   else Inr (ERROR_NONE,
                          p\<lparr>tp_queues := qs[rand mod n := Queue_push item (qs ! (rand mod n))]\<rparr>))
            else
              bind_outcome (cassert (tid < tp_threadNum p)) (\<lambda>_.
              if tid < 0 then Inl Undefined_behaviour
              else Inr (ERROR_NONE,
                     p\<lparr>tp_queues := qs[nat tid := Queue_push item (qs ! nat tid)]\<rparr>))))"

text \<open>The thread-local pair of a worker number and the pool it belongs to.\<close>

type_synonym current_pool = "int \<times> nat option"

definition getCurrent_default :: current_pool where
  "getCurrent_default = (-1, None)"

definition getCurrentId :: "nat \<Rightarrow> current_pool \<Rightarrow> int" where
  "getCurrentId this current = (if snd current = Some this then fst current else -1)"

definition getItemCount :: "'t ThreadPool \<Rightarrow> nat" where
  "getItemCount p = foldl (\<lambda>res q. res + Queue_size q) 0 (tp_queues p)"

definition getThreadNum :: "'t ThreadPool \<Rightarrow> int" where
  "getThreadNum p = tp_threadNum p"

text \<open>One round of the worker's loop.\<close>

fun steal_loop ::
    "(nat \<Rightarrow> bool) \<Rightarrow> nat \<Rightarrow> nat list \<Rightarrow> 't WorkItem Queue list \<Rightarrow>
     ('t WorkItem \<times> 't WorkItem Queue list)" where
  "steal_loop lock tid [] qs = (WorkItem_default, qs)"
| "steal_loop lock tid (i # is) qs =
     (let k = (i + tid) mod length qs
      in case Queue_try_pop_if (lock i) (Some canSteal) (qs ! k) of
           Some (item, q) \<Rightarrow> (item, qs[k := q])
         | None \<Rightarrow> steal_loop lock tid is qs)"

datatype 't worker_result =
    Worker_exit "'t ThreadPool"
  | Worker_retry "'t ThreadPool"
  | Worker_blocked "'t ThreadPool"
  | Worker_ran "'t option" "'t ThreadPool"

definition worker_round :: "(nat \<Rightarrow> bool) \<Rightarrow> nat \<Rightarrow> 't ThreadPool \<Rightarrow> 't worker_result" where
  "worker_round lock tid p =
     (let qs = tp_queues p;
          (item, qs) = (if tp_enableWorkSteal p then steal_loop lock tid [0..<2 * length qs] qs
                        else (WorkItem_default, qs))
      in if wi_fn item = None then
           (case Queue_pop (qs ! tid) of
              Pop_blocked \<Rightarrow> Worker_blocked (p\<lparr>tp_queues := qs\<rparr>)
            | Pop_false \<Rightarrow> if tp_stop p then Worker_exit (p\<lparr>tp_queues := qs\<rparr>)
                           else Worker_retry (p\<lparr>tp_queues := qs\<rparr>)
            | Pop_item it q \<Rightarrow> Worker_ran (wi_fn it) (p\<lparr>tp_queues := qs[tid := q]\<rparr>))
         else Worker_ran (wi_fn item) (p\<lparr>tp_queues := qs\<rparr>))"

text \<open>The destructor up to joining the workers.\<close>

definition ThreadPool_shutdown :: "'t ThreadPool \<Rightarrow> 't ThreadPool" where
  "ThreadPool_shutdown p = p\<lparr>tp_stop := True, tp_queues := map Queue_stop (tp_queues p)\<rparr>"

text \<open>A worker running alone: the tasks it ran, the pool it leaves, and whether it exited.\<close>

fun worker_loop :: "nat \<Rightarrow> (nat \<Rightarrow> bool) \<Rightarrow> nat \<Rightarrow> 't ThreadPool \<Rightarrow> 't list \<times> 't ThreadPool \<times> bool" where
  "worker_loop 0 lock tid p = ([], p, False)"
| "worker_loop (Suc fuel) lock tid p =
     (case worker_round lock tid p of
        Worker_exit p' \<Rightarrow> ([], p', True)
      | Worker_retry p' \<Rightarrow> worker_loop fuel lock tid p'
      | Worker_blocked p' \<Rightarrow> ([], p', False)
      | Worker_ran f p' \<Rightarrow>
          (let (fs, r) = worker_loop fuel lock tid p'
           in ((case f of None \<Rightarrow> [] | Some x \<Rightarrow> [x]) @ fs, r)))"

end
