(* ===== verification/Executors.thy ===== *)
theory Executors
  imports Thread_Pool_Props
begin

text \<open>
  The executors: the base class of \<^verbatim>\<open>src/Executor.h\<close> with its default members, the
  \<open>SimpleExecutor\<close> of \<^verbatim>\<open>src/executors/SimpleExecutor.h\<close> on the thread pool, and the
  \<open>SimpleIOExecutor\<close> of \<^verbatim>\<open>src/executors/SimpleIOExecutor.h\<close>, whose kernel calls (\<^verbatim>\<open>io_submit\<close>,
  \<^verbatim>\<open>io_getevents\<close>) are arguments. The interface a client relies on is the locale \<open>executor\<close>.
\<close>

section \<open>The base class\<close>

record ExecutorStat =
  pendingTaskCount :: u64

definition ExecutorStat_new :: ExecutorStat where
  "ExecutorStat_new = \<lparr>pendingTaskCount = 0\<rparr>"

record ScheduleOptions =
  prompt :: bool

definition ScheduleOptions_new :: ScheduleOptions where
  "ScheduleOptions_new = \<lparr>prompt = True\<rparr>"

datatype Priority = HIGHEST | DEFAULT | YIELD | LOWEST

fun Priority_value :: "Priority \<Rightarrow> u64" where
  "Priority_value HIGHEST = 0x0"
| "Priority_value DEFAULT = 0x7"
| "Priority_value YIELD = 0x8"
| "Priority_value LOWEST = 0xF"

text \<open>Priorities are ordered by their level: less is more important.\<close>

instantiation Priority :: linorder
begin

definition less_eq_Priority :: "Priority \<Rightarrow> Priority \<Rightarrow> bool" where
  "p \<le> q \<longleftrightarrow> Priority_value p \<le> Priority_value q"

definition less_Priority :: "Priority \<Rightarrow> Priority \<Rightarrow> bool" where
  "p < q \<longleftrightarrow> Priority_value p < Priority_value q"

instance
proof
  fix x y :: Priority
  show "x \<le> y \<Longrightarrow> y \<le> x \<Longrightarrow> x = y"
    by (cases x; cases y) (simp_all add: less_eq_Priority_def)
qed (auto simp: less_eq_Priority_def less_Priority_def)

end

text \<open>
  The virtual members a derived class may leave alone; \<open>sched\<close> is the derived class's
  \<^verbatim>\<open>schedule(Func)\<close>.
\<close>

definition Executor_schedule_info :: "('f \<Rightarrow> 'r) \<Rightarrow> 'f \<Rightarrow> u64 \<Rightarrow> 'r" where
  "Executor_schedule_info sched func schedule_info = sched func"

definition Executor_schedule_move_only :: "('f \<Rightarrow> 'r) \<Rightarrow> 'f \<Rightarrow> 'r" where
  "Executor_schedule_move_only sched func = sched func"

definition Executor_currentThreadInExecutor :: "bool outcome" where
  "Executor_currentThreadInExecutor = Inl (Logic_error ''Not implemented'')"

definition Executor_stat :: "ExecutorStat outcome" where
  "Executor_stat = Inl (Logic_error ''Not implemented'')"

definition Executor_currentContextId :: u64 where
  "Executor_currentContextId = 0"

definition Executor_checkout :: u64 where
  "Executor_checkout = NULLCTX"

definition Executor_checkin :: "('f \<Rightarrow> 'r) \<Rightarrow> 'f \<Rightarrow> u64 \<Rightarrow> ScheduleOptions \<Rightarrow> 'r" where
  "Executor_checkin sched func ctx opts = sched func"

text \<open>The two-argument \<^verbatim>\<open>checkin\<close> calls the derived three-argument one with the default options.\<close>

definition Executor_checkin2 :: "('f \<Rightarrow> u64 \<Rightarrow> ScheduleOptions \<Rightarrow> 'r) \<Rightarrow> 'f \<Rightarrow> u64 \<Rightarrow> 'r" where
  "Executor_checkin2 checkin func ctx = checkin func ctx ScheduleOptions_new"

definition Executor_getIOExecutor :: "unit outcome" where
  "Executor_getIOExecutor = Inl (Logic_error ''Not implemented'')"

text \<open>
  Delayed scheduling starts a detached thread that sleeps and then calls \<^verbatim>\<open>schedule\<close>; the sleeping
  threads of an executor are the list of their durations (microseconds) and functions.
\<close>

type_synonym 'f sleepers = "(int \<times> 'f) list"

definition Executor_schedule_after :: "'f \<Rightarrow> int \<Rightarrow> 'f sleepers \<Rightarrow> 'f sleepers" where
  "Executor_schedule_after func dur sl = sl @ [(dur, func)]"

definition Executor_schedule_after_info :: "'f \<Rightarrow> int \<Rightarrow> u64 \<Rightarrow> 'f sleepers \<Rightarrow> 'f sleepers" where
  "Executor_schedule_after_info func dur schedule_info sl = Executor_schedule_after func dur sl"

record TimeAwaiter =
  ta_ex :: executor_ptr
  ta_dur :: int
  ta_schedule_info :: u64

type_synonym TimeAwaitable = TimeAwaiter

definition TimeAwaiter_await_ready :: "TimeAwaiter \<Rightarrow> bool" where
  "TimeAwaiter_await_ready a = False"

definition TimeAwaiter_await_suspend :: "TimeAwaiter \<Rightarrow> 'f \<Rightarrow> 'f sleepers \<Rightarrow> 'f sleepers outcome" where
  "TimeAwaiter_await_suspend a continuation sl =
     (if ta_ex a = None then Inl Undefined_behaviour
      else Inr (Executor_schedule_after_info continuation (ta_dur a) (ta_schedule_info a) sl))"

definition TimeAwaitable_coAwait :: "TimeAwaitable \<Rightarrow> TimeAwaiter" where
  "TimeAwaitable_coAwait a =
     \<lparr>ta_ex = ta_ex a, ta_dur = ta_dur a, ta_schedule_info = ta_schedule_info a\<rparr>"

definition Executor_after_info :: "nat \<Rightarrow> int \<Rightarrow> u64 \<Rightarrow> TimeAwaitable" where
  "Executor_after_info this dur schedule_info =
     \<lparr>ta_ex = Some this, ta_dur = dur, ta_schedule_info = schedule_info\<rparr>"

definition Executor_after :: "nat \<Rightarrow> int \<Rightarrow> TimeAwaitable" where
  "Executor_after this dur = Executor_after_info this dur (Priority_value DEFAULT)"

text \<open>A sleeping thread wakes up and schedules its function.\<close>

definition Executor_wake :: "('f \<Rightarrow> 's \<Rightarrow> (bool \<times> 's) outcome) \<Rightarrow> nat \<Rightarrow> 'f sleepers \<Rightarrow> 's \<Rightarrow>
    ('f sleepers \<times> 's) outcome" where
  "Executor_wake sched i sl s =
     bind_outcome (sched (snd (sl ! i)) s) (\<lambda>(_, s'). Inr (List.take i sl @ drop (Suc i) sl, s'))"

section \<open>The interface of an executor\<close>

text \<open>
  What \<^verbatim>\<open>Executor::schedule\<close> promises: answering true, it will run the function (the function is now
  pending); answering false, it will not.
\<close>

locale executor =
  fixes sched :: "'f \<Rightarrow> 's \<Rightarrow> (bool \<times> 's) outcome"
    and pending :: "'s \<Rightarrow> 'f multiset"
    and inv :: "'s \<Rightarrow> bool"
  assumes sched_inv: "inv s \<Longrightarrow> sched f s = Inr (b, s') \<Longrightarrow> inv s'"
    and sched_pending: "inv s \<Longrightarrow> sched f s = Inr (b, s') \<Longrightarrow>
      pending s' = (if b then add_mset f (pending s) else pending s)"
begin

text \<open>Scheduling a list: the answers tell exactly which functions became pending.\<close>

fun sched_all :: "'f list \<Rightarrow> 's \<Rightarrow> (bool list \<times> 's) outcome" where
  "sched_all [] s = Inr ([], s)"
| "sched_all (f # fs) s =
     bind_outcome (sched f s) (\<lambda>(b, s1). bind_outcome (sched_all fs s1) (\<lambda>(bs, s2). Inr (b # bs, s2)))"

lemma sched_all_pending:
  "inv s \<Longrightarrow> sched_all fs s = Inr (bs, s') \<Longrightarrow>
   inv s' \<and> length bs = length fs \<and>
   pending s' = pending s + mset (map fst (filter snd (zip fs bs)))"
proof (induction fs arbitrary: s bs)
  case (Cons f fs)
  then obtain b s1 bs1 where
    st: "sched f s = Inr (b, s1)" "sched_all fs s1 = Inr (bs1, s')" "bs = b # bs1"
    by (auto simp: bind_Inr_iff)
  with Cons.IH[of s1 bs1] sched_inv[OF Cons.prems(1) st(1)] sched_pending[OF Cons.prems(1) st(1)]
  show ?case by auto
qed simp

lemma wake_pending:
  assumes "inv s" and "i < length sl" and "Executor_wake sched i sl s = Inr (sl', s')"
  shows "\<exists>b. inv s' \<and> add_mset (snd (sl ! i)) (image_mset snd (mset sl')) = image_mset snd (mset sl) \<and>
    pending s' = (if b then add_mset (snd (sl ! i)) (pending s) else pending s)"
proof -
  obtain b where st: "sched (snd (sl ! i)) s = Inr (b, s')" "sl' = List.take i sl @ drop (Suc i) sl"
    using assms(3) by (auto simp: Executor_wake_def bind_Inr_iff)
  have "mset sl = add_mset (sl ! i) (mset sl')"
    using assms(2) unfolding st(2) by (subst id_take_nth_drop[of i sl]) auto
  with sched_inv[OF assms(1) st(1)] sched_pending[OF assms(1) st(1)] show ?thesis by auto
qed

end

section \<open>SimpleIOExecutor\<close>

datatype iocb_cmd =
    IOCB_CMD_PREAD | IOCB_CMD_PWRITE | IOCB_CMD_FSYNC | IOCB_CMD_FDSYNC | IOCB_CMD_NOOP
  | IOCB_CMD_PREADV | IOCB_CMD_PWRITEV

text \<open>An event; a field the code leaves unset is \<open>None\<close>. \<open>ev_data\<close> is the task's address.\<close>

record io_event_t =
  ev_data :: "nat option"
  ev_obj :: "nat option"
  ev_res :: "int option"
  ev_res2 :: "int option"

record iocb =
  aio_fildes :: int
  aio_lio_opcode :: iocb_cmd
  aio_buf :: nat
  aio_offset :: int
  aio_nbytes :: nat
  aio_data :: nat

text \<open>The heap of \<open>Task\<close> objects maps addresses to callbacks; \<open>io_ran\<close> logs the calls made.\<close>

record 'c SimpleIOExecutor =
  io_shutdown :: bool
  io_started :: bool
  io_tasks :: "nat \<rightharpoonup> 'c"
  io_next :: nat
  io_ran :: "('c \<times> io_event_t) list"

definition KMaxAio :: nat where
  "KMaxAio = 8"

definition SimpleIOExecutor_new :: "'c SimpleIOExecutor" where
  "SimpleIOExecutor_new =
     \<lparr>io_shutdown = False, io_started = False, io_tasks = Map.empty, io_next = 0, io_ran = []\<rparr>"

text \<open>\<open>r\<close> is the result of \<^verbatim>\<open>io_setup\<close>.\<close>

definition SimpleIOExecutor_init :: "int \<Rightarrow> 'c SimpleIOExecutor \<Rightarrow> bool \<times> 'c SimpleIOExecutor" where
  "SimpleIOExecutor_init r s = (if r < 0 then (False, s) else (True, s\<lparr>io_started := True\<rparr>))"

definition SimpleIOExecutor_destroy :: "'c SimpleIOExecutor \<Rightarrow> 'c SimpleIOExecutor" where
  "SimpleIOExecutor_destroy s = s\<lparr>io_shutdown := True, io_started := False\<rparr>"

text \<open>\<^verbatim>\<open>task->process(evt); delete task;\<close> on an address that is not a live task is undefined.\<close>

definition process_delete :: "nat \<Rightarrow> io_event_t \<Rightarrow> 'c SimpleIOExecutor \<Rightarrow> 'c SimpleIOExecutor outcome" where
  "process_delete a ev s =
     (case io_tasks s a of
        None \<Rightarrow> Inl Undefined_behaviour
      | Some cb \<Rightarrow> Inr (s\<lparr>io_tasks := (io_tasks s)(a := None), io_ran := io_ran s @ [(cb, ev)]\<rparr>))"

text \<open>
  Submitting a request: \<open>io_submit\<close> is the kernel's answer to the control block. Both entry points
  build the same block, from a buffer and its length or from a vector and its count.
\<close>

definition submitIO ::
    "(iocb \<Rightarrow> int) \<Rightarrow> int \<Rightarrow> iocb_cmd \<Rightarrow> nat \<Rightarrow> nat \<Rightarrow> int \<Rightarrow> 'c \<Rightarrow> 'c SimpleIOExecutor \<Rightarrow>
     'c SimpleIOExecutor outcome" where
  "submitIO io_submit fd cmd buffer len offset cbfn s =
     (let task = io_next s;
          io = \<lparr>aio_fildes = fd, aio_lio_opcode = cmd, aio_buf = buffer, aio_offset = offset,
                aio_nbytes = len, aio_data = task\<rparr>;
          s = s\<lparr>io_tasks := (io_tasks s)(task \<mapsto> cbfn), io_next := task + 1\<rparr>;
          r = io_submit io
      in if r < 0 then
           process_delete task \<lparr>ev_data = None, ev_obj = None, ev_res = Some r, ev_res2 = None\<rparr> s
         else Inr s)"

definition submitIOV ::
    "(iocb \<Rightarrow> int) \<Rightarrow> int \<Rightarrow> iocb_cmd \<Rightarrow> nat \<Rightarrow> nat \<Rightarrow> int \<Rightarrow> 'c \<Rightarrow> 'c SimpleIOExecutor \<Rightarrow>
     'c SimpleIOExecutor outcome" where
  "submitIOV io_submit fd cmd iov iovcnt offset cbfn s =
     (let task = io_next s;
          io = \<lparr>aio_fildes = fd, aio_lio_opcode = cmd, aio_buf = iov, aio_offset = offset,
                aio_nbytes = iovcnt, aio_data = task\<rparr>;
          s = s\<lparr>io_tasks := (io_tasks s)(task \<mapsto> cbfn), io_next := task + 1\<rparr>;
          r = io_submit io
      in if r < 0 then
           process_delete task \<lparr>ev_data = None, ev_obj = None, ev_res = Some r, ev_res2 = None\<rparr> s
         else Inr s)"

text \<open>
  One round of \<^verbatim>\<open>loop\<close>: \<open>Inl n\<close> is a negative answer of \<^verbatim>\<open>io_getevents\<close>, \<open>Inr evs\<close> the events
  it stored.
\<close>

type_synonym kernel_event = "nat \<times> nat \<times> int \<times> int"

fun process_events :: "kernel_event list \<Rightarrow> 'c SimpleIOExecutor \<Rightarrow> 'c SimpleIOExecutor outcome" where
  "process_events [] s = Inr s"
| "process_events ((data, obj, res, res2) # evs) s =
     bind_outcome
       (process_delete data
          \<lparr>ev_data = Some data, ev_obj = Some obj, ev_res = Some res, ev_res2 = Some res2\<rparr> s)
       (process_events evs)"

definition loop_round :: "int + kernel_event list \<Rightarrow> 'c SimpleIOExecutor \<Rightarrow> 'c SimpleIOExecutor outcome" where
  "loop_round n s = (case n of Inl _ \<Rightarrow> Inr s | Inr evs \<Rightarrow> process_events evs s)"

text \<open>The loop over the answers of the kernel, until \<^verbatim>\<open>shutdown_\<close> is seen.\<close>

fun io_loop :: "(int + kernel_event list) list \<Rightarrow> 'c SimpleIOExecutor \<Rightarrow> 'c SimpleIOExecutor outcome" where
  "io_loop [] s = Inr s"
| "io_loop (n # ns) s = (if io_shutdown s then Inr s else bind_outcome (loop_round n s) (io_loop ns))"

section \<open>SimpleExecutor\<close>

definition kContextMask :: u64 where
  "kContextMask = 0x40000000"

record ('t, 'c) SimpleExecutor =
  ex_pool :: "'t ThreadPool"
  ex_ioExecutor :: "'c SimpleIOExecutor"

definition SimpleExecutor_new :: "int \<Rightarrow> nat \<Rightarrow> ('t, 'c) SimpleExecutor" where
  "SimpleExecutor_new io_setup threadNum =
     \<lparr>ex_pool = ThreadPool_new threadNum False,
      ex_ioExecutor = snd (SimpleIOExecutor_init io_setup SimpleIOExecutor_new)\<rparr>"

definition SimpleExecutor_destroy :: "('t, 'c) SimpleExecutor \<Rightarrow> ('t, 'c) SimpleExecutor" where
  "SimpleExecutor_destroy ex =
     ex\<lparr>ex_ioExecutor := SimpleIOExecutor_destroy (ex_ioExecutor ex), ex_pool := ThreadPool_shutdown (ex_pool ex)\<rparr>"

definition SimpleExecutor_scheduleById ::
    "nat \<Rightarrow> 't option \<Rightarrow> int \<Rightarrow> ('t, 'c) SimpleExecutor \<Rightarrow> (bool \<times> ('t, 'c) SimpleExecutor) outcome" where
  "SimpleExecutor_scheduleById rand func tid ex =
     bind_outcome (scheduleById (\<lambda>_. True) rand func tid (ex_pool ex))
       (\<lambda>(e, p). Inr (e = ERROR_NONE, ex\<lparr>ex_pool := p\<rparr>))"

definition SimpleExecutor_schedule ::
    "nat \<Rightarrow> 't option \<Rightarrow> ('t, 'c) SimpleExecutor \<Rightarrow> (bool \<times> ('t, 'c) SimpleExecutor) outcome" where
  "SimpleExecutor_schedule rand func ex = SimpleExecutor_scheduleById rand func (-1) ex"

definition SimpleExecutor_currentThreadInExecutor :: "nat \<Rightarrow> current_pool \<Rightarrow> bool" where
  "SimpleExecutor_currentThreadInExecutor this current = (getCurrentId this current \<noteq> -1)"

definition SimpleExecutor_stat :: ExecutorStat where
  "SimpleExecutor_stat = ExecutorStat_new"

definition SimpleExecutor_currentContextId :: "nat \<Rightarrow> current_pool \<Rightarrow> u64" where
  "SimpleExecutor_currentContextId this current = word_of_int (getCurrentId this current)"

definition SimpleExecutor_checkout :: "nat \<Rightarrow> current_pool \<Rightarrow> u64" where
  "SimpleExecutor_checkout this current = word_of_int (getCurrentId this current) OR kContextMask"

text \<open>
  The answer holds the function that ran in place, if it did. Calling a null \<^verbatim>\<open>std::function\<close>
  throws; the worker number \<open>int32_t\<close> takes the low half of the context.
\<close>

definition SimpleExecutor_checkin ::
    "nat \<Rightarrow> nat \<Rightarrow> current_pool \<Rightarrow> 't option \<Rightarrow> u64 \<Rightarrow> ScheduleOptions \<Rightarrow> ('t, 'c) SimpleExecutor \<Rightarrow>
     (bool \<times> 't option \<times> ('t, 'c) SimpleExecutor) outcome" where
  "SimpleExecutor_checkin rand this current func ctx opts ex =
     (let i = ctx AND NOT kContextMask
      in if getCurrentId this current = sint i \<and> prompt opts then
           (case func of None \<Rightarrow> Inl Bad_function_call | Some f \<Rightarrow> Inr (True, Some f, ex))
         else
           bind_outcome (SimpleExecutor_scheduleById rand func (sint (ucast i :: 32 word)) ex)
             (\<lambda>(b, ex'). Inr (b, None, ex')))"

definition SimpleExecutor_getIOExecutor :: "('t, 'c) SimpleExecutor \<Rightarrow> 'c SimpleIOExecutor" where
  "SimpleExecutor_getIOExecutor ex = ex_ioExecutor ex"

text \<open>The function pending in an executor are those of the tasks in its queues.\<close>

definition SimpleExecutor_pending :: "('t, 'c) SimpleExecutor \<Rightarrow> 't option multiset" where
  "SimpleExecutor_pending ex = image_mset wi_fn (pool_items (ex_pool ex))"

definition SimpleExecutor_inv :: "('t, 'c) SimpleExecutor \<Rightarrow> bool" where
  "SimpleExecutor_inv ex = pool_wf (ex_pool ex)"

interpretation simple: executor "SimpleExecutor_schedule rand" SimpleExecutor_pending SimpleExecutor_inv for rand
proof
  fix s s' :: "('t, 'c) SimpleExecutor" and f b
  assume "SimpleExecutor_inv s" "SimpleExecutor_schedule rand f s = Inr (b, s')"
  then obtain e p where "pool_wf (ex_pool s)" and
    st: "scheduleById (\<lambda>_. True) rand f (-1) (ex_pool s) = Inr (e, p)" "b = (e = ERROR_NONE)" "s' = s\<lparr>ex_pool := p\<rparr>"
    by (auto simp: SimpleExecutor_schedule_def SimpleExecutor_scheduleById_def SimpleExecutor_inv_def bind_Inr_iff)
  from scheduleById_Inr[OF this(1) st(1)] st(2,3)
  show "SimpleExecutor_inv s'" "SimpleExecutor_pending s' =
      (if b then add_mset f (SimpleExecutor_pending s) else SimpleExecutor_pending s)"
    by (auto simp: SimpleExecutor_inv_def SimpleExecutor_pending_def)
qed

end
