(* ===== verification/Io_Context.thy ===== *)
theory Io_Context
  imports Executors
begin

text \<open>
  The pools of event loops of \<^verbatim>\<open>src/coro_apps/coro_io/io_context_pool.hpp\<close>. \<^verbatim>\<open>asio\<close> is not part of the repository: what
  \<^verbatim>\<open>run\<close> does next with a context is the parameter \<open>turn\<close>, with the documented behaviour \<open>asio_run\<close>, and whether \<^verbatim>\<open>dispatch\<close> calls in
  place is the parameter \<open>inplace\<close>. What a handler posts while it runs is the parameter \<open>posts\<close>.
\<close>

section \<open>A context\<close>

text \<open>
  The last three fields are history: what was run and what was ever posted, in order, and what had been posted when the
  context stopped.
\<close>

record 'h asio_context =
  io_pending :: "'h list"
  io_work :: bool
  io_stopped :: bool
  io_ran :: "'h list"
  io_posted :: "'h list"
  io_seen :: "'h list"

definition asio_context_new :: "'h asio_context" where
  "asio_context_new = \<lparr>io_pending = [], io_work = False, io_stopped = False, io_ran = [], io_posted = [], io_seen = []\<rparr>"

definition io_post :: "'h \<Rightarrow> 'h asio_context \<Rightarrow> 'h asio_context" where
  "io_post h c = c\<lparr>io_pending := io_pending c @ [h], io_posted := io_posted c @ [h]\<rparr>"

definition io_stop_context :: "'h asio_context \<Rightarrow> 'h asio_context" where
  "io_stop_context c = (if io_stopped c then c else c\<lparr>io_stopped := True, io_seen := io_posted c\<rparr>)"

text \<open>One turn of \<^verbatim>\<open>run\<close>: it calls a handler, which leaves the pending ones \<open>hs\<close>, waits, or returns.\<close>

datatype 'h io_turn = Io_calls 'h "'h list" | Io_waits | Io_returns

text \<open>
  As documented: \<^verbatim>\<open>run\<close> blocks until all work has finished and no handler is left to be dispatched, or the context was stopped. Which
  handler comes next is left open.
\<close>

definition asio_run :: "('h asio_context \<Rightarrow> 'h io_turn) \<Rightarrow> bool" where
  "asio_run turn \<longleftrightarrow>
     (\<forall>c. case turn c of
            Io_calls h hs \<Rightarrow> \<not> io_stopped c \<and> mset (io_pending c) = add_mset h (mset hs)
          | Io_waits \<Rightarrow> \<not> io_stopped c \<and> io_pending c = [] \<and> io_work c
          | Io_returns \<Rightarrow> io_stopped c \<or> io_pending c = [] \<and> \<not> io_work c)"

definition io_calls :: "'h \<Rightarrow> 'h list \<Rightarrow> 'h asio_context \<Rightarrow> 'h asio_context" where
  "io_calls h hs c = c\<lparr>io_pending := hs, io_ran := io_ran c @ [h]\<rparr>"

text \<open>A queue in the order of posting is such a \<open>turn\<close>.\<close>

definition queue_turn :: "'h asio_context \<Rightarrow> 'h io_turn" where
  "queue_turn c =
     (if io_stopped c then Io_returns
      else case io_pending c of h # hs \<Rightarrow> Io_calls h hs | [] \<Rightarrow> if io_work c then Io_waits else Io_returns)"

lemma asio_run_queue: "asio_run queue_turn"
  by (auto simp: asio_run_def queue_turn_def split: list.splits)

section \<open>\<open>ExecutorWrapper\<close>\<close>

text \<open>
  \<^verbatim>\<open>dispatch\<close> calls the function in place, on a thread that is inside \<^verbatim>\<open>run\<close> of the context, or posts it. The executor is the number
  of its context; \<open>inplace i\<close>: \<^verbatim>\<open>asio\<close> may call in place for context \<open>i\<close>.
\<close>

datatype 'h dispatched = Called_inplace 'h | Posted

definition io_dispatch :: "(nat \<Rightarrow> bool) \<Rightarrow> nat \<Rightarrow> 'h \<Rightarrow> 'h asio_context list \<Rightarrow> 'h dispatched \<times> 'h asio_context list" where
  "io_dispatch inplace i f cs =
     (if inplace i then (Called_inplace f, cs) else (Posted, cs[i := io_post f (cs ! i)]))"

definition ExecutorWrapper_schedule ::
    "(nat \<Rightarrow> bool) \<Rightarrow> nat \<Rightarrow> 'h \<Rightarrow> 'h asio_context list \<Rightarrow> bool \<times> 'h dispatched \<times> 'h asio_context list" where
  "ExecutorWrapper_schedule inplace own f cs = (True, io_dispatch inplace own f cs)"

text \<open>\<open>has_post\<close>: the executor's type has a member \<^verbatim>\<open>post\<close> of one argument, which always posts.\<close>

definition ExecutorWrapper_checkin ::
    "bool \<Rightarrow> (nat \<Rightarrow> bool) \<Rightarrow> 'h \<Rightarrow> nat \<Rightarrow> 'h asio_context list \<Rightarrow> bool \<times> 'h dispatched \<times> 'h asio_context list" where
  "ExecutorWrapper_checkin has_post inplace f ctx cs =
     (True, if has_post then (Posted, cs[ctx := io_post f (cs ! ctx)]) else io_dispatch inplace ctx f cs)"

definition ExecutorWrapper_checkout :: "nat \<Rightarrow> nat" where
  "ExecutorWrapper_checkout own = own"

definition ExecutorWrapper_currentThreadInExecutor :: "nat option \<Rightarrow> nat \<Rightarrow> bool" where
  "ExecutorWrapper_currentThreadInExecutor current own \<longleftrightarrow> current = Some own"

text \<open>The number of a context stands for its address, which is not null.\<close>

definition ExecutorWrapper_currentContextId :: "nat option \<Rightarrow> nat" where
  "ExecutorWrapper_currentContextId current = (case current of None \<Rightarrow> 0 | Some i \<Rightarrow> i + 1)"

text \<open>The contract of \<^verbatim>\<open>Executor::schedule\<close>: the function is called in place or pending in the context.\<close>

definition wrapper_schedule :: "(nat \<Rightarrow> bool) \<Rightarrow> nat \<Rightarrow> 'h \<Rightarrow> 'h asio_context list \<times> 'h list \<Rightarrow> (bool \<times> 'h asio_context list \<times> 'h list) outcome" where
  "wrapper_schedule inplace i f s =
     (let (b, d, cs) = ExecutorWrapper_schedule inplace i f (fst s)
      in Inr (b, cs, case d of Called_inplace f \<Rightarrow> snd s @ [f] | Posted \<Rightarrow> snd s))"

definition wrapper_functions :: "'h asio_context list \<times> 'h list \<Rightarrow> 'h multiset" where
  "wrapper_functions s = mset (snd s) + mset (concat (map io_pending (fst s)))"

lemma pending_update:
  "i < length cs \<Longrightarrow> mset (concat (map io_pending (cs[i := io_post f (cs ! i)]))) = add_mset f (mset (concat (map io_pending cs)))"
  by (subst (2) id_take_nth_drop[of i cs]) (simp_all add: upd_conv_take_nth_drop io_post_def)

interpretation wrapper: executor "wrapper_schedule inplace i" wrapper_functions "\<lambda>s. i < length (fst s)" for inplace i
  by unfold_locales
    (auto simp: wrapper_schedule_def ExecutorWrapper_schedule_def io_dispatch_def wrapper_functions_def pending_update Let_def
      split: if_splits)

section \<open>\<open>io_context_pool\<close>\<close>

text \<open>The thread in the first call of \<^verbatim>\<open>run\<close>, the threads it starts, and the thread that executes the body of \<^verbatim>\<open>stop\<close>.\<close>

datatype runner = Not_run | Spawning nat | Joining nat | Run_returned
datatype worker = Not_started | In_run | Left_run
datatype stopper = Not_stopped | Clearing bool | Draining nat | Stop_returned

record 'h io_pool =
  pool_contexts :: "'h asio_context list"
  has_run_or_stop :: bool
  pool_runner :: runner
  pool_workers :: "worker list"
  pool_stopper :: stopper
  pool_promise :: bool

definition io_pool_new :: "nat \<Rightarrow> 'h io_pool" where
  "io_pool_new pool_size =
     (let n = (if pool_size = 0 then 1 else pool_size)
      in \<lparr>pool_contexts = replicate n (asio_context_new\<lparr>io_work := True\<rparr>), has_run_or_stop = False, pool_runner = Not_run,
          pool_workers = replicate n Not_started, pool_stopper = Not_stopped, pool_promise = False\<rparr>)"

text \<open>\<^verbatim>\<open>has_stop\<close> asks whether the work guards are gone, which go together.\<close>

definition has_stop :: "'h io_pool \<Rightarrow> bool" where
  "has_stop s \<longleftrightarrow> (\<forall>c\<in>set (pool_contexts s). \<not> io_work c)"

definition post_all :: "(nat \<times> 'h) list \<Rightarrow> 'h asio_context list \<Rightarrow> 'h asio_context list" where
  "post_all posts cs = fold (\<lambda>(j, g) cs. cs[j := io_post g (cs ! j)]) posts cs"

text \<open>A turn of \<^verbatim>\<open>run\<close> on context \<open>i\<close>: whether it returned; a waiting thread does nothing.\<close>

definition serve ::
    "('h asio_context \<Rightarrow> 'h io_turn) \<Rightarrow> ('h \<Rightarrow> (nat \<times> 'h) list) \<Rightarrow> nat \<Rightarrow> 'h asio_context list \<Rightarrow>
      (bool \<times> 'h asio_context list) option" where
  "serve turn posts i cs =
     (case turn (cs ! i) of
        Io_calls h hs \<Rightarrow> Some (False, post_all (posts h) (cs[i := io_calls h hs (cs ! i)]))
      | Io_waits \<Rightarrow> None
      | Io_returns \<Rightarrow> Some (True, cs[i := io_stop_context (cs ! i)]))"

text \<open>
  The steps: the call of \<^verbatim>\<open>run\<close> (a second call finds the flag set and returns), its loops over the threads, a turn of a thread, the call
  of \<^verbatim>\<open>stop\<close> (once), its two parts, and a handler posted from outside.
\<close>

datatype 'h pool_label = L_run | L_spawn | L_join | L_worker nat | L_stop | L_clear | L_drain | L_post nat 'h

fun io_pool_step :: "('h asio_context \<Rightarrow> 'h io_turn) \<Rightarrow> ('h \<Rightarrow> (nat \<times> 'h) list) \<Rightarrow> 'h pool_label \<Rightarrow> 'h io_pool \<Rightarrow> 'h io_pool option" where
  "io_pool_step turn posts L_run s =
     (if pool_runner s \<noteq> Not_run then None
      else if has_run_or_stop s then Some (s\<lparr>pool_runner := Run_returned\<rparr>)
      else Some (s\<lparr>has_run_or_stop := True, pool_runner := Spawning 0\<rparr>))"
| "io_pool_step turn posts L_spawn s =
     (case pool_runner s of
        Spawning i \<Rightarrow>
          if i < length (pool_contexts s)
          then Some (s\<lparr>pool_workers := (pool_workers s)[i := In_run], pool_runner := Spawning (i + 1)\<rparr>)
          else Some (s\<lparr>pool_runner := Joining 0\<rparr>)
      | _ \<Rightarrow> None)"
| "io_pool_step turn posts L_join s =
     (case pool_runner s of
        Joining i \<Rightarrow>
          if i < length (pool_workers s)
          then (if pool_workers s ! i = Left_run then Some (s\<lparr>pool_runner := Joining (i + 1)\<rparr>) else None)
          else Some (s\<lparr>pool_promise := True, pool_runner := Run_returned\<rparr>)
      | _ \<Rightarrow> None)"
| "io_pool_step turn posts (L_worker i) s =
     (if i < length (pool_workers s) \<and> pool_workers s ! i = In_run
      then (case serve turn posts i (pool_contexts s) of
              None \<Rightarrow> None
            | Some (left, cs) \<Rightarrow>
                Some (s\<lparr>pool_contexts := cs,
                        pool_workers := (if left then (pool_workers s)[i := Left_run] else pool_workers s)\<rparr>))
      else None)"
| "io_pool_step turn posts L_stop s =
     (if pool_stopper s \<noteq> Not_stopped then None
      else Some (s\<lparr>has_run_or_stop := True, pool_stopper := Clearing (\<not> has_run_or_stop s)\<rparr>))"
| "io_pool_step turn posts L_clear s =
     (case pool_stopper s of
        Clearing ok \<Rightarrow>
          Some (s\<lparr>pool_contexts := map (\<lambda>c. c\<lparr>io_work := False\<rparr>) (pool_contexts s),
                  pool_stopper := (if ok then Draining 0 else Stop_returned)\<rparr>)
      | _ \<Rightarrow> None)"
| "io_pool_step turn posts L_drain s =
     (case pool_stopper s of
        Draining i \<Rightarrow>
          if i < length (pool_contexts s)
          then (case serve turn posts i (pool_contexts s) of
                  None \<Rightarrow> None
                | Some (left, cs) \<Rightarrow>
                    Some (s\<lparr>pool_contexts := cs, pool_stopper := (if left then Draining (i + 1) else Draining i)\<rparr>))
          else Some (s\<lparr>pool_stopper := Stop_returned\<rparr>)
      | _ \<Rightarrow> None)"
| "io_pool_step turn posts (L_post i h) s =
     (if i < length (pool_contexts s)
      then Some (s\<lparr>pool_contexts := (pool_contexts s)[i := io_post h (pool_contexts s ! i)]\<rparr>) else None)"

primrec io_pool_steps :: "('h asio_context \<Rightarrow> 'h io_turn) \<Rightarrow> ('h \<Rightarrow> (nat \<times> 'h) list) \<Rightarrow> 'h pool_label list \<Rightarrow> 'h io_pool \<Rightarrow> 'h io_pool option" where
  "io_pool_steps turn posts [] s = Some s"
| "io_pool_steps turn posts (l # ls) s =
     (case io_pool_step turn posts l s of None \<Rightarrow> None | Some s \<Rightarrow> io_pool_steps turn posts ls s)"

section \<open>\<open>multithread_context_pool\<close>\<close>

text \<open>
  Several threads on one context, called from one thread: the threads started, the guard, and whether the promise has its value
  and its future was taken. A second value or a second future is a \<^verbatim>\<open>future_error\<close>. The loop counts in 32 bits.
\<close>

record multithread_pool =
  mt_thd_num :: u64
  mt_threads :: nat
  mt_work :: bool
  mt_promise_set :: bool
  mt_future_taken :: bool

definition multithread_pool_new :: "u64 \<Rightarrow> multithread_pool" where
  "multithread_pool_new n = \<lparr>mt_thd_num = n, mt_threads = 0, mt_work = True, mt_promise_set = False, mt_future_taken = False\<rparr>"

definition mt_run :: "multithread_pool \<Rightarrow> multithread_pool outcome" where
  "mt_run s =
     (if unat (mt_thd_num s) \<ge> 2 ^ 31 then Inl Undefined_behaviour
      else let s = s\<lparr>mt_threads := mt_threads s + unat (mt_thd_num s)\<rparr>
           in if mt_promise_set s then Inl (Logic_error ''Promise already satisfied'') else Inr (s\<lparr>mt_promise_set := True\<rparr>))"

text \<open>Joining waits for handlers; with the promise not set \<^verbatim>\<open>wait\<close> would block for ever, which cannot be: threads come from \<^verbatim>\<open>run\<close>.\<close>

definition mt_stop :: "multithread_pool \<Rightarrow> multithread_pool outcome" where
  "mt_stop s =
     (if mt_threads s = 0 then Inr s
      else if mt_future_taken s then Inl (Logic_error ''Future already retrieved'')
      else Inr (s\<lparr>mt_work := False, mt_future_taken := True, mt_threads := 0\<rparr>))"

end
