(* ===== verification/Io_Context_Props.thy ===== *)
theory Io_Context_Props
  imports Io_Context
begin

text \<open>
  What a pool of event loops keeps in every interleaving of \<^verbatim>\<open>run\<close>, its threads, \<^verbatim>\<open>stop\<close> and posted handlers, and that it shuts down.
\<close>

section \<open>Contexts\<close>

lemma asio_run_calls: "asio_run turn \<Longrightarrow> turn c = Io_calls h hs \<Longrightarrow> \<not> io_stopped c \<and> mset (io_pending c) = add_mset h (mset hs)"
  by (auto simp: asio_run_def dest: spec[of _ c])

lemma asio_run_waits: "asio_run turn \<Longrightarrow> turn c = Io_waits \<Longrightarrow> io_work c"
  by (auto simp: asio_run_def dest: spec[of _ c])

lemma asio_run_returns: "asio_run turn \<Longrightarrow> turn c = Io_returns \<Longrightarrow> io_stopped c \<or> io_pending c = [] \<and> \<not> io_work c"
  by (auto simp: asio_run_def dest: spec[of _ c])

definition context_ok :: "'h asio_context \<Rightarrow> bool" where
  "context_ok c \<longleftrightarrow> mset (io_posted c) = mset (io_ran c) + mset (io_pending c) \<and>
     (io_stopped c \<longrightarrow> \<not> io_work c \<and> mset (io_ran c) = mset (io_seen c))"

text \<open>What other threads see of a context: its guard, and whether it has stopped; stopping is for ever.\<close>

definition same_guard :: "'h asio_context list \<Rightarrow> 'h asio_context list \<Rightarrow> bool" where
  "same_guard cs cs' \<longleftrightarrow> length cs' = length cs \<and>
     (\<forall>i < length cs. io_work (cs' ! i) = io_work (cs ! i) \<and> (io_stopped (cs ! i) \<longrightarrow> io_stopped (cs' ! i)))"

lemma same_guard_refl [simp]: "same_guard cs cs"
  by (simp add: same_guard_def)

lemma same_guard_trans: "same_guard cs cs' \<Longrightarrow> same_guard cs' cs'' \<Longrightarrow> same_guard cs cs''"
  by (simp add: same_guard_def)

lemma same_guard_update:
  "io_work c = io_work (cs ! i) \<Longrightarrow> (io_stopped (cs ! i) \<Longrightarrow> io_stopped c) \<Longrightarrow> same_guard cs (cs[i := c])"
  unfolding same_guard_def by (metis length_list_update nth_list_update_eq nth_list_update_neq)

abbreviation contexts_ok :: "'h asio_context list \<Rightarrow> bool" where
  "contexts_ok cs \<equiv> \<forall>c\<in>set cs. context_ok c"

lemma contexts_ok_update: "contexts_ok cs \<Longrightarrow> context_ok c \<Longrightarrow> contexts_ok (cs[i := c])"
  by (auto dest: set_update_subset_insert[THEN subsetD])

lemma context_ok_post: "context_ok c \<Longrightarrow> context_ok (io_post h c)"
  by (auto simp: context_ok_def io_post_def)

lemma post_ok:
  assumes "contexts_ok cs"
  shows "contexts_ok (cs[i := io_post h (cs ! i)]) \<and> same_guard cs (cs[i := io_post h (cs ! i)])"
proof (cases "i < length cs")
  case True
  then have "context_ok (io_post h (cs ! i))" using assms by (simp add: context_ok_post)
  from contexts_ok_update[OF assms this] show ?thesis by (auto intro!: same_guard_update simp: io_post_def)
next
  case False
  then have "cs[i := io_post h (cs ! i)] = cs" by (simp add: list_update_beyond)
  with assms show ?thesis by simp
qed

lemma post_all_ok: "contexts_ok cs \<Longrightarrow> contexts_ok (post_all ps cs) \<and> same_guard cs (post_all ps cs)"
proof (induction ps arbitrary: cs)
  case (Cons p ps)
  obtain j g where p: "p = (j, g)" by fastforce
  from post_ok[OF Cons.prems, of j g] Cons.IH[of "cs[j := io_post g (cs ! j)]"] same_guard_trans
  show ?case by (auto simp: post_all_def p)
qed (simp add: post_all_def)

lemma serve_ok:
  assumes tu: "asio_run turn" and ok: "contexts_ok cs" and i: "i < length cs" and sv: "serve turn posts i cs = Some (left, cs')"
  shows "contexts_ok cs' \<and> same_guard cs cs' \<and> (left \<longrightarrow> io_stopped (cs' ! i) \<and> \<not> io_work (cs' ! i))"
proof (cases "turn (cs ! i)")
  case (Io_calls h hs)
  let ?c = "io_calls h hs (cs ! i)"
  have "context_ok ?c" using asio_run_calls[OF tu Io_calls] ok i by (auto simp: context_ok_def io_calls_def)
  then have "contexts_ok (cs[i := ?c])" "same_guard cs (cs[i := ?c])"
    using contexts_ok_update[OF ok] by (auto intro!: same_guard_update simp: io_calls_def)
  with post_all_ok[of "cs[i := ?c]" "posts h"] same_guard_trans sv Io_calls show ?thesis by (auto simp: serve_def)
next
  case Io_waits
  with sv show ?thesis by (simp add: serve_def)
next
  case Io_returns
  let ?c = "io_stop_context (cs ! i)"
  have ci: "context_ok (cs ! i)" using ok i by simp
  have c: "context_ok ?c" "io_work ?c = io_work (cs ! i)" "io_stopped ?c" "\<not> io_work ?c"
    using ci asio_run_returns[OF tu Io_returns] by (auto simp: context_ok_def io_stop_context_def)
  then have "contexts_ok (cs[i := ?c])" "same_guard cs (cs[i := ?c])"
    using contexts_ok_update[OF ok c(1)] by (auto intro!: same_guard_update)
  with sv Io_returns c i show ?thesis by (auto simp: serve_def)
qed

section \<open>The pool\<close>

text \<open>The contexts are not with \<^verbatim>\<open>run\<close>: it was not called, or came too late.\<close>

definition run_idle :: "runner \<Rightarrow> bool \<Rightarrow> bool" where
  "run_idle r p \<longleftrightarrow> r = Not_run \<or> r = Run_returned \<and> \<not> p"

fun runner_ok :: "nat \<Rightarrow> runner \<Rightarrow> worker list \<Rightarrow> bool \<Rightarrow> bool" where
  "runner_ok n Not_run ws p \<longleftrightarrow> (\<forall>i<n. ws ! i = Not_started) \<and> \<not> p"
| "runner_ok n (Spawning k) ws p \<longleftrightarrow> k \<le> n \<and> (\<forall>i<n. ws ! i = Not_started \<longleftrightarrow> k \<le> i) \<and> \<not> p"
| "runner_ok n (Joining k) ws p \<longleftrightarrow> k \<le> n \<and> (\<forall>i<n. ws ! i \<noteq> Not_started) \<and> (\<forall>i<k. ws ! i = Left_run) \<and> \<not> p"
| "runner_ok n Run_returned ws p \<longleftrightarrow> (\<forall>i<n. ws ! i = (if p then Left_run else Not_started))"

fun guard_alive :: "stopper \<Rightarrow> bool" where
  "guard_alive Not_stopped = True"
| "guard_alive (Clearing ok) = True"
| "guard_alive _ = False"

definition left_stopped :: "'h asio_context list \<Rightarrow> worker list \<Rightarrow> bool" where
  "left_stopped cs ws \<longleftrightarrow> (\<forall>i<length cs. ws ! i = Left_run \<longrightarrow> io_stopped (cs ! i))"

fun stopper_ok :: "'h asio_context list \<Rightarrow> stopper \<Rightarrow> bool \<Rightarrow> bool \<Rightarrow> bool" where
  "stopper_ok cs Not_stopped idle flag \<longleftrightarrow> flag = (\<not> idle)"
| "stopper_ok cs (Clearing ok) idle flag \<longleftrightarrow> flag \<and> ok = idle"
| "stopper_ok cs (Draining k) idle flag \<longleftrightarrow> flag \<and> idle \<and> k \<le> length cs \<and> (\<forall>i<k. io_stopped (cs ! i))"
| "stopper_ok cs Stop_returned idle flag \<longleftrightarrow> flag \<and> (idle \<longrightarrow> (\<forall>i<length cs. io_stopped (cs ! i)))"

definition guards_ok :: "'h asio_context list \<Rightarrow> stopper \<Rightarrow> bool" where
  "guards_ok cs st \<longleftrightarrow> (\<forall>i<length cs. io_work (cs ! i) = guard_alive st)"

definition pool_inv :: "'h io_pool \<Rightarrow> bool" where
  "pool_inv s \<longleftrightarrow>
     contexts_ok (pool_contexts s) \<and> length (pool_workers s) = length (pool_contexts s) \<and> pool_contexts s \<noteq> [] \<and>
     runner_ok (length (pool_contexts s)) (pool_runner s) (pool_workers s) (pool_promise s) \<and>
     guards_ok (pool_contexts s) (pool_stopper s) \<and>
     left_stopped (pool_contexts s) (pool_workers s) \<and>
     stopper_ok (pool_contexts s) (pool_stopper s) (run_idle (pool_runner s) (pool_promise s)) (has_run_or_stop s)"

lemma pool_inv_new: "pool_inv (io_pool_new k)"
  by (auto simp: pool_inv_def io_pool_new_def Let_def asio_context_new_def context_ok_def guards_ok_def left_stopped_def run_idle_def
      split: if_splits)

lemma guards_ok_same: "guards_ok cs st \<Longrightarrow> same_guard cs cs' \<Longrightarrow> guards_ok cs' st"
  by (simp add: guards_ok_def same_guard_def)

lemma left_stopped_same: "left_stopped cs ws \<Longrightarrow> same_guard cs cs' \<Longrightarrow> left_stopped cs' ws"
  by (simp add: left_stopped_def same_guard_def)

lemma stopper_ok_same: "stopper_ok cs st idle flag \<Longrightarrow> same_guard cs cs' \<Longrightarrow> stopper_ok cs' st idle flag"
  by (cases st) (auto simp: same_guard_def)

lemma same_guard_length: "same_guard cs cs' \<Longrightarrow> length cs' = length cs"
  by (simp add: same_guard_def)

lemmas same_guards = guards_ok_same left_stopped_same stopper_ok_same

lemma pool_inv_contexts:
  assumes "pool_inv s" "contexts_ok cs" "same_guard (pool_contexts s) cs"
  shows "pool_inv (s\<lparr>pool_contexts := cs\<rparr>)"
proof -
  have "cs \<noteq> []" using assms same_guard_length[OF assms(3)] by (auto simp: pool_inv_def)
  with assms same_guard_length[OF assms(3)] show ?thesis
    unfolding pool_inv_def using same_guards[OF _ assms(3)] by simp
qed

text \<open>A thread of the pool leaves \<^verbatim>\<open>run\<close>: it was started, and its context has stopped.\<close>

lemma runner_ok_leave:
  assumes "runner_ok n r ws p" "i < n" "length ws = n" "ws ! i = In_run"
  shows "runner_ok n r (ws[i := Left_run]) p"
  using assms by (cases r) (auto simp: nth_list_update split: if_splits)

lemma pool_inv_leave:
  assumes inv: "pool_inv s" and w: "i < length (pool_workers s)" "pool_workers s ! i = In_run" "io_stopped (pool_contexts s ! i)"
  shows "pool_inv (s\<lparr>pool_workers := (pool_workers s)[i := Left_run]\<rparr>)"
  using assms runner_ok_leave[of "length (pool_contexts s)" "pool_runner s" "pool_workers s" "pool_promise s" i]
  by (auto simp: pool_inv_def left_stopped_def nth_list_update)

lemma io_pool_step_inv:
  assumes tu: "asio_run turn" and inv: "pool_inv s" and step: "io_pool_step turn posts l s = Some s'"
  shows "pool_inv s'"
proof (cases l)
  case L_run
  with step have nr: "pool_runner s = Not_run" by (auto split: if_splits)
  show ?thesis
  proof (cases "has_run_or_stop s")
    case True
    with L_run step nr have s': "s' = s\<lparr>pool_runner := Run_returned\<rparr>" by simp
    from inv nr True show ?thesis by (simp add: pool_inv_def s' run_idle_def)
  next
    case False
    with L_run step nr have s': "s' = s\<lparr>has_run_or_stop := True, pool_runner := Spawning 0\<rparr>" by simp
    have "pool_stopper s = Not_stopped" using inv False by (cases "pool_stopper s") (auto simp: pool_inv_def)
    with inv nr show ?thesis by (simp add: pool_inv_def s' run_idle_def)
  qed
next
  case L_spawn
  with step obtain k where k: "pool_runner s = Spawning k" by (auto split: runner.splits)
  show ?thesis
  proof (cases "k < length (pool_contexts s)")
    case True
    with L_spawn step k have s': "s' = s\<lparr>pool_workers := (pool_workers s)[k := In_run], pool_runner := Spawning (k + 1)\<rparr>" by simp
    from inv k True show ?thesis
      by (auto simp: pool_inv_def s' run_idle_def left_stopped_def nth_list_update less_Suc_eq_le)
  next
    case False
    with L_spawn step k have s': "s' = s\<lparr>pool_runner := Joining 0\<rparr>" by simp
    from inv k False show ?thesis by (auto simp: pool_inv_def s' run_idle_def)
  qed
next
  case L_join
  with step obtain k where k: "pool_runner s = Joining k" by (auto split: runner.splits)
  show ?thesis
  proof (cases "k < length (pool_workers s)")
    case True
    with L_join step k have s': "s' = s\<lparr>pool_runner := Joining (k + 1)\<rparr>" "pool_workers s ! k = Left_run" by (auto split: if_splits)
    from inv k True s'(2) show ?thesis by (auto simp: pool_inv_def s'(1) run_idle_def less_Suc_eq)
  next
    case False
    with L_join step k have s': "s' = s\<lparr>pool_promise := True, pool_runner := Run_returned\<rparr>" by simp
    from inv k False show ?thesis by (auto simp: pool_inv_def s' run_idle_def)
  qed
next
  case (L_worker i)
  with step obtain left cs where i: "i < length (pool_workers s)" "pool_workers s ! i = In_run" and
    sv: "serve turn posts i (pool_contexts s) = Some (left, cs)" and
    s': "s' = s\<lparr>pool_contexts := cs, pool_workers := (if left then (pool_workers s)[i := Left_run] else pool_workers s)\<rparr>"
    by (auto split: if_splits option.splits)
  have ok: "contexts_ok (pool_contexts s)" "i < length (pool_contexts s)" using inv i(1) by (auto simp: pool_inv_def)
  note served = serve_ok[OF tu ok sv]
  have inv': "pool_inv (s\<lparr>pool_contexts := cs\<rparr>)" using inv served by (intro pool_inv_contexts) auto
  then show ?thesis using pool_inv_leave[of "s\<lparr>pool_contexts := cs\<rparr>" i] served i by (auto simp: s')
next
  case L_stop
  with step have ns: "pool_stopper s = Not_stopped" "s' = s\<lparr>has_run_or_stop := True, pool_stopper := Clearing (\<not> has_run_or_stop s)\<rparr>"
    by (auto split: if_splits)
  from inv ns(1) show ?thesis by (auto simp: pool_inv_def ns(2) guards_ok_def)
next
  case L_clear
  with step obtain b where b: "pool_stopper s = Clearing b" and
    s': "s' = s\<lparr>pool_contexts := map (\<lambda>c. c\<lparr>io_work := False\<rparr>) (pool_contexts s), pool_stopper := (if b then Draining 0 else Stop_returned)\<rparr>"
    by (auto split: stopper.splits)
  from inv b show ?thesis by (auto simp: pool_inv_def s' guards_ok_def left_stopped_def context_ok_def)
next
  case L_drain
  with step obtain k where k: "pool_stopper s = Draining k" by (auto split: stopper.splits)
  show ?thesis
  proof (cases "k < length (pool_contexts s)")
    case True
    with L_drain step k obtain left cs where sv: "serve turn posts k (pool_contexts s) = Some (left, cs)" and
      s': "s' = s\<lparr>pool_contexts := cs, pool_stopper := (if left then Draining (k + 1) else Draining k)\<rparr>"
      by (auto split: option.splits)
    have ok: "contexts_ok (pool_contexts s)" using inv by (auto simp: pool_inv_def)
    note served = serve_ok[OF tu ok True sv]
    have inv': "pool_inv (s\<lparr>pool_contexts := cs\<rparr>)" using inv served by (intro pool_inv_contexts) auto
    have "length cs = length (pool_contexts s)" using served same_guard_length by blast
    with inv' served k True show ?thesis by (auto simp: s' pool_inv_def guards_ok_def less_Suc_eq)
  next
    case False
    with L_drain step k have s': "s' = s\<lparr>pool_stopper := Stop_returned\<rparr>" by simp
    from inv k False show ?thesis by (auto simp: pool_inv_def s' guards_ok_def)
  qed
next
  case (L_post i h)
  with step have s': "s' = s\<lparr>pool_contexts := (pool_contexts s)[i := io_post h (pool_contexts s ! i)]\<rparr>" by (auto split: if_splits)
  have "contexts_ok (pool_contexts s)" using inv by (simp add: pool_inv_def)
  from post_ok[OF this, of i h] pool_inv_contexts[OF inv] show ?thesis by (simp add: s')
qed

lemma io_pool_steps_inv: "asio_run turn \<Longrightarrow> pool_inv s \<Longrightarrow> io_pool_steps turn posts ls s = Some s' \<Longrightarrow> pool_inv s'"
  by (induction ls arbitrary: s) (auto dest: io_pool_step_inv split: option.splits)

text \<open>C15: Whatever \<^verbatim>\<open>asio\<close> runs next, in every interleaving of \<^verbatim>\<open>run\<close>, its threads, \<^verbatim>\<open>stop\<close> and posts, the handlers a context was
  given are those it ran, each once, and those still pending, and it runs on one thread at a time: its own or the one inside
  \<^verbatim>\<open>stop\<close>. When \<^verbatim>\<open>run\<close> has returned with its promise set, or \<^verbatim>\<open>stop\<close> has returned and \<^verbatim>\<open>run\<close> got no context, every context has stopped
  with everything run that was posted until then; and \<^verbatim>\<open>run\<close> does not return so before \<^verbatim>\<open>stop\<close> has dropped the guards.\<close>

theorem io_context_pool_runs_handlers:
  assumes "asio_run turn" "io_pool_steps turn posts ls (io_pool_new k) = Some s"
  shows "(\<forall>c\<in>set (pool_contexts s). mset (io_posted c) = mset (io_ran c) + mset (io_pending c)) \<and>
    \<not> (\<exists>i j. i < length (pool_workers s) \<and> pool_workers s ! i = In_run \<and> pool_stopper s = Draining j) \<and>
    (pool_promise s \<or> pool_stopper s = Stop_returned \<and> run_idle (pool_runner s) (pool_promise s) \<longrightarrow>
       (\<forall>c\<in>set (pool_contexts s). io_stopped c \<and> mset (io_ran c) = mset (io_seen c))) \<and>
    (pool_promise s \<longrightarrow> has_stop s \<and> pool_stopper s = Stop_returned)"
proof -
  have inv: "pool_inv s" using io_pool_steps_inv[OF assms(1) pool_inv_new assms(2)] .
  let ?n = "length (pool_contexts s)"
  have ok: "contexts_ok (pool_contexts s)" and len: "length (pool_workers s) = ?n" and ne: "pool_contexts s \<noteq> []"
    and r: "runner_ok ?n (pool_runner s) (pool_workers s) (pool_promise s)"
    and guards: "guards_ok (pool_contexts s) (pool_stopper s)" and left: "left_stopped (pool_contexts s) (pool_workers s)"
    and st: "stopper_ok (pool_contexts s) (pool_stopper s) (run_idle (pool_runner s) (pool_promise s)) (has_run_or_stop s)"
    using inv by (auto simp: pool_inv_def)
  have stopped: "io_stopped (pool_contexts s ! i)" if "i < ?n" "pool_promise s \<or> pool_stopper s = Stop_returned \<and> run_idle (pool_runner s) (pool_promise s)" for i
    using that r left st by (cases "pool_runner s") (auto simp: left_stopped_def)
  have no_work: "\<not> io_work c" if "c \<in> set (pool_contexts s)" "io_stopped c" for c using ok that by (auto simp: context_ok_def)
  have stop_done: "pool_stopper s = Stop_returned" if p: "pool_promise s"
  proof -
    have "io_stopped (pool_contexts s ! 0)" using stopped[of 0] p ne by simp
    then have "\<not> io_work (pool_contexts s ! 0)" using no_work[of "pool_contexts s ! 0"] ne by simp
    then have "\<not> guard_alive (pool_stopper s)" using guards ne by (auto simp: guards_ok_def)
    moreover have "\<not> run_idle (pool_runner s) (pool_promise s)" using p r by (cases "pool_runner s") (auto simp: run_idle_def)
    ultimately show ?thesis using st by (cases "pool_stopper s") auto
  qed
  have all: "io_stopped c \<and> mset (io_ran c) = mset (io_seen c)" if c: "c \<in> set (pool_contexts s)"
    and over: "pool_promise s \<or> pool_stopper s = Stop_returned \<and> run_idle (pool_runner s) (pool_promise s)" for c
  proof -
    have "io_stopped c" using stopped over c by (metis in_set_conv_nth)
    then show ?thesis using ok c by (simp add: context_ok_def)
  qed
  show ?thesis
  proof (intro conjI impI ballI notI)
    fix c
    assume c: "c \<in> set (pool_contexts s)"
    then show "mset (io_posted c) = mset (io_ran c) + mset (io_pending c)" using ok by (simp add: context_ok_def)
  next
    assume "\<exists>i j. i < length (pool_workers s) \<and> pool_workers s ! i = In_run \<and> pool_stopper s = Draining j"
    with r st len show False by (cases "pool_runner s") (auto simp: run_idle_def split: if_splits)
  next
    assume p: "pool_promise s"
    show "pool_stopper s = Stop_returned" by (rule stop_done[OF p])
    show "has_stop s" unfolding has_stop_def using all no_work p by blast
  qed (use all in auto)
qed

text \<open>A handler posts another one; the pool is run, stopped, and returns.\<close>

definition sample_posts :: "nat \<Rightarrow> (nat \<times> nat) list" where
  "sample_posts h = (if h = 7 then [(0, 8)] else [])"

definition sample_schedule :: "nat pool_label list" where
  "sample_schedule = [L_run, L_post 0 7, L_spawn, L_worker 0, L_stop, L_clear, L_worker 0, L_worker 0, L_spawn, L_join, L_join]"

lemma io_context_pool_runs_handlers_witness:
  "\<exists>s. io_pool_steps queue_turn sample_posts sample_schedule (io_pool_new 1) = Some s \<and>
    map io_ran (pool_contexts s) = [[7, 8]] \<and> has_stop s \<and>
    (\<forall>c\<in>set (pool_contexts s). mset (io_ran c) = mset (io_seen c))"
proof -
  define s :: "nat io_pool" where "s = \<lparr>pool_contexts = [\<lparr>io_pending = [], io_work = False, io_stopped = True, io_ran = [7, 8], io_posted = [7, 8], io_seen = [7, 8]\<rparr>],
      has_run_or_stop = True, pool_runner = Run_returned, pool_workers = [Left_run], pool_stopper = Stop_returned, pool_promise = True\<rparr>"
  have run: "io_pool_steps queue_turn sample_posts sample_schedule (io_pool_new 1) = Some s"
    by (simp add: io_pool_new_def asio_context_new_def serve_def queue_turn_def io_calls_def post_all_def sample_posts_def io_post_def
        io_stop_context_def sample_schedule_def s_def Let_def)
  from io_context_pool_runs_handlers[OF asio_run_queue run] run show ?thesis by (auto simp: s_def)
qed

section \<open>Shutting down\<close>

text \<open>
  Handlers whose posting comes to an end: \<open>w\<close> gives each a weight above that of all it posts. What is left to do once the guards are
  gone: the weight of what is pending, the threads, and the loops of \<^verbatim>\<open>run\<close>.
\<close>

definition pending_weight :: "('h \<Rightarrow> nat) \<Rightarrow> 'h asio_context list \<Rightarrow> nat" where
  "pending_weight w cs = sum_list (map (\<lambda>c. sum_list (map w (io_pending c))) cs)"

fun runner_steps :: "nat \<Rightarrow> runner \<Rightarrow> nat" where
  "runner_steps n (Spawning k) = 2 * n + 2 - k"
| "runner_steps n (Joining k) = n + 1 - k"
| "runner_steps n _ = 0"

definition shutdown_steps :: "('h \<Rightarrow> nat) \<Rightarrow> 'h io_pool \<Rightarrow> nat" where
  "shutdown_steps w s =
     pending_weight w (pool_contexts s) + length (filter (\<lambda>x. x \<noteq> Left_run) (pool_workers s)) +
     runner_steps (length (pool_contexts s)) (pool_runner s)"

fun is_post :: "'h pool_label \<Rightarrow> bool" where
  "is_post (L_post i h) = True"
| "is_post _ = False"

lemma sum_list_update_nat:
  "i < length xs \<Longrightarrow> sum_list (map f (xs[i := y])) + f (xs ! i) = sum_list (map f xs) + (f y :: nat)"
  by (induction xs arbitrary: i) (auto split: nat.split)

lemma filter_length_update:
  "i < length xs \<Longrightarrow> \<not> P y \<Longrightarrow> P (xs ! i) \<Longrightarrow> length (filter P xs) = Suc (length (filter P (xs[i := y])))"
  by (induction xs arbitrary: i) (auto split: nat.split)

lemma filter_length_same:
  "P y = P (xs ! i) \<Longrightarrow> length (filter P (xs[i := y])) = length (filter P xs)"
  by (induction xs arbitrary: i) (auto split: nat.split)

lemma pending_weight_post: "pending_weight w (cs[i := io_post h (cs ! i)]) \<le> pending_weight w cs + w h"
proof (cases "i < length cs")
  case True
  from sum_list_update_nat[OF this, of "\<lambda>c. sum_list (map w (io_pending c))" "io_post h (cs ! i)"]
  show ?thesis by (simp add: pending_weight_def io_post_def)
qed (simp add: list_update_beyond)

lemma pending_weight_post_all: "pending_weight w (post_all ps cs) \<le> pending_weight w cs + sum_list (map (w \<circ> snd) ps)"
proof (induction ps arbitrary: cs)
  case (Cons p ps)
  obtain j g where p: "p = (j, g)" by fastforce
  have "pending_weight w (post_all (p # ps) cs) \<le> pending_weight w (cs[j := io_post g (cs ! j)]) + sum_list (map (w \<circ> snd) ps)"
    using Cons.IH[of "cs[j := io_post g (cs ! j)]"] by (simp add: post_all_def p comp_def)
  with pending_weight_post[of w cs j g] show ?case by (simp add: p comp_def)
qed (simp add: post_all_def)

lemma serve_weight:
  assumes tu: "asio_run turn" and i: "i < length cs" and sv: "serve turn posts i cs = Some (left, cs')"
    and w: "\<And>h. sum_list (map (w \<circ> snd) (posts h)) < w h"
  shows "if left then pending_weight w cs' = pending_weight w cs else pending_weight w cs' < pending_weight w cs"
proof (cases "turn (cs ! i)")
  case (Io_calls h hs)
  let ?c = "io_calls h hs (cs ! i)"
  have "sum_list (map w (io_pending (cs ! i))) = w h + sum_list (map w (io_pending ?c))"
    using asio_run_calls[OF tu Io_calls] sum_mset_sum_list[of "map w (io_pending (cs ! i))"] sum_mset_sum_list[of "map w hs"]
    by (simp add: io_calls_def)
  then have "pending_weight w (cs[i := ?c]) + w h = pending_weight w cs"
    using sum_list_update_nat[OF i, of "\<lambda>c. sum_list (map w (io_pending c))" ?c] by (simp add: pending_weight_def)
  with pending_weight_post_all[of w "posts h" "cs[i := ?c]"] w[of h] sv Io_calls show ?thesis by (auto simp: serve_def)
next
  case Io_waits
  with sv show ?thesis by (simp add: serve_def)
next
  case Io_returns
  have "io_pending (io_stop_context (cs ! i)) = io_pending (cs ! i)" by (simp add: io_stop_context_def)
  with sum_list_update_nat[OF i, of "\<lambda>c. sum_list (map w (io_pending c))" "io_stop_context (cs ! i)"] sv Io_returns show ?thesis
    by (auto simp: serve_def pending_weight_def)
qed

text \<open>\<open>closing s\<close>: \<^verbatim>\<open>stop\<close> has returned, and \<^verbatim>\<open>run\<close> has the contexts.\<close>

definition closing :: "'h io_pool \<Rightarrow> bool" where
  "closing s \<longleftrightarrow> pool_inv s \<and> pool_stopper s = Stop_returned \<and> \<not> run_idle (pool_runner s) (pool_promise s)"

lemma closing_step:
  assumes tu: "asio_run turn" and cl: "closing s" and step: "io_pool_step turn posts l s = Some s'" and l: "\<not> is_post l"
    and w: "\<And>h. sum_list (map (w \<circ> snd) (posts h)) < w h"
  shows "closing s' \<and> shutdown_steps w s' < shutdown_steps w s"
proof -
  have inv: "pool_inv s'" using cl step io_pool_step_inv[OF tu] by (auto simp: closing_def)
  have st: "pool_stopper s = Stop_returned" "\<not> run_idle (pool_runner s) (pool_promise s)" and s: "pool_inv s" using cl by (auto simp: closing_def)
  have len: "length (pool_workers s) = length (pool_contexts s)" using s by (simp add: pool_inv_def)
  show ?thesis
  proof (cases l)
    case L_spawn
    with step obtain k where k: "pool_runner s = Spawning k" by (auto split: runner.splits)
    show ?thesis
    proof (cases "k < length (pool_contexts s)")
      case True
      with L_spawn step k have s': "s' = s\<lparr>pool_workers := (pool_workers s)[k := In_run], pool_runner := Spawning (k + 1)\<rparr>" by simp
      have "pool_workers s ! k = Not_started" using s k True by (auto simp: pool_inv_def)
      with True show ?thesis using inv st by (simp add: closing_def s' run_idle_def shutdown_steps_def k filter_length_same)
    next
      case False
      with L_spawn step k have s': "s' = s\<lparr>pool_runner := Joining 0\<rparr>" by simp
      have "k \<le> length (pool_contexts s)" using s k by (auto simp: pool_inv_def)
      with False show ?thesis using inv st by (simp add: closing_def s' run_idle_def shutdown_steps_def k)
    qed
  next
    case L_join
    with step obtain k where k: "pool_runner s = Joining k" by (auto split: runner.splits)
    show ?thesis
    proof (cases "k < length (pool_workers s)")
      case True
      with L_join step k have s': "s' = s\<lparr>pool_runner := Joining (k + 1)\<rparr>" by (auto split: if_splits)
      with True len show ?thesis using inv st by (simp add: closing_def s' run_idle_def shutdown_steps_def k)
    next
      case False
      with L_join step k have s': "s' = s\<lparr>pool_promise := True, pool_runner := Run_returned\<rparr>" by simp
      have "k \<le> length (pool_contexts s)" using s k by (auto simp: pool_inv_def)
      then show ?thesis using inv st by (simp add: closing_def s' run_idle_def shutdown_steps_def k)
    qed
  next
    case (L_worker i)
    with step obtain left cs where i: "i < length (pool_workers s)" "pool_workers s ! i = In_run" and
      sv: "serve turn posts i (pool_contexts s) = Some (left, cs)" and
      s': "s' = s\<lparr>pool_contexts := cs, pool_workers := (if left then (pool_workers s)[i := Left_run] else pool_workers s)\<rparr>"
      by (auto split: if_splits option.splits)
    have ok: "contexts_ok (pool_contexts s)" "i < length (pool_contexts s)" using s i(1) by (auto simp: pool_inv_def)
    have "length cs = length (pool_contexts s)" using serve_ok[OF tu ok sv] same_guard_length by blast
    moreover have "left \<Longrightarrow> length (filter (\<lambda>x. x \<noteq> Left_run) (pool_workers s))
        = Suc (length (filter (\<lambda>x. x \<noteq> Left_run) ((pool_workers s)[i := Left_run])))"
      by (rule filter_length_update) (use i in simp_all)
    ultimately show ?thesis using inv st serve_weight[OF tu ok(2) sv w] by (auto simp: closing_def s' shutdown_steps_def)
  qed (use step st l in \<open>auto simp: run_idle_def split: if_splits\<close>)
qed

lemma closing_progress:
  assumes tu: "asio_run turn" and cl: "closing s" and stuck: "\<And>l. \<not> is_post l \<Longrightarrow> io_pool_step turn posts l s = None"
  shows "pool_promise s"
proof -
  have s: "pool_inv s" and st: "pool_stopper s = Stop_returned" "\<not> run_idle (pool_runner s) (pool_promise s)" using cl by (auto simp: closing_def)
  have len: "length (pool_workers s) = length (pool_contexts s)" using s by (simp add: pool_inv_def)
  have serves: "serve turn posts i (pool_contexts s) \<noteq> None" if "i < length (pool_contexts s)" for i
    using s st(1) that asio_run_waits[OF tu] by (auto simp: pool_inv_def guards_ok_def serve_def split: io_turn.splits)
  show ?thesis
  proof (cases "pool_runner s")
    case (Spawning k)
    then show ?thesis using stuck[of L_spawn] by (auto split: if_splits)
  next
    case (Joining k)
    then have k: "k < length (pool_workers s)" "pool_workers s ! k \<noteq> Left_run" using stuck[of L_join] by (auto split: if_splits)
    moreover have "pool_workers s ! k \<noteq> Not_started" using s Joining k len by (auto simp: pool_inv_def)
    ultimately have "pool_workers s ! k = In_run" by (cases "pool_workers s ! k") auto
    then show ?thesis using stuck[of "L_worker k"] k serves[of k] len by (auto split: option.splits)
  qed (use st in \<open>auto simp: run_idle_def\<close>)
qed

text \<open>C16: The pool shuts down, whatever \<^verbatim>\<open>asio\<close> runs next. Once \<^verbatim>\<open>stop\<close> has returned while \<^verbatim>\<open>run\<close> has the contexts, and nothing more is posted from outside, the
  threads go on for at most as many steps as the weight of the pending handlers, the threads and the loops of \<^verbatim>\<open>run\<close> amount to, and
  they only come to rest when \<^verbatim>\<open>run\<close> has returned with its promise set.\<close>

theorem io_context_pool_shuts_down:
  assumes tu: "asio_run turn" and start: "io_pool_steps turn posts ls (io_pool_new k) = Some s" "pool_stopper s = Stop_returned" "\<not> run_idle (pool_runner s) (pool_promise s)"
    and w: "\<And>h. sum_list (map (w \<circ> snd) (posts h)) < w h"
    and steps: "io_pool_steps turn posts ls' s = Some s'" "\<not> (\<exists>l\<in>set ls'. is_post l)"
  shows "length ls' + shutdown_steps w s' \<le> shutdown_steps w s \<and>
    ((\<forall>l. \<not> is_post l \<longrightarrow> io_pool_step turn posts l s' = None) \<longrightarrow> pool_promise s')"
proof -
  have "closing s" using io_pool_steps_inv[OF tu pool_inv_new start(1)] start(2,3) by (simp add: closing_def)
  from steps this have "closing s' \<and> length ls' + shutdown_steps w s' \<le> shutdown_steps w s"
  proof (induction ls' arbitrary: s)
    case (Cons l ls')
    then obtain s1 where s1: "io_pool_step turn posts l s = Some s1" "io_pool_steps turn posts ls' s1 = Some s'" by (auto split: option.splits)
    have "closing s1 \<and> shutdown_steps w s1 < shutdown_steps w s"
      by (rule closing_step[OF tu Cons.prems(3) s1(1) _ w]) (use Cons.prems in auto)
    with Cons.IH[OF s1(2)] Cons.prems(2) show ?case by fastforce
  qed simp
  with closing_progress[OF tu, of s' posts] show ?thesis by blast
qed

definition sample_closing :: "nat pool_label list" where
  "sample_closing = [L_run, L_post 0 7, L_spawn, L_stop, L_clear]"

lemma io_context_pool_shuts_down_witness:
  "\<exists>s s'. io_pool_steps queue_turn sample_posts sample_closing (io_pool_new 1) = Some s \<and>
    io_pool_steps queue_turn sample_posts [L_worker 0, L_worker 0, L_worker 0, L_spawn, L_join, L_join] s = Some s' \<and>
    6 + shutdown_steps (\<lambda>h. if h = 7 then 2 else 1) s' \<le> shutdown_steps (\<lambda>h. if h = 7 then 2 else 1) s"
proof -
  let ?w = "\<lambda>h::nat. if h = 7 then 2 else 1 :: nat"
  obtain s where s: "io_pool_steps queue_turn sample_posts sample_closing (io_pool_new 1) = Some s"
    "s = \<lparr>pool_contexts = [\<lparr>io_pending = [7], io_work = False, io_stopped = False, io_ran = [], io_posted = [7], io_seen = []\<rparr>],
      has_run_or_stop = True, pool_runner = Spawning 1, pool_workers = [In_run], pool_stopper = Stop_returned, pool_promise = False\<rparr>"
    by (simp add: io_pool_new_def asio_context_new_def io_post_def sample_closing_def Let_def)
  obtain s' where s': "io_pool_steps queue_turn sample_posts [L_worker 0, L_worker 0, L_worker 0, L_spawn, L_join, L_join] s = Some s'"
    by (simp add: s(2) serve_def queue_turn_def io_calls_def post_all_def sample_posts_def io_post_def io_stop_context_def Let_def)
  have "length [L_worker 0, L_worker 0, L_worker 0, L_spawn, L_join, L_join] + shutdown_steps ?w s' \<le> shutdown_steps ?w s"
    using io_context_pool_shuts_down[OF asio_run_queue s(1) _ _ _ s', of ?w] by (simp add: s(2) run_idle_def sample_posts_def)
  with s s' show ?thesis by (intro exI[of _ s] exI[of _ s']) simp
qed

section \<open>\<open>multithread_context_pool\<close>\<close>

text \<open>
  One \<^verbatim>\<open>run\<close> and then \<^verbatim>\<open>stop\<close> works, and the guard is gone; a second \<^verbatim>\<open>run\<close> throws with its threads started. With no threads
  \<^verbatim>\<open>stop\<close> leaves the guard.
\<close>

lemma multithread_pool_once:
  assumes "unat n < 2 ^ 31"
  obtains s where "mt_run (multithread_pool_new n) = Inr s" "mt_threads s = unat n"
    "mt_run s = Inl (Logic_error ''Promise already satisfied'')"
    "\<exists>s'. mt_stop s = Inr s' \<and> mt_stop s' = Inr s' \<and> mt_work s' = (n = 0)"
proof
  let ?s = "\<lparr>mt_thd_num = n, mt_threads = unat n, mt_work = True, mt_promise_set = True, mt_future_taken = False\<rparr>"
  show run: "mt_run (multithread_pool_new n) = Inr ?s" using assms by (simp add: mt_run_def multithread_pool_new_def)
  show "mt_run ?s = Inl (Logic_error ''Promise already satisfied'')" using assms by (simp add: mt_run_def)
  show "\<exists>s'. mt_stop ?s = Inr s' \<and> mt_stop s' = Inr s' \<and> mt_work s' = (n = 0)" by (simp add: mt_stop_def unat_eq_0)
qed simp

end
