(* ===== verification/Coro_Epoll.thy ===== *)
theory Coro_Epoll
  imports Prelude
begin

unbundle bit_operations_syntax

text \<open>
  The event loop over \<^verbatim>\<open>epoll\<close> of \<^verbatim>\<open>src/coro_apps/coro_epoll\<close>: \<^verbatim>\<open>Socket\<close>, \<^verbatim>\<open>IoContext\<close>, the calls of \<^verbatim>\<open>HookSysCall.hpp\<close> that a
  coroutine awaits, and the echo server and client. The kernel is not part of the repository: \<open>epoll_ctl\<close> is the parameter \<open>ctl\<close>, with
  the documented behaviour \<open>epoll_documented\<close>, and what \<^verbatim>\<open>epoll_wait\<close> and the calls on sockets answer is in the labels of the steps.
\<close>

section \<open>The kernel\<close>

datatype errno = EAGAIN | EINPROGRESS | Other_errno nat

definition EPOLLIN :: u32 where "EPOLLIN = 1"
definition EPOLLOUT :: u32 where "EPOLLOUT = 4"
definition EPOLLERR :: u32 where "EPOLLERR = 8"
definition EPOLLRDHUP :: u32 where "EPOLLRDHUP = 0x2000"
definition EPOLLET :: u32 where "EPOLLET = 0x80000000"

text \<open>\<^verbatim>\<open>data.ptr\<close> is null or a socket, by its number.\<close>

record epoll_event =
  ev_events :: u32
  ev_ptr :: "nat option"

type_synonym interest_list = "int \<Rightarrow> epoll_event option"

datatype epoll_op = EPOLL_CTL_ADD | EPOLL_CTL_MOD | EPOLL_CTL_DEL

text \<open>\<open>ctl epfd op fd event\<close> gives the error, or none, and the interest list.\<close>

type_synonym epoll_ctl = "int \<Rightarrow> epoll_op \<Rightarrow> int \<Rightarrow> epoll_event \<Rightarrow> interest_list \<Rightarrow> errno option \<times> interest_list"

text \<open>
  The manual page: adding fails when the descriptor is in the list, the other two when it is not (\<^verbatim>\<open>EEXIST\<close>, \<^verbatim>\<open>ENOENT\<close>), all fail on a
  descriptor that is not open; adding may fail for want of memory, the others not; none fails with \<^verbatim>\<open>EAGAIN\<close> or \<^verbatim>\<open>EINPROGRESS\<close>; a
  failed call changes nothing.
\<close>

definition epoll_documented :: "epoll_ctl \<Rightarrow> bool" where
  "epoll_documented ctl \<longleftrightarrow>
     (\<forall>ep op fd e l. fst (ctl ep op fd e l) \<notin> {Some EAGAIN, Some EINPROGRESS}) \<and>
     (\<forall>ep op fd e l. fst (ctl ep op fd e l) \<noteq> None \<longrightarrow> snd (ctl ep op fd e l) = l) \<and>
     (\<forall>ep op fd e l. fst (ctl ep op fd e l) = None \<longrightarrow>
        ep \<ge> 0 \<and> fd \<ge> 0 \<and> (l fd = None \<longleftrightarrow> op = EPOLL_CTL_ADD) \<and>
        snd (ctl ep op fd e l) = l(fd := (if op = EPOLL_CTL_DEL then None else Some e))) \<and>
     (\<forall>ep op fd e l. ep \<ge> 0 \<and> fd \<ge> 0 \<and> l fd \<noteq> None \<and> op \<noteq> EPOLL_CTL_ADD \<longrightarrow> fst (ctl ep op fd e l) = None)"

section \<open>\<open>IoContext\<close>\<close>

record IoContext =
  epoll_fd :: int
  maxEvents :: int
  ctx_executor :: executor_ptr
  eventPool :: bool

text \<open>The constructor, on what \<^verbatim>\<open>epoll_create1\<close> answers; \<open>None\<close> is \<^verbatim>\<open>exit(-1)\<close>.\<close>

definition IoContext_new :: "int \<Rightarrow> int \<Rightarrow> executor_ptr \<Rightarrow> IoContext option" where
  "IoContext_new created max_events ex =
     (if created = -1 then None
      else if max_events \<le> 0 then None
      else Some \<lparr>epoll_fd = created, maxEvents = max_events, ctx_executor = ex, eventPool = True\<rparr>)"

definition IoContext_move :: "IoContext \<Rightarrow> IoContext \<times> IoContext" where
  "IoContext_move other = (other, \<lparr>epoll_fd = -1, maxEvents = 0, ctx_executor = None, eventPool = False\<rparr>)"

definition IoContext_move_assign :: "IoContext \<Rightarrow> IoContext \<Rightarrow> IoContext \<times> IoContext" where
  "IoContext_move_assign this other = (other, this)"

text \<open>The descriptors the destructor closes: none.\<close>

definition IoContext_destroy :: "IoContext \<Rightarrow> IoContext \<times> int list" where
  "IoContext_destroy this = (this\<lparr>eventPool := False\<rparr>, [])"

section \<open>\<open>Socket\<close>\<close>

record Socket =
  sock_fd :: int
  has_io_context :: bool
  listen_events :: u32
  waited_events :: u32
  sock_h :: "nat option"

definition default_listen_events :: u32 where
  "default_listen_events = EPOLLIN OR EPOLLOUT OR EPOLLRDHUP OR EPOLLET"

text \<open>The constructors, on the answers of \<^verbatim>\<open>socket\<close>, and of \<^verbatim>\<open>fcntl\<close> to the two requests.\<close>

definition Socket_create :: "int \<Rightarrow> bool \<Rightarrow> u32 \<Rightarrow> Socket option" where
  "Socket_create created ctx events =
     (if created = -1 then None
      else Some \<lparr>sock_fd = created, has_io_context = ctx, listen_events = events, waited_events = 0, sock_h = None\<rparr>)"

definition Socket_of_fd :: "int \<Rightarrow> bool \<Rightarrow> bool \<Rightarrow> bool \<Rightarrow> u32 \<Rightarrow> Socket option" where
  "Socket_of_fd fd got_flags set_flags ctx events =
     (if fd = -1 then None
      else if \<not> got_flags then None
      else if \<not> set_flags then None
      else Some \<lparr>sock_fd = fd, has_io_context = ctx, listen_events = events, waited_events = 0, sock_h = None\<rparr>)"

text \<open>The descriptors handed to \<^verbatim>\<open>close\<close>: the member is overwritten first.\<close>

definition Socket_destroy :: "Socket \<Rightarrow> Socket \<times> int list" where
  "Socket_destroy s = (if sock_fd s \<noteq> -1 then let s = s\<lparr>sock_fd := -1\<rparr> in (s, [sock_fd s]) else (s, []))"

definition Socket_attach2IoContext :: "epoll_ctl \<Rightarrow> int \<Rightarrow> nat \<Rightarrow> Socket \<Rightarrow> interest_list \<Rightarrow> bool \<times> interest_list" where
  "Socket_attach2IoContext ctl ep this s l =
     (if \<not> has_io_context s then (False, l)
      else let (err, l) = ctl ep EPOLL_CTL_ADD (sock_fd s) \<lparr>ev_events = listen_events s, ev_ptr = Some this\<rparr> l in (err = None, l))"

text \<open>Adding and removing give the error as well, which is what \<^verbatim>\<open>errno\<close> holds afterwards.\<close>

definition Socket_addEvents :: "epoll_ctl \<Rightarrow> int \<Rightarrow> u32 \<Rightarrow> Socket \<Rightarrow> interest_list \<Rightarrow> (errno option \<times> Socket \<times> interest_list) outcome" where
  "Socket_addEvents ctl ep events s l =
     (if listen_events s AND events = events then Inr (None, s, l)
      else let s = s\<lparr>listen_events := listen_events s OR events\<rparr>
           in if \<not> has_io_context s then Inl Undefined_behaviour
              else let (err, l) = ctl ep EPOLL_CTL_MOD (sock_fd s) \<lparr>ev_events = listen_events s, ev_ptr = None\<rparr> l in Inr (err, s, l))"

definition Socket_removeEvents :: "epoll_ctl \<Rightarrow> int \<Rightarrow> u32 \<Rightarrow> Socket \<Rightarrow> interest_list \<Rightarrow> (errno option \<times> Socket \<times> interest_list) outcome" where
  "Socket_removeEvents ctl ep events s l =
     (let removed = listen_events s AND events
      in if removed = 0 then Inr (None, s, l)
         else let s = s\<lparr>listen_events := listen_events s XOR removed\<rparr>
              in if \<not> has_io_context s then Inl Undefined_behaviour
                 else let (err, l) = ctl ep EPOLL_CTL_MOD (sock_fd s) \<lparr>ev_events = listen_events s, ev_ptr = None\<rparr> l in Inr (err, s, l))"

section \<open>Coroutines on sockets\<close>

datatype sock_call = Call_connect | Call_send | Call_recv | Call_accept

fun call_again :: "sock_call \<Rightarrow> errno \<Rightarrow> bool" where
  "call_again Call_connect e = (e = EINPROGRESS)"
| "call_again _ e = (e = EAGAIN)"

fun call_event :: "sock_call \<Rightarrow> u32" where
  "call_event Call_connect = EPOLLOUT"
| "call_event Call_send = EPOLLOUT"
| "call_event Call_recv = EPOLLIN"
| "call_event Call_accept = EPOLLOUT"

text \<open>Where the coroutine is: about to make the call, in \<^verbatim>\<open>addEvents\<close>, in \<^verbatim>\<open>await_suspend\<close>, suspended, or done with this result.\<close>

datatype sock_pc = Calling | Adding | Awaiting | Suspended | is_Finished: Finished int

record sock_coro =
  co_call :: sock_call
  co_sock :: nat
  co_pc :: sock_pc

text \<open>
  All of it: the sockets, the kernel's interest list, the events the loop has fetched and not handled yet, the coroutines handed to
  the executor, and those it refused.
\<close>

record epoll_world =
  ew_ctx :: IoContext
  ew_sockets :: "Socket list"
  ew_interest :: interest_list
  ew_fetched :: "(nat option \<times> u32) list"
  ew_scheduled :: "nat list"
  ew_refused :: "nat list"
  ew_coros :: "sock_coro list"

definition set_co_pc :: "nat \<Rightarrow> sock_pc \<Rightarrow> epoll_world \<Rightarrow> epoll_world" where
  "set_co_pc c pc w = w\<lparr>ew_coros := (ew_coros w)[c := (ew_coros w ! c)\<lparr>co_pc := pc\<rparr>]\<rparr>"

definition set_socket :: "nat \<Rightarrow> Socket \<Rightarrow> epoll_world \<Rightarrow> epoll_world" where
  "set_socket i s w = w\<lparr>ew_sockets := (ew_sockets w)[i := s]\<rparr>"

datatype sys_answer = Sys_returns int | Sys_fails errno

definition after_call :: "sock_call \<Rightarrow> sys_answer \<Rightarrow> sock_pc" where
  "after_call call ans =
     (case ans of
        Sys_returns n \<Rightarrow> Finished n
      | Sys_fails e \<Rightarrow> if call_again call e then Adding else Finished (-1))"

text \<open>\<^verbatim>\<open>addEvents\<close> has failed: the loop looks at \<^verbatim>\<open>errno\<close>, which the call on \<^verbatim>\<open>epoll\<close> has set.\<close>

definition after_add :: "sock_call \<Rightarrow> errno option \<Rightarrow> sock_pc" where
  "after_add call err =
     (case err of
        None \<Rightarrow> Awaiting
      | Some e \<Rightarrow> if call_again call e then Adding else Finished (-1))"

text \<open>\<^verbatim>\<open>SocketAwaiter::await_suspend\<close>: whether the coroutine stays suspended.\<close>

definition await_suspend :: "epoll_ctl \<Rightarrow> nat \<Rightarrow> nat \<Rightarrow> epoll_world \<Rightarrow> bool \<times> epoll_world" where
  "await_suspend ctl c i w =
     (let s = ew_sockets w ! i
      in if \<not> has_io_context s \<or> epoll_fd (ew_ctx w) = -1 then (False, w)
         else let s = s\<lparr>sock_h := Some c\<rparr>;
                  (ok, l) = Socket_attach2IoContext ctl (epoll_fd (ew_ctx w)) i s (ew_interest w)
              in (ok, (set_socket i s w)\<lparr>ew_interest := l\<rparr>))"

text \<open>The body of the inner loop of \<^verbatim>\<open>IoContext::run\<close>, for one event; \<open>accepted\<close> is what \<^verbatim>\<open>schedule\<close> answers.\<close>

definition schedule_h :: "bool \<Rightarrow> Socket \<Rightarrow> epoll_world \<Rightarrow> epoll_world outcome" where
  "schedule_h accepted s w =
     (case sock_h s of
        None \<Rightarrow> Inl Undefined_behaviour
      | Some c \<Rightarrow>
          if ctx_executor (ew_ctx w) = None then Inl Undefined_behaviour
          else if accepted then Inr (w\<lparr>ew_scheduled := ew_scheduled w @ [c]\<rparr>)
          else Inr (w\<lparr>ew_refused := ew_refused w @ [c]\<rparr>))"

definition handle_event :: "epoll_ctl \<Rightarrow> bool \<Rightarrow> nat option \<times> u32 \<Rightarrow> epoll_world \<Rightarrow> epoll_world outcome" where
  "handle_event ctl accepted ev w =
     (case fst ev of
        None \<Rightarrow> Inl Undefined_behaviour
      | Some i \<Rightarrow>
          (let s = (ew_sockets w ! i)\<lparr>waited_events := snd ev\<rparr>
           in if snd ev AND EPOLLERR \<noteq> 0
              then schedule_h accepted (s\<lparr>sock_fd := -1\<rparr>)
                     ((set_socket i (s\<lparr>sock_fd := -1\<rparr>) w)\<lparr>ew_interest := (ew_interest w)(sock_fd s := None)\<rparr>)
              else let (_, l) = ctl (epoll_fd (ew_ctx w)) EPOLL_CTL_DEL (sock_fd s) \<lparr>ev_events = 0, ev_ptr = None\<rparr> (ew_interest w)
                   in schedule_h accepted s ((set_socket i s w)\<lparr>ew_interest := l\<rparr>)))"

text \<open>
  The steps: the next call of a coroutine, a call on a socket with its answer, \<^verbatim>\<open>addEvents\<close>, \<^verbatim>\<open>co_await\<close>, \<^verbatim>\<open>epoll_wait\<close> with the descriptors it reports (none when it
  is interrupted), the handling of a reported event, and the executor that resumes a coroutine.
\<close>

datatype epoll_label = L_next nat sock_call | L_call nat sys_answer | L_add nat | L_await nat | L_wait "(int \<times> u32) list" | L_handle bool | L_resume nat

definition wait_reports :: "epoll_world \<Rightarrow> (int \<times> u32) list \<Rightarrow> bool" where
  "wait_reports w evs \<longleftrightarrow>
     distinct (map fst evs) \<and> int (length evs) \<le> maxEvents (ew_ctx w) \<and> (\<forall>ev\<in>set evs. ew_interest w (fst ev) \<noteq> None)"

fun epoll_step :: "epoll_ctl \<Rightarrow> epoll_label \<Rightarrow> epoll_world \<Rightarrow> epoll_world outcome option" where
  "epoll_step ctl (L_next c call) w =
     (if c < length (ew_coros w) \<and> is_Finished (co_pc (ew_coros w ! c))
      then Some (Inr (w\<lparr>ew_coros := (ew_coros w)[c := (ew_coros w ! c)\<lparr>co_call := call, co_pc := Calling\<rparr>]\<rparr>)) else None)"
| "epoll_step ctl (L_call c ans) w =
     (if c < length (ew_coros w) \<and> co_pc (ew_coros w ! c) = Calling
      then Some (Inr (set_co_pc c (after_call (co_call (ew_coros w ! c)) ans) w)) else None)"
| "epoll_step ctl (L_add c) w =
     (if c < length (ew_coros w) \<and> co_pc (ew_coros w ! c) = Adding
      then let k = ew_coros w ! c
           in Some (bind_outcome (Socket_addEvents ctl (epoll_fd (ew_ctx w)) (call_event (co_call k)) (ew_sockets w ! co_sock k) (ew_interest w))
                (\<lambda>(err, s, l). Inr (set_co_pc c (after_add (co_call k) err) ((set_socket (co_sock k) s w)\<lparr>ew_interest := l\<rparr>))))
      else None)"
| "epoll_step ctl (L_await c) w =
     (if c < length (ew_coros w) \<and> co_pc (ew_coros w ! c) = Awaiting
      then let (stays, w') = await_suspend ctl c (co_sock (ew_coros w ! c)) w
           in Some (Inr (set_co_pc c (if stays then Suspended else Calling) w'))
      else None)"
| "epoll_step ctl (L_wait evs) w =
     (if ew_fetched w = [] \<and> wait_reports w evs
      then Some (Inr (w\<lparr>ew_fetched := map (\<lambda>(fd, e). (Option.bind (ew_interest w fd) ev_ptr, e)) evs\<rparr>)) else None)"
| "epoll_step ctl (L_handle accepted) w =
     (case ew_fetched w of
        [] \<Rightarrow> None
      | ev # evs \<Rightarrow> Some (handle_event ctl accepted ev (w\<lparr>ew_fetched := evs\<rparr>)))"
| "epoll_step ctl (L_resume c) w =
     (if c \<in> set (ew_scheduled w)
      then Some (if c < length (ew_coros w) \<and> co_pc (ew_coros w ! c) = Suspended
                 then Inr (set_co_pc c Calling (w\<lparr>ew_scheduled := remove1 c (ew_scheduled w)\<rparr>))
                 else Inl Undefined_behaviour)
      else None)"

fun epoll_steps :: "epoll_ctl \<Rightarrow> epoll_label list \<Rightarrow> epoll_world \<Rightarrow> epoll_world outcome option" where
  "epoll_steps ctl [] w = Some (Inr w)"
| "epoll_steps ctl (l # ls) w =
     (case epoll_step ctl l w of
        None \<Rightarrow> None
      | Some (Inl e) \<Rightarrow> Some (Inl e)
      | Some (Inr w) \<Rightarrow> epoll_steps ctl ls w)"

section \<open>The echo server and its client\<close>

text \<open>
  What the coroutines do with the results of \<^verbatim>\<open>recv\<close> and \<^verbatim>\<open>send\<close>, given as lists; they stop when a list ends, as if suspended there. A
  result of \<^verbatim>\<open>recv\<close> is the bytes put in the buffer, or an error. Bytes of any type.
\<close>

datatype finish = Waits | Gives_up

fun send_all :: "'b list \<Rightarrow> int list \<Rightarrow> 'b list \<times> finish option \<times> int list" where
  "send_all rest [] = (if rest = [] then ([], None, []) else ([], Some Waits, []))"
| "send_all rest (res # results) =
     (if rest = [] then ([], None, res # results)
      else if res \<le> 0 then ([], Some Gives_up, results)
      else let (sent, fin, results) = send_all (drop (nat res) rest) results in (take (nat res) rest @ sent, fin, results))"

fun echo_server_impl :: "'b list option list \<Rightarrow> int list \<Rightarrow> 'b list \<times> finish" where
  "echo_server_impl [] results = ([], Waits)"
| "echo_server_impl (None # recvs) results = ([], Gives_up)"
| "echo_server_impl (Some bs # recvs) results =
     (if bs = [] then ([], Gives_up)
      else case send_all bs results of
             (sent, Some fin, _) \<Rightarrow> (sent, fin)
           | (sent, None, results) \<Rightarrow> let (more, fin) = echo_server_impl recvs results in (sent @ more, fin))"

text \<open>The client's receiving loop writes into the buffer it sent; what it has left to receive is \<open>n\<close>.\<close>

fun recv_all :: "nat \<Rightarrow> 'b list option list \<Rightarrow> 'b list \<times> finish option \<times> 'b list option list" where
  "recv_all n [] = (if n = 0 then ([], None, []) else ([], Some Waits, []))"
| "recv_all n (res # recvs) =
     (if n = 0 then ([], None, res # recvs)
      else case res of
             None \<Rightarrow> ([], Some Gives_up, recvs)
           | Some bs \<Rightarrow>
               if bs = [] then ([], Some Gives_up, recvs)
               else let (got, fin, recvs) = recv_all (n - length bs) recvs in (bs @ got, fin, recvs))"

primrec client_send_impl :: "nat \<Rightarrow> 'b list \<Rightarrow> int list \<Rightarrow> 'b list option list \<Rightarrow> 'b list \<times> finish option" where
  "client_send_impl 0 buffer results recvs = ([], None)"
| "client_send_impl (Suc rounds) buffer results recvs =
     (case send_all buffer results of
        (sent, Some fin, _) \<Rightarrow> (sent, Some fin)
      | (sent, None, results) \<Rightarrow>
          (case recv_all (length buffer) recvs of
             (got, Some fin, _) \<Rightarrow> (sent, Some fin)
           | (got, None, recvs) \<Rightarrow>
               let (more, fin) = client_send_impl rounds got results recvs in (sent @ more, fin)))"

text \<open>The accepting loop: the descriptors it hands to new coroutines, and whether it closed the listening socket.\<close>

fun echo_server :: "int list \<Rightarrow> int list \<times> bool" where
  "echo_server [] = ([], False)"
| "echo_server (fd # accepted) =
     (if fd = -1 then ([], True) else let (fds, closed) = echo_server accepted in (fd # fds, closed))"

end
