(* ===== verification/Coro_Epoll_Props.thy ===== *)
theory Coro_Epoll_Props
  imports Coro_Epoll
begin

text \<open>
  No coroutine that waits for a socket is lost or resumed twice, if each has a socket of its own; two coroutines on one socket may
  lose one. What the echo server and its client send.
\<close>

section \<open>A socket for each coroutine\<close>

definition co_fd :: "epoll_world \<Rightarrow> nat \<Rightarrow> int" where
  "co_fd w c = sock_fd (ew_sockets w ! co_sock (ew_coros w ! c))"

definition co_watch :: "epoll_world \<Rightarrow> nat \<Rightarrow> epoll_event option" where
  "co_watch w c = ew_interest w (co_fd w c)"

definition handed :: "epoll_world \<Rightarrow> nat \<Rightarrow> nat" where
  "handed w c = count_list (ew_scheduled w) c + count_list (ew_refused w) c"

definition co_ok :: "epoll_world \<Rightarrow> nat \<Rightarrow> bool" where
  "co_ok w c \<longleftrightarrow>
     (let k = ew_coros w ! c; s = ew_sockets w ! co_sock k
      in has_io_context s \<and> co_sock k < length (ew_sockets w) \<and>
         (co_pc k = Awaiting \<or> co_pc k = Suspended \<longrightarrow> listen_events s AND call_event (co_call k) = call_event (co_call k)) \<and>
         (case co_watch w c of
            None \<Rightarrow> handed w c = (if co_pc k = Suspended then 1 else 0)
          | Some e \<Rightarrow> co_pc k = Suspended \<and> e = \<lparr>ev_events = listen_events s, ev_ptr = Some (co_sock k)\<rparr> \<and>
              sock_h s = Some c \<and> handed w c = 0))"

definition epoll_inv :: "epoll_world \<Rightarrow> bool" where
  "epoll_inv w \<longleftrightarrow>
     (let n = length (ew_coros w)
      in 0 \<le> epoll_fd (ew_ctx w) \<and> ctx_executor (ew_ctx w) \<noteq> None \<and> (\<forall>fd<0. ew_interest w fd = None) \<and>
         (\<forall>c<n. co_ok w c) \<and>
         (\<forall>c<n. \<forall>d<n. c \<noteq> d \<longrightarrow> co_sock (ew_coros w ! c) \<noteq> co_sock (ew_coros w ! d) \<and> (co_fd w c = co_fd w d \<longrightarrow> co_fd w c < 0)) \<and>
         (\<forall>fd. ew_interest w fd \<noteq> None \<longrightarrow> (\<exists>c<n. co_fd w c = fd)) \<and>
         set (ew_scheduled w) \<union> set (ew_refused w) \<subseteq> {..<n} \<and>
         distinct (map fst (ew_fetched w)) \<and>
         (\<forall>ev\<in>set (ew_fetched w). \<exists>c<n. fst ev = Some (co_sock (ew_coros w ! c)) \<and> co_watch w c \<noteq> None))"

text \<open>A step that only touches one coroutine, its socket and its descriptor.\<close>

lemma epoll_inv_local:
  assumes inv: "epoll_inv w" and c: "c < length (ew_coros w)"
    and ctx: "ew_ctx w' = ew_ctx w"
    and coros: "ew_coros w' = (ew_coros w)[c := k]" "co_sock k = i" "co_sock (ew_coros w ! c) = i"
    and socks: "ew_sockets w' = (ew_sockets w)[i := s]" "sock_fd s = co_fd w c \<or> sock_fd s = -1"
    and int: "\<And>fd. fd \<noteq> co_fd w c \<Longrightarrow> ew_interest w' fd = ew_interest w fd"
    and closed: "sock_fd s < 0 \<or> co_fd w c < 0 \<Longrightarrow> ew_interest w' (co_fd w c) = None"
    and others: "\<And>d. d \<noteq> c \<Longrightarrow> handed w' d = handed w d"
    and sub: "set (ew_scheduled w') \<union> set (ew_refused w') \<subseteq> {..<length (ew_coros w)}"
    and ok: "co_ok w' c"
    and fetched: "set (ew_fetched w') \<subseteq> set (ew_fetched w)" "distinct (map fst (ew_fetched w'))"
      "\<And>e. (Some i, e) \<in> set (ew_fetched w') \<Longrightarrow> co_watch w' c \<noteq> None"
  shows "epoll_inv w'"
proof -
  let ?n = "length (ew_coros w)"
  have i: "i < length (ew_sockets w)" using inv c coros by (auto simp: epoll_inv_def co_ok_def Let_def)
  have apart: "co_sock (ew_coros w ! d) \<noteq> i \<and> (co_fd w d = co_fd w c \<longrightarrow> co_fd w c < 0)" if "d < ?n" "d \<noteq> c" for d
    using inv c that coros(3) unfolding epoll_inv_def Let_def by metis
  have other: "ew_coros w' ! d = ew_coros w ! d \<and> ew_sockets w' ! co_sock (ew_coros w ! d) = ew_sockets w ! co_sock (ew_coros w ! d) \<and>
      co_fd w' d = co_fd w d \<and> co_watch w' d = co_watch w d" if d: "d < ?n" "d \<noteq> c" for d
  proof -
    have "co_watch w' d = co_watch w d" if "co_fd w' d = co_fd w d"
    proof (cases "co_fd w d = co_fd w c")
      case True
      then have "co_fd w c < 0" using apart[OF d] by simp
      then show ?thesis using that True closed inv by (auto simp: co_watch_def epoll_inv_def Let_def)
    qed (use that int in \<open>simp add: co_watch_def\<close>)
    moreover have "ew_coros w' ! d = ew_coros w ! d" "ew_sockets w' ! co_sock (ew_coros w ! d) = ew_sockets w ! co_sock (ew_coros w ! d)"
      using apart[OF d] d by (auto simp: coros socks)
    ultimately show ?thesis by (simp add: co_fd_def)
  qed
  have self: "co_fd w' c = sock_fd s" using c i by (simp add: co_fd_def coros socks)
  have "co_ok w' d" if "d < ?n" for d
  proof (cases "d = c")
    case False
    have "co_ok w d" using inv that by (simp add: epoll_inv_def Let_def)
    moreover have "length (ew_sockets w') = length (ew_sockets w)" by (simp add: socks)
    ultimately show ?thesis using other[OF that False] others[OF False] by (cases "co_watch w d") (simp_all add: co_ok_def Let_def)
  qed (use ok in simp)
  moreover have "co_sock (ew_coros w' ! a) \<noteq> co_sock (ew_coros w' ! b) \<and> (co_fd w' a = co_fd w' b \<longrightarrow> co_fd w' a < 0)"
    if ab: "a < ?n" "b < ?n" "a \<noteq> b" for a b
  proof -
    have old: "co_sock (ew_coros w ! a) \<noteq> co_sock (ew_coros w ! b) \<and> (co_fd w a = co_fd w b \<longrightarrow> co_fd w a < 0)"
      using inv ab by (simp add: epoll_inv_def Let_def)
    have k: "co_sock (ew_coros w' ! c) = i" using c by (simp add: coros)
    consider "a = c" | "b = c" | "a \<noteq> c" "b \<noteq> c" by blast
    then show ?thesis
    proof cases
      case 1
      with other[of b] ab old k self socks(2) coros(3) show ?thesis by auto
    next
      case 2
      with other[of a] ab old k self socks(2) coros(3) show ?thesis by auto
    next
      case 3
      with other[of a] other[of b] ab old show ?thesis by simp
    qed
  qed
  moreover have "\<exists>d<?n. co_fd w' d = fd" if fd: "ew_interest w' fd \<noteq> None" for fd
  proof (cases "fd = co_fd w c")
    case True
    then have "\<not> (sock_fd s < 0 \<or> co_fd w c < 0)" using closed fd by auto
    then have "co_fd w' c = fd" using socks(2) True self by auto
    with c show ?thesis by blast
  next
    case False
    with int fd obtain d where d: "d < ?n" "co_fd w d = fd" using inv unfolding epoll_inv_def Let_def by metis
    with False other[of d] show ?thesis by auto
  qed
  moreover have "\<exists>d<?n. fst ev = Some (co_sock (ew_coros w' ! d)) \<and> co_watch w' d \<noteq> None" if ev: "ev \<in> set (ew_fetched w')" for ev
  proof -
    have "ev \<in> set (ew_fetched w)" using ev fetched(1) by blast
    then obtain d where d: "d < ?n" "fst ev = Some (co_sock (ew_coros w ! d))" "co_watch w d \<noteq> None"
      using inv unfolding epoll_inv_def Let_def by blast
    show ?thesis
    proof (cases "d = c")
      case True
      with d(2) coros(3) have "(Some i, snd ev) \<in> set (ew_fetched w')" using ev by (metis prod.collapse)
      from fetched(3)[OF this] True d c coros show ?thesis by (metis nth_list_update_eq)
    qed (use other[of d] d in auto)
  qed
  moreover have "ew_interest w' fd = None" if "fd < 0" for fd
    using int[of fd] closed inv that by (cases "fd = co_fd w c") (auto simp: epoll_inv_def Let_def)
  ultimately show ?thesis using inv sub fetched(2) unfolding epoll_inv_def Let_def by (simp add: ctx coros)
qed

lemma epoll_inv_co: "epoll_inv w \<Longrightarrow> c < length (ew_coros w) \<Longrightarrow> co_ok w c"
  by (simp add: epoll_inv_def Let_def)

lemma epoll_inv_sub: "epoll_inv w \<Longrightarrow> set (ew_scheduled w) \<union> set (ew_refused w) \<subseteq> {..<length (ew_coros w)}"
  by (simp add: epoll_inv_def Let_def)

text \<open>A coroutine that is not suspended is watched by nobody and fetched by nobody; its position may change.\<close>

lemma epoll_inv_move:
  assumes inv: "epoll_inv w" and c: "c < length (ew_coros w)" and run: "co_pc (ew_coros w ! c) \<noteq> Suspended"
    and k: "co_sock k = co_sock (ew_coros w ! c)" "co_pc k \<noteq> Suspended"
      "co_pc k = Awaiting \<Longrightarrow> listen_events s AND call_event (co_call k) = call_event (co_call k)"
    and s: "sock_fd s = co_fd w c" "has_io_context s"
  shows "epoll_inv (w\<lparr>ew_sockets := (ew_sockets w)[co_sock k := s], ew_coros := (ew_coros w)[c := k]\<rparr>)"
proof -
  let ?w = "w\<lparr>ew_sockets := (ew_sockets w)[co_sock k := s], ew_coros := (ew_coros w)[c := k]\<rparr>"
  have co: "co_ok w c" by (rule epoll_inv_co[OF inv c])
  then have none: "co_watch w c = None" "handed w c = 0" using run by (auto simp: co_ok_def Let_def split: option.splits)
  have i: "co_sock k < length (ew_sockets w)" using co k by (simp add: co_ok_def Let_def)
  have "co_fd ?w c = co_fd w c" using c i s by (simp add: co_fd_def)
  then have "co_ok ?w c" using none c i k s by (auto simp: co_ok_def Let_def co_watch_def handed_def)
  moreover have "co_watch w c \<noteq> None" if "(Some (co_sock k), e) \<in> set (ew_fetched w)" for e
    using inv c that k(1) unfolding epoll_inv_def Let_def by fastforce
  moreover have "distinct (map fst (ew_fetched w))" using inv by (simp add: epoll_inv_def Let_def)
  moreover have "co_watch ?w c = None" using none \<open>co_fd ?w c = co_fd w c\<close> by (simp add: co_watch_def)
  ultimately show ?thesis using none s(1) k(1) epoll_inv_sub[OF inv]
    by (intro epoll_inv_local[OF inv c, where k = k and i = "co_sock k" and s = s]) (simp_all add: co_watch_def handed_def)
qed

lemma epoll_inv_move_pc:
  assumes inv: "epoll_inv w" and c: "c < length (ew_coros w)" and run: "co_pc (ew_coros w ! c) \<noteq> Suspended"
    and k: "co_sock k = co_sock (ew_coros w ! c)" "co_pc k \<noteq> Suspended" "co_pc k \<noteq> Awaiting"
  shows "epoll_inv (w\<lparr>ew_coros := (ew_coros w)[c := k]\<rparr>)"
proof -
  have "co_ok w c" by (rule epoll_inv_co[OF inv c])
  then have "has_io_context (ew_sockets w ! co_sock k)" using k by (simp add: co_ok_def Let_def)
  moreover have "sock_fd (ew_sockets w ! co_sock k) = co_fd w c" using k by (simp add: co_fd_def)
  moreover have "w\<lparr>ew_sockets := (ew_sockets w)[co_sock k := ew_sockets w ! co_sock k], ew_coros := cs\<rparr> = w\<lparr>ew_coros := cs\<rparr>" for cs
    by (cases w) simp
  ultimately show ?thesis using epoll_inv_move[OF inv c run k(1,2), of "ew_sockets w ! co_sock k"] k(3) by metis
qed

lemma after_add_fails: "e \<notin> {EAGAIN, EINPROGRESS} \<Longrightarrow> after_add call (Some e) = Finished (-1)"
  by (cases call) (auto simp: after_add_def)

lemma documented:
  assumes "epoll_documented ctl"
  shows "fst (ctl ep op fd e l) \<noteq> Some EAGAIN" "fst (ctl ep op fd e l) \<noteq> Some EINPROGRESS"
    "fst (ctl ep op fd e l) \<noteq> None \<Longrightarrow> snd (ctl ep op fd e l) = l"
    "fst (ctl ep op fd e l) = None \<Longrightarrow> fd \<ge> 0 \<and> (l fd = None \<longleftrightarrow> op = EPOLL_CTL_ADD) \<and>
       snd (ctl ep op fd e l) = l(fd := (if op = EPOLL_CTL_DEL then None else Some e))"
    "ep \<ge> 0 \<Longrightarrow> fd \<ge> 0 \<Longrightarrow> l fd \<noteq> None \<Longrightarrow> op \<noteq> EPOLL_CTL_ADD \<Longrightarrow> fst (ctl ep op fd e l) = None"
  using assms unfolding epoll_documented_def by blast+

lemma ctl_mod_absent:
  assumes "epoll_documented ctl" "l fd = None"
  obtains e where "ctl ep EPOLL_CTL_MOD fd ev l = (Some e, l)" "e \<notin> {EAGAIN, EINPROGRESS}"
proof -
  let ?r = "ctl ep EPOLL_CTL_MOD fd ev l"
  have "fst ?r \<noteq> None" using documented(4)[OF assms(1), of ep EPOLL_CTL_MOD fd ev l] assms(2) by auto
  then obtain e where e: "fst ?r = Some e" by blast
  have "snd ?r = l" by (rule documented(3)[OF assms(1)]) (simp add: e)
  with e have "?r = (Some e, l)" by (simp add: prod_eq_iff)
  moreover have "e \<notin> {EAGAIN, EINPROGRESS}" using documented(1,2)[OF assms(1), of ep EPOLL_CTL_MOD fd ev l] e by auto
  ultimately show thesis by (rule that)
qed

lemma ctl_add:
  assumes "epoll_documented ctl" "ctl ep EPOLL_CTL_ADD fd ev l = (r, l')"
  shows "if r = None then fd \<ge> 0 \<and> l fd = None \<and> l' = l(fd \<mapsto> ev) else l' = l"
  using documented(3,4)[OF assms(1), of ep EPOLL_CTL_ADD fd ev l] assms(2) by auto

lemma ctl_del:
  assumes "epoll_documented ctl" "ep \<ge> 0" "fd \<ge> 0" "l fd \<noteq> None"
  shows "snd (ctl ep EPOLL_CTL_DEL fd ev l) = l(fd := None)"
  using documented(4)[OF assms(1), of ep EPOLL_CTL_DEL fd ev l] documented(5)[OF assms(1), of ep fd l EPOLL_CTL_DEL ev] assms by simp

section \<open>Every step\<close>

lemma step_await:
  assumes doc: "epoll_documented ctl" and inv: "epoll_inv w" and c: "c < length (ew_coros w)" "co_pc (ew_coros w ! c) = Awaiting"
    and r: "await_suspend ctl c (co_sock (ew_coros w ! c)) w = (stays, w')"
  shows "epoll_inv (set_co_pc c (if stays then Suspended else Calling) w')"
proof -
  let ?k = "ew_coros w ! c" let ?i = "co_sock ?k" let ?s = "(ew_sockets w ! ?i)\<lparr>sock_h := Some c\<rparr>"
  let ?ev = "\<lparr>ev_events = listen_events ?s, ev_ptr = Some ?i\<rparr>"
  have co: "co_ok w c" by (rule epoll_inv_co[OF inv c(1)])
  then have none: "co_watch w c = None" "handed w c = 0" using c by (auto simp: co_ok_def Let_def split: option.splits)
  have ok: "has_io_context ?s" "?i < length (ew_sockets w)" "listen_events ?s AND call_event (co_call ?k) = call_event (co_call ?k)"
    using co c by (auto simp: co_ok_def Let_def)
  obtain e l where e: "ctl (epoll_fd (ew_ctx w)) EPOLL_CTL_ADD (co_fd w c) ?ev (ew_interest w) = (e, l)" by fastforce
  have "0 \<le> epoll_fd (ew_ctx w)" using inv by (simp add: epoll_inv_def Let_def)
  then have w': "w' = (set_socket ?i ?s w)\<lparr>ew_interest := l\<rparr>" "stays = (e = None)"
    using r e ok by (auto simp: await_suspend_def Socket_attach2IoContext_def Let_def co_fd_def)
  note add = ctl_add[OF doc e]
  let ?w = "set_co_pc c (if stays then Suspended else Calling) w'"
  have fd: "co_fd ?w c = co_fd w c" using c ok by (simp add: co_fd_def set_co_pc_def set_socket_def w')
  show ?thesis
  proof (rule epoll_inv_local[OF inv c(1), where k = "?k\<lparr>co_pc := if stays then Suspended else Calling\<rparr>" and i = ?i and s = ?s])
    show "co_ok ?w c" using add none ok c fd
      by (cases e) (simp_all add: co_ok_def Let_def co_watch_def handed_def set_co_pc_def set_socket_def w' split: if_splits)
    show "ew_interest ?w fd = ew_interest w fd" if "fd \<noteq> co_fd w c" for fd
      using add that by (auto simp: set_co_pc_def set_socket_def w' split: if_splits)
    show "ew_interest ?w (co_fd w c) = None" if "sock_fd ?s < 0 \<or> co_fd w c < 0"
      using add that none by (auto simp: set_co_pc_def set_socket_def w' co_watch_def co_fd_def split: if_splits)
    show "distinct (map fst (ew_fetched ?w))" using inv by (simp add: epoll_inv_def Let_def set_co_pc_def set_socket_def w')
    show "co_watch ?w c \<noteq> None" if "(Some ?i, e) \<in> set (ew_fetched ?w)" for e
      using inv c none that unfolding epoll_inv_def Let_def by (fastforce simp: set_co_pc_def set_socket_def w')
    show "set (ew_scheduled ?w) \<union> set (ew_refused ?w) \<subseteq> {..<length (ew_coros w)}"
      using epoll_inv_sub[OF inv] by (simp add: set_co_pc_def set_socket_def w')
  qed (simp_all add: set_co_pc_def set_socket_def w' handed_def co_fd_def)
qed

lemma step_handle:
  assumes doc: "epoll_documented ctl" and inv: "epoll_inv w" and f: "ew_fetched w = ev # evs"
  shows "\<exists>w'. handle_event ctl accepted ev (w\<lparr>ew_fetched := evs\<rparr>) = Inr w' \<and> epoll_inv w' \<and> ew_coros w' = ew_coros w"
proof -
  let ?w = "w\<lparr>ew_fetched := evs\<rparr>"
  obtain c where c: "c < length (ew_coros w)" "fst ev = Some (co_sock (ew_coros w ! c))" "co_watch w c \<noteq> None"
    using inv f unfolding epoll_inv_def Let_def by (metis list.set_intros(1))
  let ?i = "co_sock (ew_coros w ! c)"
  have co: "co_ok w c" by (rule epoll_inv_co[OF inv c(1)])
  then have s: "co_pc (ew_coros w ! c) = Suspended" "sock_h (ew_sockets w ! ?i) = Some c" "handed w c = 0" "?i < length (ew_sockets w)"
    and has: "has_io_context (ew_sockets w ! ?i)"
    "listen_events (ew_sockets w ! ?i) AND call_event (co_call (ew_coros w ! c)) = call_event (co_call (ew_coros w ! c))"
    using c(3) by (auto simp: co_ok_def Let_def)
  have ctx: "0 \<le> epoll_fd (ew_ctx w)" "ctx_executor (ew_ctx w) \<noteq> None" "\<And>fd. fd < 0 \<Longrightarrow> ew_interest w fd = None"
    using inv by (simp_all add: epoll_inv_def Let_def)
  have fd: "0 \<le> co_fd w c" "ew_interest w (co_fd w c) \<noteq> None" using ctx(3)[of "co_fd w c"] c(3) by (auto simp: co_watch_def not_less[symmetric])
  have del: "snd (ctl (epoll_fd (ew_ctx w)) EPOLL_CTL_DEL (co_fd w c) e (ew_interest w)) = (ew_interest w)(co_fd w c := None)" for e
    by (rule ctl_del) (use doc ctx(1) fd in simp_all)
  define s' where "s' = (if snd ev AND EPOLLERR \<noteq> 0 then (ew_sockets w ! ?i)\<lparr>waited_events := snd ev, sock_fd := -1\<rparr>
      else (ew_sockets w ! ?i)\<lparr>waited_events := snd ev\<rparr>)"
  define w' where "w' = (set_socket ?i s' ?w)\<lparr>ew_interest := (ew_interest w)(co_fd w c := None),
      ew_scheduled := ew_scheduled w @ (if accepted then [c] else []), ew_refused := ew_refused w @ (if accepted then [] else [c])\<rparr>"
  have r: "handle_event ctl accepted ev ?w = Inr w'"
    using s ctx(2) c(2) del[of "\<lparr>ev_events = 0, ev_ptr = None\<rparr>"]
    by (auto simp: handle_event_def schedule_h_def w'_def s'_def Let_def set_socket_def co_fd_def split: prod.splits)
  have fd': "co_fd w' c = sock_fd s'" using c s by (simp add: co_fd_def w'_def set_socket_def)
  have s'_ok: "sock_fd s' = co_fd w c \<or> sock_fd s' = -1" "has_io_context s'" "listen_events s' = listen_events (ew_sockets w ! ?i)"
    using has by (auto simp: s'_def co_fd_def)
  have unwatched: "co_watch w' c = None" using fd' s'_ok(1) ctx(3)[of "-1"] by (auto simp: co_watch_def w'_def)
  have "epoll_inv w'"
  proof (rule epoll_inv_local[OF inv c(1), where k = "ew_coros w ! c" and i = ?i and s = s'])
    show "co_ok w' c" using unwatched s s'_ok has by (simp add: co_ok_def Let_def) (simp add: w'_def set_socket_def handed_def)
    show "distinct (map fst (ew_fetched w'))" using inv f by (simp add: epoll_inv_def Let_def w'_def set_socket_def)
    show "co_watch w' c \<noteq> None" if "(Some ?i, e) \<in> set (ew_fetched w')" for e
    proof -
      have "(Some ?i, e) \<in> set evs" using that by (simp add: w'_def set_socket_def)
      moreover have "fst ev \<notin> set (map fst evs)" using inv f by (simp add: epoll_inv_def Let_def)
      ultimately show ?thesis using c(2) by force
    qed
    show "set (ew_scheduled w') \<union> set (ew_refused w') \<subseteq> {..<length (ew_coros w)}"
      using epoll_inv_sub[OF inv] c(1) by (simp add: w'_def set_socket_def)
    show "ew_coros w' = (ew_coros w)[c := ew_coros w ! c]" by (simp add: w'_def set_socket_def)
  qed (use f s'_ok in \<open>auto simp: w'_def set_socket_def handed_def\<close>)
  with r show ?thesis by (simp add: w'_def set_socket_def)
qed

lemma fetched_irrelevant [simp]:
  "co_fd (w\<lparr>ew_fetched := f\<rparr>) c = co_fd w c" "co_watch (w\<lparr>ew_fetched := f\<rparr>) c = co_watch w c"
  "handed (w\<lparr>ew_fetched := f\<rparr>) c = handed w c"
  by (simp_all add: co_fd_def co_watch_def handed_def)

lemma co_ok_fetched [simp]: "co_ok (w\<lparr>ew_fetched := f\<rparr>) c = co_ok w c"
  by (cases "co_watch w c") (simp_all add: co_ok_def Let_def)

lemma epoll_inv_fetched:
  assumes "epoll_inv w" "distinct (map fst f)"
    "\<And>ev. ev \<in> set f \<Longrightarrow> \<exists>c<length (ew_coros w). fst ev = Some (co_sock (ew_coros w ! c)) \<and> co_watch w c \<noteq> None"
  shows "epoll_inv (w\<lparr>ew_fetched := f\<rparr>)"
  using assms by (simp add: epoll_inv_def Let_def)

lemma wait_keeps:
  assumes inv: "epoll_inv w" and reports: "wait_reports w evs"
  shows "epoll_inv (w\<lparr>ew_fetched := map (\<lambda>(fd, e). (Option.bind (ew_interest w fd) ev_ptr, e)) evs\<rparr>)"
proof -
  have who: "\<exists>c<length (ew_coros w). co_fd w c = fd \<and> Option.bind (ew_interest w fd) ev_ptr = Some (co_sock (ew_coros w ! c))"
    if fd: "ew_interest w fd \<noteq> None" for fd
  proof -
    obtain c where c: "c < length (ew_coros w)" "co_fd w c = fd" using inv fd unfolding epoll_inv_def Let_def by blast
    with epoll_inv_co[OF inv c(1)] fd show ?thesis by (auto simp: co_ok_def Let_def co_watch_def intro!: exI[of _ c])
  qed
  have same: "fd = fd'" if e1: "ew_interest w fd \<noteq> None" and e2: "ew_interest w fd' \<noteq> None" and
    eq: "Option.bind (ew_interest w fd) ev_ptr = Option.bind (ew_interest w fd') ev_ptr" for fd fd'
  proof -
    obtain c c' where "c < length (ew_coros w)" "co_fd w c = fd" "c' < length (ew_coros w)" "co_fd w c' = fd'"
      "co_sock (ew_coros w ! c) = co_sock (ew_coros w ! c')" using who[OF e1] who[OF e2] eq by auto
    then show ?thesis by (simp add: co_fd_def)
  qed
  let ?f = "map (\<lambda>(fd, e). (Option.bind (ew_interest w fd) ev_ptr, e)) evs"
  have watched: "ew_interest w (fst ev) \<noteq> None" if "ev \<in> set evs" for ev using reports that by (simp add: wait_reports_def)
  have "map fst ?f = map (\<lambda>fd. Option.bind (ew_interest w fd) ev_ptr) (map fst evs)" by (simp add: case_prod_unfold)
  moreover have "inj_on (\<lambda>fd. Option.bind (ew_interest w fd) ev_ptr) (set (map fst evs))"
    using same watched by (auto intro!: inj_onI)
  ultimately have "distinct (map fst ?f)" using reports distinct_map unfolding wait_reports_def by metis
  moreover have "\<exists>c<length (ew_coros w). fst ev = Some (co_sock (ew_coros w ! c)) \<and> co_watch w c \<noteq> None" if "ev \<in> set ?f" for ev
    using that who watched by (fastforce simp: co_watch_def)
  ultimately show ?thesis using epoll_inv_fetched[OF inv] by blast
qed

lemma step_resume:
  assumes inv: "epoll_inv w" and c: "c \<in> set (ew_scheduled w)"
  shows "c < length (ew_coros w) \<and> co_pc (ew_coros w ! c) = Suspended \<and>
    epoll_inv (set_co_pc c Calling (w\<lparr>ew_scheduled := remove1 c (ew_scheduled w)\<rparr>))"
proof -
  have n: "c < length (ew_coros w)" using epoll_inv_sub[OF inv] c by auto
  have co: "co_ok w c" by (rule epoll_inv_co[OF inv n])
  have "count_list (ew_scheduled w) c > 0" using c count_list_0_iff[of "ew_scheduled w" c] by fastforce
  then have none: "co_watch w c = None" "handed w c = 1" and pc: "co_pc (ew_coros w ! c) = Suspended"
    using co by (auto simp: co_ok_def Let_def handed_def split: option.splits if_splits)
  have i: "co_sock (ew_coros w ! c) < length (ew_sockets w)" "has_io_context (ew_sockets w ! co_sock (ew_coros w ! c))"
    using co by (auto simp: co_ok_def Let_def)
  have rem: "count_list (remove1 c xs) d = (if c = d then count_list xs d - 1 else count_list xs d)" for xs :: "nat list" and d
    by (induction xs) auto
  let ?w = "set_co_pc c Calling (w\<lparr>ew_scheduled := remove1 c (ew_scheduled w)\<rparr>)"
  have watch: "co_watch ?w c = None" using none n by (simp add: co_watch_def co_fd_def set_co_pc_def)
  have "epoll_inv ?w"
  proof (rule epoll_inv_local[OF inv n, where k = "(ew_coros w ! c)\<lparr>co_pc := Calling\<rparr>" and i = "co_sock (ew_coros w ! c)"
        and s = "ew_sockets w ! co_sock (ew_coros w ! c)"])
    have "handed ?w c = 0" using none(2) \<open>count_list (ew_scheduled w) c > 0\<close> by (simp add: handed_def set_co_pc_def rem)
    with watch show "co_ok ?w c" using n i by (simp add: co_ok_def Let_def) (simp add: set_co_pc_def)
    show "distinct (map fst (ew_fetched ?w))" using inv by (simp add: epoll_inv_def Let_def set_co_pc_def)
    show "co_watch ?w c \<noteq> None" if "(Some (co_sock (ew_coros w ! c)), e) \<in> set (ew_fetched ?w)" for e
      using inv n none that unfolding epoll_inv_def Let_def by (fastforce simp: set_co_pc_def)
    show "set (ew_scheduled ?w) \<union> set (ew_refused ?w) \<subseteq> {..<length (ew_coros w)}"
      using epoll_inv_sub[OF inv] set_remove1_subset by (fastforce simp: set_co_pc_def)
    show "ew_interest ?w (co_fd w c) = None" using none by (simp add: set_co_pc_def co_watch_def)
  qed (simp_all add: set_co_pc_def handed_def rem co_fd_def)
  with n pc show ?thesis by blast
qed

lemma after_call_pc: "after_call call ans \<noteq> Suspended \<and> after_call call ans \<noteq> Awaiting"
  by (auto simp: after_call_def split: sys_answer.splits)

lemma listens_or: "(l OR e) AND e = (e :: u32)"
  by (simp add: bit.conj_disj_distrib2 or.commute word_bw_comms(1) word_ao_absorbs)

lemma step_add:
  assumes doc: "epoll_documented ctl" and inv: "epoll_inv w" and c: "c < length (ew_coros w)" "co_pc (ew_coros w ! c) = Adding"
  shows "\<exists>w'. epoll_step ctl (L_add c) w = Some (Inr w') \<and> epoll_inv w' \<and> length (ew_coros w') = length (ew_coros w)"
proof -
  let ?k = "ew_coros w ! c" let ?i = "co_sock ?k" let ?s = "ew_sockets w ! ?i" let ?e = "call_event (co_call ?k)"
  have co: "co_ok w c" by (rule epoll_inv_co[OF inv c(1)])
  then have none: "ew_interest w (sock_fd ?s) = None" and has: "has_io_context ?s" "?i < length (ew_sockets w)"
    using c by (auto simp: co_ok_def Let_def co_watch_def co_fd_def split: option.splits)
  show ?thesis
  proof (cases "listen_events ?s AND ?e = ?e")
    case True
    have "epoll_inv (w\<lparr>ew_sockets := (ew_sockets w)[co_sock (?k\<lparr>co_pc := Awaiting\<rparr>) := ?s], ew_coros := (ew_coros w)[c := ?k\<lparr>co_pc := Awaiting\<rparr>]\<rparr>)"
      by (rule epoll_inv_move[OF inv c(1)]) (use c True has in \<open>simp_all add: co_fd_def\<close>)
    with True c show ?thesis by (simp add: Let_def Socket_addEvents_def after_add_def set_co_pc_def set_socket_def)
  next
    case False
    let ?s' = "?s\<lparr>listen_events := listen_events ?s OR ?e\<rparr>"
    obtain e where e: "ctl (epoll_fd (ew_ctx w)) EPOLL_CTL_MOD (sock_fd ?s) \<lparr>ev_events = listen_events ?s', ev_ptr = None\<rparr> (ew_interest w) = (Some e, ew_interest w)"
      "e \<notin> {EAGAIN, EINPROGRESS}" by (rule ctl_mod_absent[where l = "ew_interest w", OF doc none])
    have "epoll_inv (w\<lparr>ew_sockets := (ew_sockets w)[co_sock (?k\<lparr>co_pc := Finished (-1)\<rparr>) := ?s'], ew_coros := (ew_coros w)[c := ?k\<lparr>co_pc := Finished (-1)\<rparr>]\<rparr>)"
      by (rule epoll_inv_move[OF inv c(1)]) (use c has in \<open>simp_all add: co_fd_def\<close>)
    with False c e has show ?thesis
      by (simp add: Let_def Socket_addEvents_def after_add_fails[OF e(2)] set_co_pc_def set_socket_def)
  qed
qed

lemma epoll_step_inv:
  assumes doc: "epoll_documented ctl" and inv: "epoll_inv w" and step: "epoll_step ctl l w = Some r"
  shows "\<exists>w'. r = Inr w' \<and> epoll_inv w' \<and> length (ew_coros w') = length (ew_coros w)"
proof (cases l)
  case (L_next c call)
  with step have c: "c < length (ew_coros w)" "is_Finished (co_pc (ew_coros w ! c))"
    and r: "r = Inr (w\<lparr>ew_coros := (ew_coros w)[c := (ew_coros w ! c)\<lparr>co_call := call, co_pc := Calling\<rparr>]\<rparr>)" by (auto split: if_splits)
  have "co_pc (ew_coros w ! c) \<noteq> Suspended" using c(2) by auto
  from epoll_inv_move_pc[OF inv c(1) this, of "(ew_coros w ! c)\<lparr>co_call := call, co_pc := Calling\<rparr>"] r show ?thesis by simp
next
  case (L_call c ans)
  with step have c: "c < length (ew_coros w)" "co_pc (ew_coros w ! c) = Calling"
    and r: "r = Inr (set_co_pc c (after_call (co_call (ew_coros w ! c)) ans) w)" by (auto split: if_splits)
  have "co_pc (ew_coros w ! c) \<noteq> Suspended" using c(2) by auto
  from epoll_inv_move_pc[OF inv c(1) this] after_call_pc r show ?thesis by (simp add: set_co_pc_def)
next
  case (L_add c)
  with step have "c < length (ew_coros w)" "co_pc (ew_coros w ! c) = Adding" by (auto split: if_splits)
  from step_add[OF doc inv this] step L_add show ?thesis by (auto simp del: epoll_step.simps)
next
  case (L_await c)
  with step have c: "c < length (ew_coros w)" "co_pc (ew_coros w ! c) = Awaiting" by (auto split: if_splits)
  obtain stays w' where a: "await_suspend ctl c (co_sock (ew_coros w ! c)) w = (stays, w')" by fastforce
  then have "length (ew_coros w') = length (ew_coros w)" by (auto simp: await_suspend_def Let_def set_socket_def split: if_splits prod.splits)
  with step_await[OF doc inv c a] step L_await c a show ?thesis by (auto simp: set_co_pc_def)
next
  case (L_wait evs)
  with step wait_keeps[OF inv, of evs] show ?thesis by (auto split: if_splits)
next
  case (L_handle accepted)
  with step obtain ev evs where f: "ew_fetched w = ev # evs" "r = handle_event ctl accepted ev (w\<lparr>ew_fetched := evs\<rparr>)"
    by (auto split: list.splits)
  with step_handle[OF doc inv f(1), of accepted] show ?thesis by auto
next
  case (L_resume c)
  with step have c: "c \<in> set (ew_scheduled w)" by (auto split: if_splits)
  from step_resume[OF inv c] step L_resume c show ?thesis by (auto simp: set_co_pc_def)
qed

lemma epoll_steps_inv:
  "epoll_steps ctl ls w = Some r \<Longrightarrow> epoll_documented ctl \<Longrightarrow> epoll_inv w \<Longrightarrow>
    \<exists>w'. r = Inr w' \<and> epoll_inv w' \<and> length (ew_coros w') = length (ew_coros w)"
proof (induction ctl ls w rule: epoll_steps.induct)
  case (2 ctl l ls w)
  then obtain r1 where r1: "epoll_step ctl l w = Some r1" by (auto split: option.splits)
  from epoll_step_inv[OF 2(3,4) r1] obtain w1 where w1: "r1 = Inr w1" "epoll_inv w1" "length (ew_coros w1) = length (ew_coros w)" by blast
  with 2 r1 show ?case by fastforce
qed auto

text \<open>Coroutines that are about to make their first call, each on a socket and a descriptor of its own.\<close>

definition epoll_start :: "epoll_world \<Rightarrow> bool" where
  "epoll_start w \<longleftrightarrow>
     0 \<le> epoll_fd (ew_ctx w) \<and> ctx_executor (ew_ctx w) \<noteq> None \<and> ew_interest w = Map.empty \<and>
     ew_fetched w = [] \<and> ew_scheduled w = [] \<and> ew_refused w = [] \<and>
     list_all (\<lambda>k. co_pc k = Calling \<and> co_sock k < length (ew_sockets w)) (ew_coros w) \<and> distinct (map co_sock (ew_coros w)) \<and>
     list_all (\<lambda>s. has_io_context s \<and> 0 \<le> sock_fd s) (ew_sockets w) \<and> distinct (map sock_fd (ew_sockets w))"

lemma epoll_start_inv:
  assumes "epoll_start w"
  shows "epoll_inv w"
proof -
  let ?n = "length (ew_coros w)"
  have c: "co_pc (ew_coros w ! c) = Calling" "co_sock (ew_coros w ! c) < length (ew_sockets w)" if "c < ?n" for c
    using assms that by (simp_all add: epoll_start_def list_all_length)
  have apart: "co_sock (ew_coros w ! c) \<noteq> co_sock (ew_coros w ! d)" if "c < ?n" "d < ?n" "c \<noteq> d" for c d
    using assms that nth_eq_iff_index_eq[of "map co_sock (ew_coros w)" c d] by (simp add: epoll_start_def)
  moreover have "co_fd w c \<noteq> co_fd w d" if "c < ?n" "d < ?n" "c \<noteq> d" for c d
    using assms nth_eq_iff_index_eq[of "map sock_fd (ew_sockets w)" "co_sock (ew_coros w ! c)" "co_sock (ew_coros w ! d)"]
      c(2)[OF that(1)] c(2)[OF that(2)] apart[OF that] by (simp add: epoll_start_def co_fd_def)
  moreover have "co_ok w d" if "d < ?n" for d
    using assms c[OF that] by (simp add: epoll_start_def co_ok_def co_watch_def handed_def Let_def list_all_length)
  ultimately show ?thesis using assms unfolding epoll_inv_def Let_def by (auto simp: epoll_start_def)
qed

text \<open>C17: Coroutines that make calls on sockets, each on its own, are never lost, resumed twice, or resumed while they run. In every
  interleaving of their calls, of the loop over \<^verbatim>\<open>epoll_wait\<close> and of the executor, whatever the kernel answers and reports within its
  documentation, nothing undefined happens, and a coroutine is suspended exactly when the kernel watches its descriptor for it,
  with the event its call waits for among those listened to, or it has been handed to the executor, once and not both.\<close>

theorem epoll_keeps_coroutines:
  assumes "epoll_documented ctl" "epoll_start w0" "epoll_steps ctl ls w0 = Some r"
  shows "\<exists>w. r = Inr w \<and> length (ew_coros w) = length (ew_coros w0) \<and>
    (\<forall>c<length (ew_coros w).
       case co_watch w c of
         None \<Rightarrow> handed w c = (if co_pc (ew_coros w ! c) = Suspended then 1 else 0)
       | Some e \<Rightarrow> co_pc (ew_coros w ! c) = Suspended \<and> handed w c = 0 \<and> ev_ptr e = Some (co_sock (ew_coros w ! c)) \<and>
           ev_events e AND call_event (co_call (ew_coros w ! c)) = call_event (co_call (ew_coros w ! c)))"
proof -
  obtain w where w: "r = Inr w" "epoll_inv w" "length (ew_coros w) = length (ew_coros w0)"
    using epoll_steps_inv[OF assms(3,1) epoll_start_inv[OF assms(2)]] by blast
  then have "co_ok w c" if "c < length (ew_coros w)" for c using that by (rule_tac epoll_inv_co)
  then have "case co_watch w c of
         None \<Rightarrow> handed w c = (if co_pc (ew_coros w ! c) = Suspended then 1 else 0)
       | Some e \<Rightarrow> co_pc (ew_coros w ! c) = Suspended \<and> handed w c = 0 \<and> ev_ptr e = Some (co_sock (ew_coros w ! c)) \<and>
           ev_events e AND call_event (co_call (ew_coros w ! c)) = call_event (co_call (ew_coros w ! c))"
    if "c < length (ew_coros w)" for c
    using that by (cases "co_watch w c") (fastforce simp: co_ok_def Let_def)+
  with w show ?thesis by blast
qed

text \<open>A kernel that always has memory.\<close>

definition sample_ctl :: epoll_ctl where
  "sample_ctl ep op fd e l =
     (if ep < 0 \<or> fd < 0 then (Some (Other_errno 9), l)
      else if op = EPOLL_CTL_ADD then (if l fd = None then (None, l(fd \<mapsto> e)) else (Some (Other_errno 17), l))
      else if l fd = None then (Some (Other_errno 2), l)
      else (None, l(fd := (if op = EPOLL_CTL_DEL then None else Some e))))"

lemma sample_ctl_documented: "epoll_documented sample_ctl"
  unfolding epoll_documented_def sample_ctl_def by auto

definition sample_world :: "nat list \<Rightarrow> sock_call list \<Rightarrow> epoll_world" where
  "sample_world socks calls =
     \<lparr>ew_ctx = \<lparr>epoll_fd = 3, maxEvents = 100, ctx_executor = Some 0, eventPool = True\<rparr>,
      ew_sockets = map (\<lambda>fd. \<lparr>sock_fd = fd, has_io_context = True, listen_events = default_listen_events, waited_events = 0, sock_h = None\<rparr>) [5, 6],
      ew_interest = Map.empty, ew_fetched = [], ew_scheduled = [], ew_refused = [],
      ew_coros = map (\<lambda>(s, call). \<lparr>co_call = call, co_sock = s, co_pc = Calling\<rparr>) (zip socks calls)\<rparr>"

text \<open>One coroutine receives after the kernel has reported its socket, the other one waits to send.\<close>

definition sample_labels :: "epoll_label list" where
  "sample_labels = [L_call 0 (Sys_fails EAGAIN), L_add 0, L_await 0, L_call 1 (Sys_fails EAGAIN), L_add 1, L_await 1,
     L_wait [(5, EPOLLIN)], L_handle True, L_resume 0, L_call 0 (Sys_returns 7)]"

lemma case_runs: "(case r of Some (Inr w) \<Rightarrow> P w | _ \<Rightarrow> False) \<Longrightarrow> \<exists>w. r = Some (Inr w) \<and> P w"
  by (auto split: option.splits sum.splits)

lemma epoll_keeps_coroutines_witness:
  "\<exists>w. epoll_steps sample_ctl sample_labels (sample_world [0, 1] [Call_recv, Call_send]) = Some (Inr w) \<and>
    map co_pc (ew_coros w) = [Finished 7, Suspended] \<and> co_watch w 1 \<noteq> None \<and> handed w 1 = 0"
proof -
  let ?w0 = "sample_world [0, 1] [Call_recv, Call_send]"
  have start: "epoll_start ?w0" by (simp add: epoll_start_def sample_world_def)
  have "case epoll_steps sample_ctl sample_labels ?w0 of
      Some (Inr w) \<Rightarrow> map co_pc (ew_coros w) = [Finished 7, Suspended] \<and> co_watch w 1 \<noteq> None | _ \<Rightarrow> False" by code_simp
  from case_runs[OF this] obtain w where run: "epoll_steps sample_ctl sample_labels ?w0 = Some (Inr w)"
    and w: "map co_pc (ew_coros w) = [Finished 7, Suspended]" "co_watch w 1 \<noteq> None"
    by (elim exE conjE) (rule that; assumption)
  have "length (map co_pc (ew_coros w)) = 2" unfolding w(1) by simp
  then have n: "1 < length (ew_coros w)" by simp
  obtain e where e: "co_watch w 1 = Some e" using w(2) by blast
  from epoll_keeps_coroutines[OF sample_ctl_documented start run] have h: "handed w 1 = 0"
    by (elim exE conjE, drule_tac x = 1 in spec) (use n e in simp)
  show ?thesis by (rule exI[of _ w], intro conjI run w h)
qed

section \<open>Two coroutines on one socket\<close>



text \<open>
  A socket that does not listen to the event yet: the first call fails although the kernel only said to try again, since changing
  the events of a descriptor that is not in the list fails; later calls wait.
\<close>

lemma first_wait_fails:
  assumes "epoll_documented ctl" "epoll_inv w" "c < length (ew_coros w)" "co_pc (ew_coros w ! c) = Adding"
    and "listen_events (ew_sockets w ! co_sock (ew_coros w ! c)) AND call_event (co_call (ew_coros w ! c)) \<noteq> call_event (co_call (ew_coros w ! c))"
  shows "\<exists>w'. epoll_step ctl (L_add c) w = Some (Inr w') \<and> co_pc (ew_coros w' ! c) = Finished (-1)"
proof -
  let ?k = "ew_coros w ! c" let ?s = "ew_sockets w ! co_sock ?k"
  have co: "co_ok w c" by (rule epoll_inv_co[OF assms(2,3)])
  then have none: "ew_interest w (sock_fd ?s) = None" and has: "has_io_context ?s"
    using assms(4) by (auto simp: co_ok_def Let_def co_watch_def co_fd_def split: option.splits)
  obtain e where e: "ctl (epoll_fd (ew_ctx w)) EPOLL_CTL_MOD (sock_fd ?s)
      \<lparr>ev_events = listen_events ?s OR call_event (co_call ?k), ev_ptr = None\<rparr> (ew_interest w) = (Some e, ew_interest w)"
    "e \<notin> {EAGAIN, EINPROGRESS}" by (rule ctl_mod_absent[where l = "ew_interest w", OF assms(1) none])
  with assms has show ?thesis by (simp add: Let_def Socket_addEvents_def after_add_fails[OF e(2)] set_co_pc_def set_socket_def)
qed

section \<open>Echo\<close>

lemma send_all_prefix: "send_all rest results = (sent, fin, left) \<Longrightarrow> (\<exists>unsent. rest = sent @ unsent) \<and> (fin = None \<longrightarrow> sent = rest)"
proof (induction rest results arbitrary: sent fin left rule: send_all.induct)
  case (2 rest res results)
  show ?case
  proof (cases "rest = [] \<or> res \<le> 0")
    case False
    obtain s f l where s: "send_all (drop (nat res) rest) results = (s, f, l)" by (metis prod_cases3)
    with 2 False have "(\<exists>u. drop (nat res) rest = s @ u) \<and> (f = None \<longrightarrow> s = drop (nat res) rest)" by (simp add: Let_def)
    moreover have "sent = take (nat res) rest @ s" "fin = f" using 2(2) False s by auto
    ultimately show ?thesis by (metis append_assoc append_take_drop_id)
  qed (use 2 in \<open>auto split: if_splits\<close>)
qed (auto split: if_splits)

text \<open>What was received before an error or the end of the stream.\<close>

fun received :: "'b list option list \<Rightarrow> 'b list" where
  "received (Some bs # recvs) = (if bs = [] then [] else bs @ received recvs)"
| "received _ = []"

text \<open>The server sends back what it received, in order, up to a point; all of it when it is waiting for more to receive.\<close>

lemma echo_server_prefix:
  "echo_server_impl recvs results = (sent, fin) \<Longrightarrow> \<exists>unsent. received recvs = sent @ unsent"
proof (induction recvs results arbitrary: sent fin rule: echo_server_impl.induct)
  case (3 bs recvs results)
  obtain s f r where s: "send_all bs results = (s, f, r)" by (metis prod_cases3)
  note pre = send_all_prefix[OF s]
  show ?case
  proof (cases "bs = [] \<or> f \<noteq> None")
    case True
    with 3(2) s pre show ?thesis by (auto split: if_splits)
  next
    case False
    obtain m g where m: "echo_server_impl recvs r = (m, g)" by fastforce
    with 3(1) False s have "\<exists>u. received recvs = m @ u" by auto
    moreover have "sent = bs @ m" using 3(2) False s m pre by simp
    ultimately show ?thesis using False by auto
  qed
qed auto

end
