(* ===== verification/Coro_Io.thy ===== *)
theory Coro_Io
  imports Executors Try_Value
begin

text \<open>
  The coroutines of \<^verbatim>\<open>src/coro_apps/coro_io/coro_io.hpp\<close> that await an operation of \<^verbatim>\<open>asio\<close>, and \<^verbatim>\<open>src/coro/Sleep.h\<close>. Every one of
  them starts operations, which \<^verbatim>\<open>asio\<close> completes later by a callback, and is resumed by the callback through a \<^verbatim>\<open>callback_awaitor\<close>.
  What the operations answer is not part of the repository; it is in the labels of the steps.
\<close>

section \<open>Coroutines over \<open>callback_awaitor\<close>\<close>

text \<open>
  A body returns, calls something that answers at once, or awaits an operation. The callback of an operation turns the answer into the
  argument of \<^verbatim>\<open>set_value\<close>, or only resumes (\<open>None\<close>), or throws; the rest of the body gets what is in the awaitor.
\<close>

datatype ('q, 'c, 'r, 'x) io_prog =
    Io_return 'x
  | Io_call 'q "'c \<Rightarrow> ('q, 'c, 'r, 'x) io_prog"
  | Io_await 'q "'c \<Rightarrow> 'r option outcome" "'r \<Rightarrow> ('q, 'c, 'r, 'x) io_prog"

record 'r callback_awaitor =
  aw_coro :: "nat option"
  aw_arg :: 'r

definition awaitor_set_value :: "'r \<Rightarrow> 'r callback_awaitor \<Rightarrow> 'r callback_awaitor" where
  "awaitor_set_value v aw = aw\<lparr>aw_arg := v\<rparr>"

text \<open>A coroutine with its awaitor; what it asked for and what it was answered is history.\<close>

datatype ('q, 'c, 'r, 'x) io_state = Io_at "('q, 'c, 'r, 'x) io_prog" | Io_waiting "'r \<Rightarrow> ('q, 'c, 'r, 'x) io_prog"

record ('q, 'c, 'r, 'x) io_frame =
  fr_state :: "('q, 'c, 'r, 'x) io_state"
  fr_awaitor :: "'r callback_awaitor"
  fr_asked :: "'q list"
  fr_answers :: "'c list"

text \<open>The coroutines, and the operations that were started: the awaitor the handler points to, by its coroutine, and the callback.\<close>

record ('q, 'c, 'r, 'x) io_system =
  sys_frames :: "('q, 'c, 'r, 'x) io_frame list"
  sys_pending :: "(nat \<times> ('c \<Rightarrow> 'r option outcome)) list"

definition io_frame_new :: "('q, 'c, 'r, 'x) io_prog \<Rightarrow> 'r \<Rightarrow> ('q, 'c, 'r, 'x) io_frame" where
  "io_frame_new p arg = \<lparr>fr_state = Io_at p, fr_awaitor = \<lparr>aw_coro = None, aw_arg = arg\<rparr>, fr_asked = [], fr_answers = []\<rparr>"

definition io_system_new :: "(('q, 'c, 'r, 'x) io_prog \<times> 'r) list \<Rightarrow> ('q, 'c, 'r, 'x) io_system" where
  "io_system_new progs = \<lparr>sys_frames = map (\<lambda>(p, arg). io_frame_new p arg) progs, sys_pending = []\<rparr>"

text \<open>\<^verbatim>\<open>await_suspend\<close> of coroutine \<open>i\<close>: the handle is stored before the operation starts.\<close>

definition awaitor_await_suspend ::
    "nat \<Rightarrow> ('c \<Rightarrow> 'r option outcome) \<Rightarrow> ('q, 'c, 'r, 'x) io_system \<Rightarrow> ('q, 'c, 'r, 'x) io_system" where
  "awaitor_await_suspend i cb s =
     (let f = sys_frames s ! i
      in s\<lparr>sys_frames := (sys_frames s)[i := f\<lparr>fr_awaitor := (fr_awaitor f)\<lparr>aw_coro := Some i\<rparr>\<rparr>],
           sys_pending := sys_pending s @ [(i, cb)]\<rparr>)"

text \<open>\<^verbatim>\<open>resume\<close> of the handle, and \<^verbatim>\<open>await_resume\<close>, which takes the argument out of the awaitor.\<close>

definition awaitor_resume :: "nat \<Rightarrow> ('q, 'c, 'r, 'x) io_system \<Rightarrow> ('q, 'c, 'r, 'x) io_system outcome" where
  "awaitor_resume i s =
     (case aw_coro (fr_awaitor (sys_frames s ! i)) of
        None \<Rightarrow> Inl Undefined_behaviour
      | Some j \<Rightarrow>
          (case fr_state (sys_frames s ! j) of
             Io_at p \<Rightarrow> Inl Undefined_behaviour
           | Io_waiting k \<Rightarrow>
               Inr (s\<lparr>sys_frames := (sys_frames s)[j := (sys_frames s ! j)\<lparr>fr_state := Io_at (k (aw_arg (fr_awaitor (sys_frames s ! j))))\<rparr>]\<rparr>)))"

text \<open>A coroutine runs to its next step, with the answer \<open>c\<close> if that is a call; a callback is called with the answer \<open>c\<close>.\<close>

datatype 'c io_label = Io_runs nat 'c | Io_completes nat 'c

fun io_step :: "'c io_label \<Rightarrow> ('q, 'c, 'r, 'x) io_system \<Rightarrow> ('q, 'c, 'r, 'x) io_system outcome option" where
  "io_step (Io_runs i c) s =
     (if i < length (sys_frames s)
      then (let f = sys_frames s ! i
            in case fr_state f of
                 Io_at (Io_call q k) \<Rightarrow>
                   Some (Inr (s\<lparr>sys_frames := (sys_frames s)[i := f\<lparr>fr_state := Io_at (k c), fr_asked := fr_asked f @ [q],
                      fr_answers := fr_answers f @ [c]\<rparr>]\<rparr>))
               | Io_at (Io_await q cb k) \<Rightarrow>
                   Some (Inr (awaitor_await_suspend i cb
                     (s\<lparr>sys_frames := (sys_frames s)[i := f\<lparr>fr_state := Io_waiting k, fr_asked := fr_asked f @ [q]\<rparr>]\<rparr>)))
               | _ \<Rightarrow> None)
      else None)"
| "io_step (Io_completes n c) s =
     (if n < length (sys_pending s)
      then (let (i, cb) = sys_pending s ! n; f = sys_frames s ! i; s = s\<lparr>sys_pending := take n (sys_pending s) @ drop (Suc n) (sys_pending s)\<rparr>
            in Some (bind_outcome (cb c) (\<lambda>v.
                 let aw = (case v of None \<Rightarrow> fr_awaitor f | Some v \<Rightarrow> awaitor_set_value v (fr_awaitor f))
                 in awaitor_resume i (s\<lparr>sys_frames := (sys_frames s)[i := f\<lparr>fr_awaitor := aw, fr_answers := fr_answers f @ [c]\<rparr>]\<rparr>))))
      else None)"

primrec io_steps :: "'c io_label list \<Rightarrow> ('q, 'c, 'r, 'x) io_system \<Rightarrow> ('q, 'c, 'r, 'x) io_system outcome option" where
  "io_steps [] s = Some (Inr s)"
| "io_steps (l # ls) s =
     (case io_step l s of
        None \<Rightarrow> None
      | Some (Inl e) \<Rightarrow> Some (Inl e)
      | Some (Inr s) \<Rightarrow> io_steps ls s)"

section \<open>The operations\<close>

text \<open>An \<^verbatim>\<open>error_code\<close> is none or a number; \<open>'b\<close> are buffers, \<open>'f\<close> functions, \<open>'v\<close> what they and channels give.\<close>

type_synonym ec = "nat option"

datatype ('b, 'f, 'v) io_request =
    Rq_accept | Rq_read_some 'b | Rq_read_at u64 'b | Rq_read 'b | Rq_read_exactly 'b nat
  | Rq_write 'b | Rq_write_some 'b | Rq_write_at u64 'b
  | Rq_resolve string string | Rq_connect nat | Rq_close | Rq_handshake nat | Rq_timer int
  | Rq_post 'f | Rq_try_send 'v | Rq_send 'v | Rq_try_receive | Rq_receive

datatype 'v io_answer =
    An_ec ec | An_size ec nat | An_resolved ec nat | An_done | An_func "'v outcome"
  | An_sent bool | An_tried "(ec \<times> 'v) option" | An_value ec 'v

text \<open>What an awaitor holds.\<close>

datatype 'v io_value =
    V_ec ec | V_size ec nat | V_resolved ec nat | V_bool bool | V_try "'v Try" | V_try_void TryVoid | V_value ec 'v | V_void

type_synonym ('b, 'f, 'v, 'x) coro_io = "(('b, 'f, 'v) io_request, 'v io_answer, 'v io_value, 'x) io_prog"

fun set_ec :: "'v io_answer \<Rightarrow> 'v io_value option outcome" where
  "set_ec (An_ec e) = Inr (Some (V_ec e))"
| "set_ec _ = Inl Undefined_behaviour"

fun set_size :: "'v io_answer \<Rightarrow> 'v io_value option outcome" where
  "set_size (An_size e n) = Inr (Some (V_size e n))"
| "set_size _ = Inl Undefined_behaviour"

fun get_ec :: "'v io_value \<Rightarrow> ec" where
  "get_ec (V_ec e) = e"
| "get_ec _ = None"

fun get_size :: "'v io_value \<Rightarrow> ec \<times> nat" where
  "get_size (V_size e n) = (e, n)"
| "get_size _ = (None, 0)"

definition async_accept :: "('b, 'f, 'v, ec) coro_io" where
  "async_accept = Io_await Rq_accept set_ec (\<lambda>v. Io_return (get_ec v))"

definition async_read_some :: "'b \<Rightarrow> ('b, 'f, 'v, ec \<times> nat) coro_io" where
  "async_read_some buffer = Io_await (Rq_read_some buffer) set_size (\<lambda>v. Io_return (get_size v))"

definition io_async_read_at :: "u64 \<Rightarrow> 'b \<Rightarrow> ('b, 'f, 'v, ec \<times> nat) coro_io" where
  "io_async_read_at offset buffer = Io_await (Rq_read_at offset buffer) set_size (\<lambda>v. Io_return (get_size v))"

definition async_read :: "'b \<Rightarrow> ('b, 'f, 'v, ec \<times> nat) coro_io" where
  "async_read buffer = Io_await (Rq_read buffer) set_size (\<lambda>v. Io_return (get_size v))"

definition async_read_exactly :: "'b \<Rightarrow> nat \<Rightarrow> ('b, 'f, 'v, ec \<times> nat) coro_io" where
  "async_read_exactly buffer n = Io_await (Rq_read_exactly buffer n) set_size (\<lambda>v. Io_return (get_size v))"

definition async_write :: "'b \<Rightarrow> ('b, 'f, 'v, ec \<times> nat) coro_io" where
  "async_write buffer = Io_await (Rq_write buffer) set_size (\<lambda>v. Io_return (get_size v))"

definition async_write_some :: "'b \<Rightarrow> ('b, 'f, 'v, ec \<times> nat) coro_io" where
  "async_write_some buffer = Io_await (Rq_write_some buffer) set_size (\<lambda>v. Io_return (get_size v))"

definition io_async_write_at :: "u64 \<Rightarrow> 'b \<Rightarrow> ('b, 'f, 'v, ec \<times> nat) coro_io" where
  "io_async_write_at offset buffer = Io_await (Rq_write_at offset buffer) set_size (\<lambda>v. Io_return (get_size v))"

text \<open>One awaitor serves both operations; the callback of the first also stores the iterator.\<close>

fun set_resolved :: "'v io_answer \<Rightarrow> 'v io_value option outcome" where
  "set_resolved (An_resolved e it) = Inr (Some (V_resolved e it))"
| "set_resolved _ = Inl Undefined_behaviour"

fun get_resolved :: "'v io_value \<Rightarrow> ec \<times> nat" where
  "get_resolved (V_resolved e it) = (e, it)"
| "get_resolved _ = (None, 0)"

definition async_connect :: "string \<Rightarrow> string \<Rightarrow> ('b, 'f, 'v, ec) coro_io" where
  "async_connect host port =
     Io_await (Rq_resolve host port) set_resolved (\<lambda>v.
       let (e, iterator) = get_resolved v
       in if e \<noteq> None then Io_return e else Io_await (Rq_connect iterator) set_ec (\<lambda>v. Io_return (get_ec v)))"

definition async_close :: "('b, 'f, 'v, unit) coro_io" where
  "async_close = Io_await Rq_close (\<lambda>_. Inr None) (\<lambda>_. Io_return ())"

definition async_handshake :: "nat \<Rightarrow> ('b, 'f, 'v, ec) coro_io" where
  "async_handshake type = Io_await (Rq_handshake type) set_ec (\<lambda>v. Io_return (get_ec v))"

fun set_not_ec :: "'v io_answer \<Rightarrow> 'v io_value option outcome" where
  "set_not_ec (An_ec e) = Inr (Some (V_bool (e = None)))"
| "set_not_ec _ = Inl Undefined_behaviour"

text \<open>\<^verbatim>\<open>period_timer::async_await\<close>, after \<^verbatim>\<open>expires_after\<close>: whether the timer ran out.\<close>

definition timer_async_await :: "int \<Rightarrow> ('b, 'f, 'v, bool) coro_io" where
  "timer_async_await d = Io_await (Rq_timer d) set_not_ec (\<lambda>v. Io_return (v = V_bool True))"

definition sleep_for_on :: "int \<Rightarrow> ('b, 'f, 'v, unit) coro_io" where
  "sleep_for_on d = Io_await (Rq_timer d) set_not_ec (\<lambda>_. Io_return ())"

text \<open>
  \<^verbatim>\<open>post\<close>: what the posted function does is the answer. An exception derived from \<^verbatim>\<open>std::exception\<close> (\<open>std\<close>) is put in the \<^verbatim>\<open>Try\<close>;
  any other leaves the callback. A function without a result leaves the awaitor as it is, a \<^verbatim>\<open>Try<void>\<close> without an error.
\<close>

fun post_helper :: "(exn \<Rightarrow> bool) \<Rightarrow> 'v io_answer \<Rightarrow> 'v io_value option outcome" where
  "post_helper std (An_func (Inr v)) = Inr (Some (V_try (Try_of_value v)))"
| "post_helper std (An_func (Inl e)) =
     (if std e then Inr (Some (V_try (Try_setException (Some e) Try_default))) else Inl e)"
| "post_helper std _ = Inl Undefined_behaviour"

fun post_helper_void :: "(exn \<Rightarrow> bool) \<Rightarrow> 'v io_answer \<Rightarrow> 'v io_value option outcome" where
  "post_helper_void std (An_func (Inr v)) = Inr None"
| "post_helper_void std (An_func (Inl e)) =
     (if std e then Inr (Some (V_try_void (TryVoid_setException (Some e) TryVoid_default))) else Inl e)"
| "post_helper_void std _ = Inl Undefined_behaviour"

fun get_try :: "'v io_value \<Rightarrow> 'v Try" where
  "get_try (V_try t) = t"
| "get_try _ = Try_default"

fun get_try_void :: "'v io_value \<Rightarrow> TryVoid" where
  "get_try_void (V_try_void t) = t"
| "get_try_void _ = TryVoid_default"

definition io_post_func :: "(exn \<Rightarrow> bool) \<Rightarrow> 'f \<Rightarrow> ('b, 'f, 'v, 'v Try) coro_io" where
  "io_post_func std func = Io_await (Rq_post func) (post_helper std) (\<lambda>v. Io_return (get_try v))"

definition io_post_void :: "(exn \<Rightarrow> bool) \<Rightarrow> 'f \<Rightarrow> ('b, 'f, 'v, TryVoid) coro_io" where
  "io_post_void std func = Io_await (Rq_post func) (post_helper_void std) (\<lambda>v. Io_return (get_try_void v))"

section \<open>Channels\<close>

definition async_send :: "'v \<Rightarrow> ('b, 'f, 'v, ec) coro_io" where
  "async_send val =
     Io_call (Rq_try_send val) (\<lambda>c.
       if c = An_sent True then Io_return None else Io_await (Rq_send val) set_ec (\<lambda>v. Io_return (get_ec v)))"

fun set_received :: "'v io_answer \<Rightarrow> 'v io_value option outcome" where
  "set_received (An_value e v) = Inr (Some (V_value e v))"
| "set_received _ = Inl Undefined_behaviour"

fun get_received :: "'v \<Rightarrow> 'v io_value \<Rightarrow> ec \<times> 'v" where
  "get_received d (V_value e v) = (e, v)"
| "get_received d _ = (None, d)"

text \<open>\<open>d\<close> is the value-initialised element. The error that \<^verbatim>\<open>try_receive\<close> passes on is not looked at.\<close>

definition async_receive :: "'v \<Rightarrow> ('b, 'f, 'v, ec \<times> 'v) coro_io" where
  "async_receive d =
     Io_call Rq_try_receive (\<lambda>c.
       case c of
         An_tried (Some (e, v)) \<Rightarrow> Io_return (None, v)
       | _ \<Rightarrow> Io_await Rq_receive set_received (\<lambda>v. Io_return (get_received d v)))"

section \<open>Sleeping\<close>

text \<open>\<^verbatim>\<open>coro::sleep\<close>: without an executor the thread sleeps, else the coroutine awaits the executor's \<^verbatim>\<open>after\<close>.\<close>

datatype sleeping = Thread_sleeps int | Awaits_after TimeAwaitable

definition coro_sleep :: "executor_ptr \<Rightarrow> int \<Rightarrow> u64 \<Rightarrow> sleeping" where
  "coro_sleep ex dur schedule_hint =
     (case ex of None \<Rightarrow> Thread_sleeps dur | Some e \<Rightarrow> Awaits_after (Executor_after_info e dur schedule_hint))"

definition coro_sleep_default :: "executor_ptr \<Rightarrow> int \<Rightarrow> sleeping" where
  "coro_sleep_default ex dur = coro_sleep ex dur (Priority_value DEFAULT)"

definition coro_sleep_on :: "nat \<Rightarrow> int \<Rightarrow> u64 \<Rightarrow> sleeping" where
  "coro_sleep_on ex dur schedule_info = Awaits_after (Executor_after_info ex dur schedule_info)"

definition coro_sleep_on_default :: "nat \<Rightarrow> int \<Rightarrow> sleeping" where
  "coro_sleep_on_default ex dur = coro_sleep_on ex dur (Priority_value DEFAULT)"

text \<open>\<^verbatim>\<open>coro_io::sleep_for\<close>: the executor's delay, or a timer of the global pool.\<close>

definition sleep_for :: "executor_ptr \<Rightarrow> int \<Rightarrow> sleeping + ('b, 'f, 'v, unit) coro_io" where
  "sleep_for ex d = (if ex \<noteq> None then Inl (coro_sleep_default ex d) else Inr (sleep_for_on d))"

end
