(* ===== verification/Coro_Io_Props.thy ===== *)
theory Coro_Io_Props
  imports Coro_Io
begin

text \<open>
  In every order of completions a coroutine over \<^verbatim>\<open>callback_awaitor\<close> computes what its body says for the answers it gets, and what the
  operations of \<^verbatim>\<open>coro_io.hpp\<close> compute.
\<close>

section \<open>What a body says\<close>

text \<open>The requests it makes and its result, for the argument in the awaitor and the answers it gets; or what a callback throws.\<close>

definition ask :: "'q \<Rightarrow> ('q list \<times> 'x option) outcome \<Rightarrow> ('q list \<times> 'x option) outcome" where
  "ask q r = bind_outcome r (\<lambda>(qs, x). Inr (q # qs, x))"

primrec io_eval :: "('q, 'c, 'r, 'x) io_prog \<Rightarrow> 'r \<Rightarrow> 'c list \<Rightarrow> ('q list \<times> 'x option) outcome" where
  "io_eval (Io_return x) arg cs = Inr ([], Some x)"
| "io_eval (Io_call q k) arg cs = ask q (case cs of [] \<Rightarrow> Inr ([], None) | c # cs \<Rightarrow> io_eval (k c) arg cs)"
| "io_eval (Io_await q cb k) arg cs =
     ask q (case cs of
              [] \<Rightarrow> Inr ([], None)
            | c # cs \<Rightarrow> bind_outcome (cb c) (\<lambda>v. let arg = (case v of None \<Rightarrow> arg | Some v \<Rightarrow> v) in io_eval (k arg) arg cs))"

definition asks :: "'q list \<Rightarrow> ('q list \<times> 'x option) outcome \<Rightarrow> ('q list \<times> 'x option) outcome" where
  "asks qs r = bind_outcome r (\<lambda>(qs', x). Inr (qs @ qs', x))"

lemma asks_simps [simp]: "asks qs (Inl e) = Inl e" "asks qs (Inr (qs', x)) = Inr (qs @ qs', x)" "asks [] r = r"
  "asks qs (ask q r) = asks (qs @ [q]) r"
  by (auto simp: asks_def ask_def bind_outcome_def split: sum.splits)

lemma asks_ask: "asks qs r = Inr (qs', x) \<Longrightarrow> asks qs (ask q r) = asks (qs @ [q]) r"
  by simp

section \<open>Every order of completions\<close>

text \<open>
  What a frame still has to do gives the rest of what its body says. A suspended frame has stored its handle and exactly one
  operation is pending for it; a running one has none.
\<close>

definition callbacks_of :: "nat \<Rightarrow> (nat \<times> 'k) list \<Rightarrow> 'k list" where
  "callbacks_of i ps = map snd (filter (\<lambda>p. fst p = i) ps)"

fun frame_ok :: "('q, 'c, 'r, 'x) io_prog \<Rightarrow> 'r \<Rightarrow> nat \<Rightarrow> ('c \<Rightarrow> 'r option outcome) list \<Rightarrow> ('q, 'c, 'r, 'x) io_frame \<Rightarrow> bool" where
  "frame_ok p arg i cbs f \<longleftrightarrow>
     (case fr_state f of
        Io_at p' \<Rightarrow> cbs = [] \<and>
          (\<forall>cs. io_eval p arg (fr_answers f @ cs) = asks (fr_asked f) (io_eval p' (aw_arg (fr_awaitor f)) cs))
      | Io_waiting k \<Rightarrow> aw_coro (fr_awaitor f) = Some i \<and>
          (\<exists>q qs cb. cbs = [cb] \<and> fr_asked f = qs @ [q] \<and>
             (\<forall>cs. io_eval p arg (fr_answers f @ cs) = asks qs (io_eval (Io_await q cb k) (aw_arg (fr_awaitor f)) cs))))"

declare frame_ok.simps [simp del]

definition io_inv :: "(('q, 'c, 'r, 'x) io_prog \<times> 'r) list \<Rightarrow> ('q, 'c, 'r, 'x) io_system \<Rightarrow> bool" where
  "io_inv progs s \<longleftrightarrow>
     length (sys_frames s) = length progs \<and> (\<forall>p\<in>set (sys_pending s). fst p < length progs) \<and>
     (\<forall>i<length progs. frame_ok (fst (progs ! i)) (snd (progs ! i)) i (callbacks_of i (sys_pending s)) (sys_frames s ! i))"

lemma io_inv_new: "io_inv progs (io_system_new progs)"
  by (simp add: io_inv_def io_system_new_def io_frame_new_def callbacks_of_def frame_ok.simps split: prod.splits)

lemma io_inv_update:
  assumes "io_inv progs s" "i < length progs"
    and "frame_ok (fst (progs ! i)) (snd (progs ! i)) i (callbacks_of i ps) f"
    and "\<And>j. j \<noteq> i \<Longrightarrow> callbacks_of j ps = callbacks_of j (sys_pending s)" "\<forall>p\<in>set ps. fst p < length progs"
  shows "io_inv progs (s\<lparr>sys_frames := (sys_frames s)[i := f], sys_pending := ps\<rparr>)"
  using assms by (auto simp: io_inv_def nth_list_update)

lemma callbacks_of_append [simp]: "callbacks_of i (ps @ qs) = callbacks_of i ps @ callbacks_of i qs"
  by (simp add: callbacks_of_def)

lemma callbacks_of_Cons [simp]: "callbacks_of i (p # qs) = (if fst p = i then [snd p] else []) @ callbacks_of i qs"
  by (simp add: callbacks_of_def)

lemma callbacks_of_Nil [simp]: "callbacks_of i [] = []"
  by (simp add: callbacks_of_def)

lemma io_runs_inv:
  assumes inv: "io_inv progs s" and step: "io_step (Io_runs i c) s = Some r"
  shows "\<exists>s'. r = Inr s' \<and> io_inv progs s'"
proof -
  let ?f = "sys_frames s ! i"
  from step inv have i: "i < length progs" by (auto simp: io_inv_def split: if_splits)
  then have ok: "frame_ok (fst (progs ! i)) (snd (progs ! i)) i (callbacks_of i (sys_pending s)) ?f"
    and pend: "\<forall>p\<in>set (sys_pending s). fst p < length progs" and len: "i < length (sys_frames s)" using inv by (auto simp: io_inv_def)
  from step obtain p where p: "fr_state ?f = Io_at p" by (auto simp: Let_def split: if_splits io_state.splits)
  then have no: "callbacks_of i (sys_pending s) = []"
    and eval: "\<And>cs. io_eval (fst (progs ! i)) (snd (progs ! i)) (fr_answers ?f @ cs) = asks (fr_asked ?f) (io_eval p (aw_arg (fr_awaitor ?f)) cs)"
    using ok by (auto simp: frame_ok.simps)
  show ?thesis
  proof (cases p)
    case (Io_return x)
    with step p show ?thesis by (auto split: if_splits)
  next
    case (Io_call q k)
    let ?f' = "?f\<lparr>fr_state := Io_at (k c), fr_asked := fr_asked ?f @ [q], fr_answers := fr_answers ?f @ [c]\<rparr>"
    have "frame_ok (fst (progs ! i)) (snd (progs ! i)) i (callbacks_of i (sys_pending s)) ?f'"
      using eval[of "c # cs" for cs] no by (simp add: frame_ok.simps Io_call)
    from io_inv_update[OF inv i this] pend have "io_inv progs (s\<lparr>sys_frames := (sys_frames s)[i := ?f'], sys_pending := sys_pending s\<rparr>)" by simp
    moreover have "r = Inr (s\<lparr>sys_frames := (sys_frames s)[i := ?f'], sys_pending := sys_pending s\<rparr>)"
      using step p len by (simp add: Io_call Let_def)
    ultimately show ?thesis by blast
  next
    case (Io_await q cb k)
    let ?f' = "?f\<lparr>fr_state := Io_waiting k, fr_asked := fr_asked ?f @ [q], fr_awaitor := (fr_awaitor ?f)\<lparr>aw_coro := Some i\<rparr>\<rparr>"
    have "frame_ok (fst (progs ! i)) (snd (progs ! i)) i (callbacks_of i (sys_pending s @ [(i, cb)])) ?f'"
      using eval no by (auto simp: frame_ok.simps Io_await simp del: io_eval.simps)
    from io_inv_update[OF inv i this] pend i
    have "io_inv progs (s\<lparr>sys_frames := (sys_frames s)[i := ?f'], sys_pending := sys_pending s @ [(i, cb)]\<rparr>)" by simp
    moreover have "r = Inr (s\<lparr>sys_frames := (sys_frames s)[i := ?f'], sys_pending := sys_pending s @ [(i, cb)]\<rparr>)"
      using step p len by (auto simp: Io_await Let_def awaitor_await_suspend_def)
    ultimately show ?thesis by blast
  qed
qed

lemma io_completes_inv:
  assumes inv: "io_inv progs s" and step: "io_step (Io_completes n c) s = Some r"
  shows "(\<exists>s'. r = Inr s' \<and> io_inv progs s') \<or>
    (\<exists>e i. r = Inl e \<and> i < length progs \<and> io_eval (fst (progs ! i)) (snd (progs ! i)) (fr_answers (sys_frames s ! i) @ [c]) = Inl e)"
proof -
  from step have n: "n < length (sys_pending s)" by (auto split: if_splits)
  obtain i cb where p: "sys_pending s ! n = (i, cb)" by fastforce
  let ?f = "sys_frames s ! i" and ?ps = "take n (sys_pending s) @ drop (Suc n) (sys_pending s)"
  have ps: "sys_pending s = take n (sys_pending s) @ (i, cb) # drop (Suc n) (sys_pending s)" using id_take_nth_drop[OF n] p by simp
  have pend: "\<forall>p\<in>set (sys_pending s). fst p < length progs" using inv by (simp add: io_inv_def)
  have i: "i < length progs" using pend nth_mem[OF n] p by fastforce
  have pend': "\<forall>p\<in>set ?ps. fst p < length progs" using pend by (auto dest: in_set_takeD in_set_dropD)
  have ok: "frame_ok (fst (progs ! i)) (snd (progs ! i)) i (callbacks_of i (sys_pending s)) ?f" and len: "i < length (sys_frames s)"
    using inv i by (auto simp: io_inv_def)
  have cbs: "callbacks_of i (sys_pending s) = callbacks_of i (take n (sys_pending s)) @ cb # callbacks_of i (drop (Suc n) (sys_pending s))"
    by (subst ps) simp
  with ok obtain k where k: "fr_state ?f = Io_waiting k" by (cases "fr_state ?f") (auto simp: frame_ok.simps)
  with ok cbs obtain q qs where w: "aw_coro (fr_awaitor ?f) = Some i" "callbacks_of i ?ps = []"
    and eval: "\<And>cs. io_eval (fst (progs ! i)) (snd (progs ! i)) (fr_answers ?f @ cs) = asks qs (io_eval (Io_await q cb k) (aw_arg (fr_awaitor ?f)) cs)"
    and asked: "fr_asked ?f = qs @ [q]"
    by (auto simp: frame_ok.simps append_eq_Cons_conv simp del: io_eval.simps)
  have others: "callbacks_of j ?ps = callbacks_of j (sys_pending s)" if "j \<noteq> i" for j using that by (subst (2) ps) simp
  show ?thesis
  proof (cases "cb c")
    case (Inl e)
    with step n p have "r = Inl e" by simp
    moreover have "io_eval (fst (progs ! i)) (snd (progs ! i)) (fr_answers ?f @ [c]) = Inl e" using eval[of "[c]"] Inl by (simp add: ask_def)
    ultimately show ?thesis using i by blast
  next
    case (Inr v)
    define aw where "aw = (case v of None \<Rightarrow> fr_awaitor ?f | Some v \<Rightarrow> awaitor_set_value v (fr_awaitor ?f))"
    have aw: "aw_coro aw = Some i" "aw_arg aw = (case v of None \<Rightarrow> aw_arg (fr_awaitor ?f) | Some v \<Rightarrow> v)"
      using w by (auto simp: aw_def awaitor_set_value_def split: option.splits)
    let ?f' = "?f\<lparr>fr_awaitor := aw, fr_answers := fr_answers ?f @ [c], fr_state := Io_at (k (aw_arg aw))\<rparr>"
    have "frame_ok (fst (progs ! i)) (snd (progs ! i)) i (callbacks_of i ?ps) ?f'"
      using eval[of "c # cs" for cs] w(2) Inr aw(2) asked by (simp add: frame_ok.simps Let_def)
    from io_inv_update[OF inv i this others pend'] have "io_inv progs (s\<lparr>sys_frames := (sys_frames s)[i := ?f'], sys_pending := ?ps\<rparr>)" .
    moreover have "r = Inr (s\<lparr>sys_frames := (sys_frames s)[i := ?f'], sys_pending := ?ps\<rparr>)"
      using step n p Inr k aw len by (auto simp: Let_def awaitor_resume_def aw_def[symmetric])
    ultimately show ?thesis by blast
  qed
qed

lemma io_steps_inv:
  "io_steps ls s = Some r \<Longrightarrow> io_inv progs s \<Longrightarrow>
    (\<exists>s'. r = Inr s' \<and> io_inv progs s') \<or> (\<exists>e i cs. r = Inl e \<and> i < length progs \<and> io_eval (fst (progs ! i)) (snd (progs ! i)) cs = Inl e)"
proof (induction ls arbitrary: s)
  case (Cons l ls)
  then obtain r1 where r1: "io_step l s = Some r1" by (auto split: option.splits)
  show ?case
  proof (cases l)
    case (Io_runs i c)
    from io_runs_inv[OF Cons.prems(2), of i c] r1 Io_runs obtain s1 where s1: "r1 = Inr s1" "io_inv progs s1" by blast
    with Cons.prems r1 have "io_steps ls s1 = Some r" by simp
    from Cons.IH[OF this s1(2)] show ?thesis .
  next
    case (Io_completes n c)
    with io_completes_inv[OF Cons.prems(2), of n c] r1
    consider s1 where "r1 = Inr s1" "io_inv progs s1" | e i cs where "r1 = Inl e" "i < length progs" "io_eval (fst (progs ! i)) (snd (progs ! i)) cs = Inl e"
      by blast
    then show ?thesis
    proof cases
      case 1
      with Cons.prems r1 have "io_steps ls s1 = Some r" by simp
      from Cons.IH[OF this 1(2)] show ?thesis .
    next
      case 2
      with Cons.prems r1 show ?thesis by auto
    qed
  qed
qed auto

text \<open>Where a frame has come to: its result, if it has returned.\<close>

fun frame_result :: "('q, 'c, 'r, 'x) io_state \<Rightarrow> 'x option" where
  "frame_result (Io_at (Io_return x)) = Some x"
| "frame_result _ = None"

fun at_rest :: "('q, 'c, 'r, 'x) io_state \<Rightarrow> bool" where
  "at_rest (Io_at (Io_return x)) = True"
| "at_rest (Io_at _) = False"
| "at_rest (Io_waiting k) = True"

text \<open>C19: Any number of coroutines that await operations through a \<^verbatim>\<open>callback_awaitor\<close> each, whose operations complete in any order and on
  any thread. Nothing undefined happens; unless a callback throws, each coroutine that has returned or is suspended has made the
  requests and has the result that its body, read in direct style, gives for the answers it was given; and for each suspended
  coroutine exactly one operation is pending, so that it is resumed once.\<close>

theorem callback_awaitor_evaluates:
  assumes "io_steps ls (io_system_new progs) = Some r"
  shows "case r of
      Inl e \<Rightarrow> \<exists>i<length progs. \<exists>cs. io_eval (fst (progs ! i)) (snd (progs ! i)) cs = Inl e
    | Inr s \<Rightarrow> \<forall>i<length progs. let f = sys_frames s ! i in
        (at_rest (fr_state f) \<longrightarrow> io_eval (fst (progs ! i)) (snd (progs ! i)) (fr_answers f) = Inr (fr_asked f, frame_result (fr_state f))) \<and>
        length (callbacks_of i (sys_pending s)) = (case fr_state f of Io_at p \<Rightarrow> 0 | Io_waiting k \<Rightarrow> 1)"
proof (cases r)
  case (Inl e)
  with io_steps_inv[OF assms io_inv_new] show ?thesis by auto
next
  case (Inr s)
  with io_steps_inv[OF assms io_inv_new] have inv: "io_inv progs s" by auto
  have "let f = sys_frames s ! i in
        (at_rest (fr_state f) \<longrightarrow> io_eval (fst (progs ! i)) (snd (progs ! i)) (fr_answers f) = Inr (fr_asked f, frame_result (fr_state f))) \<and>
        length (callbacks_of i (sys_pending s)) = (case fr_state f of Io_at p \<Rightarrow> 0 | Io_waiting k \<Rightarrow> 1)" if "i < length progs" for i
  proof -
    let ?f = "sys_frames s ! i"
    have ok: "frame_ok (fst (progs ! i)) (snd (progs ! i)) i (callbacks_of i (sys_pending s)) ?f" using inv that by (simp add: io_inv_def)
    show ?thesis
    proof (cases "fr_state ?f")
      case (Io_at p)
      with ok have "callbacks_of i (sys_pending s) = []"
        "io_eval (fst (progs ! i)) (snd (progs ! i)) (fr_answers ?f) = asks (fr_asked ?f) (io_eval p (aw_arg (fr_awaitor ?f)) [])"
        by (auto simp: frame_ok.simps dest: spec[of _ "[]"])
      with Io_at show ?thesis by (cases p) simp_all
    next
      case (Io_waiting k)
      with ok obtain q qs cb where w: "callbacks_of i (sys_pending s) = [cb]" "fr_asked ?f = qs @ [q]" and
        eval: "\<forall>cs. io_eval (fst (progs ! i)) (snd (progs ! i)) (fr_answers ?f @ cs) = asks qs (io_eval (Io_await q cb k) (aw_arg (fr_awaitor ?f)) cs)"
        by (auto simp: frame_ok.simps simp del: io_eval.simps)
      from w Io_waiting eval[rule_format, of "[]"] show ?thesis by (simp add: ask_def)
    qed
  qed
  with Inr show ?thesis by simp
qed

section \<open>The operations\<close>

text \<open>\<^verbatim>\<open>async_connect\<close> connects to what the name was resolved to, and not at all when that failed.\<close>

lemma async_connect_eval:
  "io_eval (async_connect host port) arg [An_resolved (Some e) it] = Inr ([Rq_resolve host port], Some (Some e))"
  "io_eval (async_connect host port) arg [An_resolved None it, An_ec e'] = Inr ([Rq_resolve host port, Rq_connect it], Some e')"
  by (simp_all add: async_connect_def ask_def)

text \<open>
  \<^verbatim>\<open>post\<close> gives what the function returned, or its exception if that is a \<^verbatim>\<open>std::exception\<close>, as \<^verbatim>\<open>makeTryCall\<close> would; any other exception
  leaves the handler and the coroutine stays suspended.
\<close>

lemma io_post_eval:
  assumes "\<And>e. r = Inl e \<Longrightarrow> std e"
  shows "io_eval (io_post_func std func) (V_try Try_default) [An_func r] = Inr ([Rq_post func], Some (makeTryCall (\<lambda>_. r) ()))"
    and "io_eval (io_post_void std func) (V_try_void TryVoid_default) [An_func r] =
      Inr ([Rq_post func], Some (makeTryCall_void (\<lambda>_. map_sum id (\<lambda>_. ()) r) ()))"
  using assms by (cases r; simp add: io_post_func_def io_post_void_def ask_def makeTryCall_def makeTryCall_void_def
      Try_setException_def Try_default_def Try_of_exception_def TryVoid_setException_def TryVoid_default_def TryVoid_of_exception_def)+

lemma io_post_escapes:
  "\<not> std e \<Longrightarrow> io_eval (io_post_func std func) arg [An_func (Inl e)] = Inl e"
  by (simp add: io_post_func_def ask_def)

text \<open>An element that was sent with an error is received as a success.\<close>

lemma async_receive_hides_error:
  "io_eval (async_receive d) arg [An_tried (Some (Some e, v))] = Inr ([Rq_try_receive], Some (None, v))"
  by (simp add: async_receive_def ask_def)

text \<open>Two connections, the second of which is answered first, and whose name is not found.\<close>

definition sample_progs :: "((nat, nat, nat, ec) coro_io \<times> nat io_value) list" where
  "sample_progs = [(async_connect ''a'' ''80'', V_ec None), (async_connect ''b'' ''80'', V_ec None)]"

definition sample_completions :: "nat io_answer io_label list" where
  "sample_completions = [Io_runs 0 An_done, Io_runs 1 An_done, Io_completes 1 (An_resolved (Some 4) 0), Io_completes 0 (An_resolved None 9),
     Io_runs 0 An_done, Io_completes 0 (An_ec None)]"

lemma callback_awaitor_evaluates_witness:
  "\<exists>s. io_steps sample_completions (io_system_new sample_progs) = Some (Inr s) \<and>
    io_eval (async_connect ''a'' ''80'' :: (nat, nat, nat, ec) coro_io) (V_ec None) [An_resolved None 9, An_ec None] =
      Inr (fr_asked (sys_frames s ! 0), Some None) \<and> callbacks_of 1 (sys_pending s) = []"
proof -
  obtain s where run: "io_steps sample_completions (io_system_new sample_progs) = Some (Inr s)"
    and st: "fr_state (sys_frames s ! 0) = Io_at (Io_return None)" "fr_answers (sys_frames s ! 0) = [An_resolved None 9, An_ec None]"
      "fr_state (sys_frames s ! 1) = Io_at (Io_return (Some 4))"
    by (simp add: sample_completions_def sample_progs_def io_system_new_def io_frame_new_def async_connect_def
        awaitor_await_suspend_def awaitor_resume_def awaitor_set_value_def Let_def)
  from callback_awaitor_evaluates[OF run] have all: "\<forall>i<2. let f = sys_frames s ! i in
        (at_rest (fr_state f) \<longrightarrow> io_eval (fst (sample_progs ! i)) (snd (sample_progs ! i)) (fr_answers f) = Inr (fr_asked f, frame_result (fr_state f))) \<and>
        length (callbacks_of i (sys_pending s)) = (case fr_state f of Io_at p \<Rightarrow> 0 | Io_waiting k \<Rightarrow> 1)"
    by (simp add: sample_progs_def)
  from all[rule_format, of 0] all[rule_format, of 1] run st show ?thesis by (simp add: sample_progs_def Let_def)
qed

end
