(* ===== verification/Rate_Limiter.thy ===== *)
theory Rate_Limiter
  imports Prelude Complex_Main
begin

text \<open>
  The rate limiter of \<^verbatim>\<open>src/coro_apps/coro_io/rate_limiter.hpp\<close>, in \<^verbatim>\<open>double\<close> arithmetic. How a result is rounded depends on the
  platform and is the parameter \<open>rnd\<close>, with the properties \<open>rounding\<close> of every IEEE rounding.
\<close>

section \<open>\<open>double\<close>\<close>

text \<open>A rational, an infinity, or not a number. A zero has no sign; a negative one only arises from negative rates.\<close>

datatype double = Fin rat | Pinf | Ninf | NaN

type_synonym round = "rat \<Rightarrow> double"

fun d_less :: "double \<Rightarrow> double \<Rightarrow> bool" where
  "d_less (Fin x) (Fin y) = (x < y)"
| "d_less (Fin x) Pinf = True"
| "d_less Ninf (Fin y) = True"
| "d_less Ninf Pinf = True"
| "d_less _ _ = False"

definition rounding :: "round \<Rightarrow> bool" where
  "rounding rnd \<longleftrightarrow>
     (\<forall>x. rnd x \<noteq> NaN) \<and> (\<forall>x y. x \<le> y \<longrightarrow> \<not> d_less (rnd y) (rnd x)) \<and> (\<forall>x y. rnd x = Fin y \<longrightarrow> rnd y = Fin y) \<and>
     (\<forall>n. \<bar>n\<bar> \<le> 2 ^ 53 \<longrightarrow> rnd (of_int n) = Fin (of_int n))"

fun d_neg :: "double \<Rightarrow> double" where
  "d_neg (Fin x) = Fin (- x)"
| "d_neg Pinf = Ninf"
| "d_neg Ninf = Pinf"
| "d_neg NaN = NaN"

fun d_add :: "round \<Rightarrow> double \<Rightarrow> double \<Rightarrow> double" where
  "d_add rnd (Fin x) (Fin y) = rnd (x + y)"
| "d_add rnd (Fin x) b = b"
| "d_add rnd a (Fin y) = a"
| "d_add rnd a b = (if a = b then a else NaN)"

definition d_sub :: "round \<Rightarrow> double \<Rightarrow> double \<Rightarrow> double" where
  "d_sub rnd a b = d_add rnd a (d_neg b)"

definition d_inf :: "rat \<Rightarrow> double" where
  "d_inf s = (if s > 0 then Pinf else if s < 0 then Ninf else NaN)"

fun d_sgn :: "double \<Rightarrow> rat" where
  "d_sgn (Fin x) = sgn x"
| "d_sgn Pinf = 1"
| "d_sgn Ninf = -1"
| "d_sgn NaN = 0"

fun d_mul :: "round \<Rightarrow> double \<Rightarrow> double \<Rightarrow> double" where
  "d_mul rnd (Fin x) (Fin y) = rnd (x * y)"
| "d_mul rnd a b = d_inf (d_sgn a * d_sgn b)"

fun d_div :: "round \<Rightarrow> double \<Rightarrow> double \<Rightarrow> double" where
  "d_div rnd (Fin x) (Fin y) = (if y = 0 then d_inf (sgn x) else rnd (x / y))"
| "d_div rnd NaN b = NaN"
| "d_div rnd a NaN = NaN"
| "d_div rnd (Fin x) b = Fin 0"
| "d_div rnd a (Fin y) = (if y < 0 then d_neg a else a)"
| "d_div rnd a b = NaN"

text \<open>\<^verbatim>\<open>std::min\<close>; the conversions from and to integers.\<close>

definition d_min :: "double \<Rightarrow> double \<Rightarrow> double" where
  "d_min a b = (if d_less b a then b else a)"

definition d_of_int :: "round \<Rightarrow> int \<Rightarrow> double" where
  "d_of_int rnd n = rnd (of_int n)"

definition trunc :: "rat \<Rightarrow> int" where
  "trunc x = (if x < 0 then - \<lfloor>- x\<rfloor> else \<lfloor>x\<rfloor>)"

definition in_int64 :: "int \<Rightarrow> bool" where
  "in_int64 n \<longleftrightarrow> - (2 ^ 63) \<le> n \<and> n < 2 ^ 63"

definition d_to_int64 :: "double \<Rightarrow> int outcome" where
  "d_to_int64 a = (case a of Fin x \<Rightarrow> if in_int64 (trunc x) then Inr (trunc x) else Inl Undefined_behaviour | _ \<Rightarrow> Inl Undefined_behaviour)"

section \<open>The limiter\<close>

text \<open>Times are nanoseconds of the steady clock, which is not negative; intervals are milliseconds.\<close>

definition ms :: int where
  "ms = 1000000"

definition cast_ms :: "int \<Rightarrow> int" where
  "cast_ms d = (if d < 0 then - ((- d) div ms) else d div ms)"

record rate_limiter =
  stored_permits :: double
  max_permits :: double
  stable_internal :: double
  next_free_ticket :: int
  max_burst_seconds :: double

definition cool_down_internal :: "rate_limiter \<Rightarrow> double" where
  "cool_down_internal s = stable_internal s"

definition stored_permits_to_wait_time :: "double \<Rightarrow> double \<Rightarrow> int" where
  "stored_permits_to_wait_time stored to_take = 0"

definition resync :: "round \<Rightarrow> int \<Rightarrow> rate_limiter \<Rightarrow> rate_limiter" where
  "resync rnd now s =
     (if now > next_free_ticket s
      then let diff = cast_ms (now - next_free_ticket s);
               new_permits = d_div rnd (d_of_int rnd diff) (cool_down_internal s)
           in s\<lparr>stored_permits := d_min (max_permits s) (d_add rnd (stored_permits s) new_permits), next_free_ticket := now\<rparr>
      else s)"

definition do_set_rate_bursty :: "round \<Rightarrow> double \<Rightarrow> rate_limiter \<Rightarrow> rate_limiter" where
  "do_set_rate_bursty rnd rate s =
     (let old = max_permits s; s = s\<lparr>max_permits := d_mul rnd (max_burst_seconds s) rate\<rparr>
      in s\<lparr>stored_permits := (if old = Fin 0 then Fin 0 else d_div rnd (d_mul rnd (stored_permits s) (max_permits s)) old)\<rparr>)"

definition do_set_rate :: "round \<Rightarrow> double \<Rightarrow> int \<Rightarrow> rate_limiter \<Rightarrow> rate_limiter" where
  "do_set_rate rnd rate now s =
     (let s = resync rnd now s; stable = d_div rnd (Fin 1000) rate
      in do_set_rate_bursty rnd rate (s\<lparr>stable_internal := stable\<rparr>))"

definition reserve_earliest_available :: "round \<Rightarrow> int \<Rightarrow> int \<Rightarrow> rate_limiter \<Rightarrow> (int \<times> rate_limiter) outcome" where
  "reserve_earliest_available rnd required now s =
     (let s = resync rnd now s;
          return_value = next_free_ticket s;
          spend = d_min (d_of_int rnd required) (stored_permits s);
          fresh = d_sub rnd (d_of_int rnd required) spend
      in bind_outcome (d_to_int64 (d_mul rnd fresh (stable_internal s))) (\<lambda>w.
           let wait = stored_permits_to_wait_time (stored_permits s) spend + w
           in if in_int64 (wait * ms) \<and> in_int64 (next_free_ticket s + wait * ms)
              then Inr (return_value, s\<lparr>next_free_ticket := next_free_ticket s + wait * ms, stored_permits := d_sub rnd (stored_permits s) spend\<rparr>)
              else Inl Undefined_behaviour))"

definition reserve_and_get_wait_length :: "round \<Rightarrow> int \<Rightarrow> int \<Rightarrow> rate_limiter \<Rightarrow> (int \<times> rate_limiter) outcome" where
  "reserve_and_get_wait_length rnd permits now s =
     bind_outcome (reserve_earliest_available rnd permits now s) (\<lambda>(available, s). Inr (max (cast_ms (available - now)) 0, s))"

text \<open>The section of \<^verbatim>\<open>acquire\<close> under the lock; what it gives is slept for and returned.\<close>

definition rl_acquire :: "round \<Rightarrow> int \<Rightarrow> int \<Rightarrow> rate_limiter \<Rightarrow> (int \<times> rate_limiter) outcome" where
  "rl_acquire rnd permits now s = reserve_and_get_wait_length rnd permits now s"

definition rl_set_rate :: "round \<Rightarrow> double \<Rightarrow> int \<Rightarrow> rate_limiter \<Rightarrow> rate_limiter" where
  "rl_set_rate rnd rate now s = do_set_rate rnd rate now s"

definition smooth_bursty_rate_limiter_new :: "round \<Rightarrow> double \<Rightarrow> int \<Rightarrow> rate_limiter" where
  "smooth_bursty_rate_limiter_new rnd rate now =
     rl_set_rate rnd rate now \<lparr>stored_permits = Fin 0, max_permits = Fin 0, stable_internal = Fin 0, next_free_ticket = 0, max_burst_seconds = Fin 1\<rparr>"

text \<open>Calls of \<^verbatim>\<open>acquire\<close>, in the order in which they get the lock, each with its time; the waits they return.\<close>

fun acquires :: "round \<Rightarrow> (int \<times> int) list \<Rightarrow> rate_limiter \<Rightarrow> (int list \<times> rate_limiter) outcome" where
  "acquires rnd [] s = Inr ([], s)"
| "acquires rnd ((permits, now) # calls) s =
     bind_outcome (rl_acquire rnd permits now s) (\<lambda>(w, s).
     bind_outcome (acquires rnd calls s) (\<lambda>(ws, s). Inr (w # ws, s)))"

end
