(* ===== verification/Meta_String.thy ===== *)
theory Meta_String
  imports Prelude "HOL-Library.Char_ord"
begin

text \<open>
  Strings as template arguments: \<^verbatim>\<open>src/coro_apps/util/meta_string.hpp\<close>, the searches of \<^verbatim>\<open>string_finder.hpp\<close>, and the parser
  of function names of \<^verbatim>\<open>magic_names.hpp\<close>. All of it runs in the compiler, where leaving an array or dereferencing past it
  is an error and a loop that does not end stops the compilation.
\<close>

section \<open>Searches of \<open>std::string_view\<close>\<close>

text \<open>\<^verbatim>\<open>std::string_view::npos\<close>, the largest \<^verbatim>\<open>size_t\<close>; arithmetic on positions wraps around.\<close>

definition npos :: nat where
  "npos = 2 ^ 64 - 1"

definition size_add :: "nat \<Rightarrow> nat \<Rightarrow> nat" where
  "size_add x y = (x + y) mod 2 ^ 64"

definition size_sub :: "nat \<Rightarrow> nat \<Rightarrow> nat" where
  "size_sub x y = (if y \<le> x then x - y else 2 ^ 64 - (y - x))"

definition occurs_at :: "string \<Rightarrow> string \<Rightarrow> nat \<Rightarrow> bool" where
  "occurs_at s k i \<longleftrightarrow> i + length k \<le> length s \<and> take (length k) (drop i s) = k"

definition any_at :: "string \<Rightarrow> string \<Rightarrow> nat \<Rightarrow> bool" where
  "any_at s k i \<longleftrightarrow> i < length s \<and> s ! i \<in> set k"

text \<open>The first index from \<open>i\<close> on, and the last one up to \<open>i\<close>, at which \<open>P\<close> holds.\<close>

function search_up :: "(nat \<Rightarrow> bool) \<Rightarrow> nat \<Rightarrow> nat \<Rightarrow> nat" where
  "search_up P n i = (if i > n then npos else if P i then i else search_up P n (i + 1))"
  by pat_completeness auto
termination by (relation "measure (\<lambda>(P, n, i). n + 1 - i)") auto

primrec search_down :: "(nat \<Rightarrow> bool) \<Rightarrow> nat \<Rightarrow> nat" where
  "search_down P 0 = (if P 0 then 0 else npos)"
| "search_down P (Suc i) = (if P (Suc i) then Suc i else search_down P i)"

definition sv_find :: "string \<Rightarrow> string \<Rightarrow> nat \<Rightarrow> nat" where
  "sv_find s k i = search_up (occurs_at s k) (length s) i"

definition sv_find_first_of :: "string \<Rightarrow> string \<Rightarrow> nat \<Rightarrow> nat" where
  "sv_find_first_of s k i = search_up (any_at s k) (length s) i"

definition sv_rfind :: "string \<Rightarrow> string \<Rightarrow> nat \<Rightarrow> nat" where
  "sv_rfind s k i = search_down (occurs_at s k) (min i (length s))"

definition sv_find_last_of :: "string \<Rightarrow> string \<Rightarrow> nat \<Rightarrow> nat" where
  "sv_find_last_of s k i = search_down (any_at s k) (min i (length s))"

declare search_up.simps [code, simp del]

text \<open>\<^verbatim>\<open>substr\<close> throws \<^verbatim>\<open>out_of_range\<close>, here an error of the compilation, when it starts after the end.\<close>

definition sv_substr :: "string \<Rightarrow> nat \<Rightarrow> nat \<Rightarrow> string outcome" where
  "sv_substr s pos n = (if pos > length s then Inl Undefined_behaviour else Inr (take n (drop pos s)))"

primrec sv_compare :: "string \<Rightarrow> string \<Rightarrow> int" where
  "sv_compare [] t = (if t = [] then 0 else -1)"
| "sv_compare (c # s) t =
     (case t of [] \<Rightarrow> 1 | d # t \<Rightarrow> if c = d then sv_compare s t else if c < d then -1 else 1)"

section \<open>\<open>meta_string\<close>\<close>

text \<open>\<^verbatim>\<open>N\<close> is the template argument, the number of characters without the terminator.\<close>

record meta_string =
  ms_N :: nat
  ms_elements :: string

definition ms_new :: "nat \<Rightarrow> meta_string" where
  "ms_new n = \<lparr>ms_N = n, ms_elements = replicate (n + 1) (CHR 0x00)\<rparr>"

text \<open>The constructor on an array of \<open>N + 1\<close> characters, with its deduction guide.\<close>

definition ms_of_array :: "string \<Rightarrow> meta_string" where
  "ms_of_array array = \<lparr>ms_N = length array - 1, ms_elements = array\<rparr>"

text \<open>The array of a string literal ends with the null character.\<close>

definition literal :: "string \<Rightarrow> string" where
  "literal s = s @ [CHR 0x00]"

text \<open>\<^verbatim>\<open>std::copy\<close> to a position, one element after the other.\<close>

primrec copy_to :: "nat \<Rightarrow> 'a list \<Rightarrow> 'a list \<Rightarrow> 'a list" where
  "copy_to at [] ys = ys"
| "copy_to at (x # xs) ys = copy_to (at + 1) xs (ys[at := x])"

fun copy_all :: "nat \<Rightarrow> 'a list list \<Rightarrow> 'a list \<Rightarrow> 'a list" where
  "copy_all iter [] ys = ys"
| "copy_all iter (xs # xss) ys = copy_all (iter + length xs) xss (copy_to iter xs ys)"

definition ms_of_spans :: "string list \<Rightarrow> meta_string" where
  "ms_of_spans data =
     (let n = sum_list (map length data) in (ms_new n)\<lparr>ms_elements := copy_all 0 data (ms_elements (ms_new n))\<rparr>)"

definition ms_of_chars :: "string \<Rightarrow> meta_string" where
  "ms_of_chars chars = \<lparr>ms_N = length chars, ms_elements = chars @ [CHR 0x00]\<rparr>"

definition ms_index :: "meta_string \<Rightarrow> nat \<Rightarrow> char outcome" where
  "ms_index m index = (if index < length (ms_elements m) then Inr (ms_elements m ! index) else Inl Undefined_behaviour)"

definition ms_view :: "meta_string \<Rightarrow> string" where
  "ms_view m = take (ms_N m) (ms_elements m)"

definition ms_empty :: "meta_string \<Rightarrow> bool" where
  "ms_empty m \<longleftrightarrow> ms_N m = 0"

definition ms_front :: "meta_string \<Rightarrow> char outcome" where
  "ms_front m = ms_index m 0"

definition ms_back :: "meta_string \<Rightarrow> char outcome" where
  "ms_back m = ms_index m (size_sub (ms_N m) 1)"

definition ms_contains :: "meta_string \<Rightarrow> char \<Rightarrow> bool" where
  "ms_contains m c \<longleftrightarrow> c \<in> set (ms_view m)"

text \<open>\<^verbatim>\<open>std::search\<close> gives the end of the searched range for failure, which is also where an empty range begins.\<close>

definition std_search :: "string \<Rightarrow> string \<Rightarrow> nat" where
  "std_search s k = (if sv_find s k 0 = npos then length s else sv_find s k 0)"

definition ms_contains_str :: "meta_string \<Rightarrow> string \<Rightarrow> bool" where
  "ms_contains_str m str = (if length str \<le> ms_N m then std_search (ms_view m) str \<noteq> length (ms_view m) else False)"

definition substr_len :: "nat \<Rightarrow> nat \<Rightarrow> nat \<Rightarrow> nat" where
  "substr_len N pos n =
     (if pos \<ge> N then 0 else if n = npos \<or> size_add pos n > N then N - pos else n)"

definition ms_substr :: "meta_string \<Rightarrow> nat \<Rightarrow> nat \<Rightarrow> meta_string outcome" where
  "ms_substr m pos n =
     (let k = substr_len (ms_N m) pos n
      in if k \<noteq> 0 \<and> pos + k > length (ms_elements m) then Inl Undefined_behaviour
         else Inr ((ms_new k)\<lparr>ms_elements := copy_to 0 (take k (drop pos (ms_elements m))) (ms_elements (ms_new k))\<rparr>))"

definition ms_rfind :: "meta_string \<Rightarrow> char \<Rightarrow> nat" where
  "ms_rfind m c = sv_rfind (ms_view m) [c] npos"

definition ms_find :: "meta_string \<Rightarrow> char \<Rightarrow> nat" where
  "ms_find m c = sv_find (ms_view m) [c] 0"

definition ms_compare :: "meta_string \<Rightarrow> meta_string \<Rightarrow> int" where
  "ms_compare left right = sv_compare (ms_view left) (ms_view right)"

definition ms_eq :: "meta_string \<Rightarrow> meta_string \<Rightarrow> bool" where
  "ms_eq left right \<longleftrightarrow> ms_view left = ms_view right"

definition ms_eq_array :: "meta_string \<Rightarrow> string \<Rightarrow> bool" where
  "ms_eq_array left right \<longleftrightarrow> ms_view left = ms_view (ms_of_array right)"

definition ms_append :: "meta_string \<Rightarrow> meta_string \<Rightarrow> meta_string" where
  "ms_append left right = ms_of_spans [ms_view left, ms_view right]"

text \<open>An array of a literal's size \<open>N\<close> counts its terminator.\<close>

definition ms_append_array :: "meta_string \<Rightarrow> string \<Rightarrow> meta_string" where
  "ms_append_array left right =
     (let s = ms_new (ms_N left + length right - 1)
      in s\<lparr>ms_elements := copy_to (ms_N left) right (copy_to 0 (ms_view left) (ms_elements s))\<rparr>)"

definition ms_array_append :: "string \<Rightarrow> meta_string \<Rightarrow> meta_string" where
  "ms_array_append left right =
     (let s = ms_new (length left + ms_N right - 1)
      in s\<lparr>ms_elements := copy_to (length left - 1) (ms_view right) (copy_to 0 (take (length left - 1) left) (ms_elements s))\<rparr>)"

section \<open>Splitting\<close>

text \<open>A write through the iterator of the result array, which has as many elements as were counted before.\<close>

definition put_group :: "nat \<Rightarrow> nat \<Rightarrow> string \<Rightarrow> string list \<Rightarrow> string list outcome" where
  "put_group group_count iter g result =
     (if iter < group_count then Inr (result[iter := g]) else Inl Undefined_behaviour)"

definition split_of_group_count :: "string \<Rightarrow> meta_string \<Rightarrow> nat" where
  "split_of_group_count view delim = length (filter (ms_contains delim) view) + 1"

text \<open>
  One loop for both ways of splitting: \<open>next_of\<close> finds the next delimiter and \<open>skip\<close> is its length. The loop need not end.
\<close>

partial_function (option) split_loop ::
    "(nat \<Rightarrow> nat) \<Rightarrow> nat \<Rightarrow> string \<Rightarrow> nat \<Rightarrow> nat \<Rightarrow> nat \<Rightarrow> string list \<Rightarrow> string list outcome option" where
  "split_loop next_of skip view n iter start_index result =
     (let end_index = next_of start_index
      in case bind_outcome (sv_substr view start_index (size_sub end_index start_index))
                (\<lambda>g. put_group n iter g result) of
           Inl e \<Rightarrow> Some (Inl e)
         | Inr result \<Rightarrow>
             if end_index = npos then Some (Inr result)
             else split_loop next_of skip view n (iter + 1) (size_add end_index skip) result)"

declare split_loop.simps [code]

definition split_of :: "meta_string \<Rightarrow> meta_string \<Rightarrow> string list outcome option" where
  "split_of S Delim =
     (let view = ms_view S; n = split_of_group_count view Delim
      in split_loop (sv_find_first_of view (ms_view Delim)) 1 view n 0 0 (replicate n []))"

partial_function (option) count_groups :: "string \<Rightarrow> string \<Rightarrow> nat \<Rightarrow> nat \<Rightarrow> nat option" where
  "count_groups view delim n index =
     (let index = sv_find view delim index
      in if index = npos then Some (n + 1) else count_groups view delim (n + 1) (size_add index (length delim)))"

declare count_groups.simps [code]

definition split :: "meta_string \<Rightarrow> meta_string \<Rightarrow> string list outcome option" where
  "split S Delim =
     (let view = ms_view S
      in case count_groups view (ms_view Delim) 0 0 of
           None \<Rightarrow> None
         | Some n \<Rightarrow> split_loop (sv_find view (ms_view Delim)) (ms_N Delim) view n 0 0 (replicate n []))"

definition remove_char :: "meta_string \<Rightarrow> char \<Rightarrow> meta_string" where
  "remove_char S C =
     (let result = filter (\<lambda>c. c \<noteq> C) (ms_view S); actual_size = length result
      in (ms_new actual_size)\<lparr>ms_elements := copy_to 0 result (ms_elements (ms_new actual_size))\<rparr>)"

definition remove_str :: "meta_string \<Rightarrow> meta_string \<Rightarrow> meta_string outcome option" where
  "remove_str S Removal = map_option (map_sum id ms_of_spans) (split S Removal)"

section \<open>Searches by mode\<close>

datatype find_mode_type = any_of | full_match | any_of_reverse | full_match_reverse

fun default_index :: "find_mode_type \<Rightarrow> nat" where
  "default_index any_of = 0"
| "default_index full_match = 0"
| "default_index any_of_reverse = npos"
| "default_index full_match_reverse = npos"

fun forward_direction :: "find_mode_type \<Rightarrow> bool" where
  "forward_direction any_of = True"
| "forward_direction full_match = True"
| "forward_direction any_of_reverse = False"
| "forward_direction full_match_reverse = False"

fun uniform_find_string :: "find_mode_type \<Rightarrow> string \<Rightarrow> string \<Rightarrow> nat \<Rightarrow> nat" where
  "uniform_find_string any_of source keyword index = sv_find_first_of source keyword index"
| "uniform_find_string full_match source keyword index = sv_find source keyword index"
| "uniform_find_string any_of_reverse source keyword index = sv_find_last_of source keyword index"
| "uniform_find_string full_match_reverse source keyword index = sv_rfind source keyword index"

fun keyword_size :: "find_mode_type \<Rightarrow> string \<Rightarrow> nat" where
  "keyword_size any_of keyword = 1"
| "keyword_size full_match keyword = length keyword"
| "keyword_size any_of_reverse keyword = 1"
| "keyword_size full_match_reverse keyword = length keyword"

definition skip_keyword :: "find_mode_type \<Rightarrow> nat \<Rightarrow> string \<Rightarrow> nat" where
  "skip_keyword mode index keyword =
     (if forward_direction mode then size_add index (keyword_size mode keyword)
      else size_sub index (keyword_size mode keyword))"

section \<open>The name of a function from its signature\<close>

text \<open>How many brackets are open after each character.\<close>

primrec depths_from :: "nat \<Rightarrow> string \<Rightarrow> nat list" where
  "depths_from j [] = []"
| "depths_from j (c # cs) =
     (let j = (if c \<in> set ''<(['' then j + 1 else j);
          j = (if c \<in> set ''>)]'' \<and> j \<noteq> 0 then j - 1 else j)
      in j # depths_from j cs)"

definition depths :: "string \<Rightarrow> nat list" where
  "depths view = depths_from 0 view"

partial_function (option) significant_loop ::
    "find_mode_type \<Rightarrow> string \<Rightarrow> string \<Rightarrow> nat \<Rightarrow> nat \<Rightarrow> nat option" where
  "significant_loop mode view keyword depth i =
     (if i < length view
      then (if depths view ! i = depth then Some (skip_keyword mode i keyword)
            else significant_loop mode view keyword depth
                   (uniform_find_string mode view keyword (skip_keyword mode i keyword)))
      else Some npos)"

declare significant_loop.simps [code]

definition find_significant_index :: "find_mode_type \<Rightarrow> string \<Rightarrow> string \<Rightarrow> nat \<Rightarrow> nat \<Rightarrow> nat option" where
  "find_significant_index mode view keyword depth index =
     significant_loop mode view keyword depth (uniform_find_string mode view keyword index)"

text \<open>The calling conventions are those of MSVC; the list is empty for GCC and Clang.\<close>

primrec name_start :: "string list \<Rightarrow> string \<Rightarrow> nat option" where
  "name_start [] view = Some 0"
| "name_start (item # items) view =
     (case find_significant_index full_match view item 0 (default_index full_match) of
        None \<Rightarrow> None
      | Some index \<Rightarrow> if index \<noteq> npos then Some (size_add index 1) else name_start items view)"

definition parse_qualified_function_name :: "string list \<Rightarrow> meta_string \<Rightarrow> meta_string outcome option" where
  "parse_qualified_function_name calling_conventions Signature =
     (let view = ms_view Signature in
      Option.bind (name_start calling_conventions view) (\<lambda>start_index.
      Option.bind (find_significant_index full_match_reverse view ''::'' 0 (default_index full_match_reverse)) (\<lambda>scope_index.
      let function_name_start_index = max start_index scope_index in
      Option.bind (find_significant_index any_of view ''<('' 1
          (if function_name_start_index \<noteq> npos then function_name_start_index else start_index)) (\<lambda>end_index.
      let final_size = (if end_index \<noteq> npos then size_sub (size_sub end_index 1) start_index
                        else size_sub (length view) start_index) in
      Some (if start_index + final_size > length view then Inl Undefined_behaviour
            else Inr (ms_of_spans [take final_size (drop start_index view)]))))))"

text \<open>\<^verbatim>\<open>qualified_name_of_impl\<close> for GCC, on the text of \<^verbatim>\<open>__PRETTY_FUNCTION__\<close>.\<close>

definition anonymous_namespace :: string where
  "anonymous_namespace = ''{anonymous}::''"

definition qualified_name_of_impl :: "string \<Rightarrow> string outcome" where
  "qualified_name_of_impl signature =
     (let keyword = ''Func = '';
          prefix_size = size_add (sv_find signature keyword 0) (length keyword)
      in if prefix_size \<ge> length signature then Inl Undefined_behaviour
         else
      let additional_size = (if signature ! prefix_size = CHR 0x26 then 1 else 0)
      in bind_outcome (sv_substr signature (prefix_size + additional_size)
           (size_sub (size_sub (size_sub (length signature) prefix_size) additional_size) 1)) (\<lambda>result.
      let rpos = sv_rfind result anonymous_namespace npos
      in if rpos \<noteq> npos
         then bind_outcome (sv_substr result (rpos + length anonymous_namespace) npos) (\<lambda>str.
              let right = sv_find str ''('' 0
              in if right \<noteq> npos then sv_substr str 0 right else Inr str)
         else (let left = size_add (sv_find result ''l '' 0) 2; right = sv_find result ''('' 0
               in if left \<noteq> npos
                  then (if right \<noteq> npos then sv_substr result left (size_sub right left) else Inr result)
                  else Inr result)))"

definition name_of :: "string \<Rightarrow> meta_string outcome" where
  "name_of qualified_name =
     (let template_argument_start_token_index = sv_find_first_of qualified_name ''<'' 0;
          scope_token_index = sv_rfind qualified_name ''::'' template_argument_start_token_index;
          class_name_index = (if scope_token_index \<noteq> npos then scope_token_index + 2 else 0)
      in bind_outcome (sv_substr qualified_name class_name_index npos) (\<lambda>result. Inr (ms_of_spans [result])))"

end
