(* ===== verification/Meta_String_Props.thy ===== *)
theory Meta_String_Props
  imports Meta_String
begin

text \<open>
  The types of string expressions hold, and splitting finds every delimiter: what it gives, joined with the delimiter, is the string.
\<close>

section \<open>Copying\<close>

lemma copy_to_eq:
  "at + length xs \<le> length ys \<Longrightarrow> copy_to at xs ys = take at ys @ xs @ drop (at + length xs) ys"
proof (induction xs arbitrary: at ys)
  case (Cons x xs)
  then have "copy_to at (x # xs) ys = take (at + 1) (ys[at := x]) @ xs @ drop (at + 1 + length xs) (ys[at := x])"
    by simp
  also have "take (at + 1) (ys[at := x]) = take at ys @ [x]"
    using Cons.prems take_Suc_conv_app_nth[of at "ys[at := x]"] by simp
  also have "drop (at + 1 + length xs) (ys[at := x]) = drop (at + length (x # xs)) ys"
    by (simp add: drop_update_cancel)
  finally show ?case by simp
qed simp

lemma copy_all_eq:
  "at + sum_list (map length xss) \<le> length ys \<Longrightarrow>
   copy_all at xss ys = take at ys @ concat xss @ drop (at + sum_list (map length xss)) ys"
  by (induction at xss ys rule: copy_all.induct) (simp_all add: copy_to_eq ac_simps)

lemma ms_new_simps [simp]:
  "ms_elements (ms_new n) = replicate n (CHR 0x00) @ [CHR 0x00]" "ms_N (ms_new n) = n"
  by (simp_all add: ms_new_def replicate_append_same)

lemma ms_elements_of_spans: "ms_elements (ms_of_spans data) = concat data @ [CHR 0x00]"
  by (simp add: ms_of_spans_def Let_def copy_all_eq length_concat)

lemma ms_N_of_spans [simp]: "ms_N (ms_of_spans data) = length (concat data)"
  by (simp add: ms_of_spans_def Let_def length_concat)

lemma ms_view_of_spans [simp]: "ms_view (ms_of_spans data) = concat data"
  by (simp add: ms_view_def ms_elements_of_spans)

section \<open>Types\<close>

text \<open>A well-formed string: the array has the type's length, and ends with the null character.\<close>

definition ms_wf :: "meta_string \<Rightarrow> bool" where
  "ms_wf m \<longleftrightarrow> length (ms_elements m) = ms_N m + 1 \<and> ms_elements m ! ms_N m = CHR 0x00"

lemma ms_wf_elements: "ms_wf m \<longleftrightarrow> ms_elements m = ms_view m @ [CHR 0x00] \<and> length (ms_view m) = ms_N m"
proof
  assume wf: "ms_wf m"
  then have "ms_elements m = take (ms_N m) (ms_elements m) @ [ms_elements m ! ms_N m]"
    using take_Suc_conv_app_nth[of "ms_N m" "ms_elements m"] by (simp add: ms_wf_def)
  with wf show "ms_elements m = ms_view m @ [CHR 0x00] \<and> length (ms_view m) = ms_N m"
    by (simp add: ms_view_def ms_wf_def)
qed (metis length_append_singleton nth_append_length ms_wf_def Suc_eq_plus1)

lemma ms_wfI: "ms_elements m = s @ [CHR 0x00] \<Longrightarrow> ms_N m = length s \<Longrightarrow> ms_wf m \<and> ms_view m = s"
  by (simp add: ms_wf_def ms_view_def)

lemma ms_wf_spans: "ms_wf (ms_of_spans data)"
  by (simp add: ms_wf_def ms_elements_of_spans length_concat nth_append)

lemma ms_wf_chars: "ms_wf (ms_of_chars s)" "ms_view (ms_of_chars s) = s"
  by (simp_all add: ms_wf_def ms_of_chars_def ms_view_def)

lemma ms_append_array_eq:
  assumes "ms_wf m" "a = literal s"
  shows "ms_wf (ms_append_array m a) \<and> ms_view (ms_append_array m a) = ms_view m @ s"
  using assms by (intro ms_wfI) (auto simp: ms_append_array_def Let_def copy_to_eq literal_def ms_wf_elements)

lemma ms_array_append_eq:
  assumes "ms_wf m" "a = literal s"
  shows "ms_wf (ms_array_append a m) \<and> ms_view (ms_array_append a m) = s @ ms_view m"
  using assms by (intro ms_wfI) (auto simp: ms_array_append_def Let_def copy_to_eq literal_def ms_wf_elements)

lemma substr_len_bound:
  assumes "size_add pos n = pos + n" "n \<noteq> npos"
  shows "substr_len N pos n = length (take n (drop pos (replicate N ())))"
  using assms by (auto simp: substr_len_def min_def)

lemma ms_substr_eq:
  assumes "ms_wf m" "n = npos \<or> pos + n < 2 ^ 64" "ms_N m \<le> npos"
  shows "\<exists>m'. ms_substr m pos n = Inr m' \<and> ms_N m' = substr_len (ms_N m) pos n \<and> ms_wf m' \<and> ms_view m' = take n (drop pos (ms_view m))"
proof -
  have len: "length (ms_elements m) = ms_N m + 1" "length (ms_view m) = ms_N m" and el: "ms_elements m = ms_view m @ [CHR 0x00]"
    using assms(1) by (simp_all add: ms_wf_elements)
  let ?k = "substr_len (ms_N m) pos n"
  have add: "size_add pos n = pos + n" if "n \<noteq> npos" using assms(2) that by (simp add: size_add_def)
  have k: "?k = length (take n (drop pos (ms_view m)))"
    using add assms(3) by (auto simp: substr_len_def len min_def)
  have fits: "?k \<noteq> 0 \<longrightarrow> pos + ?k \<le> ms_N m" unfolding k by (auto simp: len)
  have cut: "take ?k (drop pos (ms_elements m)) = take n (drop pos (ms_view m))"
  proof (cases "pos < ms_N m")
    case True
    then show ?thesis unfolding k by (simp add: el len min_def)
  next
    case False
    then have "?k = 0" by (simp add: substr_len_def)
    with False show ?thesis by (simp add: len)
  qed
  let ?m = "(ms_new ?k)\<lparr>ms_elements := copy_to 0 (take ?k (drop pos (ms_elements m))) (ms_elements (ms_new ?k))\<rparr>"
  have "ms_wf ?m \<and> ms_view ?m = take n (drop pos (ms_view m))"
    by (rule ms_wfI) (unfold cut, simp_all add: copy_to_eq k)
  moreover have "ms_substr m pos n = Inr ?m" using fits len by (auto simp: ms_substr_def Let_def)
  ultimately show ?thesis by simp
qed

text \<open>Expressions over strings; the type of an expression is known from its parts alone.\<close>

datatype ms_expr =
    Literal string
  | Chars string
  | Append ms_expr ms_expr
  | Append_array ms_expr string
  | Array_append string ms_expr
  | Substr ms_expr nat nat

primrec ms_type :: "ms_expr \<Rightarrow> nat" where
  "ms_type (Literal s) = length (literal s) - 1"
| "ms_type (Chars s) = length s"
| "ms_type (Append e e') = ms_type e + ms_type e'"
| "ms_type (Append_array e s) = ms_type e + length (literal s) - 1"
| "ms_type (Array_append s e) = length (literal s) + ms_type e - 1"
| "ms_type (Substr e pos n) = substr_len (ms_type e) pos n"

primrec ms_eval :: "ms_expr \<Rightarrow> meta_string outcome" where
  "ms_eval (Literal s) = Inr (ms_of_array (literal s))"
| "ms_eval (Chars s) = Inr (ms_of_chars s)"
| "ms_eval (Append e e') = bind_outcome (ms_eval e) (\<lambda>m. bind_outcome (ms_eval e') (\<lambda>m'. Inr (ms_append m m')))"
| "ms_eval (Append_array e s) = bind_outcome (ms_eval e) (\<lambda>m. Inr (ms_append_array m (literal s)))"
| "ms_eval (Array_append s e) = bind_outcome (ms_eval e) (\<lambda>m. Inr (ms_array_append (literal s) m))"
| "ms_eval (Substr e pos n) = bind_outcome (ms_eval e) (\<lambda>m. ms_substr m pos n)"

primrec ms_text :: "ms_expr \<Rightarrow> string" where
  "ms_text (Literal s) = s"
| "ms_text (Chars s) = s"
| "ms_text (Append e e') = ms_text e @ ms_text e'"
| "ms_text (Append_array e s) = ms_text e @ s"
| "ms_text (Array_append s e) = s @ ms_text e"
| "ms_text (Substr e pos n) = take n (drop pos (ms_text e))"

text \<open>Positions that do not overflow: \<open>pos + count\<close> is computed in 64 bits.\<close>

primrec ms_fits :: "ms_expr \<Rightarrow> bool" where
  "ms_fits (Literal s) \<longleftrightarrow> True"
| "ms_fits (Chars s) \<longleftrightarrow> True"
| "ms_fits (Append e e') \<longleftrightarrow> ms_fits e \<and> ms_fits e'"
| "ms_fits (Append_array e s) \<longleftrightarrow> ms_fits e"
| "ms_fits (Array_append s e) \<longleftrightarrow> ms_fits e"
| "ms_fits (Substr e pos n) \<longleftrightarrow> ms_fits e \<and> ms_type e \<le> npos \<and> (n = npos \<or> pos + n < 2 ^ 64)"

text \<open>C37: Every expression over \<^verbatim>\<open>meta_string\<close> (literals, characters, the three concatenations and \<^verbatim>\<open>substr\<close>) evaluates to a string whose
  length is the one in its type, whose array has room for one character more and ends with the null character, and whose text is the
  concatenation and the part it denotes; \<^verbatim>\<open>substr\<close> never reads past the array.\<close>

theorem meta_string_types:
  assumes "ms_fits e"
  shows "\<exists>m. ms_eval e = Inr m \<and> ms_N m = ms_type e \<and> length (ms_elements m) = ms_N m + 1 \<and>
    ms_elements m ! ms_N m = CHR 0x00 \<and> ms_view m = ms_text e"
proof -
  from assms have "\<exists>m. ms_eval e = Inr m \<and> ms_N m = ms_type e \<and> ms_wf m \<and> ms_view m = ms_text e"
  proof (induction e)
    case (Literal s)
    have "ms_wf (ms_of_array (literal s)) \<and> ms_view (ms_of_array (literal s)) = s"
      by (rule ms_wfI) (simp_all add: ms_of_array_def literal_def)
    then show ?case by (simp add: ms_of_array_def)
  next
    case (Chars s)
    then show ?case using ms_wf_chars[of s] by (simp add: ms_of_chars_def)
  next
    case (Append e e')
    then obtain m m' where "ms_eval e = Inr m" "ms_eval e' = Inr m'" and m: "ms_N m = ms_type e" "ms_wf m" "ms_view m = ms_text e"
      "ms_N m' = ms_type e'" "ms_wf m'" "ms_view m' = ms_text e'" by auto
    moreover have "length (ms_view m) = ms_N m" "length (ms_view m') = ms_N m'" using m by (simp_all add: ms_wf_elements)
    ultimately show ?case by (simp add: ms_append_def ms_wf_spans)
  next
    case (Append_array e s)
    then obtain m where "ms_eval e = Inr m" "ms_N m = ms_type e" "ms_wf m" "ms_view m = ms_text e" by auto
    moreover from this ms_append_array_eq have "ms_wf (ms_append_array m (literal s)) \<and> ms_view (ms_append_array m (literal s)) = ms_view m @ s"
      by blast
    ultimately show ?case by (simp add: ms_append_array_def Let_def)
  next
    case (Array_append s e)
    then obtain m where "ms_eval e = Inr m" "ms_N m = ms_type e" "ms_wf m" "ms_view m = ms_text e" by auto
    moreover from this ms_array_append_eq have "ms_wf (ms_array_append (literal s) m) \<and> ms_view (ms_array_append (literal s) m) = s @ ms_view m"
      by blast
    ultimately show ?case by (simp add: ms_array_append_def Let_def)
  next
    case (Substr e pos n)
    then obtain m where "ms_eval e = Inr m" "ms_N m = ms_type e" "ms_wf m" "ms_view m = ms_text e" by auto
    with ms_substr_eq[of m n pos] Substr.prems show ?case by auto
  qed
  then show ?thesis by (auto simp: ms_wf_def)
qed

lemma meta_string_types_witness:
  "\<exists>m. ms_eval (Substr (Append_array (Array_append ''a'' (Append (Literal ''bc'') (Chars ''d''))) ''ef'') 1 3) = Inr m \<and>
     ms_N m = 3 \<and> ms_view m = ''bcd''"
  using meta_string_types[of "Substr (Append_array (Array_append ''a'' (Append (Literal ''bc'') (Chars ''d''))) ''ef'') 1 3"]
  by (auto simp: literal_def substr_len_def size_add_def npos_def)

section \<open>Searches\<close>

lemma search_up_found:
  assumes "search_up P n i \<noteq> npos"
  shows "i \<le> search_up P n i \<and> P (search_up P n i) \<and> search_up P n i \<le> n"
  using assms
proof (induction P n i rule: search_up.induct)
  case (1 P n i)
  show ?case
  proof (cases "i > n \<or> P i")
    case True
    with "1.prems" show ?thesis by (auto simp: search_up.simps[of P n i])
  next
    case False
    with 1 have "search_up P n (i + 1) \<noteq> npos" by (simp add: search_up.simps[of P n i])
    with 1 False show ?thesis by (simp add: search_up.simps[of P n i])
  qed
qed

lemma search_up_first:
  assumes "i \<le> j" "search_up P n i = npos \<or> j < search_up P n i" "j \<le> n" "n < npos"
  shows "\<not> P j"
  using assms
proof (induction P n i rule: search_up.induct)
  case (1 P n i)
  show ?case
  proof (cases "P i")
    case True
    with "1.prems" have False by (auto simp: search_up.simps[of P n i])
    then show ?thesis ..
  next
    case False
    then show ?thesis using 1 by (cases "j = i") (auto simp: search_up.simps[of P n i])
  qed
qed

section \<open>Splitting\<close>

text \<open>
  The groups of a string: each one but the last ends at the first delimiter that follows, and the last has none. There is
  only one such list.
\<close>

fun splits_into :: "(string \<Rightarrow> bool) \<Rightarrow> nat \<Rightarrow> string \<Rightarrow> string list \<Rightarrow> bool" where
  "splits_into is_delim k s [] \<longleftrightarrow> False"
| "splits_into is_delim k s [g] \<longleftrightarrow> s = g \<and> (\<forall>i. i + k \<le> length s \<longrightarrow> \<not> is_delim (take k (drop i s)))"
| "splits_into is_delim k s (g # h # gs) \<longleftrightarrow>
     length g + k \<le> length s \<and> take (length g) s = g \<and> is_delim (take k (drop (length g) s)) \<and>
     (\<forall>i < length g. \<not> is_delim (take k (drop i s))) \<and> splits_into is_delim k (drop (length g + k) s) (h # gs)"

lemma splits_into_exists:
  assumes "0 < k"
  shows "\<exists>gs. splits_into is_delim k s gs"
proof (induction "length s" arbitrary: s rule: less_induct)
  case less
  let ?at = "\<lambda>i. i + k \<le> length s \<and> is_delim (take k (drop i s))"
  show ?case
  proof (cases "\<exists>i. ?at i")
    case False
    then have "splits_into is_delim k s [s]" by auto
    then show ?thesis ..
  next
    case True
    then obtain i where at: "?at i" and least: "\<forall>j<i. \<not> ?at j" using exists_least_iff[of ?at] by blast
    then have "length (drop (i + k) s) < length s" using assms by auto
    from less[OF this] obtain gs where gs: "splits_into is_delim k (drop (i + k) s) gs" by blast
    then obtain h hs where "gs = h # hs" by (cases gs) auto
    with gs at least have "splits_into is_delim k s (take i s # gs)" by (auto simp: min_def)
    then show ?thesis ..
  qed
qed

lemma splits_into_unique:
  assumes "splits_into is_delim k s gs" "splits_into is_delim k s hs"
  shows "gs = hs"
  using assms
proof (induction is_delim k s gs arbitrary: hs rule: splits_into.induct)
  case (2 is_delim k s g)
  then show ?case by (cases "(is_delim, k, s, hs)" rule: splits_into.cases) auto
next
  case (3 is_delim k s g h gs)
  show ?case
  proof (cases "(is_delim, k, s, hs)" rule: splits_into.cases)
    case (3 _ _ _ g' h' gs')
    with "3.prems" have "length g = length g'" by (metis linorder_neqE_nat splits_into.simps(3) prod.inject)
    with 3 "3.prems" "3.IH"[of "h' # gs'"] show ?thesis by auto
  qed (use "3.prems" in auto)
qed simp

locale delimiter_search =
  fixes next_of :: "string \<Rightarrow> string \<Rightarrow> nat \<Rightarrow> nat" and skip :: "string \<Rightarrow> nat" and is_delim :: "string \<Rightarrow> string \<Rightarrow> bool"
  assumes found: "length s < npos \<Longrightarrow> next_of s d i \<noteq> npos \<Longrightarrow>
      i \<le> next_of s d i \<and> next_of s d i + skip d \<le> length s \<and> is_delim d (take (skip d) (drop (next_of s d i) s))"
    and first: "length s < npos \<Longrightarrow> i \<le> j \<Longrightarrow> next_of s d i = npos \<or> j < next_of s d i \<Longrightarrow> j + skip d \<le> length s \<Longrightarrow>
      \<not> is_delim d (take (skip d) (drop j s))"
begin

abbreviation groups :: "string \<Rightarrow> string \<Rightarrow> string list \<Rightarrow> bool" where
  "groups d \<equiv> splits_into (is_delim d) (skip d)"

lemma next_of_last:
  assumes len: "length s < npos" and start: "start \<le> length s" and gs: "groups d (drop start s) [g]"
  shows "next_of s d start = npos"
proof (rule ccontr)
  assume "next_of s d start \<noteq> npos"
  note at = found[OF len this]
  have "\<not> is_delim d (take (skip d) (drop i (drop start s)))" if "i + skip d \<le> length s - start" for i
    using gs that by auto
  from this[of "next_of s d start - start"] at show False by (simp add: diff_le_mono)
qed

lemma next_of_group:
  assumes len: "length s < npos" and start: "start \<le> length s" and gs: "groups d (drop start s) (g # h # gs)"
  shows "next_of s d start = start + length g"
proof -
  let ?n = "next_of s d start"
  have at: "is_delim d (take (skip d) (drop (start + length g) s))" "start + length g + skip d \<le> length s"
    using gs start by (auto simp: add.commute)
  then have "?n \<noteq> npos" "\<not> start + length g < ?n" using first[OF len, of start "start + length g" d] by auto
  moreover have "\<not> ?n < start + length g"
  proof
    assume "?n < start + length g"
    moreover have "start \<le> ?n" "is_delim d (take (skip d) (drop ?n s))" using found[OF len \<open>?n \<noteq> npos\<close>] by auto
    ultimately have "\<not> is_delim d (take (skip d) (drop (?n - start) (drop start s)))" using gs by (auto simp del: drop_drop)
    with \<open>start \<le> ?n\<close> \<open>is_delim d (take (skip d) (drop ?n s))\<close> show False by simp
  qed
  ultimately show ?thesis by simp
qed

lemma split_loop_groups:
  assumes len: "length s + skip d < npos" and start: "start \<le> length s"
    and gs: "groups d (drop start s) gs" and room: "iter + length gs \<le> n" "length result = n"
  shows "split_loop (next_of s d) (skip d) s n iter start result
    = Some (Inr (take iter result @ gs @ drop (iter + length gs) result))"
  using start gs room
proof (induction gs arbitrary: start iter result)
  case (Cons g gs)
  have put: "bind_outcome (sv_substr s start (size_sub e start)) (\<lambda>g. put_group n iter g result) = Inr (result[iter := g])"
    if "take (size_sub e start) (drop start s) = g" for e
    using Cons.prems that by (simp add: sv_substr_def put_group_def)
  have len': "length s < npos" using len by simp
  show ?case
  proof (cases gs)
    case Nil
    with Cons.prems have "next_of s d start = npos" by (intro next_of_last[OF len']) auto
    moreover have "take (size_sub npos start) (drop start s) = g" using Cons.prems Nil len by (auto simp: size_sub_def)
    ultimately show ?thesis using Cons.prems Nil put
      by (subst split_loop.simps) (simp add: upd_conv_take_nth_drop)
  next
    case (Cons h hs)
    note prems = Cons.prems[unfolded Cons]
    let ?e = "start + length g"
    have e_at: "next_of s d start = ?e" by (rule next_of_group[OF len']) (use prems in auto)
    have "take (size_sub ?e start) (drop start s) = g" using prems by (simp add: size_sub_def)
    moreover have "?e \<noteq> npos" "size_add ?e (skip d) = start + (length g + skip d)" "start + (length g + skip d) \<le> length s"
      using prems len by (auto simp: size_add_def npos_def)
    moreover have "split_loop (next_of s d) (skip d) s n (iter + 1) (start + (length g + skip d)) (result[iter := g])
        = Some (Inr (take (iter + 1) (result[iter := g]) @ gs @ drop (iter + 1 + length gs) (result[iter := g])))"
      using prems calculation(4) Cons by (intro Cons.IH) (auto simp: add.commute)
    moreover have "take (iter + 1) (result[iter := g]) = take iter result @ [g]"
      using prems take_Suc_conv_app_nth[of iter "result[iter := g]"] by simp
    ultimately show ?thesis using put
      by (subst split_loop.simps) (simp add: e_at drop_update_cancel)
  qed
qed simp

end

interpretation whole: delimiter_search sv_find length "\<lambda>d p. p = d"
proof (unfold_locales, goal_cases)
  case (1 s d i)
  then show ?case using search_up_found[of "occurs_at s d" "length s" i] by (auto simp: sv_find_def occurs_at_def)
next
  case (2 s i j d)
  then show ?case using search_up_first[of i j "occurs_at s d" "length s"] by (auto simp: sv_find_def occurs_at_def)
qed

lemma take_one_drop: "j < length s \<Longrightarrow> take 1 (drop j s) = [s ! j]"
  by (simp add: take_Suc hd_drop_conv_nth)

interpretation char: delimiter_search sv_find_first_of "\<lambda>_. 1" "\<lambda>d p. \<exists>c\<in>set d. p = [c]"
proof (unfold_locales, goal_cases)
  case (1 s d i)
  then have "i \<le> sv_find_first_of s d i \<and> any_at s d (sv_find_first_of s d i)"
    using search_up_found[of "any_at s d" "length s" i] by (simp add: sv_find_first_of_def)
  then show ?case using take_one_drop[of "sv_find_first_of s d i" s] by (auto simp: any_at_def)
next
  case (2 s i j d)
  then have "\<not> any_at s d j" using search_up_first[of i j "any_at s d" "length s"] by (simp add: sv_find_first_of_def)
  with 2 show ?case using take_one_drop[of j s] by (auto simp: any_at_def)
qed

lemma count_groups_eq:
  assumes len: "length s + length d < npos" and "start \<le> length s" "whole.groups d (drop start s) gs"
  shows "count_groups s d n start = Some (n + length gs)"
  using assms(2,3)
proof (induction gs arbitrary: start n)
  case (Cons g gs)
  have len': "length s < npos" using len by simp
  show ?case
  proof (cases gs)
    case Nil
    with Cons.prems have "sv_find s d start = npos" by (intro whole.next_of_last[OF len']) auto
    then show ?thesis using Nil by (subst count_groups.simps) simp
  next
    case (Cons h hs)
    note prems = Cons.prems[unfolded Cons]
    have e_at: "sv_find s d start = start + length g" by (rule whole.next_of_group[OF len']) (use prems in auto)
    moreover have "start + length g \<noteq> npos" "size_add (start + length g) (length d) = start + (length g + length d)"
      using prems len by (auto simp: size_add_def npos_def)
    moreover have "count_groups s d (n + 1) (start + (length g + length d)) = Some (n + 1 + length gs)"
      using prems Cons by (intro Cons.IH) (auto simp: add.commute)
    ultimately show ?thesis by (subst count_groups.simps) simp
  qed
qed simp

text \<open>An empty delimiter is found everywhere, and the search never gets on.\<close>

lemma count_groups_empty:
  assumes "length s < npos" "i \<le> length s"
  shows "count_groups s [] n i = None"
proof -
  have "\<not> (d = [] \<and> length s < npos \<and> i \<le> length s)" if "count_groups s d n i = Some r" for s d n i r
  proof (rule count_groups.raw_induct[of "\<lambda>s d n i r. \<not> (d = [] \<and> length s < npos \<and> i \<le> length s)", OF _ that], rule notI)
    fix f :: "string \<Rightarrow> string \<Rightarrow> nat \<Rightarrow> nat \<Rightarrow> nat option" and s d :: string and n i r :: nat
    assume IH: "\<And>s d n i r. f s d n i = Some r \<Longrightarrow> \<not> (d = [] \<and> length s < npos \<and> i \<le> length s)"
      and step: "(let index = sv_find s d i in if index = npos then Some (n + 1) else f s d (n + 1) (size_add index (length d))) = Some r"
      and a: "d = [] \<and> length s < npos \<and> i \<le> length s"
    have "sv_find s d i = i" using a by (simp add: sv_find_def search_up.simps occurs_at_def)
    moreover have "size_add i 0 = i" using a by (simp add: size_add_def npos_def)
    ultimately have "f s d (n + 1) i = Some r" using step a by (auto simp: Let_def)
    from IH[OF this] a show False by simp
  qed
  with assms show ?thesis by (cases "count_groups s [] n i") auto
qed

text \<open>The groups with the delimiter between them.\<close>

fun join :: "string \<Rightarrow> string list \<Rightarrow> string" where
  "join d [] = []"
| "join d [g] = g"
| "join d (g # h # gs) = g @ d @ join d (h # gs)"

lemma join_groups: "whole.groups d s gs \<Longrightarrow> join d gs = s"
proof (induction "\<lambda>p. p = d" "length d" s gs rule: splits_into.induct)
  case (3 s g h gs)
  then have "s = take (length g) s @ take (length d) (drop (length g) s) @ drop (length g + length d) s"
    by (metis append_take_drop_id drop_drop add.commute)
  with 3 show ?case by auto
qed auto

text \<open>C39: Splitting at a delimiter that is not empty ends and stays within the array whose size it counted before. The groups, joined by the
  delimiter, are the string again; each group but the last ends where the delimiter first stands, and the last has none. Removing
  the delimiter gives the groups without it. With an empty delimiter the search does not end.\<close>

theorem split_roundtrip:
  assumes "ms_wf S" "ms_wf Delim" "ms_N S + ms_N Delim < npos"
  shows "if ms_N Delim = 0 then split S Delim = None
    else \<exists>gs. split S Delim = Some (Inr gs) \<and> join (ms_view Delim) gs = ms_view S \<and>
      splits_into (\<lambda>p. p = ms_view Delim) (ms_N Delim) (ms_view S) gs \<and>
      remove_str S Delim = Some (Inr (ms_of_spans gs)) \<and> ms_N (ms_of_spans gs) + (length gs - 1) * ms_N Delim = ms_N S"
proof -
  have len: "length (ms_view S) = ms_N S" "length (ms_view Delim) = ms_N Delim"
    using assms by (simp_all add: ms_wf_elements)
  show ?thesis
  proof (cases "ms_N Delim = 0")
    case True
    then have "ms_view Delim = []" using len by simp
    moreover have "length (ms_view S) < npos" using assms(3) len by simp
    ultimately have "count_groups (ms_view S) (ms_view Delim) 0 0 = None" by (simp add: count_groups_empty)
    with True show ?thesis by (simp add: split_def Let_def)
  next
    case False
    then obtain gs where gs: "whole.groups (ms_view Delim) (ms_view S) gs"
      using splits_into_exists[of "ms_N Delim"] len by auto
    have count: "count_groups (ms_view S) (ms_view Delim) 0 0 = Some (length gs)"
      using count_groups_eq[of "ms_view S" "ms_view Delim" 0 gs 0] gs assms(3) len by simp
    have "split_loop (sv_find (ms_view S) (ms_view Delim)) (length (ms_view Delim)) (ms_view S) (length gs) 0 0 (replicate (length gs) [])
        = Some (Inr gs)"
      by (subst whole.split_loop_groups[of _ _ _ gs]) (use gs assms(3) len in simp_all)
    then have split: "split S Delim = Some (Inr gs)" using count len by (simp add: split_def Let_def)
    have join: "join (ms_view Delim) gs = ms_view S" by (rule join_groups[OF gs])
    have "length (join d gs) = length (concat gs) + (length gs - 1) * length d" for d
      by (induction d gs rule: join.induct) (simp_all add: algebra_simps)
    from this[of "ms_view Delim"] have "length (concat gs) + (length gs - 1) * ms_N Delim = ms_N S" by (simp add: join len)
    with False split join gs len show ?thesis by (simp add: remove_str_def)
  qed
qed

lemma split_roundtrip_witness:
  "\<exists>gs. split (ms_of_chars ''a::bc:::'') (ms_of_chars ''::'') = Some (Inr gs) \<and> join ''::'' gs = ''a::bc:::''"
  using split_roundtrip[of "ms_of_chars ''a::bc:::''" "ms_of_chars ''::''"]
  by (auto simp: ms_wf_chars ms_of_chars_def[THEN arg_cong, of ms_N] npos_def)

lemma char_groups_count: "char.groups d s gs \<Longrightarrow> length gs = length (filter (\<lambda>c. c \<in> set d) s) + 1"
proof (induction "\<lambda>p. \<exists>c\<in>set d. p = [c]" "1::nat" s gs rule: splits_into.induct)
  case (2 s g)
  have "s ! i \<notin> set d" if "i < length s" for i using 2 that take_one_drop[of i s] by auto
  then have "filter (\<lambda>c. c \<in> set d) s = []" by (metis filter_False in_set_conv_nth)
  then show ?case by simp
next
  case (3 s g h gs)
  then have len: "length g < length s" and g: "take (length g) s = g" and c: "s ! length g \<in> set d"
    using take_one_drop[of "length g" s] by auto
  have "s ! i \<notin> set d" if "i < length g" for i using 3(2) that take_one_drop[of i s] len by auto
  then have "filter (\<lambda>c. c \<in> set d) g = []" using g by (auto simp: filter_empty_conv in_set_conv_nth) (metis nth_take)
  moreover have "s = g @ s ! length g # drop (Suc (length g)) s" using id_take_nth_drop[OF len] g by simp
  then have "filter (\<lambda>c. c \<in> set d) s = filter (\<lambda>c. c \<in> set d) (g @ s ! length g # drop (Suc (length g)) s)" by simp
  ultimately show ?case using 3 c by simp
qed simp

text \<open>Splitting at single characters: the array has room for every group, and no group has a delimiter.\<close>

theorem split_of_groups:
  assumes "ms_wf S" "ms_wf Delim" "ms_N S + 1 < npos"
  shows "\<exists>gs. split_of S Delim = Some (Inr gs) \<and> length gs = split_of_group_count (ms_view S) Delim \<and>
    splits_into (\<lambda>p. \<exists>c\<in>set (ms_view Delim). p = [c]) 1 (ms_view S) gs"
proof -
  have len: "length (ms_view S) = ms_N S" using assms by (simp add: ms_wf_elements)
  obtain gs where gs: "char.groups (ms_view Delim) (ms_view S) gs" using splits_into_exists[of 1] by auto
  have n: "split_of_group_count (ms_view S) Delim = length gs"
    by (simp add: split_of_group_count_def ms_contains_def[abs_def] char_groups_count[OF gs])
  have "split_loop (sv_find_first_of (ms_view S) (ms_view Delim)) 1 (ms_view S) (length gs) 0 0 (replicate (length gs) [])
      = Some (Inr gs)"
    by (subst char.split_loop_groups[of _ _ _ gs]) (use gs assms(3) len in simp_all)
  then have "split_of S Delim = Some (Inr gs)" by (simp add: split_of_def Let_def n)
  with gs n show ?thesis by auto
qed

section \<open>Names\<close>

lemma depths_from_append:
  "set a \<inter> set ''<([>)]'' = {} \<Longrightarrow> depths_from j (a @ s) = replicate (length a) j @ depths_from j s"
  by (induction a) (auto simp: Let_def)

lemma search_up_at:
  assumes "i \<le> j" "j \<le> n" "P j" "\<And>k. i \<le> k \<Longrightarrow> k < j \<Longrightarrow> \<not> P k"
  shows "search_up P n i = j"
  using assms
proof (induction P n i rule: search_up.induct)
  case (1 P n i)
  then show ?case by (cases "i = j") (auto simp: search_up.simps[of P n i] search_up.simps[of P n j])
qed

text \<open>
  The name of an unqualified function is what stands before the first bracket of its template arguments or its parameters,
  with the return type, when no calling convention is looked for.
\<close>

theorem parse_unqualified_name:
  assumes S: "ms_wf S" "ms_view S = a @ c # rest" and c: "c = CHR ''<'' \<or> c = CHR ''(''" and a: "set a \<inter> set ''<([>)]'' = {}"
    and no_scope: "sv_rfind (ms_view S) ''::'' npos = npos" and small: "ms_N S < npos"
  shows "parse_qualified_function_name [] S = Some (Inr (ms_of_spans [a]))"
proof -
  have len: "length (ms_view S) = ms_N S" using S(1) by (simp add: ms_wf_elements)
  have at: "sv_find_first_of (ms_view S) ''<('' 0 = length a"
    unfolding sv_find_first_of_def
    by (rule search_up_at) (use S(2) c a in \<open>auto simp: any_at_def nth_append disjoint_iff in_set_conv_nth\<close>)
  have depth: "depths (ms_view S) ! length a = 1" using c by (auto simp: depths_def S(2) depths_from_append[OF a] nth_append Let_def)
  have scope: "find_significant_index full_match_reverse (ms_view S) ''::'' 0 npos = Some npos"
    using no_scope small len by (simp add: find_significant_index_def significant_loop.simps)
  have "find_significant_index any_of (ms_view S) ''<('' 1 0 = Some (length a + 1)"
    using at depth small len S(2)
    by (simp add: find_significant_index_def significant_loop.simps skip_keyword_def size_add_def npos_def)
  then show ?thesis using scope small len S(2)
    by (simp add: parse_qualified_function_name_def Let_def max_def size_sub_def)
qed

end
