(* ===== verification/Move_Only_Function.thy ===== *)
theory Move_Only_Function
  imports Prelude
begin

text \<open>
  The callable wrapper \<^verbatim>\<open>src/util/move_only_function.h\<close>: a small buffer that holds a functor or points to one on the heap, and two
  pointers to the functions that destroy and call it. The variables of a program are numbered; a functor is
  a parameter, with what its type decides: whether it is trivially copyable, its size and alignment, whether it is empty
  (a null function pointer or an empty wrapper), and what calling it gives.
\<close>

section \<open>State\<close>

datatype 'f any_data = Uninitialised | Pod_data 'f | Heap_pointer nat

text \<open>
  \<^verbatim>\<open>_m_manager\<close> and \<^verbatim>\<open>_m_invoker\<close> are null or come from the \<^verbatim>\<open>FunctionHandler\<close> of the functor's type, of which only
  \<^verbatim>\<open>_stored_locally\<close> matters. The default constructor leaves the invoker and the buffer uninitialised; they are not read before the manager is set.
\<close>

record 'f mof =
  m_functor :: "'f any_data"
  m_manager :: "bool option"
  m_invoker :: "bool option"

record 'f mof_store =
  mof_vars :: "nat \<Rightarrow> 'f mof option"
  mof_heap :: "nat \<Rightarrow> 'f option"
  mof_next :: nat

definition mof_default :: "'f mof" where
  "mof_default = \<lparr>m_functor = Uninitialised, m_manager = None, m_invoker = None\<rparr>"

definition m_empty :: "'f mof \<Rightarrow> bool" where
  "m_empty m \<longleftrightarrow> m_manager m = None"

text \<open>What the type of a functor decides.\<close>

record ('f, 'a, 'r) functor_type =
  ft_trivially_copyable :: "'f \<Rightarrow> bool"
  ft_sizeof :: "'f \<Rightarrow> nat"
  ft_alignof :: "'f \<Rightarrow> nat"
  ft_empty :: "'f \<Rightarrow> bool"
  ft_call :: "'f \<Rightarrow> 'a \<Rightarrow> 'r outcome"

text \<open>The largest member of \<^verbatim>\<open>_no_copy_types\<close> is a pointer to a member function, two words on x86-64.\<close>

definition m_max_size :: nat where
  "m_max_size = 16"

definition m_max_align :: nat where
  "m_max_align = 8"

definition ft_stored_locally :: "('f, 'a, 'r) functor_type \<Rightarrow> 'f \<Rightarrow> bool" where
  "ft_stored_locally ft f \<longleftrightarrow>
     ft_trivially_copyable ft f \<and> ft_sizeof ft f \<le> m_max_size \<and> ft_alignof ft f \<le> m_max_align \<and>
     m_max_align mod ft_alignof ft f = 0"

section \<open>The members\<close>

definition m_init_functor :: "('f, 'a, 'r) functor_type \<Rightarrow> 'f \<Rightarrow> 'f mof_store \<Rightarrow> 'f any_data \<times> 'f mof_store" where
  "m_init_functor ft f s =
     (if ft_stored_locally ft f then (Pod_data f, s)
      else (Heap_pointer (mof_next s), s\<lparr>mof_heap := (mof_heap s)(mof_next s \<mapsto> f), mof_next := mof_next s + 1\<rparr>))"

definition mof_of_functor :: "('f, 'a, 'r) functor_type \<Rightarrow> 'f \<Rightarrow> 'f mof_store \<Rightarrow> 'f mof \<times> 'f mof_store" where
  "mof_of_functor ft f s =
     (if \<not> ft_empty ft f
      then (let (data, s) = m_init_functor ft f s; handler = ft_stored_locally ft f
            in (\<lparr>m_functor = data, m_manager = Some handler, m_invoker = Some handler\<rparr>, s))
      else (mof_default, s))"

text \<open>\<^verbatim>\<open>_m_destroy\<close>: the destructor of a local functor, or \<^verbatim>\<open>delete\<close>, of a pointer that must be to a live object.\<close>

definition m_destroy :: "bool \<Rightarrow> 'f any_data \<Rightarrow> 'f mof_store \<Rightarrow> 'f mof_store outcome" where
  "m_destroy stored_locally data s =
     (case data of
        Pod_data f \<Rightarrow> if stored_locally then Inr s else Inl Undefined_behaviour
      | Heap_pointer a \<Rightarrow>
          if stored_locally \<or> mof_heap s a = None then Inl Undefined_behaviour
          else Inr (s\<lparr>mof_heap := (mof_heap s)(a := None)\<rparr>)
      | Uninitialised \<Rightarrow> Inl Undefined_behaviour)"

definition mof_destructor :: "'f mof \<Rightarrow> 'f mof_store \<Rightarrow> 'f mof_store outcome" where
  "mof_destructor m s = (case m_manager m of None \<Rightarrow> Inr s | Some l \<Rightarrow> m_destroy l (m_functor m) s)"

text \<open>\<^verbatim>\<open>swap\<close> exchanges all three members.\<close>

definition mof_swap :: "'f mof \<Rightarrow> 'f mof \<Rightarrow> 'f mof \<times> 'f mof" where
  "mof_swap x y =
     (x\<lparr>m_functor := m_functor y, m_manager := m_manager y, m_invoker := m_invoker y\<rparr>,
      y\<lparr>m_functor := m_functor x, m_manager := m_manager x, m_invoker := m_invoker x\<rparr>)"

text \<open>The move constructor: the moved-from object, and the new one.\<close>

definition mof_move :: "'f mof \<Rightarrow> 'f mof \<times> 'f mof" where
  "mof_move other = mof_swap other mof_default"

definition m_get_pointer :: "bool \<Rightarrow> 'f any_data \<Rightarrow> 'f mof_store \<Rightarrow> 'f outcome" where
  "m_get_pointer stored_locally data s =
     (case data of
        Pod_data f \<Rightarrow> if stored_locally then Inr f else Inl Undefined_behaviour
      | Heap_pointer a \<Rightarrow>
          if stored_locally then Inl Undefined_behaviour
          else (case mof_heap s a of None \<Rightarrow> Inl Undefined_behaviour | Some f \<Rightarrow> Inr f)
      | Uninitialised \<Rightarrow> Inl Undefined_behaviour)"

definition mof_call :: "('f, 'a, 'r) functor_type \<Rightarrow> 'f mof \<Rightarrow> 'a \<Rightarrow> 'f mof_store \<Rightarrow> 'r outcome" where
  "mof_call ft m args s =
     (if m_empty m then Inl Bad_function_call
      else (case m_invoker m of
              None \<Rightarrow> Inl Undefined_behaviour
            | Some l \<Rightarrow> bind_outcome (m_get_pointer l (m_functor m) s) (\<lambda>f. ft_call ft f args)))"

section \<open>Programs over the variables\<close>

datatype ('f, 'a) mof_op =
    Declare nat
  | Construct nat 'f
  | Move_construct nat nat
  | Move_assign nat nat
  | Assign_null nat
  | Assign_functor nat 'f
  | Swap nat nat
  | Call nat 'a
  | Destroy nat

abbreviation set_var :: "nat \<Rightarrow> 'f mof \<Rightarrow> 'f mof_store \<Rightarrow> 'f mof_store" where
  "set_var i m s \<equiv> s\<lparr>mof_vars := (mof_vars s)(i \<mapsto> m)\<rparr>"

text \<open>\<open>move_only_function(...).swap(*this)\<close>, and the end of the temporary object.\<close>

definition swap_in :: "'f mof \<Rightarrow> nat \<Rightarrow> 'f mof_store \<Rightarrow> 'f mof_store outcome" where
  "swap_in temporary i s =
     (case mof_vars s i of
        None \<Rightarrow> Inl Undefined_behaviour
      | Some this \<Rightarrow> (let (temporary, this) = mof_swap temporary this in mof_destructor temporary (set_var i this s)))"

text \<open>A statement of the program, with the result of a call. A variable that is not alive may not be used.\<close>

definition mof_exec ::
    "('f, 'a, 'r) functor_type \<Rightarrow> ('f, 'a) mof_op \<Rightarrow> 'f mof_store \<Rightarrow> ('r outcome option \<times> 'f mof_store) outcome" where
  "mof_exec ft op s =
     (case op of
        Declare i \<Rightarrow> Inr (None, set_var i mof_default s)
      | Construct i f \<Rightarrow> (let (m, s) = mof_of_functor ft f s in Inr (None, set_var i m s))
      | Move_construct i j \<Rightarrow>
          (case mof_vars s j of
             None \<Rightarrow> Inl Undefined_behaviour
           | Some other \<Rightarrow> (let (other, m) = mof_move other in Inr (None, set_var i m (set_var j other s))))
      | Move_assign i j \<Rightarrow>
          (case mof_vars s j of
             None \<Rightarrow> Inl Undefined_behaviour
           | Some other \<Rightarrow>
               (let (other, m) = mof_move other
                in bind_outcome (swap_in m i (set_var j other s)) (\<lambda>s. Inr (None, s))))
      | Assign_null i \<Rightarrow>
          (case mof_vars s i of
             None \<Rightarrow> Inl Undefined_behaviour
           | Some m \<Rightarrow>
               (case m_manager m of
                  None \<Rightarrow> Inr (None, s)
                | Some l \<Rightarrow>
                    bind_outcome (m_destroy l (m_functor m) s)
                      (\<lambda>s. Inr (None, set_var i (m\<lparr>m_manager := None, m_invoker := None\<rparr>) s))))
      | Assign_functor i f \<Rightarrow>
          (let (m, s) = mof_of_functor ft f s in bind_outcome (swap_in m i s) (\<lambda>s. Inr (None, s)))
      | Swap i j \<Rightarrow>
          (case (mof_vars s i, mof_vars s j) of
             (Some x, Some y) \<Rightarrow>
               (if i = j then Inr (None, s)
                else (let (x, y) = mof_swap x y in Inr (None, set_var j y (set_var i x s))))
           | _ \<Rightarrow> Inl Undefined_behaviour)
      | Call i args \<Rightarrow>
          (case mof_vars s i of
             None \<Rightarrow> Inl Undefined_behaviour
           | Some m \<Rightarrow> Inr (Some (mof_call ft m args s), s))
      | Destroy i \<Rightarrow>
          (case mof_vars s i of
             None \<Rightarrow> Inl Undefined_behaviour
           | Some m \<Rightarrow> bind_outcome (mof_destructor m s) (\<lambda>s. Inr (None, s\<lparr>mof_vars := (mof_vars s)(i := None)\<rparr>))))"

primrec mof_run ::
    "('f, 'a, 'r) functor_type \<Rightarrow> ('f, 'a) mof_op list \<Rightarrow> 'f mof_store \<Rightarrow> ('r outcome list \<times> 'f mof_store) outcome" where
  "mof_run ft [] s = Inr ([], s)"
| "mof_run ft (op # ops) s =
     bind_outcome (mof_exec ft op s) (\<lambda>(r, s).
     bind_outcome (mof_run ft ops s) (\<lambda>(rs, s). Inr (case r of None \<Rightarrow> rs | Some r \<Rightarrow> r # rs, s)))"

definition mof_store_new :: "'f mof_store" where
  "mof_store_new = \<lparr>mof_vars = (\<lambda>_. None), mof_heap = (\<lambda>_. None), mof_next = 0\<rparr>"

section \<open>What the wrapper promises\<close>

text \<open>
  A live variable holds a functor or is empty; \<open>None\<close> is a program that uses a variable that is not alive, or
  starts one that is.
\<close>

type_synonym 'f mof_spec = "nat \<Rightarrow> 'f option option"

definition hold :: "('f, 'a, 'r) functor_type \<Rightarrow> 'f \<Rightarrow> 'f option" where
  "hold ft f = (if ft_empty ft f then None else Some f)"

fun spec_exec :: "('f, 'a, 'r) functor_type \<Rightarrow> ('f, 'a) mof_op \<Rightarrow> 'f mof_spec \<Rightarrow> ('r outcome option \<times> 'f mof_spec) option" where
  "spec_exec ft (Declare i) v = (if v i \<noteq> None then None else Some (None, v(i \<mapsto> None)))"
| "spec_exec ft (Construct i f) v = (if v i \<noteq> None then None else Some (None, v(i \<mapsto> hold ft f)))"
| "spec_exec ft (Move_construct i j) v =
     (case v j of None \<Rightarrow> None | Some x \<Rightarrow> if v i \<noteq> None then None else Some (None, v(i \<mapsto> x, j \<mapsto> None)))"
| "spec_exec ft (Move_assign i j) v =
     (case (v i, v j) of (Some _, Some x) \<Rightarrow> Some (None, v(j \<mapsto> None, i \<mapsto> x)) | _ \<Rightarrow> None)"
| "spec_exec ft (Assign_null i) v = (if v i = None then None else Some (None, v(i \<mapsto> None)))"
| "spec_exec ft (Assign_functor i f) v = (if v i = None then None else Some (None, v(i \<mapsto> hold ft f)))"
| "spec_exec ft (Swap i j) v =
     (case (v i, v j) of (Some x, Some y) \<Rightarrow> Some (None, v(i \<mapsto> y, j \<mapsto> x)) | _ \<Rightarrow> None)"
| "spec_exec ft (Call i args) v =
     (case v i of
        None \<Rightarrow> None
      | Some None \<Rightarrow> Some (Some (Inl Bad_function_call), v)
      | Some (Some f) \<Rightarrow> Some (Some (ft_call ft f args), v))"
| "spec_exec ft (Destroy i) v = (if v i = None then None else Some (None, v(i := None)))"

primrec spec_run :: "('f, 'a, 'r) functor_type \<Rightarrow> ('f, 'a) mof_op list \<Rightarrow> 'f mof_spec \<Rightarrow> ('r outcome list \<times> 'f mof_spec) option" where
  "spec_run ft [] v = Some ([], v)"
| "spec_run ft (op # ops) v =
     (case spec_exec ft op v of
        None \<Rightarrow> None
      | Some (r, v) \<Rightarrow>
          map_option (\<lambda>(rs, v). (case r of None \<Rightarrow> rs | Some r \<Rightarrow> r # rs, v)) (spec_run ft ops v))"

end
