(* ===== verification/Move_Only_Function_Props.thy ===== *)
theory Move_Only_Function_Props
  imports Move_Only_Function
begin

text \<open>
  The wrapper refines a variable that holds a functor or nothing: no program that only uses live variables
  destroys a functor twice, calls one that is gone, or leaks one.
\<close>

section \<open>A family of wrappers on one heap\<close>

text \<open>A wrapper \<open>m\<close> holds \<open>x\<close>: it is empty, or has the functor in its buffer, or points to it on the heap \<open>h\<close>.\<close>

definition holds :: "('f, 'a, 'r) functor_type \<Rightarrow> (nat \<Rightarrow> 'f option) \<Rightarrow> 'f mof \<Rightarrow> 'f option \<Rightarrow> bool" where
  "holds ft h m x \<longleftrightarrow>
     (case x of
        None \<Rightarrow> m_manager m = None
      | Some f \<Rightarrow>
          m_manager m = Some (ft_stored_locally ft f) \<and> m_invoker m = Some (ft_stored_locally ft f) \<and>
          (if ft_stored_locally ft f then m_functor m = Pod_data f
           else \<exists>a. m_functor m = Heap_pointer a \<and> h a = Some f))"

text \<open>The cell a wrapper owns.\<close>

definition owned :: "'f mof \<Rightarrow> nat option" where
  "owned m = (case (m_manager m, m_functor m) of (Some False, Heap_pointer a) \<Rightarrow> Some a | _ \<Rightarrow> None)"

abbreviation owner :: "('i \<Rightarrow> 'f mof option) \<Rightarrow> 'i \<Rightarrow> nat option" where
  "owner w i \<equiv> Option.bind (w i) owned"

definition family :: "('f, 'a, 'r) functor_type \<Rightarrow> ('i \<Rightarrow> 'f mof option) \<Rightarrow> 'f mof_store \<Rightarrow> ('i \<Rightarrow> 'f option option) \<Rightarrow> bool" where
  "family ft w s v \<longleftrightarrow>
     (\<forall>i. w i = None \<longleftrightarrow> v i = None) \<and>
     (\<forall>i m x. w i = Some m \<longrightarrow> v i = Some x \<longrightarrow> holds ft (mof_heap s) m x) \<and>
     (\<forall>i j a. owner w i = Some a \<longrightarrow> owner w j = Some a \<longrightarrow> i = j) \<and>
     (\<forall>a. mof_heap s a \<noteq> None \<longrightarrow> a < mof_next s \<and> (\<exists>i. owner w i = Some a))"

lemma owned_simps [simp]:
  "m_manager m = None \<Longrightarrow> owned m = None"
  "owned mof_default = None" "m_manager mof_default = None"
  by (auto simp: owned_def mof_default_def)

lemma holds_owned:
  "holds ft h m (Some f) \<Longrightarrow> \<not> ft_stored_locally ft f \<Longrightarrow> \<exists>a. owned m = Some a \<and> m_functor m = Heap_pointer a \<and> h a = Some f"
  "holds ft h m (Some f) \<Longrightarrow> ft_stored_locally ft f \<Longrightarrow> owned m = None"
  by (auto simp: holds_def owned_def split: if_splits)

lemma holds_None [simp]: "holds ft h m None \<longleftrightarrow> m_manager m = None"
  by (simp add: holds_def)

lemma holds_cong:
  assumes "holds ft h m x" "\<And>a. owned m = Some a \<Longrightarrow> h' a = h a"
  shows "holds ft h' m x"
proof (cases x)
  case (Some f)
  with assms show ?thesis
    by (cases "ft_stored_locally ft f") (auto simp: holds_def owned_def)
qed (use assms in simp)

lemma mof_swap_eq: "mof_swap x y = (y, x)"
  by (simp add: mof_swap_def)

lemma family_vars [simp]: "family ft w (s\<lparr>mof_vars := x\<rparr>) v = family ft w s v"
  by (simp add: family_def)

lemma familyI:
  assumes "\<And>i. w i = None \<longleftrightarrow> v i = None"
    and "\<And>i m x. w i = Some m \<Longrightarrow> v i = Some x \<Longrightarrow> holds ft (mof_heap s) m x"
    and "\<And>i j a. owner w i = Some a \<Longrightarrow> owner w j = Some a \<Longrightarrow> i = j"
    and "\<And>a. mof_heap s a \<noteq> None \<Longrightarrow> a < mof_next s"
    and "\<And>a. mof_heap s a \<noteq> None \<Longrightarrow> \<exists>i. owner w i = Some a"
  shows "family ft w s v"
  unfolding family_def by (intro conjI allI impI assms)

lemma familyD:
  assumes fam: "family ft w s v"
  shows "w i = None \<longleftrightarrow> v i = None"
    and "w i = Some m \<Longrightarrow> v i = Some x \<Longrightarrow> holds ft (mof_heap s) m x"
    and "owner w i = Some a \<Longrightarrow> owner w j = Some a \<Longrightarrow> i = j"
    and "mof_heap s a \<noteq> None \<Longrightarrow> a < mof_next s"
    and "mof_heap s a \<noteq> None \<Longrightarrow> \<exists>i. owner w i = Some a"
proof -
  note parts = fam[unfolded family_def]
  show "w i = None \<longleftrightarrow> v i = None" using parts[THEN conjunct1] by (rule spec)
  show "holds ft (mof_heap s) m x" if "w i = Some m" "v i = Some x"
    using parts[THEN conjunct2, THEN conjunct1, rule_format, OF that] .
  show "i = j" if "owner w i = Some a" "owner w j = Some a"
    using parts[THEN conjunct2, THEN conjunct2, THEN conjunct1, rule_format, OF that] .
  note heap = parts[THEN conjunct2, THEN conjunct2, THEN conjunct2, THEN spec, of a]
  show "a < mof_next s" "\<exists>i. owner w i = Some a" if "mof_heap s a \<noteq> None"
    using heap[THEN mp, OF that] by (rule conjunct1, rule conjunct2)
qed

lemma family_live:
  assumes fam: "family ft w s v" and m: "w i = Some m"
  obtains x where "v i = Some x" "holds ft (mof_heap s) m x"
proof -
  obtain x where x: "v i = Some x" using familyD(1)[OF fam, of i] m by auto
  from that[OF x familyD(2)[OF fam m x]] show thesis .
qed

lemma family_owner:
  assumes "family ft w s v" "owner w j = Some a"
  shows "mof_heap s a \<noteq> None"
proof -
  obtain m where m: "w j = Some m" "owned m = Some a" using assms(2) by (cases "w j") auto
  obtain x where x: "holds ft (mof_heap s) m x" by (rule family_live[OF assms(1) m(1)])
  have "mof_heap s a = Some f" if "x = Some f" for f
    using x m(2) that holds_owned[of ft "mof_heap s" m f] by (cases "ft_stored_locally ft f") auto
  moreover have "x \<noteq> None" using x m(2) by (cases x) auto
  ultimately show ?thesis by auto
qed

text \<open>A change of one wrapper that owns what the old one did, and of a new wrapper on the same heap.\<close>

lemma family_replace:
  assumes fam: "family ft w s v" and own: "owned m = Option.bind (w i) owned" and h: "holds ft (mof_heap s) m x"
  shows "family ft (w(i \<mapsto> m)) s (v(i \<mapsto> x))"
proof -
  have same: "owner (w(i \<mapsto> m)) j = owner w j" for j using own by simp
  show ?thesis
  proof (rule familyI, goal_cases)
    case (1 j)
    then show ?case using familyD(1)[OF fam, of j] by simp
  next
    case (2 j m' x')
    then show ?case using familyD(2)[OF fam, of j m' x'] h by (cases "j = i") auto
  next
    case (3 j k a)
    then show ?case using familyD(3)[OF fam] unfolding same by blast
  next
    case (4 a)
    then show ?case by (rule familyD(4)[OF fam])
  next
    case (5 a)
    then show ?case using familyD(5)[OF fam] unfolding same by blast
  qed
qed

lemma family_swap:
  assumes fam: "family ft w s v" and x: "w i = Some x" "w j = Some y" "v i = Some a" "v j = Some b"
  shows "family ft (w(i \<mapsto> y, j \<mapsto> x)) s (v(i \<mapsto> b, j \<mapsto> a))"
proof -
  define swap_ij where "swap_ij k = (if k = j then i else if k = i then j else k)" for k
  have inj: "swap_ij k = swap_ij l \<longleftrightarrow> k = l" and surj: "swap_ij (swap_ij k) = k" for k l
    by (auto simp: swap_ij_def)
  have w: "w(i \<mapsto> y, j \<mapsto> x) = (\<lambda>k. w (swap_ij k))" and v: "v(i \<mapsto> b, j \<mapsto> a) = (\<lambda>k. v (swap_ij k))"
    using x by (auto simp: fun_eq_iff swap_ij_def)
  show ?thesis unfolding w v
  proof (rule familyI, goal_cases)
    case (1 k)
    then show ?case by (rule familyD(1)[OF fam])
  next
    case (2 k m' x')
    then show ?case by (rule familyD(2)[OF fam])
  next
    case (3 k l c)
    then show ?case using familyD(3)[OF fam, of "swap_ij k" c "swap_ij l"] inj by blast
  next
    case (4 c)
    then show ?case by (rule familyD(4)[OF fam])
  next
    case (5 c)
    then obtain k where "owner w k = Some c" using familyD(5)[OF fam] by blast
    then have "owner w (swap_ij (swap_ij k)) = Some c" by (simp only: surj)
    then show ?case by blast
  qed
qed

lemma family_functor:
  assumes fam: "family ft w s v" and fresh: "w i = None" and mk: "mof_of_functor ft f s = (m, s')"
  shows "family ft (w(i \<mapsto> m)) s' (v(i \<mapsto> hold ft f)) \<and> mof_vars s' = mof_vars s"
proof (cases "\<not> ft_empty ft f \<and> \<not> ft_stored_locally ft f")
  case False
  then have m: "s' = s" "owned m = None" "holds ft (mof_heap s) m (hold ft f)"
    using mk by (auto simp: mof_of_functor_def m_init_functor_def hold_def mof_default_def owned_def holds_def split: if_splits)
  then show ?thesis using family_replace[OF fam, of m i "hold ft f"] fresh by simp
next
  case True
  let ?a = "mof_next s"
  let ?h = "(mof_heap s)(?a \<mapsto> f)"
  have m: "m = \<lparr>m_functor = Heap_pointer ?a, m_manager = Some False, m_invoker = Some False\<rparr>"
    and s': "s' = s\<lparr>mof_heap := ?h, mof_next := ?a + 1\<rparr>"
    using mk True by (auto simp: mof_of_functor_def m_init_functor_def)
  have own: "owner (w(i \<mapsto> m)) j = (if j = i then Some ?a else owner w j)" for j by (simp add: m owned_def)
  have unused: "mof_heap s ?a = None" using familyD(4)[OF fam, of ?a] by (metis less_irrefl)
  have not_owned: "owner w j \<noteq> Some ?a" for j using family_owner[OF fam, of j ?a] unused by blast
  have "family ft (w(i \<mapsto> m)) s' (v(i \<mapsto> hold ft f))"
  proof (rule familyI, goal_cases)
    case (1 j)
    then show ?case using familyD(1)[OF fam, of j] by simp
  next
    case (2 j m' x)
    show ?case
    proof (cases "j = i")
      case True
      with 2 \<open>\<not> ft_empty ft f \<and> \<not> ft_stored_locally ft f\<close> show ?thesis by (auto simp: m s' holds_def hold_def)
    next
      case False
      with 2 have "holds ft (mof_heap s) m' x" by (intro familyD(2)[OF fam, of j]) auto
      then have "holds ft ?h m' x" by (rule holds_cong) (use 2 False not_owned[of j] in auto)
      then show ?thesis by (simp add: s')
    qed
  next
    case (3 j k a)
    then show ?case using familyD(3)[OF fam, of j a k] not_owned unfolding own by (auto split: if_splits)
  next
    case (4 a)
    then show ?case using familyD(4)[OF fam, of a] by (cases "a = ?a") (simp_all add: s')
  next
    case (5 a)
    show ?case
    proof (cases "a = ?a")
      case True
      then have "owner (w(i \<mapsto> m)) i = Some a" by (simp only: own if_True refl)
      then show ?thesis by blast
    next
      case False
      with 5 obtain j where "owner w j = Some a" using familyD(5)[OF fam, of a] by (auto simp: s')
      moreover have "j \<noteq> i" using calculation fresh by auto
      ultimately have "owner (w(i \<mapsto> m)) j = Some a" by (simp only: own if_False)
      then show ?thesis by blast
    qed
  qed
  then show ?thesis by (simp add: s')
qed

lemma family_destroy:
  assumes fam: "family ft w s v" and live: "w i = Some m"
  shows "\<exists>s'. mof_destructor m s = Inr s' \<and> family ft (w(i := None)) s' (v(i := None)) \<and> mof_vars s' = mof_vars s"
proof -
  obtain x where x: "v i = Some x" "holds ft (mof_heap s) m x" by (rule family_live[OF fam live])
  define s' where "s' = (case owned m of None \<Rightarrow> s | Some a \<Rightarrow> s\<lparr>mof_heap := (mof_heap s)(a := None)\<rparr>)"
  have own: "owner (w(i := None)) j = (if j = i then None else owner w j)" for j by simp
  have mine: "owner w i = owned m" using live by simp
  have heap: "mof_heap s' a = (if owned m = Some a then None else mof_heap s a)" for a
    by (cases "owned m") (auto simp: s'_def)
  have rest: "mof_next s' = mof_next s" "mof_vars s' = mof_vars s" by (cases "owned m"; simp add: s'_def)+
  have "mof_destructor m s = Inr s'"
    using x(2) by (cases x) (auto simp: mof_destructor_def holds_def owned_def m_destroy_def s'_def split: if_splits)
  moreover have "family ft (w(i := None)) s' (v(i := None))"
  proof (rule familyI, goal_cases)
    case (1 j)
    then show ?case using familyD(1)[OF fam, of j] by simp
  next
    case (2 j m' y)
    then have j: "j \<noteq> i" "w j = Some m'" "v j = Some y" by (auto split: if_splits)
    have "holds ft (mof_heap s) m' y" using familyD(2)[OF fam j(2,3)] .
    then show ?case
    proof (rule holds_cong)
      fix a
      assume "owned m' = Some a"
      then have "owned m \<noteq> Some a" using familyD(3)[OF fam, of i a j] j mine by auto
      then show "mof_heap s' a = mof_heap s a" by (simp add: heap)
    qed
  next
    case (3 j k a)
    then show ?case using familyD(3)[OF fam, of j a k] unfolding own by (auto split: if_splits)
  next
    case (4 a)
    then show ?case using familyD(4)[OF fam, of a] by (auto simp: heap rest split: if_splits)
  next
    case (5 a)
    then have a: "owned m \<noteq> Some a" "mof_heap s a \<noteq> None" by (auto simp: heap split: if_splits)
    then obtain j where "owner w j = Some a" using familyD(5)[OF fam] by blast
    moreover have "j \<noteq> i" using calculation a(1) mine by auto
    ultimately have "owner (w(i := None)) j = Some a" by (simp only: own if_False)
    then show ?case by blast
  qed
  ultimately show ?thesis using rest by blast
qed

section \<open>The temporary of an assignment\<close>

text \<open>A wrapper besides the variables, as one more member of the family.\<close>

primrec with_temp :: "'b option \<Rightarrow> ('i \<Rightarrow> 'b option) \<Rightarrow> 'i option \<Rightarrow> 'b option" where
  "with_temp t w None = t"
| "with_temp t w (Some i) = w i"

lemma with_temp_upd:
  "(with_temp t w)(None := t') = with_temp t' w"
  "(with_temp t w)(Some i := x) = with_temp t (w(i := x))"
  by (rule ext; rename_tac k; case_tac k; simp)+

lemma family_with_temp: "family ft (with_temp None w) s (with_temp None v) \<longleftrightarrow> family ft w s v"
proof
  assume fam: "family ft (with_temp None w) s (with_temp None v)"
  show "family ft w s v"
  proof (rule familyI, goal_cases)
    case (1 i)
    show ?case using familyD(1)[OF fam, of "Some i"] by simp
  next
    case (2 i m x)
    then show ?case using familyD(2)[OF fam, of "Some i"] by simp
  next
    case (3 i j a)
    then show ?case using familyD(3)[OF fam, of "Some i" a "Some j"] by simp
  next
    case (4 a)
    then show ?case by (rule familyD(4)[OF fam])
  next
    case (5 a)
    from familyD(5)[OF fam this] obtain k where k: "owner (with_temp None w) k = Some a" by blast
    then obtain i where "k = Some i" by (cases k) auto
    with k have "owner w i = Some a" by simp
    then show ?case by blast
  qed
next
  assume fam: "family ft w s v"
  show "family ft (with_temp None w) s (with_temp None v)"
  proof (rule familyI, goal_cases)
    case (1 k)
    show ?case using familyD(1)[OF fam] by (cases k) simp_all
  next
    case (2 k m x)
    then show ?case using familyD(2)[OF fam] by (cases k) simp_all
  next
    case (3 k l a)
    then show ?case using familyD(3)[OF fam] by (cases k; cases l) simp_all
  next
    case (4 a)
    then show ?case by (rule familyD(4)[OF fam])
  next
    case (5 a)
    from familyD(5)[OF fam this] obtain i where "owner w i = Some a" by blast
    then have "owner (with_temp None w) (Some i) = Some a" by simp
    then show ?case by blast
  qed
qed

text \<open>\<open>swap_in\<close> leaves the temporary's content in the variable, and destroys what the variable had.\<close>

lemma swap_in_family:
  assumes fam: "family ft (with_temp (Some m) (mof_vars s)) s (with_temp (Some x) v)" and live: "v i \<noteq> None"
  shows "\<exists>s'. swap_in m i s = Inr s' \<and> family ft (mof_vars s') s' (v(i \<mapsto> x))"
proof -
  obtain this where this_i: "mof_vars s i = Some this" using familyD(1)[OF fam, of "Some i"] live by auto
  obtain y where y: "v i = Some y" using live by auto
  define s1 where "s1 = set_var i m s"
  have "family ft ((with_temp (Some m) (mof_vars s))(None \<mapsto> this, Some i \<mapsto> m)) s ((with_temp (Some x) v)(None \<mapsto> y, Some i \<mapsto> x))"
    by (rule family_swap[OF fam]) (simp_all add: this_i y)
  then have "family ft (with_temp (Some this) (mof_vars s1)) s1 (with_temp (Some y) (v(i \<mapsto> x)))"
    by (simp add: with_temp_upd s1_def)
  from family_destroy[OF this, of None this]
  obtain s' where "mof_destructor this s1 = Inr s'" "mof_vars s' = mof_vars s1"
    and "family ft (with_temp None (mof_vars s1)) s' (with_temp None (v(i \<mapsto> x)))"
    by (auto simp: with_temp_upd)
  then show ?thesis by (simp add: swap_in_def this_i mof_swap_eq s1_def[symmetric] family_with_temp)
qed

section \<open>Every statement\<close>

abbreviation mof_rel :: "('f, 'a, 'r) functor_type \<Rightarrow> 'f mof_store \<Rightarrow> 'f mof_spec \<Rightarrow> bool" where
  "mof_rel ft s v \<equiv> family ft (mof_vars s) s v"

lemma mof_rel_vars:
  assumes "mof_rel ft s v"
  shows "v i = Some x \<Longrightarrow> \<exists>m. mof_vars s i = Some m \<and> holds ft (mof_heap s) m x"
    and "v i = None \<Longrightarrow> mof_vars s i = None"
  using familyD(1,2)[OF assms, of i] by auto

lemma family_set_var: "family ft ((mof_vars s)(i \<mapsto> m)) s v = mof_rel ft (set_var i m s) v"
  by simp


lemma mof_call_spec:
  assumes "holds ft (mof_heap s) m x"
  shows "mof_call ft m args s = (case x of None \<Rightarrow> Inl Bad_function_call | Some f \<Rightarrow> ft_call ft f args)"
  using assms by (cases x) (auto simp: mof_call_def m_empty_def holds_def m_get_pointer_def split: if_splits)

text \<open>A moved-from object is empty, and the new one has what it had.\<close>

lemma mof_move_eq: "mof_move m = (mof_default, m)"
  by (simp add: mof_move_def mof_swap_eq)

lemma mof_exec_assign:
  assumes rel: "mof_rel ft s v" and v: "v i = Some y" "v j = Some x"
  shows "\<exists>s'. mof_exec ft (Move_assign i j) s = Inr (None, s') \<and> mof_rel ft s' (v(j \<mapsto> None, i \<mapsto> x))"
proof -
  obtain m where m: "mof_vars s j = Some m" using mof_rel_vars(1)[OF rel v(2)] by blast
  define s1 where "s1 = set_var j mof_default s"
  have "family ft ((with_temp None (mof_vars s))(None \<mapsto> mof_default)) s ((with_temp None v)(None \<mapsto> None))"
    by (rule family_replace) (simp_all add: family_with_temp rel)
  then have "family ft (with_temp (Some mof_default) (mof_vars s)) s (with_temp (Some None) v)"
    by (simp add: with_temp_upd)
  then have "family ft ((with_temp (Some mof_default) (mof_vars s))(None \<mapsto> m, Some j \<mapsto> mof_default)) s
      ((with_temp (Some None) v)(None \<mapsto> x, Some j \<mapsto> None))"
    by (rule family_swap) (simp_all add: m v)
  then have "family ft (with_temp (Some m) (mof_vars s1)) s1 (with_temp (Some x) (v(j \<mapsto> None)))"
    by (simp add: with_temp_upd s1_def)
  moreover have "(v(j \<mapsto> None)) i \<noteq> None" using v(1) by simp
  ultimately obtain s' where "swap_in m i s1 = Inr s'" "mof_rel ft s' (v(j \<mapsto> None, i \<mapsto> x))"
    using swap_in_family by blast
  then show ?thesis by (auto simp: mof_exec_def m mof_move_eq s1_def)
qed

lemma mof_exec_assign_functor:
  assumes rel: "mof_rel ft s v" and v: "v i = Some y"
  shows "\<exists>s'. mof_exec ft (Assign_functor i f) s = Inr (None, s') \<and> mof_rel ft s' (v(i \<mapsto> hold ft f))"
proof -
  obtain m s1 where mk: "mof_of_functor ft f s = (m, s1)" by fastforce
  have "family ft (with_temp None (mof_vars s)) s (with_temp None v)" using rel by (simp add: family_with_temp)
  from family_functor[OF this _ mk, of None]
  have "family ft (with_temp (Some m) (mof_vars s1)) s1 (with_temp (Some (hold ft f)) v)"
    by (simp add: with_temp_upd)
  from swap_in_family[OF this, of i] v show ?thesis by (auto simp: mof_exec_def mk)
qed

lemma mof_exec_assign_null:
  assumes rel: "mof_rel ft s v" and v: "v i = Some x"
  shows "\<exists>s'. mof_exec ft (Assign_null i) s = Inr (None, s') \<and> mof_rel ft s' (v(i \<mapsto> None))"
proof -
  obtain m where m: "mof_vars s i = Some m" "holds ft (mof_heap s) m x" using mof_rel_vars(1)[OF rel v] by blast
  show ?thesis
  proof (cases "m_manager m")
    case None
    then have "x = None" using m(2) by (cases x) (auto simp: holds_def)
    with None v rel show ?thesis by (simp add: mof_exec_def m map_upd_triv)
  next
    case (Some l)
    obtain s' where s': "mof_destructor m s = Inr s'" "mof_vars s' = mof_vars s"
      and fam: "family ft ((mof_vars s)(i := None)) s' (v(i := None))"
      using family_destroy[OF rel m(1)] by blast
    have "family ft ((mof_vars s)(i := None, i \<mapsto> m\<lparr>m_manager := None, m_invoker := None\<rparr>)) s' (v(i := None, i \<mapsto> None))"
      by (rule family_replace[OF fam]) simp_all
    then show ?thesis using s' Some by (simp add: mof_exec_def m mof_destructor_def)
  qed
qed

lemma mof_exec_move_construct:
  assumes rel: "mof_rel ft s v" and v: "v j = Some x" "v i = None"
  shows "\<exists>s'. mof_exec ft (Move_construct i j) s = Inr (None, s') \<and> mof_rel ft s' (v(i \<mapsto> x, j \<mapsto> None))"
proof -
  obtain m where m: "mof_vars s j = Some m" using mof_rel_vars(1)[OF rel v(1)] by blast
  have ij: "i \<noteq> j" using v by auto
  have "family ft ((mof_vars s)(i \<mapsto> mof_default)) s (v(i \<mapsto> None))"
    by (rule family_replace[OF rel]) (simp_all add: mof_rel_vars(2)[OF rel v(2)])
  then have "family ft ((mof_vars s)(i \<mapsto> mof_default, i \<mapsto> m, j \<mapsto> mof_default)) s (v(i \<mapsto> None, i \<mapsto> x, j \<mapsto> None))"
    by (rule family_swap) (use ij in \<open>simp_all add: m v\<close>)
  then show ?thesis using ij by (simp add: mof_exec_def m mof_move_eq fun_upd_twist)
qed

lemma mof_exec_refines:
  assumes rel: "mof_rel ft s v" and spec: "spec_exec ft op v = Some (r, v')"
  shows "\<exists>s'. mof_exec ft op s = Inr (r, s') \<and> mof_rel ft s' v'"
proof (cases op)
  case (Declare i)
  then have "v i = None" "r = None" "v' = v(i \<mapsto> None)" using spec by (auto split: if_splits)
  then show ?thesis using family_replace[OF rel, of mof_default i None] mof_rel_vars(2)[OF rel, of i]
    by (simp add: Declare mof_exec_def)
next
  case (Construct i f)
  obtain m s' where mk: "mof_of_functor ft f s = (m, s')" by fastforce
  have "v i = None" "r = None" "v' = v(i \<mapsto> hold ft f)" using spec Construct by (auto split: if_splits)
  then show ?thesis using family_functor[OF rel mof_rel_vars(2)[OF rel, of i] mk] by (simp add: Construct mof_exec_def mk)
next
  case (Move_construct i j)
  then obtain x where "v j = Some x" "v i = None" "r = None" "v' = v(i \<mapsto> x, j \<mapsto> None)"
    using spec by (auto split: if_splits option.splits)
  with mof_exec_move_construct[OF rel] show ?thesis by (simp add: Move_construct)
next
  case (Move_assign i j)
  then obtain x y where "v i = Some y" "v j = Some x" "r = None" "v' = v(j \<mapsto> None, i \<mapsto> x)"
    using spec by (auto split: option.splits)
  with mof_exec_assign[OF rel] show ?thesis by (simp add: Move_assign)
next
  case (Assign_null i)
  with spec mof_exec_assign_null[OF rel] show ?thesis by (auto split: if_splits)
next
  case (Assign_functor i f)
  with spec mof_exec_assign_functor[OF rel] show ?thesis by (auto split: if_splits)
next
  case (Swap i j)
  then obtain x y where v: "v i = Some x" "v j = Some y" "r = None" "v' = v(i \<mapsto> y, j \<mapsto> x)"
    using spec by (auto split: option.splits)
  obtain a b where w: "mof_vars s i = Some a" "mof_vars s j = Some b"
    using mof_rel_vars(1)[OF rel v(1)] mof_rel_vars(1)[OF rel v(2)] by blast
  show ?thesis
    using family_swap[OF rel w v(1,2)] v w rel by (auto simp: Swap mof_exec_def mof_swap_eq map_upd_triv)
next
  case (Call i args)
  then obtain x where v: "v i = Some x" "v' = v" using spec by (auto split: option.splits)
  obtain m where m: "mof_vars s i = Some m" "holds ft (mof_heap s) m x" using mof_rel_vars(1)[OF rel v(1)] by blast
  show ?thesis using spec v m rel by (auto simp: Call mof_exec_def mof_call_spec[OF m(2)] split: option.splits)
next
  case (Destroy i)
  then obtain x where v: "v i = Some x" "r = None" "v' = v(i := None)" using spec by (auto split: if_splits)
  obtain m where m: "mof_vars s i = Some m" using mof_rel_vars(1)[OF rel v(1)] by blast
  from family_destroy[OF rel m] show ?thesis by (auto simp: Destroy mof_exec_def m v)
qed

lemma mof_run_refines:
  assumes "mof_rel ft s v" "spec_run ft ops v = Some (rs, v')"
  shows "\<exists>s'. mof_run ft ops s = Inr (rs, s') \<and> mof_rel ft s' v'"
  using assms
proof (induction ops arbitrary: s v rs)
  case (Cons op ops)
  then obtain r v1 rs1 where first: "spec_exec ft op v = Some (r, v1)" and rest: "spec_run ft ops v1 = Some (rs1, v')"
    and rs: "rs = (case r of None \<Rightarrow> rs1 | Some r \<Rightarrow> r # rs1)"
    by (auto split: option.splits)
  obtain s1 where s1: "mof_exec ft op s = Inr (r, s1)" "mof_rel ft s1 v1"
    using mof_exec_refines[OF Cons.prems(1) first] by blast
  with Cons.IH[OF s1(2) rest] rs show ?case by auto
qed simp

lemma mof_rel_new: "mof_rel ft mof_store_new (\<lambda>_. None)"
  by (rule familyI) (simp_all add: mof_store_new_def)

text \<open>What is on the heap at the end: one cell for each variable that holds a functor too large for the buffer.\<close>

lemma mof_rel_heap:
  assumes rel: "mof_rel ft s v"
  shows "\<exists>at. (\<forall>i f. v i = Some (Some f) \<longrightarrow> \<not> ft_stored_locally ft f \<longrightarrow> mof_heap s (at i) = Some f) \<and>
     inj_on at {i. \<exists>f. v i = Some (Some f) \<and> \<not> ft_stored_locally ft f} \<and>
     dom (mof_heap s) = at ` {i. \<exists>f. v i = Some (Some f) \<and> \<not> ft_stored_locally ft f}"
proof -
  let ?big = "{i. \<exists>f. v i = Some (Some f) \<and> \<not> ft_stored_locally ft f}"
  define at where "at i = the (owner (mof_vars s) i)" for i
  have owns: "owner (mof_vars s) i = Some (at i) \<and> mof_heap s (at i) = Some f"
    if large: "v i = Some (Some f)" "\<not> ft_stored_locally ft f" for i f
  proof -
    obtain m where m: "mof_vars s i = Some m" "holds ft (mof_heap s) m (Some f)"
      using mof_rel_vars(1)[OF rel large(1)] by blast
    from holds_owned(1)[OF m(2) large(2)] m(1) show ?thesis by (auto simp: at_def)
  qed
  have big: "i \<in> ?big" if own: "owner (mof_vars s) i = Some a" for i a
  proof -
    obtain m where m: "mof_vars s i = Some m" "owned m = Some a" using own by (cases "mof_vars s i") auto
    obtain x where x: "v i = Some x" "holds ft (mof_heap s) m x" by (rule family_live[OF rel m(1)])
    with m(2) show ?thesis using holds_owned(2)[of ft _ m] by (cases x) auto
  qed
  have "inj_on at ?big"
    by (rule inj_onI) (use owns familyD(3)[OF rel] in \<open>auto; metis\<close>)
  moreover have "dom (mof_heap s) = at ` ?big"
  proof
    show "at ` ?big \<subseteq> dom (mof_heap s)" using owns by auto
    show "dom (mof_heap s) \<subseteq> at ` ?big"
    proof
      fix a
      assume "a \<in> dom (mof_heap s)"
      then obtain i where i: "owner (mof_vars s) i = Some a" using familyD(5)[OF rel, of a] by blast
      then have "a = at i" by (simp add: at_def)
      with big[OF i] show "a \<in> at ` ?big" by blast
    qed
  qed
  ultimately show ?thesis using owns by (intro exI[of _ at]) blast
qed

text \<open>C1: A program over variables of \<^verbatim>\<open>move_only_function\<close> that only uses live variables has the results it has when each variable is
  empty or holds a functor: it calls what was last put into the variable, throws \<^verbatim>\<open>bad_function_call\<close> on an empty one, never destroys a
  functor twice or touches one that is gone, and at the end the heap has exactly one object for each variable whose functor does
  not fit the buffer.\<close>

theorem move_only_function_refines:
  assumes "spec_run ft ops (\<lambda>_. None) = Some (rs, v)"
  shows "\<exists>s. mof_run ft ops mof_store_new = Inr (rs, s) \<and> (\<forall>i. mof_vars s i = None \<longleftrightarrow> v i = None) \<and>
    (\<exists>at. (\<forall>i f. v i = Some (Some f) \<longrightarrow> \<not> ft_stored_locally ft f \<longrightarrow> mof_heap s (at i) = Some f) \<and>
      inj_on at {i. \<exists>f. v i = Some (Some f) \<and> \<not> ft_stored_locally ft f} \<and>
      dom (mof_heap s) = at ` {i. \<exists>f. v i = Some (Some f) \<and> \<not> ft_stored_locally ft f})"
proof -
  obtain s where run: "mof_run ft ops mof_store_new = Inr (rs, s)" and rel: "mof_rel ft s v"
    using mof_run_refines[OF mof_rel_new assms] by blast
  have "\<forall>i. mof_vars s i = None \<longleftrightarrow> v i = None" using familyD(1)[OF rel] by blast
  with run mof_rel_heap[OF rel] show ?thesis by blast
qed

definition sample_functors :: "(nat, nat, nat) functor_type" where
  "sample_functors = \<lparr>ft_trivially_copyable = (\<lambda>_. True), ft_sizeof = (\<lambda>f. f), ft_alignof = (\<lambda>_. 1), ft_empty = (\<lambda>f. f = 0), ft_call = (\<lambda>f x. Inr (f + x))\<rparr>"

definition sample_program :: "(nat, nat) mof_op list" where
  "sample_program = [Construct 0 5, Declare 1, Call 1 2, Assign_functor 1 40, Call 1 2, Move_construct 2 1, Call 1 2,
     Move_assign 0 2, Call 0 1, Assign_null 0, Assign_functor 2 30, Swap 1 2, Destroy 2, Destroy 0]"

lemma move_only_function_refines_witness:
  "\<exists>s at. mof_run sample_functors sample_program mof_store_new
      = Inr ([Inl Bad_function_call, Inr 42, Inl Bad_function_call, Inr 41], s) \<and>
     dom (mof_heap s) = {at 1}"
proof -
  define v :: "nat mof_spec" where "v = [1 \<mapsto> Some 30]"
  have spec: "spec_run sample_functors sample_program (\<lambda>_. None)
      = Some ([Inl Bad_function_call, Inr 42, Inl Bad_function_call, Inr 41], v)"
    by (auto simp: sample_functors_def sample_program_def v_def hold_def fun_eq_iff)
  have big: "{i. \<exists>f. v i = Some (Some f) \<and> \<not> ft_stored_locally sample_functors f} = {1}"
    by (auto simp: v_def sample_functors_def ft_stored_locally_def m_max_size_def split: if_splits)
  from move_only_function_refines[OF spec] show ?thesis unfolding big by auto
qed

end
