(* ===== verification/Coro_File.thy ===== *)
theory Coro_File
  imports Prelude
begin

text \<open>
  Files read and written from coroutines, \<^verbatim>\<open>src/coro_apps/coro_io/coro_file.hpp\<close>, as built on Linux without
  \<^verbatim>\<open>ENABLE_FILE_IO_URING\<close>: \<^verbatim>\<open>basic_seq_coro_file\<close> over \<^verbatim>\<open>std::fstream\<close> and \<^verbatim>\<open>basic_random_coro_file\<close> over \<^verbatim>\<open>pread\<close> and
  \<^verbatim>\<open>pwrite\<close>. A call posts its work to an executor and awaits it, so it is the work that is modelled. The first
  section says what the code uses of the standard library and of the system.
\<close>

type_synonym bytes = "u8 list"
type_synonym files = "string \<Rightarrow> bytes option"

section \<open>The standard library and the system\<close>

text \<open>An \<^verbatim>\<open>std::ios::openmode\<close> is a set of flags.\<close>

datatype ios_flag = In | Out | App | Trunc | Ate | Binary

type_synonym openmode = "ios_flag set"

text \<open>The bits of \<^verbatim>\<open>open\<close> on Linux.\<close>

abbreviation "O_RDONLY \<equiv> (0x0 :: u32)"
abbreviation "O_WRONLY \<equiv> (0x1 :: u32)"
abbreviation "O_RDWR \<equiv> (0x2 :: u32)"
abbreviation "O_CREAT \<equiv> (0x40 :: u32)"
abbreviation "O_TRUNC \<equiv> (0x200 :: u32)"
abbreviation "O_APPEND \<equiv> (0x400 :: u32)"

text \<open>
  \<^verbatim>\<open>std::fstream\<close>: the file it is open on, whether it may read and write, whether it appends, its position, its error state,
  and the count of its last read.
\<close>

record fstream =
  st_path :: "string option"
  st_read :: bool
  st_write :: bool
  st_append :: bool
  st_pos :: nat
  st_eofbit :: bool
  st_failbit :: bool
  st_badbit :: bool
  st_gcount :: nat

definition fstream_new :: fstream where
  "fstream_new =
     \<lparr>st_path = None, st_read = False, st_write = False, st_append = False, st_pos = 0,
      st_eofbit = False, st_failbit = False, st_badbit = False, st_gcount = 0\<rparr>"

definition st_good :: "fstream \<Rightarrow> bool" where
  "st_good s \<longleftrightarrow> \<not> st_eofbit s \<and> \<not> st_failbit s \<and> \<not> st_badbit s"

definition st_ok :: "fstream \<Rightarrow> bool" where
  "st_ok s \<longleftrightarrow> \<not> st_failbit s \<and> \<not> st_badbit s"

text \<open>\<^verbatim>\<open>read\<close>: a stream that is not good reads nothing; a short read sets two bits.\<close>

definition fstream_read :: "nat \<Rightarrow> files \<Rightarrow> fstream \<Rightarrow> bytes \<times> fstream" where
  "fstream_read n fs s =
     (if \<not> st_good s then ([], s\<lparr>st_failbit := True, st_gcount := 0\<rparr>)
      else (let content = (case st_path s of Some p \<Rightarrow> (case fs p of Some bs \<Rightarrow> bs | None \<Rightarrow> []) | None \<Rightarrow> []);
                bs = (if st_read s then take n (drop (st_pos s) content) else [])
            in (bs, s\<lparr>st_pos := st_pos s + length bs, st_gcount := length bs,
                      st_eofbit := length bs < n, st_failbit := length bs < n\<rparr>)))"

text \<open>\<open>write_at\<close> is what the bytes of a file become: the gap before the position reads as zeros.\<close>

definition write_at :: "nat \<Rightarrow> bytes \<Rightarrow> bytes \<Rightarrow> bytes" where
  "write_at pos bs content =
     take pos content @ replicate (pos - length content) 0 @ bs @ drop (pos + length bs) content"

definition fstream_write :: "bytes \<Rightarrow> files \<Rightarrow> fstream \<Rightarrow> files \<times> fstream" where
  "fstream_write bs fs s =
     (if \<not> st_good s then (fs, s\<lparr>st_failbit := True\<rparr>)
      else (case st_path s of
              Some p \<Rightarrow>
                (case fs p of
                   Some content \<Rightarrow>
                     if st_write s
                     then (let pos = (if st_append s then length content else st_pos s)
                           in (fs(p \<mapsto> write_at pos bs content), s\<lparr>st_pos := pos + length bs\<rparr>))
                     else (fs, s\<lparr>st_badbit := True\<rparr>)
                 | None \<Rightarrow> (fs, s\<lparr>st_badbit := True\<rparr>))
            | None \<Rightarrow> (fs, s\<lparr>st_badbit := True\<rparr>)))"

datatype seekdir = Beg | Cur | End

text \<open>\<^verbatim>\<open>seekg\<close> clears the end-of-file bit, and only moves a stream that has not failed.\<close>

definition fstream_seekg :: "int \<Rightarrow> seekdir \<Rightarrow> files \<Rightarrow> fstream \<Rightarrow> fstream" where
  "fstream_seekg offset dir fs s =
     (let s = s\<lparr>st_eofbit := False\<rparr> in
      if \<not> st_good s then s\<lparr>st_failbit := True\<rparr>
      else (let content = (case st_path s of Some p \<Rightarrow> (case fs p of Some bs \<Rightarrow> bs | None \<Rightarrow> []) | None \<Rightarrow> []);
                target = (case dir of Beg \<Rightarrow> offset | Cur \<Rightarrow> int (st_pos s) + offset | End \<Rightarrow> int (length content) + offset)
            in if target < 0 then s\<lparr>st_failbit := True\<rparr> else s\<lparr>st_pos := nat target\<rparr>))"

text \<open>\<^verbatim>\<open>open\<close>, by the table of the standard that names a mode of \<^verbatim>\<open>fopen\<close> for a set of flags.\<close>

datatype fopen_mode = Mode_r | Mode_w | Mode_a | Mode_rp | Mode_wp | Mode_ap

definition fopen_mode_of :: "openmode \<Rightarrow> fopen_mode option" where
  "fopen_mode_of mode =
     (let mode = mode - {Ate, Binary} in
      if mode = {In} then Some Mode_r
      else if mode = {Out} \<or> mode = {Out, Trunc} then Some Mode_w
      else if mode = {App} \<or> mode = {Out, App} then Some Mode_a
      else if mode = {In, Out} then Some Mode_rp
      else if mode = {In, Out, Trunc} then Some Mode_wp
      else if mode = {In, App} \<or> mode = {In, Out, App} then Some Mode_ap
      else None)"

definition fstream_open :: "string \<Rightarrow> openmode \<Rightarrow> files \<Rightarrow> fstream \<Rightarrow> files \<times> fstream" where
  "fstream_open path mode fs s =
     (let fail = (fs, s\<lparr>st_failbit := True\<rparr>);
          opened = (\<lambda>fs r w a. (fs, s\<lparr>st_path := Some path, st_read := r, st_write := w, st_append := a,
                                 st_pos := (if Ate \<in> mode then (case fs path of Some bs \<Rightarrow> length bs | None \<Rightarrow> 0) else 0),
                                 st_eofbit := False, st_failbit := False, st_badbit := False\<rparr>));
          created = (case fs path of None \<Rightarrow> fs(path \<mapsto> []) | Some _ \<Rightarrow> fs)
      in case fopen_mode_of mode of
           None \<Rightarrow> fail
         | Some Mode_r \<Rightarrow> if fs path = None then fail else opened fs True False False
         | Some Mode_w \<Rightarrow> opened (fs(path \<mapsto> [])) False True False
         | Some Mode_a \<Rightarrow> opened created False True True
         | Some Mode_rp \<Rightarrow> if fs path = None then fail else opened fs True True False
         | Some Mode_wp \<Rightarrow> opened (fs(path \<mapsto> [])) True True False
         | Some Mode_ap \<Rightarrow> opened created True True True)"

text \<open>
  File descriptors: their file, and how they were opened. \<^verbatim>\<open>pread\<close> and \<^verbatim>\<open>pwrite\<close> on a regular file transfer what
  there is, at most \<open>0x7ffff000\<close> bytes; on Linux \<^verbatim>\<open>pwrite\<close> appends when the descriptor was opened with \<^verbatim>\<open>O_APPEND\<close>. An
  error is \<open>-1\<close>.
\<close>

record system =
  sys_files :: files
  sys_fds :: "nat \<Rightarrow> (string \<times> u32) option"
  sys_next_fd :: nat

definition may_read :: "u32 \<Rightarrow> bool" where
  "may_read flags \<longleftrightarrow> flags AND 3 = O_RDONLY \<or> flags AND 3 = O_RDWR"

definition may_write :: "u32 \<Rightarrow> bool" where
  "may_write flags \<longleftrightarrow> flags AND 3 = O_WRONLY \<or> flags AND 3 = O_RDWR"

definition sys_open :: "string \<Rightarrow> u32 \<Rightarrow> system \<Rightarrow> nat option \<times> system" where
  "sys_open path flags s =
     (case sys_files s path of
        None \<Rightarrow>
          if flags AND O_CREAT \<noteq> 0
          then (Some (sys_next_fd s),
                s\<lparr>sys_files := (sys_files s)(path \<mapsto> []), sys_fds := (sys_fds s)(sys_next_fd s \<mapsto> (path, flags)),
                  sys_next_fd := sys_next_fd s + 1\<rparr>)
          else (None, s)
      | Some content \<Rightarrow>
          (Some (sys_next_fd s),
           s\<lparr>sys_files := (sys_files s)(path \<mapsto> (if flags AND O_TRUNC \<noteq> 0 then [] else content)),
             sys_fds := (sys_fds s)(sys_next_fd s \<mapsto> (path, flags)), sys_next_fd := sys_next_fd s + 1\<rparr>))"

definition sys_close :: "nat \<Rightarrow> system \<Rightarrow> system" where
  "sys_close fd s = s\<lparr>sys_fds := (sys_fds s)(fd := None)\<rparr>"

abbreviation max_transfer :: nat where
  "max_transfer \<equiv> 0x7ffff000"

definition pread :: "nat \<Rightarrow> nat \<Rightarrow> u64 \<Rightarrow> system \<Rightarrow> int \<times> bytes" where
  "pread fd n offset s =
     (case sys_fds s fd of
        None \<Rightarrow> (-1, [])
      | Some (path, flags) \<Rightarrow>
          (case sys_files s path of
             None \<Rightarrow> (-1, [])
           | Some content \<Rightarrow>
               if \<not> may_read flags \<or> sint offset < 0 then (-1, [])
               else (let bs = take (min n max_transfer) (drop (unat offset) content) in (int (length bs), bs))))"

definition pwrite :: "nat \<Rightarrow> bytes \<Rightarrow> u64 \<Rightarrow> system \<Rightarrow> int \<times> system" where
  "pwrite fd bs offset s =
     (case sys_fds s fd of
        None \<Rightarrow> (-1, s)
      | Some (path, flags) \<Rightarrow>
          (case sys_files s path of
             None \<Rightarrow> (-1, s)
           | Some content \<Rightarrow>
               if \<not> may_write flags \<or> sint offset < 0 then (-1, s)
               else (let bs = take max_transfer bs;
                         pos = (if flags AND O_APPEND \<noteq> 0 then length content else unat offset)
                     in (int (length bs), s\<lparr>sys_files := (sys_files s)(path \<mapsto> write_at pos bs content)\<rparr>))))"

section \<open>The flags\<close>

definition create_write_trunc :: u32 where
  "create_write_trunc = O_WRONLY OR O_CREAT OR O_TRUNC"

definition create_read_write_trunc :: u32 where
  "create_read_write_trunc = O_RDWR OR O_CREAT OR O_TRUNC"

definition create_read_write_append :: u32 where
  "create_read_write_append = O_RDWR OR O_CREAT OR O_APPEND"

definition to_flags :: "openmode \<Rightarrow> u32" where
  "to_flags mode =
     (let access = O_RDWR;
          access =
            (if mode = {In} then O_RDONLY
             else if mode = {Out} then O_WRONLY
             else if mode = {App} then O_APPEND
             else if mode = {Trunc} then O_TRUNC
             else if mode = {In, Out} then O_RDWR
             else if mode = {Trunc, Out} then create_write_trunc
             else access)
      in if mode = {In, Out, Trunc} then create_read_write_trunc
         else if mode = {In, Out, App} then create_read_write_append
         else access)"

section \<open>Sequential files\<close>

datatype io_error_code = Io_ok | Io_error

record seq_coro_file =
  frw_seq_file :: fstream
  sq_file_path :: string
  sq_eof :: bool

definition seq_coro_file_new :: seq_coro_file where
  "seq_coro_file_new = \<lparr>frw_seq_file = fstream_new, sq_file_path = [], sq_eof = False\<rparr>"

definition seq_is_open :: "seq_coro_file \<Rightarrow> bool" where
  "seq_is_open f \<longleftrightarrow> st_path (frw_seq_file f) \<noteq> None"

definition open_stream_file_in_pool :: "string \<Rightarrow> openmode \<Rightarrow> files \<Rightarrow> seq_coro_file \<Rightarrow> bool \<times> files \<times> seq_coro_file" where
  "open_stream_file_in_pool filepath mode fs f =
     (if seq_is_open f then (True, fs, f)
      else (let (fs, s) = fstream_open filepath mode fs (frw_seq_file f);
                f = f\<lparr>frw_seq_file := s\<rparr>
            in if \<not> seq_is_open f then (False, fs, f) else (True, fs, f)))"

definition seq_open :: "string \<Rightarrow> openmode \<Rightarrow> files \<Rightarrow> seq_coro_file \<Rightarrow> bool \<times> files \<times> seq_coro_file" where
  "seq_open filepath mode fs f = open_stream_file_in_pool filepath mode fs (f\<lparr>sq_file_path := filepath\<rparr>)"

text \<open>\<^verbatim>\<open>async_read_write\<close>: what follows when the stream's operation has failed.\<close>

definition after_failure :: "fstream \<Rightarrow> seq_coro_file \<Rightarrow> io_error_code \<times> nat \<times> seq_coro_file" where
  "after_failure s f =
     (if st_eofbit s then (Io_ok, st_gcount s, f\<lparr>frw_seq_file := s, sq_eof := True\<rparr>)
      else (Io_error, 0, f\<lparr>frw_seq_file := s\<rparr>))"

definition seq_async_read :: "nat \<Rightarrow> files \<Rightarrow> seq_coro_file \<Rightarrow> bytes \<times> io_error_code \<times> nat \<times> seq_coro_file" where
  "seq_async_read n fs f =
     (let (bs, s) = fstream_read n fs (frw_seq_file f)
      in (bs, if st_ok s then (Io_ok, st_gcount s, f\<lparr>frw_seq_file := s\<rparr>) else after_failure s f))"

definition seq_async_write :: "bytes \<Rightarrow> files \<Rightarrow> seq_coro_file \<Rightarrow> files \<times> io_error_code \<times> nat \<times> seq_coro_file" where
  "seq_async_write bs fs f =
     (let (fs, s) = fstream_write bs fs (frw_seq_file f)
      in (fs, if st_ok s then (Io_ok, length bs, f\<lparr>frw_seq_file := s\<rparr>) else after_failure s f))"

definition seq_seek :: "u64 \<Rightarrow> seekdir \<Rightarrow> files \<Rightarrow> seq_coro_file \<Rightarrow> bool \<times> seq_coro_file" where
  "seq_seek offset dir fs f =
     (if seq_is_open f
      then (let s = fstream_seekg (sint offset) dir fs (frw_seq_file f) in (st_ok s, f\<lparr>frw_seq_file := s\<rparr>))
      else (False, f))"

definition seq_close :: "seq_coro_file \<Rightarrow> seq_coro_file" where
  "seq_close f =
     (if seq_is_open f then f\<lparr>frw_seq_file := (frw_seq_file f)\<lparr>st_path := None\<rparr>\<rparr> else f)"

definition seq_file_size :: "files \<Rightarrow> seq_coro_file \<Rightarrow> nat option" where
  "seq_file_size fs f = map_option length (fs (sq_file_path f))"

text \<open>The loop a caller writes: reads of \<open>n\<close> bytes until \<^verbatim>\<open>eof()\<close>, with the number of reads as fuel.\<close>

fun read_until_eof :: "nat \<Rightarrow> nat \<Rightarrow> files \<Rightarrow> seq_coro_file \<Rightarrow> (bytes \<times> seq_coro_file) option" where
  "read_until_eof 0 n fs f = None"
| "read_until_eof (Suc fuel) n fs f =
     (let (bs, ec, count, f) = seq_async_read n fs f
      in if ec = Io_error then None
         else if sq_eof f then Some (bs, f)
         else map_option (\<lambda>(rest, f). (bs @ rest, f)) (read_until_eof fuel n fs f))"

section \<open>Random access files\<close>

record random_coro_file =
  prw_random_file :: "nat option"
  rd_file_path :: string
  rd_eof :: bool

definition random_coro_file_new :: random_coro_file where
  "random_coro_file_new = \<lparr>prw_random_file = None, rd_file_path = [], rd_eof = False\<rparr>"

definition open_fd :: "string \<Rightarrow> u32 \<Rightarrow> system \<Rightarrow> random_coro_file \<Rightarrow> bool \<times> system \<times> random_coro_file" where
  "open_fd filepath open_flags s f =
     (if prw_random_file f \<noteq> None then (True, s, f)
      else (case sys_open filepath open_flags s of
              (None, s) \<Rightarrow> (False, s, f)
            | (Some fd, s) \<Rightarrow> (True, s, f\<lparr>prw_random_file := Some fd\<rparr>)))"

definition random_open :: "string \<Rightarrow> openmode \<Rightarrow> system \<Rightarrow> random_coro_file \<Rightarrow> bool \<times> system \<times> random_coro_file" where
  "random_open filepath mode s f = open_fd filepath (to_flags mode) s (f\<lparr>rd_file_path := filepath\<rparr>)"

text \<open>\<^verbatim>\<open>async_prw\<close> on the result of the system call, which a \<^verbatim>\<open>std::function<int()>\<close> returns in 32 bits.\<close>

definition async_prw :: "bool \<Rightarrow> int \<Rightarrow> random_coro_file \<Rightarrow> io_error_code \<times> u64 \<times> random_coro_file" where
  "async_prw is_read result f =
     (let len = sint (word_of_int result :: u32) in
      if len = 0 then (Io_ok, 0, if is_read then f\<lparr>rd_eof := True\<rparr> else f)
      else if len > 0 then (Io_ok, word_of_int len, f)
      else (Io_error, word_of_int len, f))"

definition async_read_at :: "u64 \<Rightarrow> nat \<Rightarrow> system \<Rightarrow> random_coro_file \<Rightarrow> (bytes \<times> io_error_code \<times> u64 \<times> random_coro_file) outcome" where
  "async_read_at offset n s f =
     (case prw_random_file f of
        None \<Rightarrow> Inl Undefined_behaviour
      | Some fd \<Rightarrow> (let (result, bs) = pread fd n offset s in Inr (bs, async_prw True result f)))"

definition async_write_at :: "u64 \<Rightarrow> bytes \<Rightarrow> system \<Rightarrow> random_coro_file \<Rightarrow> (system \<times> io_error_code \<times> u64 \<times> random_coro_file) outcome" where
  "async_write_at offset bs s f =
     (case prw_random_file f of
        None \<Rightarrow> Inl Undefined_behaviour
      | Some fd \<Rightarrow> (let (result, s) = pwrite fd bs offset s in Inr (s, async_prw False result f)))"

definition random_close :: "system \<Rightarrow> random_coro_file \<Rightarrow> system \<times> random_coro_file" where
  "random_close s f =
     (case prw_random_file f of
        None \<Rightarrow> (s, f)
      | Some fd \<Rightarrow> (sys_close fd s, f\<lparr>prw_random_file := None\<rparr>))"

section \<open>Sending a file\<close>

text \<open>
  \<^verbatim>\<open>async_sendfile\<close> of \<^verbatim>\<open>src/coro_apps/coro_io/coro_io.hpp\<close>, on the answers of the system, one after the other:
  \<^verbatim>\<open>sendfile\<close> sends some of the bytes it may (\<open>Sends k\<close>: at most \<open>k + 1\<close>, and none only at the end), or is interrupted, or would block, in which case the answer of
  the wait for the socket follows, or fails. The system advances the offset.
\<close>

datatype sendfile_answer = Sends nat | Interrupted | Would_block "nat option" | Fails nat

definition sendfile_chunk :: nat where
  "sendfile_chunk = 65536"

text \<open>The bytes sent, the error if there was one, and the bytes not sent; \<open>None\<close> when the answers end first.\<close>

function sendfile_loop :: "bytes \<Rightarrow> nat \<Rightarrow> nat \<Rightarrow> sendfile_answer list \<Rightarrow> (bytes \<times> nat option \<times> nat) option" where
  "sendfile_loop content offset least_bytes [] = None"
| "sendfile_loop content offset least_bytes (Sends k # answers) =
     (let bs = take (min (Suc k) (min sendfile_chunk least_bytes)) (drop offset content);
          n = length bs;
          least_bytes = least_bytes - n
      in if n = 0 \<or> least_bytes = 0 then Some (bs, None, least_bytes)
         else map_option (\<lambda>(rest, r). (bs @ rest, r)) (sendfile_loop content (offset + n) least_bytes answers))"
| "sendfile_loop content offset least_bytes (Interrupted # answers) = sendfile_loop content offset least_bytes answers"
| "sendfile_loop content offset least_bytes (Would_block ec # answers) =
     (if ec \<noteq> None \<or> least_bytes = 0 then Some ([], ec, least_bytes)
      else sendfile_loop content offset least_bytes answers)"
| "sendfile_loop content offset least_bytes (Fails e # answers) = Some ([], Some e, least_bytes)"
  by pat_completeness simp_all

termination
  by (relation "measure (\<lambda>(_, _, _, answers). length answers)") simp_all

text \<open>\<open>nonblocking\<close> is the error of making the socket non-blocking, if there is one.\<close>

definition async_sendfile ::
    "nat option \<Rightarrow> bytes \<Rightarrow> nat \<Rightarrow> nat \<Rightarrow> sendfile_answer list \<Rightarrow> (bytes \<times> nat option \<times> nat) option" where
  "async_sendfile nonblocking content offset size_to_send answers =
     (if nonblocking \<noteq> None then Some ([], nonblocking, 0)
      else map_option (\<lambda>(bs, ec, least_bytes). (bs, ec, size_to_send - least_bytes))
             (sendfile_loop content offset size_to_send answers))"

end
