(* ===== verification/Coro_File_Props.thy ===== *)
theory Coro_File_Props
  imports Coro_File
begin

text \<open>
  Reading a file to its end and what the object can do afterwards, random access that reads back what it wrote, the
  flags against the table in the source, and the bytes that \<^verbatim>\<open>async_sendfile\<close> sends.
\<close>

section \<open>Sequential files\<close>

definition seq_content :: "files \<Rightarrow> seq_coro_file \<Rightarrow> bytes" where
  "seq_content fs f =
     (case st_path (frw_seq_file f) of Some p \<Rightarrow> (case fs p of Some bs \<Rightarrow> bs | None \<Rightarrow> []) | None \<Rightarrow> [])"

text \<open>Open for reading, with no error and no end of file yet.\<close>

definition seq_readable :: "seq_coro_file \<Rightarrow> bool" where
  "seq_readable f \<longleftrightarrow>
     seq_is_open f \<and> st_read (frw_seq_file f) \<and> st_good (frw_seq_file f) \<and> \<not> sq_eof f"

text \<open>What a short read leaves.\<close>

definition seq_at_end :: "seq_coro_file \<Rightarrow> bool" where
  "seq_at_end f \<longleftrightarrow>
     st_eofbit (frw_seq_file f) \<and> st_failbit (frw_seq_file f) \<and> \<not> st_badbit (frw_seq_file f) \<and> sq_eof f"

lemma seq_async_read_good:
  fixes n :: nat and fs :: files
  assumes "seq_readable f"
  defines "bs \<equiv> take n (drop (st_pos (frw_seq_file f)) (seq_content fs f))"
  shows "\<exists>f'. seq_async_read n fs f = (bs, Io_ok, length bs, f') \<and>
              st_path (frw_seq_file f') = st_path (frw_seq_file f) \<and> sq_file_path f' = sq_file_path f \<and>
              (if length bs < n then seq_at_end f' \<and> st_gcount (frw_seq_file f') = length bs
               else seq_readable f' \<and> st_pos (frw_seq_file f') = st_pos (frw_seq_file f) + n)"
proof -
  show ?thesis
    using assms(1) unfolding bs_def seq_async_read_def fstream_read_def seq_readable_def
    by (auto simp: seq_content_def[symmetric] Let_def st_good_def st_ok_def after_failure_def seq_at_end_def seq_is_open_def)
qed

text \<open>reading \<open>n\<close> bytes at a time until \<^verbatim>\<open>eof()\<close> gives the rest of the file, in one read more than there are full
  chunks in it, without an error.
\<close>

theorem read_until_eof_content:
  assumes "seq_readable f" "0 < n" "st_pos (frw_seq_file f) \<le> length (seq_content fs f)"
    and "(length (seq_content fs f) - st_pos (frw_seq_file f)) div n < fuel"
  shows "\<exists>f'. read_until_eof fuel n fs f = Some (drop (st_pos (frw_seq_file f)) (seq_content fs f), f') \<and> seq_at_end f'"
  using assms
proof (induction fuel arbitrary: f)
  case (Suc fuel)
  let ?pos = "st_pos (frw_seq_file f)" and ?content = "seq_content fs f"
  let ?bs = "take n (drop ?pos ?content)"
  obtain f1 where f1: "seq_async_read n fs f = (?bs, Io_ok, length ?bs, f1)"
    "st_path (frw_seq_file f1) = st_path (frw_seq_file f)"
    "if length ?bs < n then seq_at_end f1 \<and> st_gcount (frw_seq_file f1) = length ?bs
     else seq_readable f1 \<and> st_pos (frw_seq_file f1) = ?pos + n"
    using seq_async_read_good[OF Suc.prems(1), of n fs] by meson
  have content: "seq_content fs f1 = ?content" using f1(2) by (simp add: seq_content_def)
  show ?case
  proof (cases "length ?bs < n")
    case True
    then have "?bs = drop ?pos ?content" by simp
    with True f1 show ?thesis by (auto simp: seq_at_end_def)
  next
    case False
    with f1(3) have step: "seq_readable f1" "st_pos (frw_seq_file f1) = ?pos + n" by simp_all
    have le: "?pos + n \<le> length ?content" using False Suc.prems(2,3) by (simp add: min_def split: if_splits)
    then have "(length ?content - (?pos + n)) div n < fuel"
      using Suc.prems(2,4) by (simp add: le_div_geq)
    then obtain f' where "read_until_eof fuel n fs f1 = Some (drop (?pos + n) ?content, f')" "seq_at_end f'"
      using Suc.IH[of f1] step Suc.prems(2) le by (auto simp: content)
    moreover have "?bs @ drop (?pos + n) ?content = drop ?pos ?content"
      by (metis add.commute append_take_drop_id drop_drop)
    ultimately show ?thesis using f1(1) step(1) by (auto simp: seq_readable_def)
  qed
qed simp

text \<open>the end of the file is final for the object: further reads succeed with nothing; a write reports the count of the last
  read as success and writes nothing; \<^verbatim>\<open>seek\<close> fails, and after it every read is an error; and when the object is
  closed and opened again the flag is still set, so a loop until \<^verbatim>\<open>eof()\<close> ends after its first read.
\<close>

theorem seq_eof_is_final:
  assumes "seq_readable f" "seq_async_read n fs f = (bs, Io_ok, k, f')" "length bs < n"
  shows "fst (seq_async_read m fs' f') = [] \<and> fst (snd (seq_async_read m fs' f')) = Io_ok \<and>
         fst (snd (snd (seq_async_read m fs' f'))) = 0 \<and>
         fst (seq_async_write out fs' f') = fs' \<and> fst (snd (seq_async_write out fs' f')) = Io_ok \<and>
         fst (snd (snd (seq_async_write out fs' f'))) = length bs \<and>
         fst (seq_seek offset dir fs' f') = False \<and>
         fst (snd (seq_async_read m fs' (snd (seq_seek offset dir fs' f')))) = Io_error \<and>
         (fs' path = Some content \<longrightarrow>
            (\<exists>f''. seq_open path {In} fs' (seq_close f') = (True, fs', f'') \<and>
                   map_option fst (read_until_eof 1 m fs' f'') = Some (take m content)))"
proof -
  have f': "seq_at_end f'" "st_gcount (frw_seq_file f') = length bs" "seq_is_open f'"
    using seq_async_read_good[OF assms(1), of n fs] assms by (auto simp: seq_readable_def seq_is_open_def)
  have reads: "seq_async_read m fs' f' = ([], Io_ok, 0, f'\<lparr>frw_seq_file := (frw_seq_file f')\<lparr>st_failbit := True, st_gcount := 0\<rparr>, sq_eof := True\<rparr>)"
    using f'(1) by (auto simp: seq_async_read_def fstream_read_def st_good_def st_ok_def after_failure_def seq_at_end_def)
  have writes: "seq_async_write out fs' f' = (fs', Io_ok, length bs, f'\<lparr>frw_seq_file := (frw_seq_file f')\<lparr>st_failbit := True\<rparr>, sq_eof := True\<rparr>)"
    using f'(1,2) by (auto simp: seq_async_write_def fstream_write_def st_good_def st_ok_def after_failure_def seq_at_end_def)
  have seeks: "seq_seek offset dir fs' f' =
      (False, f'\<lparr>frw_seq_file := (frw_seq_file f')\<lparr>st_eofbit := False, st_failbit := True\<rparr>\<rparr>)"
    using f'(1,3) by (auto simp: seq_seek_def fstream_seekg_def st_good_def st_ok_def seq_at_end_def Let_def)
  have error: "fst (snd (seq_async_read m fs' (snd (seq_seek offset dir fs' f')))) = Io_error"
    unfolding seeks by (auto simp: seq_async_read_def fstream_read_def st_good_def st_ok_def after_failure_def)
  have "\<exists>f''. seq_open path {In} fs' (seq_close f') = (True, fs', f'') \<and>
              map_option fst (read_until_eof 1 m fs' f'') = Some (take m content)" if "fs' path = Some content"
    using f' that
    by (auto simp: seq_open_def seq_close_def open_stream_file_in_pool_def seq_is_open_def fstream_open_def fopen_mode_of_def
        seq_at_end_def seq_async_read_def fstream_read_def st_good_def st_ok_def after_failure_def Let_def)
  with reads writes seeks error show ?thesis by simp
qed

text \<open>A file of five bytes, read three at a time.\<close>

definition five_bytes :: files where
  "five_bytes = [''f'' \<mapsto> [1, 2, 3, 4, 5]]"

definition five_open :: seq_coro_file where
  "five_open = snd (snd (seq_open ''f'' {In} five_bytes seq_coro_file_new))"

lemma five_open_facts:
  "seq_readable five_open" "st_pos (frw_seq_file five_open) = 0" "seq_content five_bytes five_open = [1, 2, 3, 4, 5]"
  by (simp_all add: five_open_def five_bytes_def seq_open_def open_stream_file_in_pool_def seq_is_open_def seq_coro_file_new_def
      fstream_new_def fstream_open_def fopen_mode_of_def seq_readable_def st_good_def seq_content_def)

theorem read_until_eof_content_witness:
  "\<exists>f'. read_until_eof 2 3 five_bytes five_open = Some ([1, 2, 3, 4, 5], f') \<and> seq_at_end f'"
  using read_until_eof_content[of five_open 3 five_bytes 2] by (simp add: five_open_facts)

theorem seq_eof_is_final_witness:
  "\<exists>k f'. seq_async_read 8 five_bytes five_open = ([1, 2, 3, 4, 5], Io_ok, k, f') \<and>
          seq_async_write [9] five_bytes f' = (five_bytes, Io_ok, 5, snd (snd (snd (seq_async_write [9] five_bytes f')))) \<and>
          fst (seq_seek 0 Beg five_bytes f') = False"
proof -
  obtain f' where f': "seq_async_read 8 five_bytes five_open = ([1, 2, 3, 4, 5], Io_ok, 5, f')"
    using seq_async_read_good[OF five_open_facts(1), of 8 five_bytes] by (auto simp: five_open_facts)
  from seq_eof_is_final[OF five_open_facts(1) f', of 8 five_bytes "[9]" 0 Beg] f' show ?thesis
    by (auto simp: prod_eq_iff)
qed

section \<open>The flags\<close>

text \<open>The table at the top of the source: the flags of \<^verbatim>\<open>open\<close> for a mode of \<^verbatim>\<open>fopen\<close>.\<close>

definition fopen_flags :: "fopen_mode \<Rightarrow> u32" where
  "fopen_flags m =
     (case m of
        Mode_r \<Rightarrow> O_RDONLY
      | Mode_w \<Rightarrow> O_WRONLY OR O_CREAT OR O_TRUNC
      | Mode_a \<Rightarrow> O_WRONLY OR O_CREAT OR O_APPEND
      | Mode_rp \<Rightarrow> O_RDWR
      | Mode_wp \<Rightarrow> O_RDWR OR O_CREAT OR O_TRUNC
      | Mode_ap \<Rightarrow> O_RDWR OR O_CREAT OR O_APPEND)"

lemma openmode_eq:
  "mode = mode' \<longleftrightarrow>
     (In \<in> mode \<longleftrightarrow> In \<in> mode') \<and> (Out \<in> mode \<longleftrightarrow> Out \<in> mode') \<and> (App \<in> mode \<longleftrightarrow> App \<in> mode') \<and>
     (Trunc \<in> mode \<longleftrightarrow> Trunc \<in> mode') \<and> (Ate \<in> mode \<longleftrightarrow> Ate \<in> mode') \<and> (Binary \<in> mode \<longleftrightarrow> Binary \<in> mode')"
proof (standard, simp)
  assume members: "(In \<in> mode \<longleftrightarrow> In \<in> mode') \<and> (Out \<in> mode \<longleftrightarrow> Out \<in> mode') \<and> (App \<in> mode \<longleftrightarrow> App \<in> mode') \<and>
     (Trunc \<in> mode \<longleftrightarrow> Trunc \<in> mode') \<and> (Ate \<in> mode \<longleftrightarrow> Ate \<in> mode') \<and> (Binary \<in> mode \<longleftrightarrow> Binary \<in> mode')"
  have "x \<in> mode \<longleftrightarrow> x \<in> mode'" for x
    using members by (cases x) simp_all
  then show "mode = mode'" by blast
qed

text \<open>
  For a set of flags that names a mode of \<^verbatim>\<open>fopen\<close>, \<^verbatim>\<open>to_flags\<close> gives what the table in the source says for the five combinations
  it spells out and for those that mean \<^verbatim>\<open>r+\<close>; for every other one, so for \<^verbatim>\<open>out\<close> alone, all that append without \<^verbatim>\<open>in | out\<close>,
  and with \<^verbatim>\<open>binary\<close> or \<^verbatim>\<open>ate\<close>, it gives something else.
\<close>

theorem to_flags_table:
  assumes "fopen_mode_of mode = Some m"
  shows "to_flags mode = fopen_flags m \<longleftrightarrow>
           mode \<in> {{In}, {Out, Trunc}, {In, Out, Trunc}, {In, Out, App}} \<or> m = Mode_rp"
proof -
  define X where "X = mode - {Ate, Binary}"
  have "(X, m) \<in> {({In}, Mode_r), ({Out}, Mode_w), ({Out, Trunc}, Mode_w), ({App}, Mode_a), ({Out, App}, Mode_a),
      ({In, Out}, Mode_rp), ({In, Out, Trunc}, Mode_wp), ({In, App}, Mode_ap), ({In, Out, App}, Mode_ap)}"
    using assms unfolding fopen_mode_of_def X_def[symmetric] Let_def by (simp split: if_splits)
  moreover have "mode = X \<or> mode = insert Ate X \<or> mode = insert Binary X \<or> mode = insert Ate (insert Binary X)"
    by (auto simp: X_def)
  ultimately show ?thesis
    by (elim insertE emptyE disjE Pair_inject; hypsubst; simp add: openmode_eq to_flags_def fopen_flags_def create_write_trunc_def
        create_read_write_trunc_def create_read_write_append_def Let_def)
qed

theorem to_flags_table_witness:
  "to_flags {Out} \<noteq> fopen_flags Mode_w \<and> to_flags {In} = fopen_flags Mode_r"
  using to_flags_table[of "{Out}" Mode_w] to_flags_table[of "{In}" Mode_r] by (simp add: fopen_mode_of_def openmode_eq)

section \<open>Random access\<close>

lemma write_at_nth:
  "length (write_at pos bs content) = max (length content) (pos + length bs)"
  "i < max (length content) (pos + length bs) \<Longrightarrow>
     write_at pos bs content ! i =
       (if pos \<le> i \<and> i < pos + length bs then bs ! (i - pos) else if i < length content then content ! i else 0)"
  by (auto simp: write_at_def nth_append min_def)

lemma write_at_read: "take (length bs) (drop pos (write_at pos bs content)) = bs"
  by (simp add: write_at_def)

text \<open>what was written at an offset of a file opened for reading and writing is read back there, the bytes before and
  after are as they were, a gap reads as zeros, and neither call touches the end-of-file flag; the count survives its passage
  through 32 bits because the system transfers at most \<open>0x7ffff000\<close> bytes at once.
\<close>

theorem random_file_roundtrip:
  assumes "prw_random_file f = Some fd" "sys_fds s fd = Some (path, flags)" "sys_files s path = Some content"
    and "may_read flags" "may_write flags" "flags AND O_APPEND = 0" "0 \<le> sint offset"
    and "bs \<noteq> []" "length bs \<le> max_transfer"
  shows "\<exists>s' content'.
           async_write_at offset bs s f = Inr (s', Io_ok, of_nat (length bs), f) \<and>
           async_read_at offset (length bs) s' f = Inr (bs, Io_ok, of_nat (length bs), f) \<and>
           sys_files s' = (sys_files s)(path \<mapsto> content') \<and>
           length content' = max (length content) (unat offset + length bs) \<and>
           (\<forall>i < length content'. i < unat offset \<or> unat offset + length bs \<le> i \<longrightarrow>
              content' ! i = (if i < length content then content ! i else 0))"
proof -
  have len: "async_prw r (int (length bs)) f = (Io_ok, of_nat (length bs), f)" for r
  proof -
    have "sint (word_of_int (int (length bs)) :: u32) = int (length bs)"
      using assms(9) by (subst signed_of_int) (simp add: signed_take_bit_int_eq_self)
    then show ?thesis using assms(8) by (simp add: async_prw_def)
  qed
  let ?content = "write_at (unat offset) bs content"
  let ?s = "s\<lparr>sys_files := (sys_files s)(path \<mapsto> ?content)\<rparr>"
  have "async_write_at offset bs s f = Inr (?s, Io_ok, of_nat (length bs), f)"
    using assms by (simp add: async_write_at_def pwrite_def len[simplified])
  moreover have "async_read_at offset (length bs) ?s f = Inr (bs, Io_ok, of_nat (length bs), f)"
    using assms by (simp add: async_read_at_def pread_def min_absorb1 write_at_read len[simplified])
  ultimately show ?thesis
    by (intro exI[of _ ?s] exI[of _ ?content]) (auto simp: write_at_nth)
qed

section \<open>Sending a file\<close>

lemma take_length_take: "take m xs = take (length (take m xs)) xs"
  by (cases "m \<le> length xs") simp_all

lemma take_two:
  "ys = take (length ys) xs \<Longrightarrow> zs = take (length zs) (drop (length ys) xs) \<Longrightarrow> ys @ zs = take (length ys + length zs) xs"
  by (metis take_add)

lemma sendfile_loop_spec:
  "sendfile_loop content offset least answers = Some (bs, ec, left) \<Longrightarrow>
     length bs \<le> least \<and> left = least - length bs \<and> bs = take (length bs) (drop offset content) \<and>
     (ec = None \<longrightarrow> left = 0 \<or> length content \<le> offset + length bs)"
proof (induction content offset least answers arbitrary: bs rule: sendfile_loop.induct)
  case (2 content offset least k answers)
  let ?bs = "take (min (Suc k) (min sendfile_chunk least)) (drop offset content)"
  have len: "length ?bs \<le> least" "?bs = take (length ?bs) (drop offset content)" by (simp, rule take_length_take)
  show ?case
  proof (cases "length ?bs = 0 \<or> least - length ?bs = 0")
    case True
    have eq: "?bs = bs \<and> None = ec \<and> least - length ?bs = left"
      using 2(2) unfolding sendfile_loop.simps Let_def if_P[OF True] option.inject prod.inject .
    have "length ?bs = 0 \<Longrightarrow> length content \<le> offset \<or> least = 0"
      by (auto simp: sendfile_chunk_def min_def split: if_splits)
    then have "length bs = 0 \<Longrightarrow> length content \<le> offset \<or> least = 0" by (simp only: eq)
    moreover have "length bs \<le> least" "bs = take (length bs) (drop offset content)" "length bs = 0 \<or> least - length bs = 0"
      using len True unfolding conjunct1[OF eq] .
    moreover have "left = least - length bs" using eq by (simp only: conjunct1[OF eq])
    ultimately show ?thesis by linarith
  next
    case False
    then obtain rest where rest: "bs = ?bs @ rest"
      "sendfile_loop content (offset + length ?bs) (least - length ?bs) answers = Some (rest, ec, left)"
      using 2(2) unfolding sendfile_loop.simps Let_def if_not_P[OF False] by auto
    define d where "d = length ?bs"
    have "length rest \<le> least - d \<and> left = least - d - length rest \<and>
          rest = take (length rest) (drop (offset + d) content) \<and>
          (ec = None \<longrightarrow> left = 0 \<or> length content \<le> offset + d + length rest)"
      unfolding d_def using 2(1)[OF refl refl refl False rest(2)] .
    moreover from this have "rest = take (length rest) (drop (length ?bs) (drop offset content))"
      by (simp only: drop_drop add.commute d_def)
    from take_two[OF len(2) this] have "bs = take (length bs) (drop offset content)"
      using take_length_take rest(1) by metis
    moreover have "length bs = d + length rest" "d \<le> least" by (simp_all add: rest(1) d_def)
    ultimately show ?thesis by linarith
  qed
qed (auto split: if_splits)

fun is_send :: "sendfile_answer \<Rightarrow> bool" where
  "is_send (Sends k) = True"
| "is_send _ = False"

lemma sendfile_loop_returns:
  "least < length (filter is_send answers) \<Longrightarrow> \<exists>r. sendfile_loop content offset least answers = Some r"
proof (induction content offset least answers rule: sendfile_loop.induct)
  case (2 content offset least k answers)
  let ?bs = "take (min (Suc k) (min sendfile_chunk least)) (drop offset content)"
  show ?case
  proof (cases "length ?bs = 0 \<or> least - length ?bs = 0")
    case False
    then have "least - length ?bs < length (filter is_send answers)" using 2(2) by simp linarith
    from 2(1)[OF refl refl refl False this] show ?thesis
      unfolding sendfile_loop.simps Let_def if_not_P[OF False] by auto
  next
    case True
    show ?thesis unfolding sendfile_loop.simps Let_def if_P[OF True] by blast
  qed
qed simp_all

text \<open>C36: what \<^verbatim>\<open>async_sendfile\<close> sends is the part of the file from the offset on that its count says, at most the size asked for, and
  without an error all of it or up to the end of the file; it returns when the system goes on sending.
\<close>

theorem sendfile_sends_range:
  assumes "offset \<le> length content"
  shows "(\<forall>bs ec sent. async_sendfile None content offset n answers = Some (bs, ec, sent) \<longrightarrow>
            bs = take sent (drop offset content) \<and> length bs = sent \<and> sent \<le> n \<and>
            (ec = None \<longrightarrow> sent = min n (length content - offset))) \<and>
         (n < length (filter is_send answers) \<longrightarrow> (\<exists>r. async_sendfile None content offset n answers = Some r))"
proof (intro conjI allI impI)
  fix bs ec sent assume "async_sendfile None content offset n answers = Some (bs, ec, sent)"
  then obtain left where "sendfile_loop content offset n answers = Some (bs, ec, left)" "sent = n - left"
    by (auto simp: async_sendfile_def)
  from sendfile_loop_spec[OF this(1)] this(2)
  show "bs = take sent (drop offset content)" "length bs = sent" "sent \<le> n" by auto
  then have "sent \<le> length content - offset" by (metis length_drop length_take min.cobounded1)
  moreover assume "ec = None"
  then have "n = sent \<or> length content \<le> offset + sent"
    using sendfile_loop_spec[OF \<open>sendfile_loop content offset n answers = Some (bs, ec, left)\<close>] \<open>sent = n - left\<close> by auto
  ultimately show "sent = min n (length content - offset)" using \<open>sent \<le> n\<close> assms by auto
next
  assume "n < length (filter is_send answers)"
  then show "\<exists>r. async_sendfile None content offset n answers = Some r"
    using sendfile_loop_returns by (fastforce simp: async_sendfile_def)
qed

text \<open>The system is interrupted, sends two bytes, would block, and sends the rest in two parts.\<close>

theorem sendfile_sends_range_witness:
  "\<exists>r. async_sendfile None [1, 2, 3, 4, 5, 6] 1 4 [Interrupted, Sends 1, Would_block None, Sends 0, Sends 7, Sends 7, Sends 7] = Some r \<and>
       fst r = [2, 3, 4, 5]"
proof -
  let ?a = "[Interrupted, Sends 1, Would_block None, Sends 0, Sends 7, Sends 7, Sends 7]"
  have "1 \<le> length [1, 2, 3, 4, 5, 6 :: u8]" by simp
  from sendfile_sends_range[OF this, of 4 ?a]
  obtain r where r: "async_sendfile None [1, 2, 3, 4, 5, 6] 1 4 ?a = Some r" by auto
  obtain bs ec sent where bs: "r = (bs, ec, sent)" by (metis prod_cases3)
  have "ec = None" using r by (auto simp: bs async_sendfile_def sendfile_chunk_def)
  with sendfile_sends_range[OF \<open>1 \<le> length [1, 2, 3, 4, 5, 6 :: u8]\<close>, of 4 ?a] r show ?thesis by (auto simp: bs)
qed

text \<open>A file open for reading and writing: two bytes written past the end of one.\<close>

theorem random_file_roundtrip_witness:
  "\<exists>s' content'.
     async_write_at 3 [7, 8] \<lparr>sys_files = [''f'' \<mapsto> [1]], sys_fds = [5 \<mapsto> (''f'', O_RDWR)], sys_next_fd = 6\<rparr>
       \<lparr>prw_random_file = Some 5, rd_file_path = ''f'', rd_eof = False\<rparr> =
       Inr (s', Io_ok, 2, \<lparr>prw_random_file = Some 5, rd_file_path = ''f'', rd_eof = False\<rparr>) \<and>
     sys_files s' ''f'' = Some content' \<and> length content' = 5 \<and> content' ! 2 = 0"
  using random_file_roundtrip[of "\<lparr>prw_random_file = Some 5, rd_file_path = ''f'', rd_eof = False\<rparr>" 5
      "\<lparr>sys_files = [''f'' \<mapsto> [1]], sys_fds = [5 \<mapsto> (''f'', O_RDWR)], sys_next_fd = 6\<rparr>" "''f''" O_RDWR "[1]" 3 "[7, 8]"]
  by (fastforce simp: may_read_def may_write_def)

end
