(* ===== verification/Client_Queue.thy ===== *)
theory Client_Queue
  imports Prelude
begin

text \<open>
  The idle clients of a pool, \<^verbatim>\<open>src/coro_apps/coro_io/detail/client_queue.hpp\<close>, with the parts of
  \<^verbatim>\<open>client_pool::enqueue\<close> and \<^verbatim>\<open>collect_idle_timeout_client\<close> that start and end the collector: two
  concurrent queues with their sizes, the index of the one that takes new clients, and the number of
  collectors. The vendored concurrent queue is its contract: \<^verbatim>\<open>try_dequeue\<close> takes some element or none;
  which one is the parameter \<open>pick\<close>, and whether \<^verbatim>\<open>enqueue\<close> finds memory is the parameter \<open>ok\<close>. First
  the operations as one thread runs them, then one step per atomic access.
\<close>

section \<open>The concurrent queue, by its contract\<close>

type_synonym 'c pick = "'c list \<Rightarrow> nat option"

definition queue_try_dequeue :: "'c pick \<Rightarrow> 'c list \<Rightarrow> ('c \<times> 'c list) option" where
  "queue_try_dequeue pick q =
     (case pick q of
        None \<Rightarrow> None
      | Some k \<Rightarrow> if k < length q then Some (q ! k, take k q @ drop (Suc k) q) else None)"

fun queue_try_dequeue_bulk :: "'c pick \<Rightarrow> nat \<Rightarrow> 'c list \<Rightarrow> nat \<times> 'c list" where
  "queue_try_dequeue_bulk pick 0 q = (0, q)"
| "queue_try_dequeue_bulk pick (Suc m) q =
     (case queue_try_dequeue pick q of
        None \<Rightarrow> (0, q)
      | Some (_, q) \<Rightarrow> (let (n, q) = queue_try_dequeue_bulk pick m q in (Suc n, q)))"

text \<open>A thread that is alone gets an element whenever there is one.\<close>

definition pick_complete :: "'c pick \<Rightarrow> bool" where
  "pick_complete pick \<longleftrightarrow> (\<forall>q. q \<noteq> [] \<longrightarrow> (\<exists>k < length q. pick q = Some k))"

section \<open>State\<close>

record 'c client_queue =
  cq_queue :: "'c list list"
  cq_selected_index :: nat
  cq_size :: "u64 list"
  cq_collecter_cnt :: u64

definition client_queue_new :: "'c client_queue" where
  "client_queue_new = \<lparr>cq_queue = [[], []], cq_selected_index = 0, cq_size = [0, 0], cq_collecter_cnt = 0\<rparr>"

definition client_queue_size :: "'c client_queue \<Rightarrow> u64" where
  "client_queue_size q = cq_size q ! 0 + cq_size q ! 1"

abbreviation set_size :: "nat \<Rightarrow> u64 \<Rightarrow> 'c client_queue \<Rightarrow> 'c client_queue" where
  "set_size i n q \<equiv> q\<lparr>cq_size := (cq_size q)[i := n]\<rparr>"

abbreviation set_queue :: "nat \<Rightarrow> 'c list \<Rightarrow> 'c client_queue \<Rightarrow> 'c client_queue" where
  "set_queue i xs q \<equiv> q\<lparr>cq_queue := (cq_queue q)[i := xs]\<rparr>"

section \<open>The operations of one thread\<close>

definition reselect :: "'c client_queue \<Rightarrow> 'c client_queue" where
  "reselect q = q\<lparr>cq_selected_index := cq_selected_index q XOR 1\<rparr>"

definition client_queue_enqueue :: "bool \<Rightarrow> 'c \<Rightarrow> 'c client_queue \<Rightarrow> u64 \<times> 'c client_queue" where
  "client_queue_enqueue ok c q =
     (let index = cq_selected_index q;
          cnt = cq_size q ! index + 1;
          q = set_size index cnt q
      in if ok then (cnt, set_queue index (cq_queue q ! index @ [c]) q)
         else (0, set_size index (cq_size q ! index - 1) q))"

definition try_dequeue_half :: "'c pick \<Rightarrow> nat \<Rightarrow> 'c client_queue \<Rightarrow> ('c \<times> 'c client_queue) option" where
  "try_dequeue_half pick index q =
     (case queue_try_dequeue pick (cq_queue q ! index) of
        None \<Rightarrow> None
      | Some (c, xs) \<Rightarrow> Some (c, set_size index (cq_size q ! index - 1) (set_queue index xs q)))"

definition client_queue_try_dequeue :: "'c pick \<Rightarrow> 'c client_queue \<Rightarrow> 'c option \<times> 'c client_queue" where
  "client_queue_try_dequeue pick q =
     (let index = cq_selected_index q in
      case (if cq_size q ! (index XOR 1) \<noteq> 0 then try_dequeue_half pick (index XOR 1) q else None) of
        Some (c, q) \<Rightarrow> (Some c, q)
      | None \<Rightarrow>
          (case try_dequeue_half pick index q of
             Some (c, q) \<Rightarrow> (Some c, q)
           | None \<Rightarrow> (None, q)))"

definition clear_old :: "'c pick \<Rightarrow> nat \<Rightarrow> 'c client_queue \<Rightarrow> nat \<times> 'c client_queue" where
  "clear_old pick max_clear_cnt q =
     (let index = cq_selected_index q XOR 1 in
      if cq_size q ! index \<noteq> 0
      then (let (result, xs) = queue_try_dequeue_bulk pick max_clear_cnt (cq_queue q ! index)
            in (result, set_size index (cq_size q ! index - of_nat result) (set_queue index xs q)))
      else (0, q))"

text \<open>
  The inner loop of the collector, and its turn from the end of one sleep to the start of the next. Every
  call of \<^verbatim>\<open>clear_old\<close> that goes on drops a client, so the number of clients is enough fuel.
\<close>

fun clear_loop :: "'c pick \<Rightarrow> nat \<Rightarrow> nat \<Rightarrow> 'c client_queue \<Rightarrow> 'c client_queue option" where
  "clear_loop pick clear_cnt 0 q = None"
| "clear_loop pick clear_cnt (Suc fuel) q =
     (let (is_all_cleared, q) = clear_old pick clear_cnt q
      in if is_all_cleared \<noteq> 0 then clear_loop pick clear_cnt fuel q else Some q)"

text \<open>
  A turn of the outer loop, from the end of the sleep to \<^verbatim>\<open>reselect\<close> before the next sleep, when the collector
  goes on.
\<close>

definition collector_turn :: "'c pick \<Rightarrow> nat \<Rightarrow> 'c client_queue \<Rightarrow> 'c client_queue option" where
  "collector_turn pick clear_cnt q =
     map_option reselect (clear_loop pick clear_cnt (Suc (length (cq_queue q ! (cq_selected_index q XOR 1)))) q)"

text \<open>Calls one after the other, with the clients they hand out.\<close>

datatype 'c cq_call = Call_enqueue 'c | Call_try_dequeue

primrec cq_call_run :: "'c pick \<Rightarrow> 'c cq_call \<Rightarrow> 'c client_queue \<Rightarrow> 'c list \<times> 'c client_queue" where
  "cq_call_run pick (Call_enqueue c) q = ([], snd (client_queue_enqueue True c q))"
| "cq_call_run pick Call_try_dequeue q =
     (case client_queue_try_dequeue pick q of (None, q) \<Rightarrow> ([], q) | (Some c, q) \<Rightarrow> ([c], q))"

primrec cq_calls_run :: "'c pick \<Rightarrow> 'c cq_call list \<Rightarrow> 'c client_queue \<Rightarrow> 'c list \<times> 'c client_queue" where
  "cq_calls_run pick [] q = ([], q)"
| "cq_calls_run pick (c # cs) q =
     (let (out, q) = cq_call_run pick c q; (out', q) = cq_calls_run pick cs q in (out @ out', q))"

definition clients_of :: "'c client_queue \<Rightarrow> 'c list" where
  "clients_of q = concat (cq_queue q)"

section \<open>One step per atomic access\<close>

text \<open>
  Where a thread stands: in \<^verbatim>\<open>client_pool::enqueue\<close> (\<open>E\<close>), in \<^verbatim>\<open>try_dequeue\<close> (\<open>D\<close>), in the collector (\<open>C\<close>), or
  done, with the client that was handed out.
\<close>

datatype 'c cq_pc =
    E_index 'c
  | E_inc 'c nat
  | E_push 'c nat u64
  | E_undo nat
  | E_cas
  | D_index
  | D_check nat
  | D_first nat
  | D_first_dec nat 'c
  | D_second nat
  | D_second_dec nat 'c
  | C_reselect
  | C_sleep
  | C_check nat
  | C_bulk nat
  | C_sub nat nat
  | C_dec
  | C_size0
  | C_size1 u64
  | C_cas
  | Cq_done "'c option"

text \<open>
  A step of the collector: its next place, the queue, and the collectors it starts. While it sleeps or
  yields it just does not step.
\<close>

fun collector_thread :: "'c pick \<Rightarrow> nat \<Rightarrow> 'c cq_pc \<Rightarrow> 'c client_queue \<Rightarrow> 'c cq_pc \<times> 'c client_queue \<times> 'c cq_pc list" where
  "collector_thread pick clear_cnt C_reselect q = (C_sleep, reselect q, [])"
| "collector_thread pick clear_cnt C_sleep q = (C_check (cq_selected_index q XOR 1), q, [])"
| "collector_thread pick clear_cnt (C_check i) q = (if cq_size q ! i \<noteq> 0 then C_bulk i else C_dec, q, [])"
| "collector_thread pick clear_cnt (C_bulk i) q =
     (let (n, xs) = queue_try_dequeue_bulk pick clear_cnt (cq_queue q ! i)
      in (C_sub i n, set_queue i xs q, []))"
| "collector_thread pick clear_cnt (C_sub i n) q =
     (if n \<noteq> 0 then C_sleep else C_dec, set_size i (cq_size q ! i - of_nat n) q, [])"
| "collector_thread pick clear_cnt C_dec q = (C_size0, q\<lparr>cq_collecter_cnt := cq_collecter_cnt q - 1\<rparr>, [])"
| "collector_thread pick clear_cnt C_size0 q = (C_size1 (cq_size q ! 0), q, [])"
| "collector_thread pick clear_cnt (C_size1 n) q =
     (if n + cq_size q ! 1 = 0 then Cq_done None else C_cas, q, [])"
| "collector_thread pick clear_cnt C_cas q =
     (if cq_collecter_cnt q = 0 then (C_reselect, q\<lparr>cq_collecter_cnt := 1\<rparr>, []) else (Cq_done None, q, []))"
| "collector_thread pick clear_cnt pc q = (pc, q, [])"

text \<open>A step of any thread.\<close>

fun cq_thread :: "bool \<Rightarrow> 'c pick \<Rightarrow> nat \<Rightarrow> 'c cq_pc \<Rightarrow> 'c client_queue \<Rightarrow> 'c cq_pc \<times> 'c client_queue \<times> 'c cq_pc list" where
  "cq_thread ok pick clear_cnt (E_index c) q = (E_inc c (cq_selected_index q), q, [])"
| "cq_thread ok pick clear_cnt (E_inc c i) q =
     (E_push c i (cq_size q ! i + 1), set_size i (cq_size q ! i + 1) q, [])"
| "cq_thread ok pick clear_cnt (E_push c i cnt) q =
     (if ok then (if cnt = 1 then E_cas else Cq_done None, set_queue i (cq_queue q ! i @ [c]) q, [])
      else (E_undo i, q, []))"
| "cq_thread ok pick clear_cnt (E_undo i) q = (Cq_done None, set_size i (cq_size q ! i - 1) q, [])"
| "cq_thread ok pick clear_cnt E_cas q =
     (if cq_collecter_cnt q = 0 then (Cq_done None, q\<lparr>cq_collecter_cnt := 1\<rparr>, [C_reselect])
      else (Cq_done None, q, []))"
| "cq_thread ok pick clear_cnt D_index q = (D_check (cq_selected_index q), q, [])"
| "cq_thread ok pick clear_cnt (D_check i) q =
     (if cq_size q ! (i XOR 1) \<noteq> 0 then D_first i else D_second i, q, [])"
| "cq_thread ok pick clear_cnt (D_first i) q =
     (case queue_try_dequeue pick (cq_queue q ! (i XOR 1)) of
        Some (c, xs) \<Rightarrow> (D_first_dec (i XOR 1) c, set_queue (i XOR 1) xs q, [])
      | None \<Rightarrow> (D_second i, q, []))"
| "cq_thread ok pick clear_cnt (D_first_dec i c) q = (Cq_done (Some c), set_size i (cq_size q ! i - 1) q, [])"
| "cq_thread ok pick clear_cnt (D_second i) q =
     (case queue_try_dequeue pick (cq_queue q ! i) of
        Some (c, xs) \<Rightarrow> (D_second_dec i c, set_queue i xs q, [])
      | None \<Rightarrow> (Cq_done None, q, []))"
| "cq_thread ok pick clear_cnt (D_second_dec i c) q = (Cq_done (Some c), set_size i (cq_size q ! i - 1) q, [])"
| "cq_thread ok pick clear_cnt pc q = collector_thread pick clear_cnt pc q"

text \<open>The queue and the threads; a call is a thread at the start of its operation.\<close>

type_synonym 'c cq_system = "'c client_queue \<times> 'c cq_pc list"

primrec cq_call_pc :: "'c cq_call \<Rightarrow> 'c cq_pc" where
  "cq_call_pc (Call_enqueue c) = E_index c"
| "cq_call_pc Call_try_dequeue = D_index"

definition cq_start :: "'c cq_call list \<Rightarrow> 'c cq_system" where
  "cq_start calls = (client_queue_new, map cq_call_pc calls)"

definition cq_step :: "bool \<Rightarrow> 'c pick \<Rightarrow> nat \<Rightarrow> nat \<Rightarrow> 'c cq_system \<Rightarrow> 'c cq_system" where
  "cq_step ok pick clear_cnt t s =
     (let (q, pcs) = s; (pc, q, new) = cq_thread ok pick clear_cnt (pcs ! t) q
      in (q, pcs[t := pc] @ new))"

text \<open>The states of a system of calls, in every interleaving; \<open>may_fail\<close> says whether memory may run out.\<close>

inductive cq_reachable :: "bool \<Rightarrow> nat \<Rightarrow> 'c cq_call list \<Rightarrow> 'c cq_system \<Rightarrow> bool"
  for may_fail clear_cnt calls where
  cq_reachable_start: "cq_reachable may_fail clear_cnt calls (cq_start calls)"
| cq_reachable_step:
    "cq_reachable may_fail clear_cnt calls s \<Longrightarrow> t < length (snd s) \<Longrightarrow> ok \<or> may_fail \<Longrightarrow>
     cq_reachable may_fail clear_cnt calls (cq_step ok pick clear_cnt t s)"

text \<open>Holding the right to collect: from the exchange to the decrement.\<close>

fun collecting :: "'c cq_pc \<Rightarrow> bool" where
  "collecting C_reselect = True"
| "collecting C_sleep = True"
| "collecting (C_check i) = True"
| "collecting (C_bulk i) = True"
| "collecting (C_sub i n) = True"
| "collecting C_dec = True"
| "collecting _ = False"

text \<open>About to try for that right, whatever happens to the clients of the half \<open>h\<close> meanwhile.\<close>

fun will_collect :: "nat \<Rightarrow> 'c cq_pc \<Rightarrow> bool" where
  "will_collect h (E_push c i cnt) \<longleftrightarrow> cnt = 1"
| "will_collect h E_cas \<longleftrightarrow> True"
| "will_collect h C_size0 \<longleftrightarrow> True"
| "will_collect h (C_size1 n) \<longleftrightarrow> n \<noteq> 0 \<or> h = 1"
| "will_collect h C_cas \<longleftrightarrow> True"
| "will_collect h _ \<longleftrightarrow> False"

fun idle_thread :: "'c cq_pc \<Rightarrow> bool" where
  "idle_thread (Cq_done r) = True"
| "idle_thread pc = collecting pc"

end
