(* ===== verification/Client_Pool.thy ===== *)
theory Client_Pool
  imports Client_Queue
begin

text \<open>
  The pool of clients to one host and the table of pools, \<^verbatim>\<open>src/coro_apps/coro_io/client_pool.hpp\<close>. The client
  type is a template parameter of the code: a record of its operations, over a type of states in which a client
  carries whatever decides how its next connection attempt ends. Sleeping has no effect but the passing of time
  and is an event; so is a connection attempt. Whether the pool still exists when a coroutine has slept, and what other
  threads do to the flag \<^verbatim>\<open>is_alive_\<close> meanwhile, are parameters.
\<close>

section \<open>State\<close>

text \<open>\<open>cl_connect\<close> gives the client afterwards, whether the result is one that \<^verbatim>\<open>is_ok\<close> accepts, and the milliseconds it took.\<close>

record ('c, 'f) client_type =
  cl_make :: "nat \<Rightarrow> 'c"
  cl_init_config :: "'f \<Rightarrow> 'c \<Rightarrow> 'c \<times> bool"
  cl_connect :: "string \<Rightarrow> 'c \<Rightarrow> 'c \<times> bool \<times> int"
  cl_has_closed :: "'c \<Rightarrow> bool"
  cl_get_config :: "'c \<Rightarrow> 'f"

record 'f pool_config =
  max_connection :: u32
  connect_retry_count :: u32
  idle_queue_per_max_clear_count :: u32
  reconnect_wait_time :: int
  idle_timeout :: int
  short_connect_idle_timeout :: int
  host_alive_detect_duration :: int
  client_config :: 'f

definition pool_config_default :: "'f \<Rightarrow> 'f pool_config" where
  "pool_config_default config =
     \<lparr>max_connection = 100, connect_retry_count = 3, idle_queue_per_max_clear_count = 1000,
      reconnect_wait_time = 1000, idle_timeout = 30000, short_connect_idle_timeout = 1000,
      host_alive_detect_duration = 30000, client_config = config\<rparr>"

text \<open>The executors of the \<^verbatim>\<open>io_context_pool\<close> are numbers; the pool hands them out in turn.\<close>

record io_context_pool =
  next_io_context :: u64
  io_contexts :: nat

definition io_context_pool_new :: "nat \<Rightarrow> io_context_pool" where
  "io_context_pool_new pool_size =
     \<lparr>next_io_context = 0, io_contexts = (if pool_size = 0 then 1 else pool_size)\<rparr>"

definition get_executor :: "io_context_pool \<Rightarrow> nat \<times> io_context_pool" where
  "get_executor io =
     (unat (next_io_context io) mod io_contexts io, io\<lparr>next_io_context := next_io_context io + 1\<rparr>)"

datatype which_queue = Free_clients | Short_connect_clients

text \<open>A collector that was started: its queue, the milliseconds it sleeps, and how many clients it drops at once.\<close>

record ('c, 'f) client_pool =
  free_clients :: "'c client_queue"
  short_connect_clients :: "'c client_queue"
  host_name :: string
  cp_config :: "'f pool_config"
  cp_io :: io_context_pool
  is_alive :: bool
  cp_collectors :: "(which_queue \<times> int \<times> nat) list"

definition client_pool_new :: "string \<Rightarrow> 'f pool_config \<Rightarrow> io_context_pool \<Rightarrow> ('c, 'f) client_pool" where
  "client_pool_new host config io =
     \<lparr>free_clients = client_queue_new, short_connect_clients = client_queue_new, host_name = host,
      cp_config = config, cp_io = io, is_alive = True, cp_collectors = []\<rparr>"

definition free_client_count :: "('c, 'f) client_pool \<Rightarrow> u64" where
  "free_client_count p = client_queue_size (free_clients p) + client_queue_size (short_connect_clients p)"

section \<open>Giving a client back\<close>

definition pool_queue :: "which_queue \<Rightarrow> ('c, 'f) client_pool \<Rightarrow> 'c client_queue" where
  "pool_queue w p = (case w of Free_clients \<Rightarrow> free_clients p | Short_connect_clients \<Rightarrow> short_connect_clients p)"

definition set_pool_queue :: "which_queue \<Rightarrow> 'c client_queue \<Rightarrow> ('c, 'f) client_pool \<Rightarrow> ('c, 'f) client_pool" where
  "set_pool_queue w q p =
     (case w of Free_clients \<Rightarrow> p\<lparr>free_clients := q\<rparr> | Short_connect_clients \<Rightarrow> p\<lparr>short_connect_clients := q\<rparr>)"

definition client_pool_enqueue :: "which_queue \<Rightarrow> 'c \<Rightarrow> int \<Rightarrow> ('c, 'f) client_pool \<Rightarrow> ('c, 'f) client_pool" where
  "client_pool_enqueue w client collect_time p =
     (let (cnt, clients) = client_queue_enqueue True client (pool_queue w p) in
      if cnt = 1 \<and> cq_collecter_cnt clients = 0
      then set_pool_queue w (clients\<lparr>cq_collecter_cnt := 1\<rparr>)
             (p\<lparr>cp_collectors := cp_collectors p @
                  [(w, max collect_time 50, unat (idle_queue_per_max_clear_count (cp_config p)))]\<rparr>)
      else set_pool_queue w clients p)"

definition collect_free_client ::
    "('c, 'f) client_type \<Rightarrow> 'c \<Rightarrow> ('c, 'f) client_pool \<Rightarrow> ('c, 'f) client_pool" where
  "collect_free_client ct client p =
     (if \<not> cl_has_closed ct client
      then (if client_queue_size (free_clients p) < ucast (max_connection (cp_config p))
            then client_pool_enqueue Free_clients client (idle_timeout (cp_config p)) p
            else client_pool_enqueue Short_connect_clients client (short_connect_idle_timeout (cp_config p)) p)
           \<lparr>is_alive := True\<rparr>
      else p)"

section \<open>Connecting\<close>

text \<open>What a coroutine of the pool does outside it. \<^verbatim>\<open>rand_time\<close> draws from a range and is a parameter.\<close>

datatype pool_event = Ev_connect | Ev_sleep int | Ev_alive_detect

definition sleep_event :: "int \<Rightarrow> pool_event list" where
  "sleep_event wait_time = (if wait_time > 0 then [Ev_sleep wait_time] else [])"

text \<open>
  The loop of \<^verbatim>\<open>reconnect\<close>. The counter starts as \<^verbatim>\<open>UINT32_MAX\<close>, so \<open>i + 1\<close> is the number of attempts before this
  one; \<open>locked n\<close> says whether the pool still exists after the \<open>n\<close>-th sleep, and reading through the null
  pointer when it does not is undefined.
\<close>

function reconnect_loop ::
    "('c, 'f) client_type \<Rightarrow> string \<Rightarrow> 'f pool_config \<Rightarrow> (int \<Rightarrow> int) \<Rightarrow> (nat \<Rightarrow> bool) \<Rightarrow> u32 \<Rightarrow> 'c \<Rightarrow>
     ('c \<times> bool) outcome \<times> pool_event list" where
  "reconnect_loop ct host config rand_time locked i client =
     (let (client, ok, cost_time) = cl_connect ct host client in
      if ok then (Inr (client, True), [Ev_connect])
      else (let wait_time = rand_time (reconnect_wait_time config - cost_time);
                events = Ev_connect # sleep_event wait_time;
                i = i + 1
            in if \<not> locked (unat i) then (Inl Undefined_behaviour, events)
               else if i < connect_retry_count config
               then (let (r, more) = reconnect_loop ct host config rand_time locked i client in (r, events @ more))
               else (Inr (client, False), events)))"
  by pat_completeness auto

termination
proof (relation "measure (\<lambda>(ct, host, config, rand_time, locked, i, client). unat (connect_retry_count config - (i + 1)))")
  fix config :: "'f pool_config" and i j :: u32
  assume j: "j = i + 1" and less: "j < connect_retry_count config"
  have "unat (connect_retry_count config) < 2 ^ LENGTH(32)" by (rule unsigned_less)
  with less have "unat (j + 1) = unat j + 1"
    by (subst unat_plus_small) (auto simp: word_less_nat_alt)
  with less have "unat (connect_retry_count config - (j + 1)) < unat (connect_retry_count config - (i + 1))"
    unfolding j[symmetric] by (subst (1 2) unat_sub) (auto simp: word_le_nat_alt word_less_nat_alt)
  then show "((ct, host, config, rand_time, locked, j, c), (ct, host, config, rand_time, locked, i, client))
               \<in> measure (\<lambda>(ct, host, config, rand_time, locked, i, client). unat (connect_retry_count config - (i + 1)))"
    for ct host rand_time locked c client
    by simp
qed simp

declare reconnect_loop.simps [simp del]

text \<open>
  \<^verbatim>\<open>alive_detect\<close> up to its first attempt, which is what \<^verbatim>\<open>start\<close> runs at once: the client it will try with,
  when it becomes the one coroutine that does.
\<close>

definition alive_detect_start ::
    "('c, 'f) client_type \<Rightarrow> 'f \<Rightarrow> ('c, 'f) client_pool \<Rightarrow> 'c option \<times> ('c, 'f) client_pool" where
  "alive_detect_start ct config p =
     (if host_alive_detect_duration (cp_config p) \<noteq> 0 \<and> free_client_count p = 0
      then (if \<not> is_alive p then (None, p)
            else (let p = p\<lparr>is_alive := False\<rparr> in
                  if free_client_count p > 0 then (None, p\<lparr>is_alive := True\<rparr>)
                  else (let (executor, io) = get_executor (cp_io p);
                            p = p\<lparr>cp_io := io\<rparr>;
                            (client, ok) = cl_init_config ct config (cl_make ct executor)
                        in if \<not> ok then (None, p) else (Some client, p))))
      else (None, p))"

text \<open>
  Its loop, from attempt \<open>n\<close> on: \<open>found\<close> and \<open>woken\<close> say whether another thread has set \<^verbatim>\<open>is_alive_\<close> by the test after the
  attempt and by the one after the sleep.
\<close>

partial_function (option) alive_detect_loop ::
    "('c, 'f) client_type \<Rightarrow> (int \<Rightarrow> int) \<Rightarrow> (nat \<Rightarrow> bool) \<Rightarrow> (nat \<Rightarrow> bool) \<Rightarrow> (nat \<Rightarrow> bool) \<Rightarrow> nat \<Rightarrow> 'c \<Rightarrow> ('c, 'f) client_pool \<Rightarrow>
     pool_event list \<Rightarrow> (('c, 'f) client_pool outcome \<times> pool_event list) option" where
  "alive_detect_loop ct rand_time locked found woken n client p events =
     (let (client, ok, cost_time) = cl_connect ct (host_name p) client;
          events = events @ [Ev_connect]
      in if ok then Some (Inr ((collect_free_client ct client p)\<lparr>is_alive := True\<rparr>), events)
         else if is_alive p \<or> found n then Some (Inr (p\<lparr>is_alive := True\<rparr>), events)
         else (let events = events @ sleep_event (rand_time (host_alive_detect_duration (cp_config p) - cost_time))
               in if \<not> locked n then Some (Inl Undefined_behaviour, events)
                  else if is_alive p \<or> woken n then Some (Inr (p\<lparr>is_alive := True\<rparr>), events)
                  else alive_detect_loop ct rand_time locked found woken (Suc n) client p events))"

text \<open>
  What \<^verbatim>\<open>reconnect\<close> and \<^verbatim>\<open>get_client\<close> give: a client, none, or an error; the client \<^verbatim>\<open>alive_detect\<close> goes on with, if
  it was started; the pool; the events.
\<close>

type_synonym ('r, 'c, 'f) pool_result = "'r outcome \<times> 'c option \<times> ('c, 'f) client_pool \<times> pool_event list"

definition reconnect ::
    "('c, 'f) client_type \<Rightarrow> (int \<Rightarrow> int) \<Rightarrow> (nat \<Rightarrow> bool) \<Rightarrow> 'c \<Rightarrow> ('c, 'f) client_pool \<Rightarrow> ('c option, 'c, 'f) pool_result" where
  "reconnect ct rand_time locked client p =
     (case reconnect_loop ct (host_name p) (cp_config p) rand_time locked (-1) client of
        (Inl e, events) \<Rightarrow> (Inl e, None, p, events)
      | (Inr (client, True), events) \<Rightarrow> (Inr (Some client), None, p, events)
      | (Inr (client, False), events) \<Rightarrow>
          (let (detector, p) = alive_detect_start ct (cl_get_config ct client) p
           in (Inr None, detector, p, events @ [Ev_alive_detect])))"

section \<open>Getting a client and sending a request\<close>

definition take_idle_client :: "'c pick \<Rightarrow> ('c, 'f) client_pool \<Rightarrow> 'c option \<times> ('c, 'f) client_pool" where
  "take_idle_client pick p =
     (case client_queue_try_dequeue pick (free_clients p) of
        (Some c, q) \<Rightarrow> (Some c, p\<lparr>free_clients := q\<rparr>)
      | (None, q) \<Rightarrow>
          (let (r, q') = client_queue_try_dequeue pick (short_connect_clients p)
           in (r, p\<lparr>free_clients := q, short_connect_clients := q'\<rparr>)))"

definition get_client ::
    "('c, 'f) client_type \<Rightarrow> 'c pick \<Rightarrow> (int \<Rightarrow> int) \<Rightarrow> (nat \<Rightarrow> bool) \<Rightarrow> 'f \<Rightarrow> ('c, 'f) client_pool \<Rightarrow> ('c option, 'c, 'f) pool_result" where
  "get_client ct pick rand_time locked config p =
     (case take_idle_client pick p of
        (Some client, p) \<Rightarrow> (Inr (Some client), None, p, [])
      | (None, p) \<Rightarrow>
          (let (executor, io) = get_executor (cp_io p);
               p = p\<lparr>cp_io := io\<rparr>;
               (client, ok) = cl_init_config ct config (cl_make ct executor)
           in if \<not> ok then (Inr None, None, p, [])
              else reconnect ct rand_time locked client p))"

text \<open>
  An operation on a client gives its result or throws; in either case it may change the client, which is destroyed
  when it throws.
\<close>

datatype 'r response = Response 'r | Connection_refused

type_synonym ('c, 'r) operation = "'c \<Rightarrow> 'r outcome \<times> 'c"

definition send_request ::
    "('c, 'f) client_type \<Rightarrow> 'c pick \<Rightarrow> (int \<Rightarrow> int) \<Rightarrow> (nat \<Rightarrow> bool) \<Rightarrow> ('c, 'r) operation \<Rightarrow> 'f \<Rightarrow> ('c, 'f) client_pool \<Rightarrow>
     ('r response, 'c, 'f) pool_result" where
  "send_request ct pick rand_time locked op config p =
     (case get_client ct pick rand_time locked config p of
        (Inl e, rest) \<Rightarrow> (Inl e, rest)
      | (Inr None, rest) \<Rightarrow> (Inr Connection_refused, rest)
      | (Inr (Some client), detector, p, events) \<Rightarrow>
          (case op client of
             (Inl e, _) \<Rightarrow> (Inl e, detector, p, events)
           | (Inr result, client) \<Rightarrow> (Inr (Response result), detector, collect_free_client ct client p, events)))"

text \<open>Requests one after the other, with what each gave and did; \<open>locked\<close> is about the pool of each request.\<close>

primrec send_requests ::
    "('c, 'f) client_type \<Rightarrow> 'c pick \<Rightarrow> (int \<Rightarrow> int) \<Rightarrow> (nat \<Rightarrow> bool) \<Rightarrow> (('c, 'r) operation \<times> 'f) list \<Rightarrow> ('c, 'f) client_pool \<Rightarrow>
     ('r response outcome \<times> pool_event list) list \<times> ('c, 'f) client_pool" where
  "send_requests ct pick rand_time locked [] p = ([], p)"
| "send_requests ct pick rand_time locked (req # reqs) p =
     (let (op, config) = req;
          (r, _, p, events) = send_request ct pick rand_time locked op config p;
          (rs, p) = send_requests ct pick rand_time locked reqs p
      in ((r, events) # rs, p))"

section \<open>The table of pools\<close>

text \<open>
  The table maps a host to its pool, a number of an address. A call of \<^verbatim>\<open>get_client_pool\<close> looks under the shared lock, makes
  a pool outside any lock, and emplaces under the exclusive lock: three steps, in any interleaving.
\<close>

datatype get_pool_pc = G_find | G_make | G_emplace nat | G_done nat

record ('c, 'f) client_pools =
  client_pool_manager :: "string \<Rightarrow> nat option"
  pool_heap :: "('c, 'f) client_pool list"
  default_pool_config :: "'f pool_config"
  cps_io :: io_context_pool

definition client_pools_new :: "'f pool_config \<Rightarrow> io_context_pool \<Rightarrow> ('c, 'f) client_pools" where
  "client_pools_new config io =
     \<lparr>client_pool_manager = (\<lambda>_. None), pool_heap = [], default_pool_config = config, cps_io = io\<rparr>"

fun get_client_pool_step ::
    "string \<Rightarrow> 'f pool_config \<Rightarrow> get_pool_pc \<Rightarrow> ('c, 'f) client_pools \<Rightarrow> get_pool_pc \<times> ('c, 'f) client_pools" where
  "get_client_pool_step host config G_find m =
     (case client_pool_manager m host of Some a \<Rightarrow> (G_done a, m) | None \<Rightarrow> (G_make, m))"
| "get_client_pool_step host config G_make m =
     (G_emplace (length (pool_heap m)), m\<lparr>pool_heap := pool_heap m @ [client_pool_new host config (cps_io m)]\<rparr>)"
| "get_client_pool_step host config (G_emplace a) m =
     (case client_pool_manager m host of
        Some a' \<Rightarrow> (G_done a', m)
      | None \<Rightarrow> (G_done a, m\<lparr>client_pool_manager := (client_pool_manager m)(host \<mapsto> a)\<rparr>))"
| "get_client_pool_step host config (G_done a) m = (G_done a, m)"

text \<open>The calls of several threads: each has its host and its configuration; a schedule says who steps.\<close>

definition get_pools_step ::
    "(string \<times> 'f pool_config) list \<Rightarrow> nat \<Rightarrow> get_pool_pc list \<times> ('c, 'f) client_pools \<Rightarrow> get_pool_pc list \<times> ('c, 'f) client_pools" where
  "get_pools_step calls t s =
     (let (pcs, m) = s; (host, config) = calls ! t; (pc, m) = get_client_pool_step host config (pcs ! t) m
      in (pcs[t := pc], m))"

definition get_pools_run ::
    "(string \<times> 'f pool_config) list \<Rightarrow> nat list \<Rightarrow> ('c, 'f) client_pools \<Rightarrow> get_pool_pc list \<times> ('c, 'f) client_pools" where
  "get_pools_run calls ts m = fold (get_pools_step calls) ts (replicate (length calls) G_find, m)"

end
