(* ===== verification/Client_Queue_Props.thy ===== *)
theory Client_Queue_Props
  imports Client_Queue
begin

text \<open>
  Two properties of the queue of idle clients: in every interleaving of calls, clients that lie in the queue are
  watched by exactly one collector or by a thread about to start one; and a client that is put in stays for
  at least one full period of the collector and is gone after the second.
\<close>

section \<open>The sizes and the collectors in every interleaving\<close>

text \<open>What a thread between two accesses adds to the size of a half, and the increments it has still to make.\<close>

fun pending :: "nat \<Rightarrow> 'c cq_pc \<Rightarrow> nat" where
  "pending h (E_push c i cnt) = of_bool (i = h)"
| "pending h (E_undo i) = of_bool (i = h)"
| "pending h (D_first_dec i c) = of_bool (i = h)"
| "pending h (D_second_dec i c) = of_bool (i = h)"
| "pending h (C_sub i n) = (if i = h then n else 0)"
| "pending h _ = 0"

fun fresh :: "'c cq_pc \<Rightarrow> nat" where
  "fresh (E_index c) = 1"
| "fresh (E_inc c i) = 1"
| "fresh _ = 0"

fun seen_size :: "'c cq_pc \<Rightarrow> nat" where
  "seen_size (C_size1 n) = unat n"
| "seen_size _ = 0"

fun pc_index_ok :: "'c cq_pc \<Rightarrow> bool" where
  "pc_index_ok (E_inc c i) \<longleftrightarrow> i < 2"
| "pc_index_ok (E_push c i cnt) \<longleftrightarrow> i < 2"
| "pc_index_ok (E_undo i) \<longleftrightarrow> i < 2"
| "pc_index_ok (D_check i) \<longleftrightarrow> i < 2"
| "pc_index_ok (D_first i) \<longleftrightarrow> i < 2"
| "pc_index_ok (D_first_dec i c) \<longleftrightarrow> i < 2"
| "pc_index_ok (D_second i) \<longleftrightarrow> i < 2"
| "pc_index_ok (D_second_dec i c) \<longleftrightarrow> i < 2"
| "pc_index_ok (C_check i) \<longleftrightarrow> i < 2"
| "pc_index_ok (C_bulk i) \<longleftrightarrow> i < 2"
| "pc_index_ok (C_sub i n) \<longleftrightarrow> i < 2"
| "pc_index_ok _ \<longleftrightarrow> True"

definition queue_wf :: "'c client_queue \<Rightarrow> bool" where
  "queue_wf q \<longleftrightarrow> length (cq_queue q) = 2 \<and> length (cq_size q) = 2 \<and> cq_selected_index q < 2"

text \<open>
  The invariant as one thread sees it: \<open>R\<close>, \<open>F\<close>, \<open>T\<close> and \<open>W\<close> are what the others add to the sizes, have
  still to increment, collect, and will collect.
\<close>

definition thread_inv ::
    "nat \<Rightarrow> (nat \<Rightarrow> nat) \<Rightarrow> nat \<Rightarrow> nat \<Rightarrow> (nat \<Rightarrow> bool) \<Rightarrow> nat \<Rightarrow> 'c cq_pc \<Rightarrow> 'c client_queue \<Rightarrow> bool" where
  "thread_inv N R F T W extra pc q \<longleftrightarrow>
     queue_wf q \<and> pc_index_ok pc \<and>
     (\<forall>h < 2. unat (cq_size q ! h) = length (cq_queue q ! h) + pending h pc + R h) \<and>
     unat (cq_collecter_cnt q) = of_bool (collecting pc) + extra + T \<and> of_bool (collecting pc) + extra + T \<le> 1 \<and>
     unat (cq_size q ! 0) + unat (cq_size q ! 1) + fresh pc + F \<le> N \<and>
     seen_size pc + unat (cq_size q ! 1) + fresh pc + F \<le> N \<and>
     (\<forall>h < 2. cq_size q ! h \<noteq> 0 \<longrightarrow> cq_collecter_cnt q = 1 \<or> will_collect h pc \<or> W h)"

lemma all_less_2: "(\<forall>h < (2 :: nat). P h) \<longleftrightarrow> P 0 \<and> P 1"
  by (auto simp: less_2_cases_iff)

lemma xor_1_less_2: "i < 2 \<Longrightarrow> (i XOR 1 :: nat) < 2" "i < 2 \<Longrightarrow> (i XOR Suc 0 :: nat) < 2"
  by (auto simp: less_2_cases_iff)

lemma queue_try_dequeue_length: "queue_try_dequeue pick q = Some (c, xs) \<Longrightarrow> length q = Suc (length xs)"
  by (auto simp: queue_try_dequeue_def split: option.splits if_splits)

lemma queue_try_dequeue_bulk_length: "queue_try_dequeue_bulk pick m q = (n, xs) \<Longrightarrow> length q = n + length xs"
  by (induction pick m q arbitrary: n xs rule: queue_try_dequeue_bulk.induct)
    (auto dest!: queue_try_dequeue_length split: option.splits prod.splits)

lemma unat_inc: "unat (x :: u64) + 1 < 2 ^ 64 \<Longrightarrow> unat (x + 1) = unat x + 1"
  by (subst unat_plus_small) auto

lemma unat_dec: "0 < unat (x :: u64) \<Longrightarrow> unat (x - 1) = unat x - 1"
  by (rule unat_minus_one_word) (auto simp: unat_gt_0)

lemma unat_less_2_64: "unat (x :: u64) < 2 ^ 64"
  using unsigned_less[of x] by simp

lemma unat_sub_of_nat:
  assumes "n \<le> unat (x :: u64)"
  shows "unat (x - of_nat n) = unat x - n"
proof -
  have "unat x < 2 ^ 64" by (rule unat_less_2_64)
  with assms have "n < 2 ^ 64" by simp
  then have "unat (of_nat n :: u64) = n" by (simp add: unat_of_nat)
  with assms show ?thesis by (simp add: unat_sub word_le_nat_alt)
qed

lemma queue_wfE:
  assumes "queue_wf q"
  obtains a b s t i c where "q = \<lparr>cq_queue = [a, b], cq_selected_index = i, cq_size = [s, t], cq_collecter_cnt = c\<rparr>"
    and "i = 0 \<or> i = 1"
  using assms unfolding queue_wf_def
  by (cases q) (auto simp: numeral_2_eq_2 length_Suc_conv less_Suc_eq)

lemma clients_of_wf: "queue_wf q \<Longrightarrow> clients_of q = cq_queue q ! 0 @ cq_queue q ! 1"
  by (auto elim!: queue_wfE simp: clients_of_def)

lemma unat_le_1: "unat (x :: u64) \<le> 1 \<Longrightarrow> x = 0 \<or> x = 1"
  by (metis One_nat_def le_Suc_eq le_zero_eq unat_0 unat_1 word_unat_eq_iff)

lemmas thread_simps = thread_inv_def queue_wf_def all_less_2

lemma thread_step_inv:
  assumes inv: "thread_inv N R F T W 0 pc q" and N: "N < 2 ^ 64"
  shows "case cq_thread True pick k pc q of
           (pc', q', new) \<Rightarrow> thread_inv N R F T W (length new) pc' q' \<and> (new = [] \<or> new = [C_reselect]) \<and>
             unat (cq_size q' ! 1) + fresh pc' \<le> unat (cq_size q ! 1) + fresh pc"
proof -
  have "queue_wf q" using inv by (simp add: thread_inv_def)
  then obtain a b s t i c where q: "q = \<lparr>cq_queue = [a, b], cq_selected_index = i, cq_size = [s, t], cq_collecter_cnt = c\<rparr>"
    and i: "i = 0 \<or> i = 1"
    by (rule queue_wfE)
  note facts = inv[unfolded thread_inv_def q queue_wf_def all_less_2]
  have "unat c \<le> 1" using facts by simp
  then have c: "c = 0 \<or> c = 1" by (rule unat_le_1)
  show ?thesis
  proof (cases pc)
    case (E_index x1) 
    then show ?thesis using facts i by (auto simp add: q thread_simps)
  next
    case (E_inc x j)
    then have "j = 0 \<or> j = 1" using facts by auto
    then show ?thesis using facts E_inc N by (elim disjE) (auto simp add: q thread_simps unat_inc)
  next
    case (E_push x31 x32 x33)
    then have "x32 = 0 \<or> x32 = 1" using facts by auto
    then show ?thesis using facts E_push by (elim disjE) (auto simp: thread_simps q)
  next
    case (E_undo x4)
    then have "x4 = 0 \<or> x4 = 1" using facts by auto
    then show ?thesis using facts E_undo by (elim disjE) (auto simp: thread_simps q unat_dec)
  next
    case E_cas
    then show ?thesis using facts c by (auto simp add: q thread_simps)
  next
    case D_index
    then show ?thesis using facts i by (auto simp: thread_simps q)
  next
    case (D_check x7)
    then show ?thesis using facts by (auto simp: thread_simps q)
  next
    case (D_first x8)
    then have "x8 = 0 \<or> x8 = 1" using facts by auto
    then show ?thesis using facts D_first
     by (elim disjE) (auto simp: q thread_simps dest!: queue_try_dequeue_length split: option.splits prod.splits)
  next
    case (D_first_dec x8)
    then have "x8 = 0 \<or> x8 = 1" using facts by auto
    then show ?thesis using facts D_first_dec
     by (elim disjE) (auto simp: q thread_simps unat_dec)
  next
    case (D_second x10)
    then have "x10 = 0 \<or> x10 = 1" using facts by auto
    then show ?thesis using facts D_second
     by (elim disjE) (auto simp: q thread_simps dest!: queue_try_dequeue_length split: option.splits prod.splits)
  next
    case (D_second_dec x111 x112)
    then have "x111 = 0 \<or> x111 = 1" using facts by auto
    then show ?thesis using facts D_second_dec
     by (elim disjE) (auto simp: q thread_simps unat_dec)
  next
    case C_reselect
    then show ?thesis using facts i by (auto simp: thread_simps q reselect_def)
  next
    case C_sleep
    then show ?thesis using facts i by (auto simp: thread_simps q)
  next
    case (C_check x14)
    then show ?thesis using facts by (auto simp: thread_simps q)
  next
    case (C_bulk x15)
    then have "x15 = 0 \<or> x15 = 1" using facts by auto
    then show ?thesis using facts C_bulk
     by (elim disjE) (auto simp: thread_simps q dest!: queue_try_dequeue_bulk_length split: prod.splits)
  next
    case (C_sub x161 x162)
    then have "x161 = 0 \<or> x161 = 1" using facts by auto
    then show ?thesis using facts C_sub
      by (elim disjE) (auto simp: thread_simps q unat_sub_of_nat)
  next
    case C_dec
    then show ?thesis using facts c by (auto simp: thread_simps q)
  next
    case C_size0
    then show ?thesis using facts by (auto simp: thread_simps q)
  next
    case (C_size1 n)
    then have "unat n + unat t < 2 ^ 64" using facts N by simp
    then have "n + t = 0 \<longleftrightarrow> n = 0 \<and> t = 0" by (simp add: word_unat_eq_iff unat_plus_small)
    with C_size1 show ?thesis using facts by (auto simp: thread_simps q)
  next
    case C_cas
    then show ?thesis using facts c by (auto simp: thread_simps q)
  next
    case (Cq_done x21)
    then show ?thesis using facts by (auto simp: thread_simps q)
  qed
qed

definition over_threads :: "('c cq_pc \<Rightarrow> nat) \<Rightarrow> 'c cq_pc list \<Rightarrow> nat" where
  "over_threads f pcs = sum_list (map f pcs)"

abbreviation collectors :: "'c cq_pc list \<Rightarrow> nat" where
  "collectors \<equiv> over_threads (\<lambda>pc. of_bool (collecting pc))"

lemma over_threads_simps [simp]:
  "over_threads f [] = 0" "over_threads f (pc # pcs) = f pc + over_threads f pcs" "over_threads f (pcs @ pcs') = over_threads f pcs + over_threads f pcs'"
  by (simp_all add: over_threads_def)

definition cq_inv :: "nat \<Rightarrow> 'c cq_system \<Rightarrow> bool" where
  "cq_inv N s \<longleftrightarrow>
     (let (q, pcs) = s in
      queue_wf q \<and>
      (\<forall>h < 2. unat (cq_size q ! h) = length (cq_queue q ! h) + over_threads (pending h) pcs) \<and>
      unat (cq_collecter_cnt q) = collectors pcs \<and> collectors pcs \<le> 1 \<and>
      unat (cq_size q ! 0) + unat (cq_size q ! 1) + over_threads fresh pcs \<le> N \<and>
      (\<forall>pc \<in> set pcs. pc_index_ok pc \<and> seen_size pc + unat (cq_size q ! 1) + over_threads fresh pcs \<le> N) \<and>
      (\<forall>h < 2. cq_size q ! h \<noteq> 0 \<longrightarrow> cq_collecter_cnt q = 1 \<or> (\<exists>pc \<in> set pcs. will_collect h pc)))"

text \<open>The same, seen by one thread.\<close>

lemma cq_inv_split:
  "cq_inv N (q, xs @ pc # ys) \<longleftrightarrow>
     thread_inv N (\<lambda>h. over_threads (pending h) (xs @ ys)) (over_threads fresh (xs @ ys)) (collectors (xs @ ys))
       (\<lambda>h. \<exists>p \<in> set (xs @ ys). will_collect h p) 0 pc q \<and>
     (\<forall>p \<in> set (xs @ ys). pc_index_ok p \<and> seen_size p + (unat (cq_size q ! 1) + fresh pc) + over_threads fresh (xs @ ys) \<le> N)"
  unfolding cq_inv_def thread_inv_def
  by (auto simp: add.assoc add.left_commute)

lemma cq_inv_thread:
  assumes inv: "cq_inv N (q, xs @ pc # ys)" and N: "N < 2 ^ 64"
    and step: "cq_thread True pick k pc q = (pc', q', new)"
  shows "cq_inv N (q', xs @ pc' # (ys @ new))"
proof -
  let ?O = "\<lambda>ys. thread_inv N (\<lambda>h. over_threads (pending h) (xs @ ys)) (over_threads fresh (xs @ ys)) (collectors (xs @ ys))
              (\<lambda>h. \<exists>p \<in> set (xs @ ys). will_collect h p)"
  have before: "?O ys 0 pc q"
    and others: "\<forall>p \<in> set (xs @ ys). pc_index_ok p \<and> seen_size p + (unat (cq_size q ! 1) + fresh pc) + over_threads fresh (xs @ ys) \<le> N"
    using inv[unfolded cq_inv_split] by blast+
  have new: "new = [] \<or> new = [C_reselect]" and after: "?O ys (length new) pc' q'"
    and less: "unat (cq_size q' ! 1) + fresh pc' \<le> unat (cq_size q ! 1) + fresh pc"
    using thread_step_inv[OF before N, of pick k] step by simp_all
  have "?O (ys @ new) 0 pc' q'"
    using after new by (auto simp: thread_inv_def)
  moreover have "\<forall>p \<in> set (xs @ ys). pc_index_ok p \<and> seen_size p + (unat (cq_size q' ! 1) + fresh pc') + over_threads fresh (xs @ ys) \<le> N"
    using others less by fastforce
  then have "\<forall>p \<in> set (xs @ (ys @ new)). pc_index_ok p \<and> seen_size p + (unat (cq_size q' ! 1) + fresh pc') + over_threads fresh (xs @ (ys @ new)) \<le> N"
    using new after by (auto simp: thread_inv_def)
  ultimately show ?thesis by (simp only: cq_inv_split)
qed

lemma cq_inv_step:
  assumes "cq_inv N s" "N < 2 ^ 64" "t < length (snd s)"
  shows "cq_inv N (cq_step True pick k t s)"
proof -
  obtain q pcs where s: "s = (q, pcs)" by force
  with assms(3) have t: "t < length pcs" by simp
  obtain pc' q' new where step: "cq_thread True pick k (pcs ! t) q = (pc', q', new)" by (metis prod_cases3)
  have "cq_inv N (q, take t pcs @ pcs ! t # drop (Suc t) pcs)"
    using assms(1) by (simp add: s id_take_nth_drop[OF t, symmetric])
  from cq_inv_thread[OF this assms(2) step] show ?thesis
    by (simp add: cq_step_def s step upd_conv_take_nth_drop[OF t])
qed

lemma over_threads_start: "over_threads (pending h) (map cq_call_pc calls) = 0" "collectors (map cq_call_pc calls) = 0"
  "over_threads fresh (map cq_call_pc calls) \<le> length calls"
proof (induction calls)
  case (Cons c calls)
  { case 1 with Cons show ?case by (cases c) simp_all
  next case 2 with Cons show ?case by (cases c) simp_all
  next case 3 with Cons show ?case by (cases c) simp_all }
qed simp_all

lemma cq_inv_start: "cq_inv (length calls) (cq_start calls)"
proof -
  have "pc_index_ok (cq_call_pc c) \<and> seen_size (cq_call_pc c) = 0" for c :: "'a cq_call" by (cases c) simp_all
  then show ?thesis
    using over_threads_start[where calls = calls]
    by (auto simp: cq_inv_def cq_start_def client_queue_new_def queue_wf_def all_less_2)
qed

lemma cq_reachable_inv:
  assumes "cq_reachable False k calls s" "length calls < 2 ^ 64"
  shows "cq_inv (length calls) s"
  using assms by induction (auto intro: cq_inv_start cq_inv_step)

text \<open>C13: in every interleaving of enqueues and dequeues at most one collector runs, the counter of collectors is
  right, no size is below the number of clients it counts, and while clients lie idle either a collector runs or
  some thread is about to try to become it; so once no thread is between two accesses outside the collector's
  loop, idle clients are watched by exactly one collector.
\<close>

theorem collector_watches_clients:
  assumes "cq_reachable False clear_cnt calls (q, pcs)" "length calls < 2 ^ 64"
  shows "unat (cq_collecter_cnt q) = collectors pcs \<and> collectors pcs \<le> 1 \<and>
         (\<forall>h < 2. length (cq_queue q ! h) \<le> unat (cq_size q ! h)) \<and>
         (\<forall>h < 2. cq_queue q ! h \<noteq> [] \<longrightarrow> collectors pcs = 1 \<or> (\<exists>pc \<in> set pcs. will_collect h pc)) \<and>
         ((\<forall>pc \<in> set pcs. idle_thread pc) \<and> clients_of q \<noteq> [] \<longrightarrow> collectors pcs = 1)"
proof -
  have inv: "cq_inv (length calls) (q, pcs)" using cq_reachable_inv[OF assms] .
  then have sizes: "length (cq_queue q ! h) \<le> unat (cq_size q ! h)" if "h < 2" for h
    using that by (simp add: cq_inv_def)
  have watched: "collectors pcs = 1 \<or> (\<exists>pc \<in> set pcs. will_collect h pc)" if "h < 2" "cq_queue q ! h \<noteq> []" for h
  proof -
    have "cq_size q ! h \<noteq> 0" using sizes[OF that(1)] that(2) by auto
    with inv that(1) show ?thesis by (fastforce simp: cq_inv_def)
  qed
  have idle: "\<not> will_collect h pc" if "idle_thread pc" for h and pc :: "'a cq_pc"
    using that by (cases pc) simp_all
  have wf: "queue_wf q" using inv by (simp add: cq_inv_def)
  have "collectors pcs = 1" if "\<forall>pc \<in> set pcs. idle_thread pc" "clients_of q \<noteq> []"
    using that watched[of 0] watched[of 1] idle clients_of_wf[OF wf] by auto
  with inv sizes watched show ?thesis by (auto simp: cq_inv_def)
qed

text \<open>The states of one enqueue that runs alone.\<close>

lemma one_enqueue_reachable:
  "cq_reachable False 1 [Call_enqueue (7 :: nat)]
     (\<lparr>cq_queue = [[7], []], cq_selected_index = 0, cq_size = [1, 0], cq_collecter_cnt = 1\<rparr>, [Cq_done None, C_reselect])"
proof -
  let ?p = "\<lambda>_. None"
  have "cq_reachable False 1 [Call_enqueue (7 :: nat)]
     (cq_step True ?p 1 0 (cq_step True ?p 1 0 (cq_step True ?p 1 0 (cq_step True ?p 1 0 (cq_start [Call_enqueue 7])))))"
    by (intro cq_reachable.intros) (simp_all add: cq_step_def cq_start_def client_queue_new_def)
  then show ?thesis by (simp add: cq_step_def cq_start_def client_queue_new_def)
qed

theorem collector_watches_clients_witness:
  "collectors [Cq_done None, C_reselect :: nat cq_pc] = 1"
  using collector_watches_clients[OF one_enqueue_reachable] by (simp add: clients_of_def)

text \<open>
  When the queue runs out of memory the client of another call may be left without a collector: its increment
  was the second, and the first call, which saw 1, fails.
\<close>

lemma failed_enqueue_strands_client:
  "cq_reachable True 1 [Call_enqueue (7 :: nat), Call_enqueue 8]
     (\<lparr>cq_queue = [[8], []], cq_selected_index = 0, cq_size = [1, 0], cq_collecter_cnt = 0\<rparr>, [Cq_done None, Cq_done None])"
proof -
  let ?s = "\<lambda>ok. cq_step ok (\<lambda>_. None) 1"
  have "cq_reachable True 1 [Call_enqueue (7 :: nat), Call_enqueue 8]
     (?s False 0 (?s False 0 (?s True 1 (?s True 1 (?s True 1 (?s True 0 (?s True 0 (cq_start [Call_enqueue 7, Call_enqueue 8]))))))))"
    by (intro cq_reachable.intros) (simp_all add: cq_step_def cq_start_def client_queue_new_def)
  then show ?thesis by (simp add: cq_step_def cq_start_def client_queue_new_def)
qed

section \<open>How long a client stays idle\<close>

text \<open>With no call under way the sizes are the lengths; \<open>m\<close> more enqueues do not wrap them.\<close>

definition settled :: "nat \<Rightarrow> 'c client_queue \<Rightarrow> bool" where
  "settled m q \<longleftrightarrow> queue_wf q \<and> (\<forall>h < 2. unat (cq_size q ! h) = length (cq_queue q ! h)) \<and>
     length (clients_of q) + m < 2 ^ 64"

lemma queue_try_dequeue_set: "queue_try_dequeue pick q = Some (c, xs) \<Longrightarrow> set q = insert c (set xs)"
proof (clarsimp simp: queue_try_dequeue_def split: option.splits if_splits)
  fix k assume "k < length q"
  then show "set q = insert (q ! k) (set (take k q) \<union> set (drop (Suc k) q))"
    by (metis Un_insert_right id_take_nth_drop list.simps(15) set_append)
qed

lemma queue_try_dequeue_complete:
  "pick_complete pick \<Longrightarrow> queue_try_dequeue pick q = None \<longleftrightarrow> q = []"
  unfolding pick_complete_def queue_try_dequeue_def by (cases "q = []") (force split: option.splits)+

lemma queue_try_dequeue_bulk_complete:
  "pick_complete pick \<Longrightarrow> 0 < m \<Longrightarrow> q \<noteq> [] \<Longrightarrow> 0 < fst (queue_try_dequeue_bulk pick m q)"
  using queue_try_dequeue_complete[of pick q] by (cases m) (auto split: prod.splits option.splits)


lemma settled_size_0: "settled m q \<Longrightarrow> h < 2 \<Longrightarrow> cq_size q ! h = 0 \<longleftrightarrow> cq_queue q ! h = []"
  unfolding settled_def by (metis length_0_conv unat_eq_zero)

lemma settledE:
  assumes "settled m q"
  obtains a b s t i c where
    "q = \<lparr>cq_queue = [a, b], cq_selected_index = i, cq_size = [s, t], cq_collecter_cnt = c\<rparr>"
    "unat s = length a" "unat t = length b" "length a + length b + m < 2 ^ 64" "i = 0 \<or> i = 1"
proof -
  have "queue_wf q" using assms by (simp add: settled_def)
  then show thesis
    by (rule queue_wfE, intro that) (use assms in \<open>auto simp: settled_def all_less_2 clients_of_def\<close>)
qed

lemma settledI:
  assumes "unat s = length a" "unat t = length b" "length a + length b + m < 2 ^ 64" "i = 0 \<or> i = 1"
  shows "settled m \<lparr>cq_queue = [a, b], cq_selected_index = i, cq_size = [s, t], cq_collecter_cnt = c\<rparr>"
  using assms by (auto simp: settled_def queue_wf_def all_less_2 clients_of_def)

text \<open>What a call does: it keeps the selected half, loses nothing, and adds only to that half.\<close>

definition keeps :: "'c list \<Rightarrow> 'c set \<Rightarrow> 'c client_queue \<Rightarrow> 'c client_queue \<Rightarrow> bool" where
  "keeps out added q q' \<longleftrightarrow>
     cq_selected_index q' = cq_selected_index q \<and>
     (\<forall>h < 2. set (cq_queue q ! h) \<subseteq> set (cq_queue q' ! h) \<union> set out \<and>
             set (cq_queue q' ! h) \<subseteq> set (cq_queue q ! h) \<union> (if h = cq_selected_index q then added else {}))"

lemma enqueue_keeps:
  assumes "settled (Suc m) q" "client_queue_enqueue True c q = (n, q')"
  shows "settled m q' \<and> keeps [] {c} q q' \<and> c \<in> set (cq_queue q' ! cq_selected_index q)"
  using assms(1)
proof (rule settledE)
  fix a b s t i k
  assume q: "q = \<lparr>cq_queue = [a, b], cq_selected_index = i, cq_size = [s, t], cq_collecter_cnt = k\<rparr>"
    and "unat s = length a" "unat t = length b" "length a + length b + Suc m < 2 ^ 64" "i = 0 \<or> i = 1"
  with assms(2) show ?thesis
    by (auto simp: client_queue_enqueue_def Let_def q keeps_def all_less_2 unat_inc intro!: settledI)
qed

lemma try_dequeue_half_keeps:
  assumes "settled m q" "i < 2" "try_dequeue_half pick i q = Some (c, q')"
  shows "settled m q' \<and> keeps [c] {} q q'"
  using assms(1)
proof (rule settledE)
  fix a b s t j k
  assume q: "q = \<lparr>cq_queue = [a, b], cq_selected_index = j, cq_size = [s, t], cq_collecter_cnt = k\<rparr>"
    and "unat s = length a" "unat t = length b" "length a + length b + m < 2 ^ 64" "j = 0 \<or> j = 1"
  moreover have "i = 0 \<or> i = 1" using assms(2) by auto
  ultimately show ?thesis using assms(3)
    by (elim disjE)
      (auto simp: try_dequeue_half_def q keeps_def all_less_2 unat_dec
            dest: queue_try_dequeue_length queue_try_dequeue_set intro!: settledI split: option.splits)
qed

lemma keeps_refl: "keeps out added q q"
  by (simp add: keeps_def)

lemma call_keeps:
  assumes "settled (Suc m) q" "cq_call_run pick call q = (out, q')"
  shows "settled m q' \<and> keeps out {c. call = Call_enqueue c} q q'"
proof (cases call)
  case (Call_enqueue c)
  with assms show ?thesis by (cases "client_queue_enqueue True c q") (auto dest: enqueue_keeps)
next
  case Call_try_dequeue
  have "settled m q" "cq_selected_index q < 2" using assms(1) by (simp_all add: settled_def queue_wf_def)
  define first where "first = (if cq_size q ! (cq_selected_index q XOR 1) \<noteq> 0
                               then try_dequeue_half pick (cq_selected_index q XOR 1) q else None)"
  define second where "second = try_dequeue_half pick (cq_selected_index q) q"
  have half: "settled m q1 \<and> keeps [c] {} q q1" if "first = Some (c, q1) \<or> second = Some (c, q1)" for c q1
    using that try_dequeue_half_keeps[OF \<open>settled m q\<close> \<open>cq_selected_index q < 2\<close>]
      try_dequeue_half_keeps[OF \<open>settled m q\<close> xor_1_less_2(1)[OF \<open>cq_selected_index q < 2\<close>]]
    unfolding first_def second_def by (auto split: if_splits)
  have "cq_call_run pick call q =
          (case first of Some (c, q) \<Rightarrow> ([c], q) | None \<Rightarrow> (case second of Some (c, q) \<Rightarrow> ([c], q) | None \<Rightarrow> ([], q)))"
    unfolding Call_try_dequeue cq_call_run.simps client_queue_try_dequeue_def Let_def
      first_def[symmetric] second_def[symmetric]
    by (cases first; cases second) auto
  with assms(2) half \<open>settled m q\<close> show ?thesis
    by (cases first; cases second) (auto simp: Call_try_dequeue keeps_refl)
qed

lemma calls_keep:
  assumes "settled (length calls + m) q" "cq_calls_run pick calls q = (out, q')"
  shows "settled m q' \<and> keeps out {c. Call_enqueue c \<in> set calls} q q'"
  using assms
proof (induction calls arbitrary: q out)
  case (Cons call calls)
  obtain out1 q1 where 1: "cq_call_run pick call q = (out1, q1)" by force
  obtain out2 where 2: "cq_calls_run pick calls q1 = (out2, q')" "out = out1 @ out2"
    using Cons.prems(2) 1 by (auto split: prod.splits)
  have "settled (length calls + m) q1 \<and> keeps out1 {c. call = Call_enqueue c} q q1"
    using call_keeps[OF _ 1] Cons.prems(1) by simp
  moreover from this have "settled m q' \<and> keeps out2 {c. Call_enqueue c \<in> set calls} q1 q'"
    using Cons.IH 2(1) by blast
  ultimately show ?case
    unfolding keeps_def 2(2) by (auto split: if_splits) blast+
qed (simp add: keeps_refl)

text \<open>A turn of the collector empties the old half and makes it the selected one.\<close>

lemma clear_old_settled:
  assumes "settled m q" "clear_old pick k q = (n, q')"
  shows "settled m q'"
  using assms(1)
proof (rule settledE)
  fix a b s t i c
  assume q: "q = \<lparr>cq_queue = [a, b], cq_selected_index = i, cq_size = [s, t], cq_collecter_cnt = c\<rparr>"
    and "unat s = length a" "unat t = length b" "length a + length b + m < 2 ^ 64" "i = 0 \<or> i = 1"
  then show ?thesis using assms(2)
    by (elim disjE)
      (auto simp: clear_old_def q unat_sub_of_nat dest!: queue_try_dequeue_bulk_length
            intro!: settledI split: if_splits prod.splits)
qed

lemma clear_loop_empties:
  assumes "pick_complete pick" "0 < k" "settled m q"
    and "length (cq_queue q ! (cq_selected_index q XOR 1)) < fuel"
  shows "\<exists>q'. clear_loop pick k fuel q = Some q' \<and> settled m q' \<and> cq_selected_index q' = cq_selected_index q \<and>
              cq_queue q' = (cq_queue q)[cq_selected_index q XOR 1 := []]"
  using assms(3,4)
proof (induction fuel arbitrary: q)
  case (Suc fuel)
  let ?h = "cq_selected_index q XOR 1"
  have h: "?h < 2" using Suc.prems(1) by (simp add: settled_def queue_wf_def xor_1_less_2)
  show ?case
  proof (cases "cq_queue q ! ?h = []")
    case True
    then have "clear_old pick k q = (0, q)"
      using settled_size_0[OF Suc.prems(1) h] by (simp add: clear_old_def)
    moreover have "cq_queue q = (cq_queue q)[?h := []]" using True by (metis list_update_id)
    ultimately show ?thesis using Suc.prems(1) by simp
  next
    case False
    obtain n xs where bulk: "queue_try_dequeue_bulk pick k (cq_queue q ! ?h) = (n, xs)" by force
    have n: "0 < n" using queue_try_dequeue_bulk_complete[OF assms(1,2) False] bulk by simp
    have len: "length (cq_queue q ! ?h) = n + length xs" using queue_try_dequeue_bulk_length[OF bulk] .
    obtain q1 where q1: "clear_old pick k q = (n, q1)" "cq_queue q1 = (cq_queue q)[?h := xs]"
      "cq_selected_index q1 = cq_selected_index q"
      using bulk settled_size_0[OF Suc.prems(1) h] False by (simp add: clear_old_def Let_def)
    have "length (cq_queue q) = 2" using Suc.prems(1) by (simp add: settled_def queue_wf_def)
    moreover have "settled m q1" using clear_old_settled[OF Suc.prems(1) q1(1)] .
    ultimately have "\<exists>q'. clear_loop pick k fuel q1 = Some q' \<and> settled m q' \<and> cq_selected_index q' = cq_selected_index q1 \<and>
              cq_queue q' = (cq_queue q1)[cq_selected_index q1 XOR 1 := []]"
      using Suc.prems(2) len n h by (intro Suc.IH) (simp_all add: q1)
    with n show ?thesis by (auto simp: q1)
  qed
qed simp


lemma collector_turn_empties:
  assumes "pick_complete pick" "0 < k" "settled m q"
  shows "\<exists>q'. collector_turn pick k q = Some q' \<and> settled m q' \<and>
              cq_selected_index q' = cq_selected_index q XOR 1 \<and>
              cq_queue q' = (cq_queue q)[cq_selected_index q XOR 1 := []]"
proof -
  obtain q1 where q1: "clear_loop pick k (Suc (length (cq_queue q ! (cq_selected_index q XOR 1)))) q = Some q1"
    "settled m q1" "cq_selected_index q1 = cq_selected_index q" "cq_queue q1 = (cq_queue q)[cq_selected_index q XOR 1 := []]"
    using clear_loop_empties[OF assms, of "Suc (length (cq_queue q ! (cq_selected_index q XOR 1)))"] by auto
  moreover have "settled m (reselect q1)"
    using q1(2) xor_1_less_2 by (auto simp: settled_def queue_wf_def reselect_def clients_of_def)
  ultimately show ?thesis by (simp add: collector_turn_def reselect_def)
qed

text \<open>C14: a client that is put in stays, unless it is handed out, until the collector has slept through one full
  period, whatever other calls come before; and after the second turn of the collector it is gone.
\<close>

theorem idle_client_lifetime:
  assumes "pick_complete pick" "0 < clear_cnt" "settled (Suc (length calls1 + length calls2)) q"
    and "Call_enqueue c \<notin> set calls2"
  shows "\<exists>out1 q1 q2 out2 q3 q4.
           cq_calls_run pick (Call_enqueue c # calls1) q = (out1, q1) \<and>
           collector_turn pick clear_cnt q1 = Some q2 \<and>
           cq_calls_run pick calls2 q2 = (out2, q3) \<and>
           collector_turn pick clear_cnt q3 = Some q4 \<and>
           (c \<in> set (out1 @ out2) \<or> c \<in> set (clients_of q3)) \<and> c \<notin> set (clients_of q4)"
proof -
  let ?i = "cq_selected_index q"
  define q0 where "q0 = snd (client_queue_enqueue True c q)"
  have q0: "settled (length calls1 + length calls2) q0" "cq_selected_index q0 = ?i" "c \<in> set (cq_queue q0 ! ?i)"
    using enqueue_keeps[OF assms(3), of c "fst (client_queue_enqueue True c q)" q0] by (simp_all add: q0_def keeps_def)
  obtain out1 q1 where 1: "cq_calls_run pick calls1 q0 = (out1, q1)" by force
  have q1: "settled (length calls2) q1" "keeps out1 {c. Call_enqueue c \<in> set calls1} q0 q1"
    using calls_keep[OF q0(1) 1] by blast+
  obtain q2 where 2: "collector_turn pick clear_cnt q1 = Some q2" "settled (length calls2) q2"
    "cq_selected_index q2 = cq_selected_index q1 XOR 1" "cq_queue q2 = (cq_queue q1)[cq_selected_index q1 XOR 1 := []]"
    using collector_turn_empties[OF assms(1,2) q1(1)] by auto
  obtain out2 q3 where 3: "cq_calls_run pick calls2 q2 = (out2, q3)" by force
  have q3: "settled 0 q3" "keeps out2 {c. Call_enqueue c \<in> set calls2} q2 q3"
    using calls_keep[of calls2 0 q2, OF _ 3] 2(2) by simp_all
  obtain q4 where 4: "collector_turn pick clear_cnt q3 = Some q4"
    "cq_queue q4 = (cq_queue q3)[cq_selected_index q3 XOR 1 := []]"
    using collector_turn_empties[OF assms(1,2) q3(1)] by auto
  have sel: "cq_selected_index q1 = ?i" "cq_selected_index q3 = ?i XOR 1" "?i = 0 \<or> ?i = 1"
    using q1(2) q0(2) q3(2) 2(3) assms(3) by (auto simp: keeps_def settled_def queue_wf_def)
  have wf: "queue_wf q1" "queue_wf q3" using q1(1) q3(1) by (simp_all add: settled_def)
  have halves: "?i < 2" "?i XOR 1 < 2" "?i XOR 1 \<noteq> ?i" using sel(3) by auto
  have "c \<in> set (cq_queue q1 ! ?i) \<union> set out1"
    using q1(2) q0(2,3) halves(1) by (auto simp: keeps_def)
  moreover have "cq_queue q2 ! (?i XOR 1) = []"
    using 2(4) sel(1) halves(2) wf(1) by (simp add: queue_wf_def)
  then have "c \<notin> set (cq_queue q3 ! (?i XOR 1))"
    using q3(2) halves(2) assms(4) by (auto simp: keeps_def dest!: spec[of _ "?i XOR 1"] split: if_splits)
  moreover have "c \<in> set (cq_queue q2 ! ?i) \<Longrightarrow> c \<in> set (cq_queue q3 ! ?i) \<union> set out2"
    using q3(2) halves(1) by (auto simp: keeps_def)
  moreover have "cq_queue q2 ! ?i = cq_queue q1 ! ?i" using 2(4) sel by auto
  ultimately have "c \<in> set (out1 @ out2) \<or> c \<in> set (clients_of q3)" "c \<notin> set (clients_of q4)"
    using sel halves 4(2) clients_of_wf[OF wf(2)] wf(2) by (auto elim!: queue_wfE simp: clients_of_def)
  with 1 2(1) 3 4(1) show ?thesis by (simp add: q0_def)
qed

text \<open>An empty queue, with two more clients put in, one before each turn.\<close>

theorem idle_client_lifetime_witness:
  "\<exists>out1 q1 q2 out2 q3 q4.
     cq_calls_run (\<lambda>q. if q = [] then None else Some 0) [Call_enqueue (7 :: nat), Call_enqueue 5] client_queue_new = (out1, q1) \<and>
     collector_turn (\<lambda>q. if q = [] then None else Some 0) 1 q1 = Some q2 \<and>
     cq_calls_run (\<lambda>q. if q = [] then None else Some 0) [Call_enqueue 6] q2 = (out2, q3) \<and>
     collector_turn (\<lambda>q. if q = [] then None else Some 0) 1 q3 = Some q4 \<and>
     (7 \<in> set (out1 @ out2) \<or> 7 \<in> set (clients_of q3)) \<and> 7 \<notin> set (clients_of q4)"
  by (rule idle_client_lifetime)
    (auto simp: pick_complete_def settled_def queue_wf_def client_queue_new_def clients_of_def all_less_2)

section \<open>A thread that is alone\<close>

text \<open>The steps of a call that is not interrupted are its operation.\<close>

primrec cq_alone :: "bool \<Rightarrow> 'c pick \<Rightarrow> nat \<Rightarrow> nat \<Rightarrow> 'c cq_pc \<times> 'c client_queue \<Rightarrow> 'c cq_pc \<times> 'c client_queue" where
  "cq_alone ok pick k 0 s = s"
| "cq_alone ok pick k (Suc n) s = (let (pc, q, _) = cq_thread ok pick k (fst s) (snd s) in cq_alone ok pick k n (pc, q))"

lemma enqueue_alone:
  assumes "queue_wf q"
  shows "cq_alone ok pick k 4 (E_index c, q\<lparr>cq_collecter_cnt := 1\<rparr>) =
           (Cq_done None, snd (client_queue_enqueue ok c (q\<lparr>cq_collecter_cnt := 1\<rparr>)))"
  using assms
  by (auto elim!: queue_wfE simp: client_queue_enqueue_def Let_def eval_nat_numeral split: prod.splits)

lemma try_dequeue_alone:
  assumes "queue_wf q"
  shows "cq_alone ok pick k 5 (D_index, q) =
           (let (r, q) = client_queue_try_dequeue pick q in (Cq_done r, q))"
  using assms
  by (auto elim!: queue_wfE
      simp: client_queue_try_dequeue_def try_dequeue_half_def Let_def eval_nat_numeral
      split: prod.splits option.splits)

lemma clear_old_alone:
  assumes "queue_wf q" "clear_old pick k q = (n, q')"
  shows "cq_alone ok pick k (if cq_size q ! (cq_selected_index q XOR 1) = 0 then 2 else 4) (C_sleep, q) =
           (if n \<noteq> 0 then C_sleep else C_dec, q')"
  using assms
  by (auto elim!: queue_wfE simp: clear_old_def Let_def eval_nat_numeral split: prod.splits if_splits)

end
