(* ===== verification/Client_Pool_Props.thy ===== *)
theory Client_Pool_Props
  imports Client_Pool Client_Queue_Props "HOL-Library.Multiset"
begin

text \<open>
  What the pool does for a request: an idle client or a bounded number of attempts to connect a new one, and
  where the client goes afterwards; how a pool whose host was down comes back; one pool for each host.
\<close>

section \<open>Attempts to connect\<close>

text \<open>The client before attempt \<open>n\<close>, counted from 0, and whether that attempt succeeds.\<close>

definition after_attempts :: "('c, 'f) client_type \<Rightarrow> string \<Rightarrow> nat \<Rightarrow> 'c \<Rightarrow> 'c" where
  "after_attempts ct host n = (\<lambda>c. fst (cl_connect ct host c)) ^^ n"

definition attempt_ok :: "('c, 'f) client_type \<Rightarrow> string \<Rightarrow> nat \<Rightarrow> 'c \<Rightarrow> bool" where
  "attempt_ok ct host n c = fst (snd (cl_connect ct host (after_attempts ct host n c)))"

lemma after_attempts_Suc: "after_attempts ct host n (fst (cl_connect ct host c)) = after_attempts ct host (Suc n) c"
  by (simp only: after_attempts_def funpow_Suc_right comp_def)

lemma after_attempts_0 [simp]: "after_attempts ct host 0 c = c"
  by (simp add: after_attempts_def)

lemma attempt_ok_Suc: "attempt_ok ct host n (fst (cl_connect ct host c)) = attempt_ok ct host (Suc n) c"
  by (simp add: attempt_ok_def after_attempts_Suc)

lemma attempt_ok_0: "attempt_ok ct host 0 c = fst (snd (cl_connect ct host c))"
  by (simp add: attempt_ok_def)

lemma sleep_event_no_connect [simp]: "count_list (sleep_event w) Ev_connect = 0"
  by (simp add: sleep_event_def)

text \<open>How the attempts end, the last one being attempt \<open>m\<close>.\<close>

definition attempts_end ::
    "('c, 'f) client_type \<Rightarrow> string \<Rightarrow> (nat \<Rightarrow> bool) \<Rightarrow> nat \<Rightarrow> nat \<Rightarrow> 'c \<Rightarrow> ('c \<times> bool) outcome \<Rightarrow> bool" where
  "attempts_end ct host locked limit m c r \<longleftrightarrow>
     r = (if attempt_ok ct host m c then Inr (after_attempts ct host (Suc m) c, True)
          else if \<not> locked m then Inl Undefined_behaviour
          else Inr (after_attempts ct host (Suc m) c, False)) \<and>
     (\<not> attempt_ok ct host m c \<longrightarrow> locked m \<longrightarrow> m = limit)"

lemma reconnect_loop_attempts:
  assumes "unat (i + 1) \<le> unat (connect_retry_count config)"
  shows "\<exists>m \<le> unat (connect_retry_count config) - unat (i + 1).
           (\<forall>n < m. \<not> attempt_ok ct host n c \<and> locked (unat (i + 1) + n)) \<and>
           count_list (snd (reconnect_loop ct host config rt locked i c)) Ev_connect = Suc m \<and>
           attempts_end ct host (\<lambda>n. locked (unat (i + 1) + n)) (unat (connect_retry_count config) - unat (i + 1)) m c
             (fst (reconnect_loop ct host config rt locked i c))"
  using assms
proof (induction ct host config rt locked i c rule: reconnect_loop.induct)
  case (1 ct host config rt locked i c)
  obtain c' ok cost where conn: "cl_connect ct host c = (c', ok, cost)" by (metis prod_cases3)
  have ok0: "attempt_ok ct host 0 c = ok" "after_attempts ct host (Suc 0) c = c'"
    using conn after_attempts_Suc[of ct host 0 c] by (simp_all add: attempt_ok_0)
  show ?case
  proof (cases "ok \<or> \<not> locked (unat (i + 1)) \<or> \<not> i + 1 < connect_retry_count config")
    case True
    then show ?thesis
      using ok0 conn 1(2)
      by (intro exI[of _ 0]) (auto simp: reconnect_loop.simps[of ct host config rt locked i c] attempts_end_def Let_def word_less_nat_alt)
  next
    case False
    let ?j = "i + 1"
    have less: "unat ?j < unat (connect_retry_count config)" using False by (simp add: word_less_nat_alt)
    have "unat (connect_retry_count config) < 2 ^ LENGTH(32)" by (rule unsigned_less)
    with less have j: "unat (?j + 1) = unat ?j + 1" by (subst unat_plus_small) auto
    have j2: "unat (2 + i) = Suc (unat ?j)" using j by simp
    have "\<exists>m \<le> unat (connect_retry_count config) - unat (?j + 1).
           (\<forall>n < m. \<not> attempt_ok ct host n c' \<and> locked (unat (?j + 1) + n)) \<and>
           count_list (snd (reconnect_loop ct host config rt locked ?j c')) Ev_connect = Suc m \<and>
           attempts_end ct host (\<lambda>n. locked (unat (?j + 1) + n)) (unat (connect_retry_count config) - unat (?j + 1)) m c'
             (fst (reconnect_loop ct host config rt locked ?j c'))"
      using False less j by (intro 1(1)[OF conn[symmetric]]) auto
    then obtain m where m: "m \<le> unat (connect_retry_count config) - unat (?j + 1)"
      "\<forall>n < m. \<not> attempt_ok ct host n c' \<and> locked (unat (?j + 1) + n)"
      "count_list (snd (reconnect_loop ct host config rt locked ?j c')) Ev_connect = Suc m"
      "attempts_end ct host (\<lambda>n. locked (unat (?j + 1) + n)) (unat (connect_retry_count config) - unat (?j + 1)) m c'
         (fst (reconnect_loop ct host config rt locked ?j c'))"
      by blast
    have step: "fst (reconnect_loop ct host config rt locked i c) = fst (reconnect_loop ct host config rt locked ?j c')"
      "count_list (snd (reconnect_loop ct host config rt locked i c)) Ev_connect =
         Suc (count_list (snd (reconnect_loop ct host config rt locked ?j c')) Ev_connect)"
      using False conn by (simp_all add: reconnect_loop.simps[of ct host config rt locked i c] Let_def split: prod.splits)
    have shift: "attempt_ok ct host n c' = attempt_ok ct host (Suc n) c" "after_attempts ct host n c' = after_attempts ct host (Suc n) c" for n
      using attempt_ok_Suc[of ct host n c] after_attempts_Suc[of ct host n c] conn by simp_all
    show ?thesis
    proof (intro exI[of _ "Suc m"] conjI)
      show "\<forall>n < Suc m. \<not> attempt_ok ct host n c \<and> locked (unat ?j + n)"
        using m(2) False ok0 by (auto simp: shift j j2 less_Suc_eq_0_disj)
      show "attempts_end ct host (\<lambda>n. locked (unat ?j + n)) (unat (connect_retry_count config) - unat ?j) (Suc m) c
         (fst (reconnect_loop ct host config rt locked i c))"
        using m(4) less by (auto simp: attempts_end_def step j j2 shift)
    qed (use m(1,3) step j j2 less in auto)
  qed
qed

lemma reconnect_loop_no_detect: "Ev_alive_detect \<notin> set (snd (reconnect_loop ct host config rt locked i c))"
proof (induction ct host config rt locked i c rule: reconnect_loop.induct)
  case (1 ct host config rt locked i c)
  obtain c' ok cost where conn: "cl_connect ct host c = (c', ok, cost)" by (metis prod_cases3)
  have "\<not> ok \<Longrightarrow> locked (unat (i + 1)) \<Longrightarrow> i + 1 < connect_retry_count config \<Longrightarrow>
          Ev_alive_detect \<notin> set (snd (reconnect_loop ct host config rt locked (i + 1) c'))"
    by (rule 1[OF conn[symmetric]]) auto
  with conn show ?case
    by (auto simp: reconnect_loop.simps[of ct host config rt locked i c] Let_def sleep_event_def split: prod.splits)
qed

text \<open>\<^verbatim>\<open>reconnect\<close> attempts at most one connection more than \<^verbatim>\<open>connect_retry_count\<close>: it stops at the first success
  with that client, or, when all of these fail, gives none and starts \<^verbatim>\<open>alive_detect\<close>; when the pool was
  destroyed during one of its sleeps it goes on through a null pointer.
\<close>

theorem reconnect_attempts_bounded:
  "\<exists>m \<le> unat (connect_retry_count (cp_config p)).
     count_list (snd (snd (snd (reconnect ct rt locked c p)))) Ev_connect = Suc m \<and>
     (\<forall>n < m. \<not> attempt_ok ct (host_name p) n c \<and> locked n) \<and>
     (\<not> attempt_ok ct (host_name p) m c \<and> locked m \<longrightarrow> m = unat (connect_retry_count (cp_config p))) \<and>
     fst (reconnect ct rt locked c p) =
       (if attempt_ok ct (host_name p) m c then Inr (Some (after_attempts ct (host_name p) (Suc m) c))
        else if locked m then Inr None else Inl Undefined_behaviour) \<and>
     (Ev_alive_detect \<in> set (snd (snd (snd (reconnect ct rt locked c p)))) \<longleftrightarrow> fst (reconnect ct rt locked c p) = Inr None)"
proof -
  let ?l = "reconnect_loop ct (host_name p) (cp_config p) rt locked (-1) c"
  have "\<exists>m \<le> unat (connect_retry_count (cp_config p)). (\<forall>n < m. \<not> attempt_ok ct (host_name p) n c \<and> locked n) \<and>
          count_list (snd ?l) Ev_connect = Suc m \<and>
          attempts_end ct (host_name p) locked (unat (connect_retry_count (cp_config p))) m c (fst ?l)"
    using reconnect_loop_attempts[where i = "-1" and config = "cp_config p" and host = "host_name p"] by simp
  then obtain m where m: "m \<le> unat (connect_retry_count (cp_config p))"
    "\<forall>n < m. \<not> attempt_ok ct (host_name p) n c \<and> locked n" "count_list (snd ?l) Ev_connect = Suc m"
    "attempts_end ct (host_name p) locked (unat (connect_retry_count (cp_config p))) m c (fst ?l)"
    by blast
  obtain r ev where l: "?l = (r, ev)" by force
  have "Ev_alive_detect \<notin> set ev"
    using reconnect_loop_no_detect[of ct "host_name p" "cp_config p" rt locked "-1" c] by (simp add: l)
  with m show ?thesis
    by (intro exI[of _ m]) (auto simp: reconnect_def attempts_end_def l split: prod.splits)
qed

text \<open>A client that is a counter of its attempts, the third of which succeeds.\<close>

definition third_time :: "(nat, unit) client_type" where
  "third_time =
     \<lparr>cl_make = (\<lambda>_. 0), cl_init_config = (\<lambda>_ c. (c, True)), cl_connect = (\<lambda>_ c. (Suc c, 2 \<le> c, 5)),
      cl_has_closed = (\<lambda>_. False), cl_get_config = (\<lambda>_. ())\<rparr>"

lemma third_time_attempts: "after_attempts third_time host n c = c + n" "attempt_ok third_time host n c \<longleftrightarrow> 2 \<le> c + n"
proof -
  show "after_attempts third_time host n c = c + n" for n c
    by (induction n) (simp_all add: after_attempts_def third_time_def)
  then show "attempt_ok third_time host n c \<longleftrightarrow> 2 \<le> c + n" by (simp add: attempt_ok_def third_time_def)
qed

theorem reconnect_attempts_bounded_witness:
  "fst (reconnect third_time (\<lambda>t. t) (\<lambda>_. True) 0
          (client_pool_new ''host'' (pool_config_default ()) (io_context_pool_new 1))) = Inr (Some 3)"
proof -
  let ?p = "client_pool_new ''host'' (pool_config_default ()) (io_context_pool_new 1)"
  obtain m where m: "m \<le> 3" "\<forall>n < m. \<not> 2 \<le> n" "\<not> 2 \<le> m \<longrightarrow> m = 3"
    "fst (reconnect third_time (\<lambda>t. t) (\<lambda>_. True) 0 ?p) = (if 2 \<le> m then Inr (Some (Suc m)) else Inr None)"
    using reconnect_attempts_bounded[of ?p third_time "\<lambda>t. t" "\<lambda>_. True" 0]
    by (auto simp: third_time_attempts client_pool_new_def pool_config_default_def)
  then have "m = 2" using m(2)[rule_format, of 2] by arith
  with m(4) show ?thesis by simp
qed

section \<open>The idle clients of a pool\<close>

definition pool_clients :: "('c, 'f) client_pool \<Rightarrow> 'c list" where
  "pool_clients p = clients_of (free_clients p) @ clients_of (short_connect_clients p)"

text \<open>With no call under way and \<open>m\<close> requests to come: the queues are settled, the first is within its bound, and every
  idle client was open when it came.\<close>

definition pool_ok :: "nat \<Rightarrow> ('c, 'f) client_type \<Rightarrow> ('c, 'f) client_pool \<Rightarrow> bool" where
  "pool_ok m ct p \<longleftrightarrow>
     settled m (free_clients p) \<and> settled m (short_connect_clients p) \<and>
     length (clients_of (free_clients p)) \<le> unat (max_connection (cp_config p)) \<and>
     (\<forall>c \<in> set (pool_clients p). \<not> cl_has_closed ct c)"

lemma settled_size: "settled m q \<Longrightarrow> unat (client_queue_size q) = length (clients_of q)"
  by (erule settledE) (simp add: client_queue_size_def clients_of_def unat_plus_small)

lemma settled_mono: "settled (Suc m) q \<Longrightarrow> settled m q"
  by (simp add: settled_def)

lemma settled_counter: "settled m (q\<lparr>cq_collecter_cnt := n\<rparr>) = settled m q" "clients_of (q\<lparr>cq_collecter_cnt := n\<rparr>) = clients_of q"
  by (simp_all add: settled_def queue_wf_def clients_of_def)

lemma enqueue_clients:
  assumes "settled (Suc m) q" "client_queue_enqueue True c q = (n, q')"
  shows "settled m q' \<and> mset (clients_of q') = add_mset c (mset (clients_of q))"
  using enqueue_keeps[OF assms] assms
  by (auto elim!: settledE simp: client_queue_enqueue_def Let_def clients_of_def)

lemma queue_try_dequeue_mset: "queue_try_dequeue pick q = Some (c, xs) \<Longrightarrow> mset q = add_mset c (mset xs)"
proof (clarsimp simp: queue_try_dequeue_def split: option.splits if_splits)
  fix k assume "k < length q"
  then show "mset q = add_mset (q ! k) (mset (take k q) + mset (drop (Suc k) q))"
    by (metis id_take_nth_drop mset.simps(2) mset_append union_mset_add_mset_right)
qed

lemma try_dequeue_half_clients:
  assumes "settled m q" "i < 2" "try_dequeue_half pick i q = Some (c, q')"
  shows "settled m q' \<and> mset (clients_of q) = add_mset c (mset (clients_of q'))"
proof -
  obtain xs where xs: "queue_try_dequeue pick (cq_queue q ! i) = Some (c, xs)" "cq_queue q' = (cq_queue q)[i := xs]"
    using assms(3) by (auto simp: try_dequeue_half_def split: option.splits)
  have settled: "settled m q'" using try_dequeue_half_keeps[OF assms] by simp
  have wf: "queue_wf q" "queue_wf q'" using assms(1) settled by (simp_all add: settled_def)
  have i: "i = 0 \<or> i = 1" and len: "length (cq_queue q) = 2" using assms(2) wf(1) by (auto simp: queue_wf_def)
  have "mset (clients_of q) = add_mset c (mset (clients_of q'))"
    unfolding clients_of_wf[OF wf(1)] clients_of_wf[OF wf(2)] xs(2)
    using queue_try_dequeue_mset[OF xs(1)] i by (elim disjE) (simp_all add: len)
  with settled show ?thesis by blast
qed

lemma try_dequeue_half_None:
  assumes "pick_complete pick" shows "try_dequeue_half pick i q = None \<longleftrightarrow> cq_queue q ! i = []"
  using queue_try_dequeue_complete[OF assms, of "cq_queue q ! i"]
  by (cases "queue_try_dequeue pick (cq_queue q ! i)") (auto simp: try_dequeue_half_def)

lemma try_dequeue_clients:
  assumes "settled m q" "pick_complete pick" "client_queue_try_dequeue pick q = (r, q')"
  shows "settled m q' \<and>
         (case r of None \<Rightarrow> clients_of q = [] \<and> q' = q | Some c \<Rightarrow> mset (clients_of q) = add_mset c (mset (clients_of q')))"
proof -
  let ?i = "cq_selected_index q"
  have wf: "queue_wf q" "?i < 2" using assms(1) by (simp_all add: settled_def queue_wf_def)
  define first where "first = (if cq_size q ! (?i XOR 1) \<noteq> 0 then try_dequeue_half pick (?i XOR 1) q else None)"
  define second where "second = try_dequeue_half pick ?i q"
  have half: "settled m q1 \<and> mset (clients_of q) = add_mset c (mset (clients_of q1))"
    if "first = Some (c, q1) \<or> second = Some (c, q1)" for c q1
    using that try_dequeue_half_clients[OF assms(1) wf(2)]
      try_dequeue_half_clients[OF assms(1) xor_1_less_2(1)[OF wf(2)]]
    unfolding first_def second_def by (auto split: if_splits)
  have "first = None \<Longrightarrow> second = None \<Longrightarrow> cq_queue q ! (?i XOR 1) = [] \<and> cq_queue q ! ?i = []"
    using settled_size_0[OF assms(1) xor_1_less_2(1)[OF wf(2)]]
    by (auto simp: first_def second_def try_dequeue_half_None[OF assms(2)] split: if_splits)
  moreover have "?i = 0 \<or> ?i = 1" using wf(2) by auto
  ultimately have none: "first = None \<Longrightarrow> second = None \<Longrightarrow> clients_of q = []"
    by (auto simp: clients_of_wf[OF wf(1)])
  have "client_queue_try_dequeue pick q =
          (case first of Some (c, q) \<Rightarrow> (Some c, q) | None \<Rightarrow> (case second of Some (c, q) \<Rightarrow> (Some c, q) | None \<Rightarrow> (None, q)))"
    unfolding client_queue_try_dequeue_def Let_def first_def[symmetric] second_def[symmetric] ..
  with assms(1,3) half none show ?thesis by (cases first; cases second) auto
qed

lemma take_idle_client_spec:
  assumes ok: "pool_ok m ct p" and pick: "pick_complete pick" and take_c: "take_idle_client pick p = (r, p')"
  shows "pool_ok m ct p' \<and>
         (case r of
            None \<Rightarrow> pool_clients p = [] \<and> p' = p
          | Some c \<Rightarrow> mset (pool_clients p) = add_mset c (mset (pool_clients p')) \<and>
                      (clients_of (free_clients p) \<noteq> [] \<longrightarrow> c \<in> set (clients_of (free_clients p))))"
proof -
  obtain r1 q1 where 1: "client_queue_try_dequeue pick (free_clients p) = (r1, q1)" by force
  obtain r2 q2 where 2: "client_queue_try_dequeue pick (short_connect_clients p) = (r2, q2)" by force
  note s1 = try_dequeue_clients[OF _ pick 1, of m] and s2 = try_dequeue_clients[OF _ pick 2, of m]
  have settled: "settled m (free_clients p)" "settled m (short_connect_clients p)" using ok by (simp_all add: pool_ok_def)
  show ?thesis
  proof (cases r1)
    case (Some c)
    then have eq: "r = Some c" "p' = p\<lparr>free_clients := q1\<rparr>" using take_c 1 by (simp_all add: take_idle_client_def)
    have q1: "settled m q1" "mset (clients_of (free_clients p)) = add_mset c (mset (clients_of q1))"
      using s1[OF settled(1)] Some by simp_all
    from q1(2) have "set (clients_of (free_clients p)) = insert c (set (clients_of q1))"
      "length (clients_of (free_clients p)) = Suc (length (clients_of q1))"
      by (metis set_mset_add_mset_insert set_mset_mset, metis size_add_mset size_mset)
    with q1 ok show ?thesis by (auto simp: eq pool_ok_def pool_clients_def)
  next
    case None
    then have free: "clients_of (free_clients p) = []" "q1 = free_clients p" using s1[OF settled(1)] by simp_all
    have eq: "r = r2" "p' = p\<lparr>short_connect_clients := q2\<rparr>"
      using take_c None free(2) by (simp_all add: take_idle_client_def 1 2)
    show ?thesis
    proof (cases r2)
      case None
      then show ?thesis using s2[OF settled(2)] free ok by (simp add: eq pool_clients_def)
    next
      case (Some c)
      have q2: "settled m q2" "mset (clients_of (short_connect_clients p)) = add_mset c (mset (clients_of q2))"
        using s2[OF settled(2)] Some by simp_all
      from q2(2) have "set (clients_of (short_connect_clients p)) = insert c (set (clients_of q2))"
        by (metis set_mset_add_mset_insert set_mset_mset)
      with q2 ok free Some show ?thesis by (auto simp: eq pool_ok_def pool_clients_def)
    qed
  qed
qed

lemma client_pool_enqueue_spec:
  assumes "settled (Suc m) (pool_queue w p)"
  shows "settled m (pool_queue w (client_pool_enqueue w c t p)) \<and>
         mset (clients_of (pool_queue w (client_pool_enqueue w c t p))) = add_mset c (mset (clients_of (pool_queue w p))) \<and>
         (\<forall>v. v \<noteq> w \<longrightarrow> pool_queue v (client_pool_enqueue w c t p) = pool_queue v p) \<and>
         cp_config (client_pool_enqueue w c t p) = cp_config p"
proof -
  obtain n q where q: "client_queue_enqueue True c (pool_queue w p) = (n, q)" by force
  have "settled m q" "mset (clients_of q) = add_mset c (mset (clients_of (pool_queue w p)))"
    using enqueue_clients[OF assms q] by simp_all
  then show ?thesis
    unfolding client_pool_enqueue_def q Let_def
    by (cases w) (auto simp: settled_counter pool_queue_def set_pool_queue_def split: which_queue.splits)
qed

lemma pool_queue_alive [simp]: "pool_queue w (p\<lparr>is_alive := a\<rparr>) = pool_queue w p"
  by (cases w) (simp_all add: pool_queue_def)

lemma pool_ok_queues:
  "pool_ok m ct p \<longleftrightarrow>
     (\<forall>w. settled m (pool_queue w p) \<and> (\<forall>c \<in># mset (clients_of (pool_queue w p)). \<not> cl_has_closed ct c)) \<and>
     size (mset (clients_of (pool_queue Free_clients p))) \<le> unat (max_connection (cp_config p))"
proof -
  have all: "(\<forall>w. P w) \<longleftrightarrow> P Free_clients \<and> P Short_connect_clients" for P by (metis which_queue.exhaust)
  show ?thesis by (auto simp: pool_ok_def pool_clients_def all pool_queue_def)
qed

lemma pool_clients_queues:
  "mset (pool_clients p) = mset (clients_of (pool_queue Free_clients p)) + mset (clients_of (pool_queue Short_connect_clients p))"
  by (simp add: pool_clients_def pool_queue_def)

lemma unat_ucast_u32: "unat (ucast (x :: u32) :: u64) = unat x"
proof -
  have "unat x < 2 ^ LENGTH(32)" by (rule unsigned_less)
  then have "unat x < 2 ^ 64" by simp
  then show ?thesis by (simp add: unsigned_ucast_eq take_bit_nat_eq_self)
qed

lemma collect_free_client_spec:
  assumes "pool_ok (Suc m) ct p"
  shows "pool_ok m ct (collect_free_client ct c p) \<and>
         mset (pool_clients (collect_free_client ct c p)) =
           (if cl_has_closed ct c then mset (pool_clients p) else add_mset c (mset (pool_clients p)))"
proof (cases "cl_has_closed ct c")
  case True
  with assms show ?thesis by (auto simp: collect_free_client_def pool_ok_def dest: settled_mono)
next
  case False
  have settled: "settled (Suc m) (pool_queue v p)" for v using assms by (simp add: pool_ok_queues)
  note spec = client_pool_enqueue_spec[OF settled, of _ c]
  define w where "w = (if client_queue_size (free_clients p) < ucast (max_connection (cp_config p))
                       then Free_clients else Short_connect_clients)"
  define t where "t = (if w = Free_clients then idle_timeout (cp_config p) else short_connect_idle_timeout (cp_config p))"
  have eq: "collect_free_client ct c p = (client_pool_enqueue w c t p)\<lparr>is_alive := True\<rparr>"
    using False by (simp add: collect_free_client_def w_def t_def)
  have "w = Free_clients \<Longrightarrow> size (mset (clients_of (pool_queue Free_clients p))) < unat (max_connection (cp_config p))"
    using settled_size[OF settled[of Free_clients]]
    by (auto simp: w_def word_less_nat_alt unat_ucast_u32 pool_queue_def split: if_splits)
  moreover have queue: "settled m (pool_queue v (client_pool_enqueue w c t p))"
    "mset (clients_of (pool_queue v (client_pool_enqueue w c t p))) =
       (if v = w then {#c#} else {#}) + mset (clients_of (pool_queue v p))" for v
    using spec[of w t] settled_mono[OF settled[of v]] by (cases "v = w"; simp)+
  ultimately have "pool_ok m ct (collect_free_client ct c p)"
    using assms False spec[of w t] unfolding eq pool_ok_queues
    by (auto simp: queue simp del: set_mset_mset)
  moreover have "mset (pool_clients (collect_free_client ct c p)) = add_mset c (mset (pool_clients p))"
    using spec[of w t] unfolding eq pool_clients_queues by (cases w) simp_all
  ultimately show ?thesis using False by simp
qed

lemma alive_detect_start_queues:
  assumes "alive_detect_start ct config p = (d, p')"
  shows "free_clients p' = free_clients p \<and> short_connect_clients p' = short_connect_clients p \<and> cp_config p' = cp_config p"
  using assms by (auto simp: alive_detect_start_def Let_def split: prod.splits if_splits)

lemma reconnect_queues:
  assumes "reconnect ct rt locked c p = (r, d, p', ev)"
  shows "free_clients p' = free_clients p \<and> short_connect_clients p' = short_connect_clients p \<and> cp_config p' = cp_config p"
  using assms
  by (auto simp: reconnect_def Let_def dest: alive_detect_start_queues split: prod.splits sum.splits bool.splits)

lemma get_client_spec:
  assumes ok: "pool_ok m ct p" and pick: "pick_complete pick"
    and get: "get_client ct pick rt locked config p = (r, d, p', ev)"
  shows "pool_ok m ct p' \<and>
         (if pool_clients p = [] then pool_clients p' = []
          else \<exists>c. r = Inr (Some c) \<and> d = None \<and> ev = [] \<and> mset (pool_clients p) = add_mset c (mset (pool_clients p')) \<and>
                   (clients_of (free_clients p) \<noteq> [] \<longrightarrow> c \<in> set (clients_of (free_clients p))))"
proof -
  obtain r1 p1 where 1: "take_idle_client pick p = (r1, p1)" by force
  note spec = take_idle_client_spec[OF ok pick 1]
  show ?thesis
  proof (cases r1)
    case (Some c)
    with spec get show ?thesis by (auto simp: get_client_def 1)
  next
    case None
    then have "pool_clients p = []" "p1 = p" using spec by simp_all
    moreover have "free_clients p' = free_clients p \<and> short_connect_clients p' = short_connect_clients p \<and> cp_config p' = cp_config p"
      using get None \<open>p1 = p\<close>
      by (auto simp: get_client_def 1 Let_def dest!: reconnect_queues split: prod.splits if_splits)
    ultimately show ?thesis using ok by (auto simp: pool_ok_def pool_clients_def)
  qed
qed


lemma cp_config_new [simp]: "cp_config (client_pool_new host config io) = config"
  by (simp add: client_pool_new_def)



text \<open>when the pool has an idle client, a request runs on one, of the first queue when that has any, without any
  attempt to connect; afterwards the pool has the same clients, without that one if the operation threw or
  left it closed, and otherwise with it as the operation left it.
\<close>

theorem send_request_uses_idle_client:
  assumes "pool_ok (Suc m) ct p" "pick_complete pick" "pool_clients p \<noteq> []"
  shows "\<exists>c p'. c \<in> set (if clients_of (free_clients p) \<noteq> [] then clients_of (free_clients p) else clients_of (short_connect_clients p)) \<and>
     send_request ct pick rt locked op config p =
       (case fst (op c) of Inl e \<Rightarrow> Inl e | Inr v \<Rightarrow> Inr (Response v), None, p', []) \<and>
     mset (pool_clients p') =
       mset (pool_clients p) - {#c#} +
       (if isl (fst (op c)) \<or> cl_has_closed ct (snd (op c)) then {#} else {#snd (op c)#})"
proof -
  obtain r1 d1 p1 ev1 where 1: "get_client ct pick rt locked config p = (r1, d1, p1, ev1)" by (metis prod_cases4)
  from get_client_spec[OF assms(1,2) 1] assms(3) obtain c where c: "pool_ok (Suc m) ct p1" "r1 = Inr (Some c)" "d1 = None" "ev1 = []"
    "mset (pool_clients p) = add_mset c (mset (pool_clients p1))"
    "clients_of (free_clients p) \<noteq> [] \<longrightarrow> c \<in> set (clients_of (free_clients p))"
    by auto
  have "c \<in> set (pool_clients p)" using c(5) by (metis set_mset_mset union_single_eq_member)
  with c(6) have "c \<in> set (if clients_of (free_clients p) \<noteq> [] then clients_of (free_clients p) else clients_of (short_connect_clients p))"
    by (auto simp: pool_clients_def)
  moreover obtain v c' where op: "op c = (v, c')" by force
  ultimately show ?thesis
    using c collect_free_client_spec[OF c(1), of c']
    by (cases v) (auto simp: send_request_def 1 op intro!: exI[of _ c])
qed

text \<open>A pool with one idle client, and an operation that adds 10 to it.\<close>

theorem send_request_uses_idle_client_witness:
  "\<exists>p'. send_request third_time (\<lambda>q. if q = [] then None else Some 0) (\<lambda>t. t) (\<lambda>_. True) (\<lambda>c. (Inr c, c + 10)) ()
           ((client_pool_new ''host'' (pool_config_default ()) (io_context_pool_new 1))
              \<lparr>free_clients := \<lparr>cq_queue = [[5], []], cq_selected_index = 0, cq_size = [1, 0], cq_collecter_cnt = 1\<rparr>\<rparr>) =
         (Inr (Response 5), None, p', []) \<and> mset (pool_clients p') = {#15#}"
proof -
  let ?p = "(client_pool_new ''host'' (pool_config_default ()) (io_context_pool_new 1))
              \<lparr>free_clients := \<lparr>cq_queue = [[5 :: nat], []], cq_selected_index = 0, cq_size = [1, 0], cq_collecter_cnt = 1\<rparr>\<rparr>"
  have clients: "clients_of (free_clients ?p) = [5]" "pool_clients ?p = [5]"
    by (simp_all add: pool_clients_def clients_of_def client_pool_new_def client_queue_new_def)
  have "pool_ok (Suc 0) third_time ?p" "pick_complete (\<lambda>q :: nat list. if q = [] then None else Some 0)" "pool_clients ?p \<noteq> []"
    by (auto simp: pool_ok_def settled_def queue_wf_def all_less_2 pool_clients_def clients_of_def client_pool_new_def
        client_queue_new_def pool_config_default_def third_time_def pick_complete_def)
  from send_request_uses_idle_client[OF this, where op = "\<lambda>c. (Inr c, c + 10)"]
  show ?thesis unfolding clients by (auto simp: third_time_def)
qed



section \<open>A host that was down\<close>

lemma alive_detect_loop_attempts:
  assumes "\<forall>n < m. \<not> attempt_ok ct (host_name p) n c \<and> locked (k + n) \<and> \<not> found (k + n) \<and> \<not> woken (k + n)"
    and "\<not> is_alive p"
  shows "\<exists>evs. count_list evs Ev_connect = m \<and>
           alive_detect_loop ct rt locked found woken k c p events =
           alive_detect_loop ct rt locked found woken (k + m) (after_attempts ct (host_name p) m c) p (events @ evs)"
  using assms(1)
proof (induction m arbitrary: k c events)
  case (Suc m)
  obtain c' ok cost where conn: "cl_connect ct (host_name p) c = (c', ok, cost)" by (metis prod_cases3)
  have shift: "attempt_ok ct (host_name p) n c' = attempt_ok ct (host_name p) (Suc n) c"
    "after_attempts ct (host_name p) n c' = after_attempts ct (host_name p) (Suc n) c" for n
    using attempt_ok_Suc[of ct "host_name p" n c] after_attempts_Suc[of ct "host_name p" n c] conn by simp_all
  let ?e = "Ev_connect # sleep_event (rt (host_alive_detect_duration (cp_config p) - cost))"
  have now: "\<not> ok" "locked k" "\<not> found k" "\<not> woken k"
    using Suc.prems[rule_format, of 0] conn by (simp_all add: attempt_ok_0)
  have "alive_detect_loop ct rt locked found woken k c p events =
             alive_detect_loop ct rt locked found woken (Suc k) c' p (events @ ?e)"
    using assms(2) by (subst alive_detect_loop.simps) (simp add: conn now Let_def)
  moreover have "\<forall>n < m. \<not> attempt_ok ct (host_name p) n c' \<and> locked (Suc k + n) \<and> \<not> found (Suc k + n) \<and> \<not> woken (Suc k + n)"
    using Suc.prems[rule_format, of "Suc n" for n] by (simp add: shift)
  then obtain evs where "count_list evs Ev_connect = m"
    "alive_detect_loop ct rt locked found woken (Suc k) c' p (events @ ?e) =
     alive_detect_loop ct rt locked found woken (Suc k + m) (after_attempts ct (host_name p) m c') p ((events @ ?e) @ evs)"
    using Suc.IH[of c' "Suc k" "events @ ?e"] by blast
  ultimately show ?case by (intro exI[of _ "?e @ evs"]) (simp add: shift)
qed (intro exI[of _ "[]"], simp)

text \<open>while a pool is marked dead, \<^verbatim>\<open>alive_detect\<close> goes on trying until an attempt succeeds, and then the pool is alive
  and holds that client; it stops without it when another thread has revived the pool; and when the
  pool was destroyed during a sleep it reads through a null pointer.
\<close>

theorem alive_detect_recovers:
  assumes "\<forall>n < m. \<not> attempt_ok ct (host_name p) n c \<and> locked n \<and> \<not> found n \<and> \<not> woken n"
    and "\<not> is_alive p" "pool_ok (Suc k) ct p"
    and stop: "attempt_ok ct (host_name p) m c \<or> found m \<or> \<not> locked m \<or> woken m"
  shows "\<exists>r events. alive_detect_loop ct rt locked found woken 0 c p [] = Some (r, events) \<and>
           count_list events Ev_connect = Suc m \<and>
           (if attempt_ok ct (host_name p) m c \<or> found m \<or> locked m
            then \<exists>p'. r = Inr p' \<and> is_alive p' \<and>
                   mset (pool_clients p') = mset (pool_clients p) +
                     (if attempt_ok ct (host_name p) m c \<and> \<not> cl_has_closed ct (after_attempts ct (host_name p) (Suc m) c)
                      then {#after_attempts ct (host_name p) (Suc m) c#} else {#})
            else r = Inl Undefined_behaviour)"
proof -
  obtain evs where evs: "count_list evs Ev_connect = m"
    "alive_detect_loop ct rt locked found woken 0 c p [] =
     alive_detect_loop ct rt locked found woken m (after_attempts ct (host_name p) m c) p evs"
    using alive_detect_loop_attempts[of m ct p c locked 0 found woken rt "[]"] assms(1,2) by auto
  obtain c' ok cost where conn: "cl_connect ct (host_name p) (after_attempts ct (host_name p) m c) = (c', ok, cost)"
    by (metis prod_cases3)
  have last_c: "attempt_ok ct (host_name p) m c = ok" "after_attempts ct (host_name p) (Suc m) c = c'"
    using conn by (simp_all add: attempt_ok_def after_attempts_def)
  let ?sleep = "sleep_event (rt (host_alive_detect_duration (cp_config p) - cost))"
  have step: "alive_detect_loop ct rt locked found woken m (after_attempts ct (host_name p) m c) p evs =
      Some (if ok then (Inr ((collect_free_client ct c' p)\<lparr>is_alive := True\<rparr>), evs @ [Ev_connect])
            else if found m then (Inr (p\<lparr>is_alive := True\<rparr>), evs @ [Ev_connect])
            else (if locked m then Inr (p\<lparr>is_alive := True\<rparr>) else Inl Undefined_behaviour, (evs @ [Ev_connect]) @ ?sleep))"
    using stop assms(2) unfolding last_c
    by (subst alive_detect_loop.simps) (auto simp: conn Let_def)
  show ?thesis
    using collect_free_client_spec[OF assms(3), of c'] unfolding evs(2) step last_c
    by (cases ok; cases "found m"; cases "locked m") (auto simp: evs(1) pool_clients_def)
qed

theorem alive_detect_recovers_witness:
  "\<exists>p' events. alive_detect_loop third_time (\<lambda>t. t) (\<lambda>_. True) (\<lambda>_. False) (\<lambda>_. False) 0 0
       ((client_pool_new ''host'' (pool_config_default ()) (io_context_pool_new 1))\<lparr>is_alive := False\<rparr>) [] = Some (Inr p', events) \<and>
     count_list events Ev_connect = 3 \<and> is_alive p' \<and> mset (pool_clients p') = {#3#}"
proof -
  let ?p = "(client_pool_new ''host'' (pool_config_default ()) (io_context_pool_new 1))\<lparr>is_alive := False\<rparr> :: (nat, unit) client_pool"
  have "\<forall>n < 2. \<not> attempt_ok third_time (host_name ?p) n 0 \<and> True \<and> \<not> False \<and> \<not> False" by (simp add: third_time_attempts)
  moreover have "\<not> is_alive ?p" by simp
  moreover have "pool_ok (Suc 0) third_time ?p"
    by (simp add: pool_ok_def settled_def queue_wf_def all_less_2 pool_clients_def clients_of_def client_pool_new_def
        client_queue_new_def)
  moreover have "attempt_ok third_time (host_name ?p) 2 0 \<or> False \<or> \<not> True \<or> False" by (simp add: third_time_attempts)
  moreover have "pool_clients ?p = []" "\<And>c. cl_has_closed third_time c = False"
    by (simp_all add: pool_clients_def clients_of_def client_pool_new_def client_queue_new_def third_time_def)
  ultimately show ?thesis
    using alive_detect_recovers[of 2 third_time ?p 0 "\<lambda>_. True" "\<lambda>_. False" "\<lambda>_. False" 0 "\<lambda>t. t"]
    by (auto simp: third_time_attempts)
qed

section \<open>One pool for each host\<close>






end
