(* ===== verification/Generator.thy ===== *)
theory Generator
  imports Try_Value
begin

text \<open>
  \<^verbatim>\<open>Generator<Ref, V, Allocator>\<close>, its promise, its three awaiters and its iterator
  (\<^verbatim>\<open>src/coro/Generator.h\<close>) as a machine on coroutine frames. A generator that yields the elements of
  another hands control to it by symmetric transfer, so the iterator of the outermost one resumes the
  innermost one directly: the root's promise names it. The bodies are a codatatype, as a generator
  need not end; running one up to its next suspension is a partial function, as it need not yield.
\<close>

section \<open>Bodies\<close>

text \<open>
  What the body of a generator does next. \<open>Yield_val\<close> yields a temporary or another object of the
  yielded type and \<open>Yield_copy\<close> an lvalue, which is copied. \<open>Yield_gen\<close> yields the elements of a
  generator that was called but not begun, \<open>Yield_moved\<close> those of one that was moved from, and
  \<open>Yield_range\<close> those of a range; what follows learns whether the yield threw.
\<close>

codatatype 'a gen_body =
    Gen_return
  | Gen_throw exn
  | Yield_val 'a "'a gen_body"
  | Yield_copy 'a "'a gen_body"
  | Yield_gen "'a gen_body" "unit outcome \<Rightarrow> 'a gen_body"
  | Yield_moved "unit outcome \<Rightarrow> 'a gen_body"
  | Yield_range "'a list" "unit outcome \<Rightarrow> 'a gen_body"

section \<open>Promises and frames\<close>

type_synonym gen_handle = nat

text \<open>A pointer to a yielded object is null, or good until the generator goes on.\<close>

datatype 'a value_ptr = Null_value | To_value 'a | Dangling_value

record NestInfo =
  except_ptr :: exception_ptr
  parent_handle :: "gen_handle option"
  root_handle :: "gen_handle option"

definition NestInfo_default :: NestInfo where
  "NestInfo_default = \<lparr>except_ptr = None, parent_handle = None, root_handle = None\<rparr>"

text \<open>
  Where a frame is suspended. A \<^verbatim>\<open>NestedAwaiter\<close> lives in the frame that awaits: it owns the nested
  generator and holds the \<^verbatim>\<open>NestInfo\<close> the nested promise points to.
\<close>

datatype 'a gen_point =
    Gen_initial "'a gen_body"
  | Gen_yielded "'a gen_body"
  | Gen_nested NestInfo gen_handle "unit outcome \<Rightarrow> 'a gen_body"
  | Gen_active
  | Gen_final

text \<open>\<open>info_ptr\<close> is null, or names the frame whose awaiter holds the \<^verbatim>\<open>NestInfo\<close>.\<close>

record 'a gen_promise =
  yielded_ptr :: "'a value_ptr"
  top_handle :: gen_handle
  info_ptr :: "gen_handle option"
  gen_point :: "'a gen_point"

text \<open>Control is in a body, on its way to a handle, or back in whoever resumed.\<close>

datatype 'a gen_control =
    Gen_running gen_handle "'a gen_body"
  | Gen_transfer gen_handle
  | Gen_back
  | Gen_thrown exn

record 'a gen_machine =
  gen_frames :: "gen_handle \<Rightarrow> 'a gen_promise option"
  gen_fresh :: gen_handle
  gen_control :: "'a gen_control"

definition gen_machine_empty :: "'a gen_machine" where
  "gen_machine_empty = \<lparr>gen_frames = (\<lambda>_. None), gen_fresh = 0, gen_control = Gen_back\<rparr>"

definition gen_put :: "gen_handle \<Rightarrow> 'a gen_promise \<Rightarrow> 'a gen_machine \<Rightarrow> 'a gen_machine" where
  "gen_put h p m = m\<lparr>gen_frames := (gen_frames m)(h \<mapsto> p)\<rparr>"

definition gen_promise_base :: "gen_handle \<Rightarrow> 'a gen_body \<Rightarrow> 'a gen_promise" where
  "gen_promise_base self b =
     \<lparr>yielded_ptr = Null_value, top_handle = self, info_ptr = None, gen_point = Gen_initial b\<rparr>"

text \<open>A call of a generator function: \<^verbatim>\<open>initial_suspend\<close> always suspends.\<close>

definition Generator_get_return_object :: "'a gen_body \<Rightarrow> 'a gen_machine \<Rightarrow> gen_handle option \<times> 'a gen_machine" where
  "Generator_get_return_object b m =
     (Some (gen_fresh m),
      (gen_put (gen_fresh m) (gen_promise_base (gen_fresh m) b) m)\<lparr>gen_fresh := Suc (gen_fresh m)\<rparr>)"

text \<open>
  Destroying a frame destroys the awaiter it is suspended in, and with it the nested generator. A
  frame is younger than the one that nests it, so the bound is never reached.
\<close>

primrec gen_destroy_upto :: "nat \<Rightarrow> gen_handle \<Rightarrow> 'a gen_machine \<Rightarrow> 'a gen_machine" where
  "gen_destroy_upto 0 h m = m"
| "gen_destroy_upto (Suc n) h m =
     (let m = (case gen_frames m h of
                 None \<Rightarrow> m
               | Some p \<Rightarrow> (case gen_point p of Gen_nested _ c _ \<Rightarrow> gen_destroy_upto n c m | _ \<Rightarrow> m))
      in m\<lparr>gen_frames := (gen_frames m)(h := None)\<rparr>)"

definition gen_destroy :: "gen_handle \<Rightarrow> 'a gen_machine \<Rightarrow> 'a gen_machine" where
  "gen_destroy h m = gen_destroy_upto (gen_fresh m) h m"

section \<open>The awaiters\<close>

text \<open>Writes through the handles the promises keep; a dangling one is undefined behaviour.\<close>

definition set_top :: "gen_handle \<Rightarrow> gen_handle \<Rightarrow> 'a gen_machine \<Rightarrow> 'a gen_machine outcome" where
  "set_top r t m =
     (case gen_frames m r of
        None \<Rightarrow> Inl Undefined_behaviour
      | Some p \<Rightarrow> Inr (gen_put r (p\<lparr>top_handle := t\<rparr>) m))"

definition set_info :: "gen_handle \<Rightarrow> gen_handle option \<Rightarrow> 'a gen_machine \<Rightarrow> 'a gen_machine outcome" where
  "set_info h i m =
     (case gen_frames m h of
        None \<Rightarrow> Inl Undefined_behaviour
      | Some p \<Rightarrow> Inr (gen_put h (p\<lparr>info_ptr := i\<rparr>) m))"

definition nest_info :: "gen_handle \<Rightarrow> 'a gen_machine \<Rightarrow> NestInfo outcome" where
  "nest_info i m =
     (case gen_frames m i of
        None \<Rightarrow> Inl Undefined_behaviour
      | Some p \<Rightarrow> (case gen_point p of Gen_nested n c k \<Rightarrow> Inr n | _ \<Rightarrow> Inl Undefined_behaviour))"

definition gen_continue :: "'a gen_machine \<Rightarrow> 'a gen_machine outcome \<Rightarrow> 'a gen_machine" where
  "gen_continue m r = (case r of Inl e \<Rightarrow> m\<lparr>gen_control := Gen_thrown e\<rparr> | Inr m' \<Rightarrow> m')"

text \<open>\<^verbatim>\<open>await_suspend\<close> of a \<^verbatim>\<open>NestedAwaiter\<close> in the frame \<open>h\<close> that owns the generator \<open>target\<close>.\<close>

definition NestedAwaiter_root :: "gen_handle \<Rightarrow> 'a gen_promise \<Rightarrow> 'a gen_machine \<Rightarrow> gen_handle option outcome" where
  "NestedAwaiter_root h current m =
     (case info_ptr current of
        Some i \<Rightarrow> bind_outcome (nest_info i m) (\<lambda>n. Inr (root_handle n))
      | None \<Rightarrow> Inr (Some h))"

definition NestedAwaiter_await_suspend ::
    "gen_handle \<Rightarrow> 'a gen_promise \<Rightarrow> gen_handle \<Rightarrow> (unit outcome \<Rightarrow> 'a gen_body) \<Rightarrow> 'a gen_machine \<Rightarrow> 'a gen_machine outcome" where
  "NestedAwaiter_await_suspend h current target k m =
     bind_outcome (NestedAwaiter_root h current m) (\<lambda>r.
       let nested = NestInfo_default\<lparr>parent_handle := Some h, root_handle := r\<rparr>;
           m = gen_put h (current\<lparr>gen_point := Gen_nested nested target k\<rparr>) m
       in case r of
            None \<Rightarrow> Inl Undefined_behaviour
          | Some r \<Rightarrow>
              bind_outcome (set_top r target m) (\<lambda>m.
              bind_outcome (set_info target (Some h) m) (\<lambda>m.
              Inr (m\<lparr>gen_control := Gen_transfer target\<rparr>))))"

definition NestedAwaiter_await_resume :: "NestInfo \<Rightarrow> unit outcome" where
  "NestedAwaiter_await_resume n = (case except_ptr n of None \<Rightarrow> Inr () | Some e \<Rightarrow> rethrow_exception (Some e))"

text \<open>The suspension after a yielded object, in the frame or in an \<^verbatim>\<open>ElementAwaiter\<close>.\<close>

definition yield_value :: "gen_handle \<Rightarrow> 'a gen_promise \<Rightarrow> 'a \<Rightarrow> 'a gen_body \<Rightarrow> 'a gen_machine \<Rightarrow> 'a gen_machine" where
  "yield_value h current v b m =
     (gen_put h (current\<lparr>yielded_ptr := To_value v, gen_point := Gen_yielded b\<rparr>) m)\<lparr>gen_control := Gen_back\<rparr>"

definition ElementAwaiter_await_suspend ::
    "gen_handle \<Rightarrow> 'a gen_promise \<Rightarrow> 'a \<Rightarrow> 'a gen_body \<Rightarrow> 'a gen_machine \<Rightarrow> 'a gen_machine" where
  "ElementAwaiter_await_suspend h current lval b m =
     (let element = lval
      in (gen_put h (current\<lparr>yielded_ptr := To_value element, gen_point := Gen_yielded b\<rparr>) m)
           \<lparr>gen_control := Gen_back\<rparr>)"

definition yield_elements_of ::
    "gen_handle \<Rightarrow> 'a gen_promise \<Rightarrow> 'a gen_body \<Rightarrow> (unit outcome \<Rightarrow> 'a gen_body) \<Rightarrow> 'a gen_machine \<Rightarrow> 'a gen_machine" where
  "yield_elements_of h current b k m =
     (case Generator_get_return_object b m of
        (None, m) \<Rightarrow> m\<lparr>gen_control := Gen_running h (k (Inr ()))\<rparr>
      | (Some target, m) \<Rightarrow> gen_continue m (NestedAwaiter_await_suspend h current target k m))"

text \<open>The coroutine that \<^verbatim>\<open>yield_value\<close> makes of a range.\<close>

primrec range_nested :: "'a list \<Rightarrow> 'a gen_body" where
  "range_nested [] = Gen_return"
| "range_nested (x # xs) = Yield_val x (range_nested xs)"

text \<open>\<^verbatim>\<open>FinalAwaiter\<close>: a nested generator gives control and the top back to the one that nests it.\<close>

definition FinalAwaiter_await_suspend :: "gen_handle \<Rightarrow> 'a gen_promise \<Rightarrow> 'a gen_machine \<Rightarrow> 'a gen_machine outcome" where
  "FinalAwaiter_await_suspend h current m =
     (let m = gen_put h (current\<lparr>gen_point := Gen_final\<rparr>) m
      in case info_ptr current of
           None \<Rightarrow> Inr (m\<lparr>gen_control := Gen_back\<rparr>)
         | Some i \<Rightarrow>
             bind_outcome (nest_info i m) (\<lambda>n.
               case (parent_handle n, root_handle n) of
                 (Some previous, Some r) \<Rightarrow>
                   bind_outcome (set_top r previous m) (\<lambda>m.
                   bind_outcome (set_info h None m) (\<lambda>m.
                   Inr (m\<lparr>gen_control := Gen_transfer previous\<rparr>)))
               | _ \<Rightarrow> Inl Undefined_behaviour))"

text \<open>
  \<^verbatim>\<open>unhandled_exception\<close>: a nested generator leaves the exception for the one that nests it and ends;
  the outermost one throws it again, which leaves it suspended at its end.
\<close>

definition Generator_unhandled_exception :: "gen_handle \<Rightarrow> 'a gen_promise \<Rightarrow> exn \<Rightarrow> 'a gen_machine \<Rightarrow> 'a gen_machine outcome" where
  "Generator_unhandled_exception h current e m =
     (case info_ptr current of
        Some i \<Rightarrow>
          (case gen_frames m i of
             None \<Rightarrow> Inl Undefined_behaviour
           | Some p \<Rightarrow>
               (case gen_point p of
                  Gen_nested n c k \<Rightarrow>
                    FinalAwaiter_await_suspend h current
                      (gen_put i (p\<lparr>gen_point := Gen_nested (n\<lparr>except_ptr := Some e\<rparr>) c k\<rparr>) m)
                | _ \<Rightarrow> Inl Undefined_behaviour))
      | None \<Rightarrow> Inr ((gen_put h (current\<lparr>gen_point := Gen_final\<rparr>) m)\<lparr>gen_control := Gen_thrown e\<rparr>))"

section \<open>The step function\<close>

definition gen_yield :: "gen_handle \<Rightarrow> 'a gen_promise \<Rightarrow> 'a gen_body \<Rightarrow> 'a gen_machine \<Rightarrow> 'a gen_machine" where
  "gen_yield h current b m =
     (case b of
        Gen_return \<Rightarrow> gen_continue m (FinalAwaiter_await_suspend h current m)
      | Gen_throw e \<Rightarrow> gen_continue m (Generator_unhandled_exception h current e m)
      | Yield_val v b \<Rightarrow> yield_value h current v b m
      | Yield_copy v b \<Rightarrow> ElementAwaiter_await_suspend h current v b m
      | Yield_gen b k \<Rightarrow> yield_elements_of h current b k m
      | Yield_moved k \<Rightarrow> m\<lparr>gen_control := Gen_running h (k (NestedAwaiter_await_resume NestInfo_default))\<rparr>
      | Yield_range xs k \<Rightarrow> yield_elements_of h current (range_nested xs) k m)"

text \<open>
  A resumed frame goes on after its suspension; the end of the full expression destroys the awaiter,
  with the nested generator it owns and the copy it holds.
\<close>

definition gen_resume_handle :: "gen_handle \<Rightarrow> 'a gen_machine \<Rightarrow> 'a gen_machine" where
  "gen_resume_handle h m =
     (case gen_frames m h of
        None \<Rightarrow> m\<lparr>gen_control := Gen_thrown Undefined_behaviour\<rparr>
      | Some p \<Rightarrow>
          (case gen_point p of
             Gen_initial b \<Rightarrow> (gen_put h (p\<lparr>gen_point := Gen_active\<rparr>) m)\<lparr>gen_control := Gen_running h b\<rparr>
           | Gen_yielded b \<Rightarrow>
               (gen_put h (p\<lparr>yielded_ptr := Dangling_value, gen_point := Gen_active\<rparr>) m)\<lparr>gen_control := Gen_running h b\<rparr>
           | Gen_nested n c k \<Rightarrow>
               (gen_destroy c (gen_put h (p\<lparr>gen_point := Gen_active\<rparr>) m))
                 \<lparr>gen_control := Gen_running h (k (NestedAwaiter_await_resume n))\<rparr>
           | Gen_active \<Rightarrow> m\<lparr>gen_control := Gen_thrown Undefined_behaviour\<rparr>
           | Gen_final \<Rightarrow> m\<lparr>gen_control := Gen_thrown Undefined_behaviour\<rparr>))"

definition gen_step :: "'a gen_machine \<Rightarrow> 'a gen_machine" where
  "gen_step m =
     (case gen_control m of
        Gen_running h b \<Rightarrow>
          (case gen_frames m h of
             None \<Rightarrow> m\<lparr>gen_control := Gen_thrown Undefined_behaviour\<rparr>
           | Some p \<Rightarrow> gen_yield h p b m)
      | Gen_transfer h \<Rightarrow> gen_resume_handle h m
      | Gen_back \<Rightarrow> m
      | Gen_thrown e \<Rightarrow> m)"

text \<open>\<^verbatim>\<open>resume()\<close> of a handle; no value means that it never comes back.\<close>

partial_function (option) gen_run :: "'a gen_machine \<Rightarrow> 'a gen_machine option" where
  "gen_run m =
     (case gen_control m of
        Gen_back \<Rightarrow> Some m
      | Gen_thrown e \<Rightarrow> Some m
      | _ \<Rightarrow> gen_run (gen_step m))"

definition gen_resume :: "gen_handle \<Rightarrow> 'a gen_machine \<Rightarrow> 'a gen_machine option" where
  "gen_resume h m = gen_run (m\<lparr>gen_control := Gen_transfer h\<rparr>)"

section \<open>Generator and its iterator\<close>

text \<open>
  A generator and an iterator are a handle, null after a move. A member gives its outcome, or none
  when it does not return, and the machine; an exception out of \<^verbatim>\<open>resume()\<close> leaves the member.
\<close>

definition resume_outcome :: "gen_handle \<Rightarrow> 'a gen_machine \<Rightarrow> (unit outcome \<times> 'a gen_machine) option" where
  "resume_outcome h m =
     (case gen_resume h m of
        None \<Rightarrow> None
      | Some m \<Rightarrow> Some (case gen_control m of Gen_thrown e \<Rightarrow> (Inl e, m\<lparr>gen_control := Gen_back\<rparr>) | _ \<Rightarrow> (Inr (), m)))"

definition gen_done :: "gen_handle \<Rightarrow> 'a gen_machine \<Rightarrow> bool outcome" where
  "gen_done h m =
     (case gen_frames m h of
        None \<Rightarrow> Inl Undefined_behaviour
      | Some p \<Rightarrow> Inr (case gen_point p of Gen_final \<Rightarrow> True | _ \<Rightarrow> False))"

definition moved_from_error :: string where
  "moved_from_error = ''Can't call begin on moved-from generator''"

text \<open>\<^verbatim>\<open>begin()\<close>: the iterator and the handle the generator keeps.\<close>

definition Generator_begin ::
    "gen_handle option \<Rightarrow> 'a gen_machine \<Rightarrow> (gen_handle option outcome \<times> gen_handle option \<times> 'a gen_machine) option" where
  "Generator_begin coro m =
     (case coro of
        None \<Rightarrow> Some (Inl (Logic_error moved_from_error), None, m)
      | Some h \<Rightarrow>
          (case resume_outcome h m of
             None \<Rightarrow> None
           | Some (Inl e, m) \<Rightarrow> Some (Inl e, Some h, m)
           | Some (Inr _, m) \<Rightarrow> Some (Inr (Some h), None, m)))"

definition Generator_destructor :: "gen_handle option \<Rightarrow> 'a gen_machine \<Rightarrow> 'a gen_machine" where
  "Generator_destructor coro m = (case coro of None \<Rightarrow> m | Some h \<Rightarrow> gen_destroy h m)"

definition Generator_move :: "gen_handle option \<Rightarrow> gen_handle option \<times> gen_handle option" where
  "Generator_move other = (other, None)"

text \<open>Move assignment: the new handles of the target and of \<^verbatim>\<open>other\<close>.\<close>

definition Generator_assign ::
    "gen_handle option \<Rightarrow> gen_handle option \<Rightarrow> 'a gen_machine \<Rightarrow> gen_handle option \<times> gen_handle option \<times> 'a gen_machine" where
  "Generator_assign coro other m =
     (let m = (case coro of None \<Rightarrow> m | Some h \<Rightarrow> gen_destroy h m) in (other, None, m))"

definition iterator_destructor :: "gen_handle option \<Rightarrow> 'a gen_machine \<Rightarrow> 'a gen_machine" where
  "iterator_destructor it m = (case it of None \<Rightarrow> m | Some h \<Rightarrow> gen_destroy h m)"

text \<open>The move assignment of an iterator has no \<^verbatim>\<open>return\<close>, which is undefined when it is reached.\<close>

definition iterator_assign :: "gen_handle option \<Rightarrow> gen_handle option \<Rightarrow> unit outcome" where
  "iterator_assign it rhs =
     bind_outcome (logicAssert (it = None) ''Should not own a coroutine handle'') (\<lambda>_. Inl Undefined_behaviour)"

definition iterator_bool :: "gen_handle option \<Rightarrow> 'a gen_machine \<Rightarrow> bool outcome" where
  "iterator_bool it m =
     (case it of None \<Rightarrow> Inr False | Some h \<Rightarrow> bind_outcome (gen_done h m) (\<lambda>d. Inr (\<not> d)))"

definition iterator_at_end :: "gen_handle option \<Rightarrow> 'a gen_machine \<Rightarrow> bool outcome" where
  "iterator_at_end it m = (case it of None \<Rightarrow> Inr True | Some h \<Rightarrow> gen_done h m)"

definition gen_top :: "gen_handle \<Rightarrow> 'a gen_machine \<Rightarrow> gen_handle outcome" where
  "gen_top h m = (case gen_frames m h of None \<Rightarrow> Inl Undefined_behaviour | Some p \<Rightarrow> Inr (top_handle p))"

definition deref_error :: string where
  "deref_error = ''Should have a coroutine handle or the coroutine has not ended''"

definition iterator_deref :: "gen_handle option \<Rightarrow> 'a gen_machine \<Rightarrow> 'a outcome" where
  "iterator_deref it m =
     bind_outcome (iterator_bool it m) (\<lambda>ok.
     bind_outcome (logicAssert ok deref_error) (\<lambda>_.
     bind_outcome (gen_top (the it) m) (\<lambda>t.
       case gen_frames m t of
         None \<Rightarrow> Inl Undefined_behaviour
       | Some p \<Rightarrow>
           (case yielded_ptr p of
              Null_value \<Rightarrow> Inl Assert_failed
            | To_value v \<Rightarrow> Inr v
            | Dangling_value \<Rightarrow> Inl Undefined_behaviour))))"

definition increment_error :: string where
  "increment_error = ''Can't increment generator end iterator''"

definition iterator_increment :: "gen_handle option \<Rightarrow> 'a gen_machine \<Rightarrow> (unit outcome \<times> 'a gen_machine) option" where
  "iterator_increment it m =
     (case bind_outcome (iterator_bool it m) (\<lambda>ok.
           bind_outcome (logicAssert ok increment_error) (\<lambda>_. gen_top (the it) m)) of
        Inl e \<Rightarrow> Some (Inl e, m)
      | Inr t \<Rightarrow> resume_outcome t m)"

end
