(* ===== verification/Generator_Chain.thy ===== *)
theory Generator_Chain
  imports Generator
begin

text \<open>
  The machine of generators follows a reference: a relation between a body and the elements it gives.
  The proof is an invariant on the chain of nested frames, from the innermost one, which the root
  names as its top, to the root.
\<close>

section \<open>Reference semantics\<close>

text \<open>
  A body gives some elements and then is at another one, or has ended. An infinite body is at its
  \<open>n\<close>-th element for each \<open>n\<close>.
\<close>

datatype 'a gen_status = At 'a | Ended "unit outcome"

inductive emits :: "'a gen_body \<Rightarrow> 'a list \<Rightarrow> 'a gen_status \<Rightarrow> bool" where
  emits_return: "emits Gen_return [] (Ended (Inr ()))"
| emits_throw: "emits (Gen_throw e) [] (Ended (Inl e))"
| emits_at: "emits (Yield_val v b) [] (At v)"
| emits_next: "emits b xs s \<Longrightarrow> emits (Yield_val v b) (v # xs) s"
| emits_at_copy: "emits (Yield_copy v b) [] (At v)"
| emits_next_copy: "emits b xs s \<Longrightarrow> emits (Yield_copy v b) (v # xs) s"
| emits_in_gen: "emits b xs (At v) \<Longrightarrow> emits (Yield_gen b k) xs (At v)"
| emits_after_gen: "emits b xs (Ended r) \<Longrightarrow> emits (k r) ys s \<Longrightarrow> emits (Yield_gen b k) (xs @ ys) s"
| emits_moved: "emits (k (Inr ())) ys s \<Longrightarrow> emits (Yield_moved k) ys s"
| emits_in_range: "n < length vs \<Longrightarrow> emits (Yield_range vs k) (take n vs) (At (vs ! n))"
| emits_after_range: "emits (k (Inr ())) ys s \<Longrightarrow> emits (Yield_range vs k) (vs @ ys) s"

section \<open>The chain of nested frames\<close>

text \<open>What the chain depends on: to whom a frame reports, and where it is suspended.\<close>

definition gen_view :: "'a gen_machine \<Rightarrow> gen_handle \<Rightarrow> (gen_handle option \<times> 'a gen_point) option" where
  "gen_view m x = map_option (\<lambda>p. (info_ptr p, gen_point p)) (gen_frames m x)"

text \<open>\<open>h\<close> is nested in the frames of the list, innermost first, the outermost of which is \<open>r\<close>.\<close>

fun gen_chain :: "'a gen_machine \<Rightarrow> gen_handle \<Rightarrow> (gen_handle \<times> (unit outcome \<Rightarrow> 'a gen_body)) list \<Rightarrow> gen_handle \<Rightarrow> bool" where
  "gen_chain m h [] r \<longleftrightarrow> h = r \<and> map_option fst (gen_view m h) = Some None"
| "gen_chain m h ((q, k) # st) r \<longleftrightarrow>
     q < h \<and> map_option fst (gen_view m h) = Some (Some q) \<and>
     map_option snd (gen_view m q) =
       Some (Gen_nested \<lparr>except_ptr = None, parent_handle = Some q, root_handle = Some r\<rparr> h k) \<and>
     gen_chain m q st r"

lemma gen_chain_cong:
  "gen_chain m h st r \<Longrightarrow> (\<And>x. x < h \<Longrightarrow> gen_view m' x = gen_view m x) \<Longrightarrow>
   map_option fst (gen_view m' h) = map_option fst (gen_view m h) \<Longrightarrow> gen_chain m' h st r"
  by (induction m h st r rule: gen_chain.induct) auto

lemma gen_chain_below: "gen_chain m h st r \<Longrightarrow> x \<in> fst ` set st \<Longrightarrow> x < h"
  by (induction m h st r rule: gen_chain.induct) (auto intro: less_trans)

lemma gen_chain_root_le: "gen_chain m h st r \<Longrightarrow> r \<le> h"
  by (induction m h st r rule: gen_chain.induct) auto

lemma gen_chain_length: "gen_chain m h st r \<Longrightarrow> length st \<le> h"
  by (induction m h st r rule: gen_chain.induct) auto

lemma gen_chain_root_nested:
  "gen_chain m h st r \<Longrightarrow> st \<noteq> [] \<Longrightarrow> \<exists>n c k. map_option snd (gen_view m r) = Some (Gen_nested n c k)"
proof (induction m h st r rule: gen_chain.induct)
  case (2 m h q k st r)
  then show ?case by (cases st) auto
qed simp

text \<open>
  The invariant of a running or suspended generator: frames below \<open>base\<close> are others' and as they
  were, the others are the chain from \<open>h\<close> to \<open>r\<close>, and the top of the root is the innermost frame.
\<close>

definition gen_inv ::
    "gen_handle \<Rightarrow> (gen_handle \<Rightarrow> 'a gen_promise option) \<Rightarrow> 'a gen_machine \<Rightarrow> gen_handle \<Rightarrow>
     (gen_handle \<times> (unit outcome \<Rightarrow> 'a gen_body)) list \<Rightarrow> gen_handle \<Rightarrow> bool" where
  "gen_inv base F m h st r \<longleftrightarrow>
     (\<forall>x<base. gen_frames m x = F x) \<and>
     (\<forall>x\<ge>base. gen_frames m x \<noteq> None \<longleftrightarrow> x = h \<or> x \<in> fst ` set st) \<and>
     base \<le> r \<and> h < gen_fresh m \<and> gen_chain m h st r \<and> map_option top_handle (gen_frames m r) = Some h"

lemma gen_view_control [simp]: "gen_view (m\<lparr>gen_control := c\<rparr>) = gen_view m"
  by (rule ext) (simp add: gen_view_def)

lemma gen_chain_control [simp]: "gen_chain (m\<lparr>gen_control := c\<rparr>) h st r = gen_chain m h st r"
  by (induction m h st r rule: gen_chain.induct) auto

lemma gen_inv_control [simp]: "gen_inv base F (m\<lparr>gen_control := c\<rparr>) h st r = gen_inv base F m h st r"
  by (simp add: gen_inv_def)

lemma gen_put_simps [simp]:
  "gen_frames (gen_put h p m) = (gen_frames m)(h \<mapsto> p)"
  "gen_fresh (gen_put h p m) = gen_fresh m"
  "gen_control (gen_put h p m) = gen_control m"
  by (simp_all add: gen_put_def)

lemma gen_inv_frame:
  assumes "gen_inv base F m h st r"
  obtains p where "gen_frames m h = Some p" "r \<le> h" "base \<le> h"
    "info_ptr p = (case st of [] \<Rightarrow> None | (q, k) # _ \<Rightarrow> Some q)"
proof -
  have c: "gen_chain m h st r" using assms by (simp add: gen_inv_def)
  from c have "map_option fst (gen_view m h) = Some (case st of [] \<Rightarrow> None | (q, k) # _ \<Rightarrow> Some q)"
    by (cases st) auto
  then obtain p where "gen_frames m h = Some p" "info_ptr p = (case st of [] \<Rightarrow> None | (q, k) # _ \<Rightarrow> Some q)"
    by (auto simp: gen_view_def)
  with gen_chain_root_le [OF c] assms that show ?thesis by (auto simp: gen_inv_def)
qed

lemma gen_inv_put:
  assumes "gen_inv base F m h st r" "gen_frames m h = Some p" "info_ptr p' = info_ptr p" "top_handle p' = top_handle p"
  shows "gen_inv base F (gen_put h p' m) h st r"
proof -
  have c: "gen_chain m h st r" and b: "base \<le> r" using assms by (simp_all add: gen_inv_def)
  have "gen_chain (gen_put h p' m) h st r"
    by (rule gen_chain_cong [OF c]) (use assms in \<open>auto simp: gen_view_def\<close>)
  moreover have "r \<le> h" by (rule gen_chain_root_le [OF c])
  ultimately show ?thesis using assms by (auto simp: gen_inv_def)
qed

text \<open>The consumer's view of a run that goes on while it increments: the elements it passes.\<close>

inductive gen_runs :: "gen_handle \<Rightarrow> 'a gen_machine \<Rightarrow> 'a list \<Rightarrow> 'a gen_machine \<Rightarrow> bool" for r where
  runs_refl: "gen_runs r m [] m"
| runs_step: "gen_control m \<noteq> Gen_back \<Longrightarrow> \<forall>e. gen_control m \<noteq> Gen_thrown e \<Longrightarrow>
    gen_runs r (gen_step m) xs m' \<Longrightarrow> gen_runs r m xs m'"
| runs_item: "gen_control m = Gen_back \<Longrightarrow> iterator_deref (Some r) m = Inr v \<Longrightarrow> gen_top r m = Inr t \<Longrightarrow>
    gen_runs r (m\<lparr>gen_control := Gen_transfer t\<rparr>) xs m' \<Longrightarrow> gen_runs r m (v # xs) m'"

lemma runs_trans: "gen_runs r m xs m' \<Longrightarrow> gen_runs r m' ys m'' \<Longrightarrow> gen_runs r m (xs @ ys) m''"
  by (induction rule: gen_runs.induct) (auto intro: gen_runs.intros)

lemma runs_one:
  "gen_control m \<noteq> Gen_back \<Longrightarrow> \<forall>e. gen_control m \<noteq> Gen_thrown e \<Longrightarrow> gen_step m = m' \<Longrightarrow> gen_runs r m [] m'"
  by (auto intro: runs_step runs_refl)

lemma runs_two:
  "gen_control m = Gen_running h b \<Longrightarrow> gen_control (gen_step m) = Gen_transfer q \<Longrightarrow> gen_step (gen_step m) = m' \<Longrightarrow> gen_runs r m [] m'"
  by (rule runs_step) (auto intro: runs_step runs_refl)

text \<open>A suspension at an element, seen through the iterator of the root.\<close>

definition suspended_at where
  "suspended_at base F m h st r v b \<longleftrightarrow>
     gen_inv base F m h st r \<and> gen_control m = Gen_back \<and> iterator_deref (Some r) m = Inr v \<and>
     map_option snd (gen_view m h) = Some (Gen_yielded b)"

lemma suspendedI:
  assumes inv: "gen_inv base F m h st r" and p: "gen_frames m h = Some p"
    and m': "m' = (gen_put h (p\<lparr>yielded_ptr := To_value v, gen_point := Gen_yielded b\<rparr>) m)\<lparr>gen_control := Gen_back\<rparr>"
  shows "suspended_at base F m' h st r v b"
proof -
  have i: "gen_inv base F m' h st r" unfolding m' gen_inv_control by (rule gen_inv_put [OF inv p]) simp_all
  then have "\<exists>pr. gen_frames m' r = Some pr \<and> top_handle pr = h" by (auto simp: gen_inv_def)
  then obtain pr where pr: "gen_frames m' r = Some pr" "top_handle pr = h" by blast
  have "gen_point pr \<noteq> Gen_final"
  proof (cases st)
    case Nil
    with i have "h = r" by (auto simp: gen_inv_def)
    with pr show ?thesis by (auto simp: m')
  next
    case Cons
    then have "st \<noteq> []" by simp
    moreover have "gen_chain m' h st r" using i by (simp add: gen_inv_def)
    ultimately show ?thesis using pr gen_chain_root_nested [of m' h st r] by (auto simp: gen_view_def)
  qed
  moreover have "gen_frames m' h = Some (p\<lparr>yielded_ptr := To_value v, gen_point := Gen_yielded b\<rparr>)" by (simp add: m')
  ultimately have "iterator_deref (Some r) m' = Inr v"
    using pr by (simp add: iterator_deref_def iterator_bool_def gen_done_def gen_top_def logicAssert_def split: gen_point.splits)
  with i show ?thesis by (simp add: suspended_at_def gen_view_def m')
qed

lemma run_yield:
  assumes "gen_inv base F m h st r" "gen_control m = Gen_running h (Yield_val v b)"
  obtains m' where "gen_runs r m [] m'" "suspended_at base F m' h st r v b"
proof -
  obtain p where p: "gen_frames m h = Some p" using assms(1) by (rule gen_inv_frame)
  then have "gen_step m = yield_value h p v b m" using assms by (simp add: gen_step_def gen_yield_def)
  from runs_one [OF _ _ this] suspendedI [OF assms(1) p refl] that assms(2) show ?thesis
    by (auto simp: yield_value_def)
qed

lemma run_yield_copy:
  assumes "gen_inv base F m h st r" "gen_control m = Gen_running h (Yield_copy v b)"
  obtains m' where "gen_runs r m [] m'" "suspended_at base F m' h st r v b"
proof -
  obtain p where p: "gen_frames m h = Some p" using assms(1) by (rule gen_inv_frame)
  then have "gen_step m = ElementAwaiter_await_suspend h p v b m" using assms by (simp add: gen_step_def gen_yield_def)
  from runs_one [OF _ _ this] suspendedI [OF assms(1) p refl] that assms(2) show ?thesis
    by (auto simp: ElementAwaiter_await_suspend_def)
qed

lemma run_resume:
  assumes "suspended_at base F m h st r v b"
  obtains m' where "gen_runs r m [v] m'" "gen_inv base F m' h st r" "gen_control m' = Gen_running h b"
proof -
  have i: "gen_inv base F m h st r" and c: "gen_control m = Gen_back" and d: "iterator_deref (Some r) m = Inr v"
    and v: "map_option snd (gen_view m h) = Some (Gen_yielded b)" using assms by (simp_all add: suspended_at_def)
  obtain p where p: "gen_frames m h = Some p" using i by (rule gen_inv_frame)
  define m1 where "m1 = m\<lparr>gen_control := Gen_transfer h\<rparr>"
  define m2 where "m2 = (gen_put h (p\<lparr>yielded_ptr := Dangling_value, gen_point := Gen_active\<rparr>) m1)\<lparr>gen_control := Gen_running h b\<rparr>"
  have "gen_step m1 = m2"
    using p v by (simp add: gen_step_def m1_def m2_def gen_resume_handle_def gen_view_def)
  then have "gen_runs r m1 [] m2" by (intro runs_one) (simp_all add: m1_def)
  moreover have "gen_top r m = Inr h" using i by (auto simp: gen_inv_def gen_top_def split: option.splits)
  ultimately have "gen_runs r m [v] m2" using c d by (auto simp: m1_def intro: runs_item)
  moreover have "gen_inv base F m2 h st r"
    unfolding m2_def m1_def gen_inv_control by (rule gen_inv_put) (use i p in simp_all)
  ultimately show ?thesis using that by (simp add: m2_def)
qed

section \<open>Entering and leaving a nested generator\<close>

lemma nested_root:
  assumes "gen_chain m h st r" "gen_frames m h = Some p"
  shows "NestedAwaiter_root h p m = Inr (Some r)"
  using assms
  by (cases st) (auto simp: NestedAwaiter_root_def nest_info_def gen_view_def split: option.splits gen_point.splits)

lemma step_nest:
  assumes inv: "gen_inv base F m h st r" and p: "gen_frames m h = Some p"
  shows "\<exists>m'. yield_elements_of h p b k m = m' \<and> gen_control m' = Gen_transfer (gen_fresh m) \<and>
     gen_inv base F m' (gen_fresh m) ((h, k) # st) r \<and>
     map_option snd (gen_view m' (gen_fresh m)) = Some (Gen_initial b)"
proof -
  define c where "c = gen_fresh m"
  have ch: "gen_chain m h st r" and hc: "h < c" using inv by (simp_all add: gen_inv_def c_def)
  define m1 where "m1 = snd (Generator_get_return_object b m)"
  have f1: "gen_frames m1 = (gen_frames m)(c \<mapsto> gen_promise_base c b)" "gen_fresh m1 = Suc c"
    by (simp_all add: m1_def Generator_get_return_object_def c_def)
  have ch1: "gen_chain m1 h st r" by (rule gen_chain_cong [OF ch]) (use hc in \<open>auto simp: gen_view_def f1\<close>)
  have p1: "gen_frames m1 h = Some p" using p hc by (simp add: f1)
  define nest where "nest = \<lparr>except_ptr = None, parent_handle = Some h, root_handle = Some r\<rparr>"
  define m2 where "m2 = gen_put h (p\<lparr>gen_point := Gen_nested nest c k\<rparr>) m1"
  have rh: "r \<le> h" by (rule gen_chain_root_le [OF ch])
  have "map_option top_handle (gen_frames m r) = Some h" using inv by (simp add: gen_inv_def)
  then obtain pr where pr: "gen_frames m2 r = Some pr" using rh hc by (cases "r = h") (auto simp: m2_def f1)
  define m3 where "m3 = gen_put r (pr\<lparr>top_handle := c\<rparr>) m2"
  have m3: "set_top r c m2 = Inr m3" by (simp add: set_top_def pr m3_def)
  have cf: "gen_frames m3 c = Some (gen_promise_base c b)" using rh hc by (simp add: m3_def m2_def f1)
  define m4 where "m4 = gen_put c ((gen_promise_base c b)\<lparr>info_ptr := Some h\<rparr>) m3"
  have m4: "set_info c (Some h) m3 = Inr m4" by (simp add: set_info_def cf m4_def)
  have eq: "yield_elements_of h p b k m = m4\<lparr>gen_control := Gen_transfer c\<rparr>"
    using nested_root [OF ch1 p1] m3 m4
    by (simp add: yield_elements_of_def Generator_get_return_object_def NestedAwaiter_await_suspend_def
        m1_def m2_def nest_def NestInfo_default_def gen_continue_def c_def)
  have v4: "gen_view m4 c = Some (Some h, Gen_initial b)" by (simp add: gen_view_def m4_def gen_promise_base_def)
  have vh: "gen_view m4 h = Some (info_ptr p, Gen_nested nest c k)"
    using hc rh pr by (cases "h = r") (auto simp: gen_view_def m4_def m3_def m2_def)
  have vb: "gen_view m4 x = gen_view m x" if "x < h" for x
    using hc rh pr that by (cases "x = r") (auto simp: gen_view_def m4_def m3_def m2_def f1)
  have "gen_chain m4 h st r" by (rule gen_chain_cong [OF ch vb]) (use p vh in \<open>auto simp: gen_view_def\<close>)
  then have "gen_chain m4 c ((h, k) # st) r" using hc v4 vh by (simp add: nest_def)
  moreover have "base \<le> r" using inv by (simp add: gen_inv_def)
  moreover have "\<forall>x<base. gen_frames m4 x = F x"
    using inv rh hc by (auto simp: m4_def m3_def m2_def f1 gen_inv_def)
  moreover have "\<forall>x\<ge>base. gen_frames m4 x \<noteq> None \<longleftrightarrow> x = c \<or> x \<in> fst ` set ((h, k) # st)"
    using inv rh hc p pr by (auto simp: m4_def m3_def m2_def f1 gen_inv_def)
  moreover have "c < gen_fresh m4" by (simp add: m4_def m3_def m2_def f1)
  moreover have "map_option top_handle (gen_frames m4 r) = Some c" using rh hc by (simp add: m4_def m3_def)
  ultimately have "gen_inv base F m4 c ((h, k) # st) r" by (simp add: gen_inv_def)
  with eq v4 show ?thesis by (simp add: c_def)
qed

lemma step_initial:
  assumes inv: "gen_inv base F m h st r" and "gen_control m = Gen_transfer h"
    and v: "map_option snd (gen_view m h) = Some (Gen_initial b)"
  obtains m' where "gen_runs r m [] m'" "gen_inv base F m' h st r" "gen_control m' = Gen_running h b"
proof -
  obtain p where p: "gen_frames m h = Some p" using inv by (rule gen_inv_frame)
  define m' where "m' = (gen_put h (p\<lparr>gen_point := Gen_active\<rparr>) m)\<lparr>gen_control := Gen_running h b\<rparr>"
  have "gen_step m = m'"
    using assms p by (simp add: gen_step_def gen_resume_handle_def gen_view_def m'_def)
  then have "gen_runs r m [] m'" using assms by (intro runs_one) simp_all
  moreover have "gen_inv base F m' h st r"
    unfolding m'_def gen_inv_control by (rule gen_inv_put) (use inv p in simp_all)
  ultimately show ?thesis using that by (simp add: m'_def)
qed

lemma run_nest:
  assumes inv: "gen_inv base F m h st r"
    and c: "gen_control m = Gen_running h (Yield_gen b k) \<or> gen_control m = Gen_running h (Yield_range vs k) \<and> b = range_nested vs"
  obtains m' c where "gen_runs r m [] m'" "gen_inv base F m' c ((h, k) # st) r" "gen_control m' = Gen_running c b"
proof -
  obtain p where p: "gen_frames m h = Some p" using inv by (rule gen_inv_frame)
  have s: "gen_step m = yield_elements_of h p b k m" using c p by (auto simp: gen_step_def gen_yield_def)
  obtain m1 where m1: "yield_elements_of h p b k m = m1" "gen_control m1 = Gen_transfer (gen_fresh m)"
    "gen_inv base F m1 (gen_fresh m) ((h, k) # st) r" "map_option snd (gen_view m1 (gen_fresh m)) = Some (Gen_initial b)"
    using step_nest [OF inv p] by blast
  have "gen_runs r m [] m1" using c s m1 by (intro runs_one) auto
  moreover obtain m' where "gen_runs r m1 [] m'" "gen_inv base F m' (gen_fresh m) ((h, k) # st) r"
    "gen_control m' = Gen_running (gen_fresh m) b" using m1 by (blast intro: step_initial)
  ultimately show ?thesis using that runs_trans by fastforce
qed

text \<open>A nested generator ends: its frame is gone and the one that nests it learns how it ended.\<close>

lemma destroy_not_nested:
  "gen_frames m h = Some p \<Longrightarrow> (\<And>n c k. gen_point p \<noteq> Gen_nested n c k) \<Longrightarrow> h < gen_fresh m \<Longrightarrow>
   gen_destroy h m = m\<lparr>gen_frames := (gen_frames m)(h := None)\<rparr>"
  by (cases "gen_fresh m") (auto simp: gen_destroy_def split: gen_point.splits)

lemma final_nested:
  assumes "gen_frames m h = Some p" "info_ptr p = Some q" "q < h" "r \<le> q" "h < gen_fresh m"
    and q: "gen_frames m q = Some pq" "gen_point pq = Gen_nested \<lparr>except_ptr = x, parent_handle = Some q, root_handle = Some r\<rparr> h k"
    and r: "gen_frames m r = Some pr"
  shows "\<exists>m'. FinalAwaiter_await_suspend h p m = Inr m' \<and> gen_control m' = Gen_transfer q \<and>
     gen_control (gen_step m') = Gen_running q (k (case x of None \<Rightarrow> Inr () | Some e \<Rightarrow> Inl e)) \<and>
     gen_fresh (gen_step m') = gen_fresh m \<and>
     gen_frames (gen_step m') =
       (gen_frames m)(h := None, r \<mapsto> pr\<lparr>top_handle := q\<rparr>,
          q \<mapsto> pq\<lparr>gen_point := Gen_active, top_handle := if q = r then q else top_handle pq\<rparr>)"
proof -
  define m1 where "m1 = gen_put h (p\<lparr>gen_point := Gen_final\<rparr>) m"
  define m2 where "m2 = gen_put r (pr\<lparr>top_handle := q\<rparr>) m1"
  define p' where "p' = p\<lparr>gen_point := Gen_final, info_ptr := None\<rparr>"
  define m3 where "m3 = (gen_put h p' m2)\<lparr>gen_control := Gen_transfer q\<rparr>"
  have ne: "q \<noteq> h" "r \<noteq> h" using assms by auto
  have "FinalAwaiter_await_suspend h p m = Inr m3"
    using assms ne by (simp add: FinalAwaiter_await_suspend_def nest_info_def set_top_def set_info_def
        m1_def m2_def m3_def p'_def)
  moreover have "gen_frames m3 = (gen_frames m)(r \<mapsto> pr\<lparr>top_handle := q\<rparr>, h \<mapsto> p')" "gen_fresh m3 = gen_fresh m"
    using ne by (auto simp: m3_def m2_def m1_def fun_upd_twist)
  moreover have "gen_step m3 = (gen_destroy h (gen_put q ((the (gen_frames m3 q))\<lparr>gen_point := Gen_active\<rparr>) m3))
       \<lparr>gen_control := Gen_running q (k (case x of None \<Rightarrow> Inr () | Some e \<Rightarrow> Inl e))\<rparr>"
    using q r ne by (cases "q = r")
      (auto simp: m3_def m2_def m1_def gen_step_def gen_resume_handle_def NestedAwaiter_await_resume_def
        rethrow_exception_def split: option.splits)
  moreover have "gen_destroy h (gen_put q ((the (gen_frames m3 q))\<lparr>gen_point := Gen_active\<rparr>) m3) =
      (gen_put q ((the (gen_frames m3 q))\<lparr>gen_point := Gen_active\<rparr>) m3)
        \<lparr>gen_frames := (gen_frames (gen_put q ((the (gen_frames m3 q))\<lparr>gen_point := Gen_active\<rparr>) m3))(h := None)\<rparr>"
    by (rule destroy_not_nested [where p = p']) (use ne assms in \<open>simp_all add: m3_def p'_def m2_def m1_def\<close>)
  ultimately have *: "FinalAwaiter_await_suspend h p m = Inr m3"
    "gen_frames m3 = (gen_frames m)(r \<mapsto> pr\<lparr>top_handle := q\<rparr>, h \<mapsto> p')" "gen_fresh (gen_step m3) = gen_fresh m"
    "gen_control (gen_step m3) = Gen_running q (k (case x of None \<Rightarrow> Inr () | Some e \<Rightarrow> Inl e))"
    "gen_frames (gen_step m3) = (gen_frames m3)(q \<mapsto> (the (gen_frames m3 q))\<lparr>gen_point := Gen_active\<rparr>, h := None)"
    by simp_all
  have "gen_frames (gen_step m3) =
       (gen_frames m)(h := None, r \<mapsto> pr\<lparr>top_handle := q\<rparr>,
          q \<mapsto> pq\<lparr>gen_point := Gen_active, top_handle := if q = r then q else top_handle pq\<rparr>)"
    unfolding *(5) *(2) using q r ne by (cases "q = r") (auto simp: fun_eq_iff)
  with * show ?thesis by (intro exI [of _ m3]) (simp add: m3_def)
qed

text \<open>How a body ends, and what its status is then.\<close>

definition body_ends :: "'a gen_body \<Rightarrow> unit outcome \<Rightarrow> bool" where
  "body_ends b res \<longleftrightarrow> b = Gen_return \<and> res = Inr () \<or> (\<exists>e. b = Gen_throw e \<and> res = Inl e)"

lemma gen_inv_left:
  assumes inv: "gen_inv base F m h ((q, k) # st) r"
    and q: "gen_frames m q = Some pq" and r: "gen_frames m r = Some pr"
    and f: "gen_frames m' = (gen_frames m)(h := None, r \<mapsto> pr\<lparr>top_handle := q\<rparr>,
              q \<mapsto> pq\<lparr>gen_point := Gen_active, top_handle := if q = r then q else top_handle pq\<rparr>)"
    and n: "gen_fresh m' = gen_fresh m"
  shows "gen_inv base F m' q st r"
proof -
  have c: "gen_chain m q st r" and qh: "q < h" using inv by (simp_all add: gen_inv_def)
  have rq: "r \<le> q" by (rule gen_chain_root_le [OF c])
  have "gen_chain m' q st r" by (rule gen_chain_cong [OF c]) (use q r rq qh f in \<open>auto simp: gen_view_def\<close>)
  moreover have "h \<notin> fst ` set st" using gen_chain_below [OF c, of h] qh by auto
  ultimately show ?thesis using inv q r rq qh f n by (auto simp: gen_inv_def image_iff)
qed

lemma run_end_nested:
  assumes inv: "gen_inv base F m h ((q, k) # st) r" and c: "gen_control m = Gen_running h b" and e: "body_ends b res"
  obtains m' where "gen_runs r m [] m'" "gen_inv base F m' q st r" "gen_control m' = Gen_running q (k res)"
proof -
  obtain p where p: "gen_frames m h = Some p" "info_ptr p = Some q" using inv by (rule gen_inv_frame) simp
  have ch: "gen_chain m h ((q, k) # st) r" and h: "h < gen_fresh m" using inv by (simp_all add: gen_inv_def)
  then have qh: "q < h" by simp
  have cq: "gen_chain m q st r" using ch by simp
  have rq: "r \<le> q" by (rule gen_chain_root_le [OF cq])
  obtain pq where pq: "gen_frames m q = Some pq"
    "gen_point pq = Gen_nested \<lparr>except_ptr = None, parent_handle = Some q, root_handle = Some r\<rparr> h k"
    using ch by (auto simp: gen_view_def)
  obtain pr where pr: "gen_frames m r = Some pr" using inv by (auto simp: gen_inv_def)
  define x where "x = (case res of Inl e \<Rightarrow> Some e | Inr _ \<Rightarrow> None)"
  define pq' where "pq' = pq\<lparr>gen_point := Gen_nested \<lparr>except_ptr = x, parent_handle = Some q, root_handle = Some r\<rparr> h k\<rparr>"
  define m0 where "m0 = gen_put q pq' m"
  define pr' where "pr' = (if q = r then pq' else pr)"
  have x: "(case x of None \<Rightarrow> Inr () | Some e \<Rightarrow> Inl e) = res" using e by (auto simp: x_def body_ends_def)
  have m0: "gen_frames m0 h = Some p" "gen_frames m0 q = Some pq'" "gen_frames m0 r = Some pr'" "gen_fresh m0 = gen_fresh m"
    using p pq pr qh by (auto simp: m0_def pr'_def)
  have pq': "gen_point pq' = Gen_nested \<lparr>except_ptr = x, parent_handle = Some q, root_handle = Some r\<rparr> h k"
    by (simp add: pq'_def)
  have same: "m0 = m" if "b = Gen_return"
    using that e pq by (auto simp: m0_def pq'_def x_def body_ends_def gen_put_def fun_upd_idem)
  obtain m1 where m1: "FinalAwaiter_await_suspend h p m0 = Inr m1" "gen_control m1 = Gen_transfer q"
      "gen_control (gen_step m1) = Gen_running q (k res)" "gen_fresh (gen_step m1) = gen_fresh m"
      "gen_frames (gen_step m1) = (gen_frames m0)(h := None, r \<mapsto> pr'\<lparr>top_handle := q\<rparr>,
          q \<mapsto> pq'\<lparr>gen_point := Gen_active, top_handle := if q = r then q else top_handle pq'\<rparr>)"
    using final_nested [OF m0(1) p(2) qh rq _ m0(2) pq' m0(3)] h by (auto simp: m0 x)
  have "gen_step m = m1"
  proof (cases "b = Gen_return")
    case True
    with m1(1) same show ?thesis
      by (simp add: gen_step_def gen_yield_def c p gen_continue_def)
  next
    case False
    with e obtain e' where "b = Gen_throw e'" "x = Some e'" by (auto simp: body_ends_def x_def)
    with m1(1) show ?thesis
      by (simp add: gen_step_def gen_yield_def c p gen_continue_def Generator_unhandled_exception_def pq m0_def pq'_def)
  qed
  then have "gen_runs r m [] (gen_step m1)" using c m1(2) by (intro runs_two) auto
  moreover have "gen_frames (gen_step m1) = (gen_frames m)(h := None, r \<mapsto> pr\<lparr>top_handle := q\<rparr>,
          q \<mapsto> pq\<lparr>gen_point := Gen_active, top_handle := if q = r then q else top_handle pq\<rparr>)"
    unfolding m1(5) using pq pr qh by (cases "q = r") (auto simp: m0_def pq'_def pr'_def fun_eq_iff)
  then have "gen_inv base F (gen_step m1) q st r" by (rule gen_inv_left [OF inv pq(1) pr]) (rule m1(4))
  ultimately show ?thesis using that m1(3) by blast
qed

lemma run_end_root:
  assumes inv: "gen_inv base F m h [] r" and c: "gen_control m = Gen_running h b" and e: "body_ends b res"
  obtains m' where "gen_runs r m [] m'" "gen_inv base F m' r [] r" "gen_done r m' = Inr True"
    "gen_control m' = (case res of Inl e \<Rightarrow> Gen_thrown e | Inr _ \<Rightarrow> Gen_back)"
proof -
  obtain p where p: "gen_frames m h = Some p" "info_ptr p = None" using inv by (rule gen_inv_frame) simp
  have hr: "h = r" using inv by (simp add: gen_inv_def)
  define m' where "m' = (gen_put r (p\<lparr>gen_point := Gen_final\<rparr>) m)
     \<lparr>gen_control := case res of Inl e \<Rightarrow> Gen_thrown e | Inr _ \<Rightarrow> Gen_back\<rparr>"
  have "gen_step m = m'"
    using e p by (auto simp: gen_step_def gen_yield_def c gen_continue_def FinalAwaiter_await_suspend_def
        Generator_unhandled_exception_def body_ends_def hr m'_def)
  then have "gen_runs r m [] m'" using c by (intro runs_one) simp_all
  moreover have "gen_inv base F m' r [] r"
    unfolding m'_def gen_inv_control by (rule gen_inv_put) (use inv p hr in simp_all)
  ultimately show ?thesis using that by (simp add: m'_def gen_done_def)
qed

section \<open>The machine follows the reference\<close>

text \<open>Where the machine is when a body of the frame \<open>h\<close> has given its elements.\<close>

definition reaches where
  "reaches base F h st r s m \<longleftrightarrow>
     (case s of
        At v \<Rightarrow> \<exists>h' st' b. suspended_at base F m h' st' r v b
      | Ended res \<Rightarrow>
          (case st of
             [] \<Rightarrow> gen_inv base F m r [] r \<and> gen_done r m = Inr True \<and>
                    gen_control m = (case res of Inl e \<Rightarrow> Gen_thrown e | Inr _ \<Rightarrow> Gen_back)
           | (q, k) # st \<Rightarrow> gen_inv base F m q st r \<and> gen_control m = Gen_running q (k res)))"

lemma run_end:
  assumes "gen_inv base F m h st r" "gen_control m = Gen_running h b" "body_ends b res"
  shows "\<exists>m'. gen_runs r m [] m' \<and> reaches base F h st r (Ended res) m'"
proof (cases st)
  case Nil
  with assms have "gen_inv base F m h [] r" by simp
  then obtain m' where "gen_runs r m [] m'" "gen_inv base F m' r [] r" "gen_done r m' = Inr True"
    "gen_control m' = (case res of Inl e \<Rightarrow> Gen_thrown e | Inr _ \<Rightarrow> Gen_back)"
    using assms(2,3) by (rule run_end_root)
  then show ?thesis by (intro exI [of _ m']) (simp add: Nil reaches_def)
next
  case (Cons qk st')
  obtain q k where "qk = (q, k)" by (cases qk)
  with Cons assms have "gen_inv base F m h ((q, k) # st') r" by simp
  then obtain m' where "gen_runs r m [] m'" "gen_inv base F m' q st' r" "gen_control m' = Gen_running q (k res)"
    using assms(2,3) by (rule run_end_nested)
  then show ?thesis by (intro exI [of _ m']) (simp add: Cons \<open>qk = (q, k)\<close> reaches_def)
qed

lemma run_element:
  assumes "gen_inv base F m h st r" "gen_control m = Gen_running h (Yield_val v b) \<or> gen_control m = Gen_running h (Yield_copy v b)"
  shows "\<exists>m'. gen_runs r m [] m' \<and> suspended_at base F m' h st r v b"
  using assms(2)
proof
  assume "gen_control m = Gen_running h (Yield_val v b)"
  with assms(1) show ?thesis by (rule run_yield) blast
next
  assume "gen_control m = Gen_running h (Yield_copy v b)"
  with assms(1) show ?thesis by (rule run_yield_copy) blast
qed

lemma run_past_element:
  assumes "gen_inv base F m h st r" "gen_control m = Gen_running h (Yield_val v b) \<or> gen_control m = Gen_running h (Yield_copy v b)"
  obtains m' where "gen_runs r m [v] m'" "gen_inv base F m' h st r" "gen_control m' = Gen_running h b"
proof -
  obtain m1 where "gen_runs r m [] m1" "suspended_at base F m1 h st r v b" using run_element [OF assms] by blast
  moreover obtain m2 where m2: "gen_runs r m1 [v] m2" "gen_inv base F m2 h st r" "gen_control m2 = Gen_running h b"
    using calculation(2) by (rule run_resume)
  ultimately have "gen_runs r m ([] @ [v]) m2" by (intro runs_trans)
  with m2 that show ?thesis by simp
qed

lemma range_after:
  "gen_inv base F m h st r \<Longrightarrow> gen_control m = Gen_running h (range_nested vs) \<Longrightarrow>
   \<exists>m'. gen_runs r m vs m' \<and> reaches base F h st r (Ended (Inr ())) m'"
proof (induction vs arbitrary: m)
  case Nil
  then show ?case by (intro run_end) (simp_all add: body_ends_def)
next
  case (Cons v vs)
  obtain m1 where "gen_runs r m [v] m1" "gen_inv base F m1 h st r" "gen_control m1 = Gen_running h (range_nested vs)"
    using run_past_element [OF Cons.prems(1)] Cons.prems(2) by (metis range_nested.simps(2))
  moreover from this Cons.IH [of m1] obtain m' where "gen_runs r m1 vs m'" "reaches base F h st r (Ended (Inr ())) m'" by blast
  moreover from calculation have "gen_runs r m ([v] @ vs) m'" by (intro runs_trans)
  ultimately show ?case by auto
qed

lemma range_in:
  "n < length vs \<Longrightarrow> gen_inv base F m h st r \<Longrightarrow> gen_control m = Gen_running h (range_nested vs) \<Longrightarrow>
   \<exists>m'. gen_runs r m (take n vs) m' \<and> reaches base F h st r (At (vs ! n)) m'"
proof (induction vs arbitrary: m n)
  case (Cons v vs)
  show ?case
  proof (cases n)
    case 0
    have "gen_control m = Gen_running h (Yield_val v (range_nested vs))" using Cons.prems by simp
    then show ?thesis using run_element [OF Cons.prems(2)] 0 by (auto simp: reaches_def)
  next
    case (Suc i)
    obtain m1 where "gen_runs r m [v] m1" "gen_inv base F m1 h st r" "gen_control m1 = Gen_running h (range_nested vs)"
      using run_past_element [OF Cons.prems(2)] Cons.prems(3) by (metis range_nested.simps(2))
    moreover from this Cons.IH [of i m1] Cons.prems(1) Suc obtain m' where
      "gen_runs r m1 (take i vs) m'" "reaches base F h st r (At (vs ! i)) m'" by auto
    moreover from calculation have "gen_runs r m ([v] @ take i vs) m'" by (intro runs_trans)
    ultimately show ?thesis using Suc by auto
  qed
qed simp

lemma emits_runs:
  "emits b xs s \<Longrightarrow> gen_inv base F m h st r \<Longrightarrow> gen_control m = Gen_running h b \<Longrightarrow>
   \<exists>m'. gen_runs r m xs m' \<and> reaches base F h st r s m'"
proof (induction arbitrary: m h st rule: emits.induct)
  case emits_return
  then show ?case by (intro run_end) (simp_all add: body_ends_def)
next
  case (emits_throw e)
  then show ?case by (intro run_end) (simp_all add: body_ends_def)
next
  case (emits_at v b)
  then show ?case using run_element by (fastforce simp: reaches_def)
next
  case (emits_at_copy v b)
  then show ?case using run_element by (fastforce simp: reaches_def)
next
  case (emits_next b xs s v)
  then obtain m1 where m1: "gen_runs r m [v] m1" "gen_inv base F m1 h st r" "gen_control m1 = Gen_running h b"
    using run_past_element by metis
  with emits_next.IH obtain m2 where "gen_runs r m1 xs m2" "reaches base F h st r s m2" by blast
  with runs_trans [OF m1(1)] show ?case by auto
next
  case (emits_next_copy b xs s v)
  then obtain m1 where m1: "gen_runs r m [v] m1" "gen_inv base F m1 h st r" "gen_control m1 = Gen_running h b"
    using run_past_element by metis
  with emits_next_copy.IH obtain m2 where "gen_runs r m1 xs m2" "reaches base F h st r s m2" by blast
  with runs_trans [OF m1(1)] show ?case by auto
next
  case (emits_in_gen b xs v k)
  obtain m1 c where m1: "gen_runs r m [] m1" "gen_inv base F m1 c ((h, k) # st) r" "gen_control m1 = Gen_running c b"
    using run_nest [OF emits_in_gen.prems(1) disjI1 [OF emits_in_gen.prems(2)]] by blast
  with emits_in_gen.IH obtain m2 where "gen_runs r m1 xs m2" "reaches base F c ((h, k) # st) r (At v) m2" by blast
  with runs_trans [OF m1(1)] show ?case by (auto simp: reaches_def)
next
  case (emits_after_gen b xs res k ys s)
  obtain m1 c where m1: "gen_runs r m [] m1" "gen_inv base F m1 c ((h, k) # st) r" "gen_control m1 = Gen_running c b"
    using run_nest [OF emits_after_gen.prems(1) disjI1 [OF emits_after_gen.prems(2)]] by blast
  with emits_after_gen.IH(1) obtain m2 where m2: "gen_runs r m1 xs m2" "reaches base F c ((h, k) # st) r (Ended res) m2"
    by blast
  then have "gen_inv base F m2 h st r" "gen_control m2 = Gen_running h (k res)" by (simp_all add: reaches_def)
  with emits_after_gen.IH(2) obtain m3 where m3: "gen_runs r m2 ys m3" "reaches base F h st r s m3" by blast
  have "gen_runs r m ([] @ (xs @ ys)) m3" by (intro runs_trans [OF m1(1)] runs_trans [OF m2(1)] m3(1))
  with m3(2) show ?case by auto
next
  case (emits_moved k ys s)
  obtain p where p: "gen_frames m h = Some p" using emits_moved.prems(1) by (rule gen_inv_frame)
  define m1 where "m1 = m\<lparr>gen_control := Gen_running h (k (Inr ()))\<rparr>"
  have "gen_step m = m1" using p emits_moved.prems(2)
    by (simp add: gen_step_def gen_yield_def NestedAwaiter_await_resume_def NestInfo_default_def m1_def)
  then have r1: "gen_runs r m [] m1" using emits_moved.prems(2) by (intro runs_one) simp_all
  have "gen_inv base F m1 h st r" "gen_control m1 = Gen_running h (k (Inr ()))"
    using emits_moved.prems(1) by (simp_all add: m1_def)
  with emits_moved.IH obtain m2 where "gen_runs r m1 ys m2" "reaches base F h st r s m2" by blast
  with runs_trans [OF r1] show ?case by auto
next
  case (emits_in_range n vs k)
  obtain m1 c where m1: "gen_runs r m [] m1" "gen_inv base F m1 c ((h, k) # st) r" "gen_control m1 = Gen_running c (range_nested vs)"
    using run_nest [OF emits_in_range.prems(1) disjI2 [OF conjI [OF emits_in_range.prems(2) refl]]] by blast
  with range_in [OF emits_in_range.hyps] obtain m2 where "gen_runs r m1 (take n vs) m2"
    "reaches base F c ((h, k) # st) r (At (vs ! n)) m2" by blast
  with runs_trans [OF m1(1)] show ?case by (auto simp: reaches_def)
next
  case (emits_after_range k ys s vs)
  obtain m1 c where m1: "gen_runs r m [] m1" "gen_inv base F m1 c ((h, k) # st) r" "gen_control m1 = Gen_running c (range_nested vs)"
    using run_nest [OF emits_after_range.prems(1) disjI2 [OF conjI [OF emits_after_range.prems(2) refl]]] by blast
  with range_after obtain m2 where m2: "gen_runs r m1 vs m2" "reaches base F c ((h, k) # st) r (Ended (Inr ())) m2"
    by blast
  then have "gen_inv base F m2 h st r" "gen_control m2 = Gen_running h (k (Inr ()))" by (simp_all add: reaches_def)
  with emits_after_range.IH obtain m3 where m3: "gen_runs r m2 ys m3" "reaches base F h st r s m3" by blast
  have "gen_runs r m ([] @ (vs @ ys)) m3" by (intro runs_trans [OF m1(1)] runs_trans [OF m2(1)] m3(1))
  with m3(2) show ?case by auto
qed

section \<open>Destruction\<close>

lemma destroy_chain:
  assumes "gen_chain m h st r"
    and "\<And>n. j \<le> n \<Longrightarrow> gen_destroy_upto n h m = m\<lparr>gen_frames := gen_frames m |` (- S)\<rparr>"
    and "j + length st \<le> n"
  shows "gen_destroy_upto n r m = m\<lparr>gen_frames := gen_frames m |` (- (S \<union> fst ` set st))\<rparr>"
  using assms
proof (induction m h st r arbitrary: S j rule: gen_chain.induct)
  case (2 m h q k st r)
  have "gen_destroy_upto i q m = m\<lparr>gen_frames := gen_frames m |` (- insert q S)\<rparr>" if i: "Suc j \<le> i" for i
  proof -
    obtain i' where i': "i = Suc i'" "j \<le> i'" using i by (cases i) auto
    from 2(2) obtain p where "gen_frames m q = Some p" "\<exists>n. gen_point p = Gen_nested n h k" by (auto simp: gen_view_def)
    with 2(3) [OF i'(2)] i'(1) show ?thesis
      by (auto simp: Let_def restrict_map_def fun_eq_iff intro!: arg_cong [where f = "\<lambda>f. m\<lparr>gen_frames := f\<rparr>"])
  qed
  from 2(1) [OF _ this] 2(2,4) show ?case by simp
qed simp

lemma destroy_all:
  assumes inv: "gen_inv base F m h st r" and v: "\<And>n c k. map_option snd (gen_view m h) \<noteq> Some (Gen_nested n c k)"
  shows "gen_frames (gen_destroy r m) = (\<lambda>x. if x < base then F x else None)"
proof -
  have ch: "gen_chain m h st r" and f: "h < gen_fresh m" using inv by (simp_all add: gen_inv_def)
  obtain p where p: "gen_frames m h = Some p" "base \<le> h" using inv by (rule gen_inv_frame)
  have "gen_destroy_upto n h m = m\<lparr>gen_frames := gen_frames m |` (- {h})\<rparr>" if "1 \<le> n" for n
    using that p v by (cases n)
      (auto simp: gen_view_def restrict_map_def fun_eq_iff split: gen_point.splits intro!: arg_cong [where f = "\<lambda>f. m\<lparr>gen_frames := f\<rparr>"])
  from destroy_chain [OF ch this] gen_chain_length [OF ch] f
  have "gen_destroy r m = m\<lparr>gen_frames := gen_frames m |` (- ({h} \<union> fst ` set st))\<rparr>" by (simp add: gen_destroy_def)
  then have fr: "gen_frames (gen_destroy r m) x = (if x \<in> insert h (fst ` set st) then None else gen_frames m x)" for x
    by (simp add: restrict_map_def)
  have "base \<le> x" if "x \<in> fst ` set st" for x
  proof -
    have "r \<le> x" using ch that by (induction m h st r rule: gen_chain.induct) (auto dest: gen_chain_root_le)
    with inv show ?thesis by (simp add: gen_inv_def)
  qed
  with p(2) have low: "x \<notin> insert h (fst ` set st)" if "x < base" for x using that by (metis insert_iff not_less)
  have high: "gen_frames m x = None" if "base \<le> x" "x \<notin> insert h (fst ` set st)" for x
    using inv that unfolding gen_inv_def by blast
  show ?thesis
  proof
    fix x
    show "gen_frames (gen_destroy r m) x = (if x < base then F x else None)"
      using fr [of x] low [of x] high [of x] inv unfolding gen_inv_def by (cases "x < base") auto
  qed
qed

end
