(* ===== verification/Generator_Props.thy ===== *)
theory Generator_Props
  imports Generator_Chain
begin

text \<open>
  What a consumer of a generator sees: the elements of the body and of everything it nests, in order,
  its exceptions, and no frame left behind.
\<close>

section \<open>The consumer\<close>

text \<open>
  \<^verbatim>\<open>for (auto&& x : g())\<close>, left after \<open>n + 1\<close> elements: the elements it saw, how it was left, and the
  machine after the iterator and the generator are destroyed.
\<close>

fun visit :: "nat \<Rightarrow> gen_handle option \<Rightarrow> 'a gen_machine \<Rightarrow> ('a list \<times> unit outcome \<times> 'a gen_machine) option" where
  "visit n it m =
     (case iterator_at_end it m of
        Inl e \<Rightarrow> Some ([], Inl e, m)
      | Inr ended \<Rightarrow>
          if ended then Some ([], Inr (), m)
          else
            (case iterator_deref it m of
               Inl e \<Rightarrow> Some ([], Inl e, m)
             | Inr v \<Rightarrow>
                 (case n of
                    0 \<Rightarrow> Some ([v], Inr (), m)
                  | Suc n \<Rightarrow>
                      (case iterator_increment it m of
                         None \<Rightarrow> None
                       | Some (Inl e, m) \<Rightarrow> Some ([v], Inl e, m)
                       | Some (Inr _, m) \<Rightarrow> map_option (\<lambda>(vs, r). (v # vs, r)) (visit n it m)))))"

declare visit.simps [simp del]

definition range_for :: "nat \<Rightarrow> 'a gen_body \<Rightarrow> 'a gen_machine \<Rightarrow> ('a list \<times> unit outcome \<times> 'a gen_machine) option" where
  "range_for n b m =
     (case Generator_get_return_object b m of (g, m) \<Rightarrow>
        (case Generator_begin g m of
           None \<Rightarrow> None
         | Some (Inl e, g, m) \<Rightarrow> Some ([], Inl e, Generator_destructor g m)
         | Some (Inr it, g, m) \<Rightarrow>
             map_option (\<lambda>(vs, r, m). (vs, r, Generator_destructor g (iterator_destructor it m))) (visit n it m)))"

section \<open>The consumer sees the elements\<close>

definition gen_stopped :: "'a gen_machine \<Rightarrow> bool" where
  "gen_stopped m \<longleftrightarrow> (case gen_control m of Gen_back \<Rightarrow> True | Gen_thrown e \<Rightarrow> True | _ \<Rightarrow> False)"

lemma gen_run_stopped: "gen_stopped m \<Longrightarrow> gen_run m = Some m"
  by (subst gen_run.simps) (auto simp: gen_stopped_def split: gen_control.splits)

lemma gen_run_step: "\<not> gen_stopped m \<Longrightarrow> gen_run m = gen_run (gen_step m)"
  by (subst gen_run.simps) (auto simp: gen_stopped_def split: gen_control.splits)

text \<open>The first stop of a run, and what is left of it.\<close>

lemma runs_first:
  "gen_runs r m xs m' \<Longrightarrow> gen_stopped m' \<Longrightarrow>
   \<exists>m1. gen_run m = Some m1 \<and>
     (case xs of [] \<Rightarrow> m1 = m'
      | v # ys \<Rightarrow> gen_control m1 = Gen_back \<and> iterator_deref (Some r) m1 = Inr v \<and>
          (\<exists>t. gen_top r m1 = Inr t \<and> gen_runs r (m1\<lparr>gen_control := Gen_transfer t\<rparr>) ys m'))"
proof (induction rule: gen_runs.induct)
  case (runs_refl m)
  then show ?case by (simp add: gen_run_stopped)
next
  case (runs_step m xs m')
  then have "\<not> gen_stopped m" by (simp add: gen_stopped_def split: gen_control.splits)
  with runs_step show ?case by (simp add: gen_run_step)
next
  case (runs_item m v t xs m')
  then have "gen_stopped m" by (simp add: gen_stopped_def)
  with runs_item show ?case by (auto simp: gen_run_stopped)
qed

lemma deref_bool: "iterator_deref (Some r) m = Inr v \<Longrightarrow> iterator_bool (Some r) m = Inr True"
  by (auto simp: iterator_deref_def bind_Inr_iff logicAssert_def split: if_splits)

lemma deref_not_end: "iterator_deref (Some r) m = Inr v \<Longrightarrow> iterator_at_end (Some r) m = Inr False"
  using deref_bool [of r m v] by (auto simp: iterator_at_end_def iterator_bool_def bind_Inr_iff)

text \<open>The loop after a resumption that stopped in \<open>m1\<close>.\<close>

definition visit_from :: "nat \<Rightarrow> gen_handle \<Rightarrow> 'a gen_machine \<Rightarrow> ('a list \<times> unit outcome \<times> 'a gen_machine) option" where
  "visit_from n r m1 =
     (case gen_control m1 of
        Gen_thrown e \<Rightarrow> Some ([], Inl e, m1\<lparr>gen_control := Gen_back\<rparr>)
      | _ \<Rightarrow> visit n (Some r) m1)"

lemma visit_item:
  assumes "gen_control m = Gen_back" "iterator_deref (Some r) m = Inr v" "gen_top r m = Inr t"
    and "gen_run (m\<lparr>gen_control := Gen_transfer t\<rparr>) = Some m1" "gen_stopped m1"
  shows "visit_from (Suc n) r m = map_option (\<lambda>(vs, q). (v # vs, q)) (visit_from n r m1)"
proof -
  have "visit_from (Suc n) r m = visit (Suc n) (Some r) m" by (simp add: visit_from_def assms)
  moreover have "iterator_increment (Some r) m =
      Some (case gen_control m1 of Gen_thrown e \<Rightarrow> (Inl e, m1\<lparr>gen_control := Gen_back\<rparr>) | _ \<Rightarrow> (Inr (), m1))"
    by (simp add: iterator_increment_def deref_bool [OF assms(2)] logicAssert_def assms resume_outcome_def gen_resume_def)
  ultimately show ?thesis using assms(5) deref_not_end [OF assms(2)] assms(2)
    by (subst (asm) visit.simps) (auto simp: visit_from_def gen_stopped_def split: gen_control.splits)
qed

lemma visit_runs:
  "gen_runs r m xs m' \<Longrightarrow> gen_stopped m' \<Longrightarrow>
   \<exists>m1. gen_run m = Some m1 \<and> gen_stopped m1 \<and>
     visit_from (length xs + n) r m1 = map_option (\<lambda>(vs, q). (xs @ vs, q)) (visit_from n r m')"
proof (induction xs arbitrary: m)
  case Nil
  with runs_first [OF Nil] show ?case by (cases "visit_from n r m'") auto
next
  case (Cons v ys)
  obtain m1 t where m1: "gen_run m = Some m1" "gen_control m1 = Gen_back" "iterator_deref (Some r) m1 = Inr v"
    "gen_top r m1 = Inr t" "gen_runs r (m1\<lparr>gen_control := Gen_transfer t\<rparr>) ys m'"
    using runs_first [OF Cons.prems] by auto
  obtain m2 where m2: "gen_run (m1\<lparr>gen_control := Gen_transfer t\<rparr>) = Some m2" "gen_stopped m2"
    "visit_from (length ys + n) r m2 = map_option (\<lambda>(vs, q). (ys @ vs, q)) (visit_from n r m')"
    using Cons.IH [OF m1(5) Cons.prems(2)] by blast
  have "gen_stopped m1" using m1(2) by (simp add: gen_stopped_def)
  moreover have "visit_from (Suc (length ys + n)) r m1 = map_option (\<lambda>(vs, q). (v # ys @ vs, q)) (visit_from n r m')"
    unfolding visit_item [OF m1(2-4) m2(1,2)] m2(3) by (simp add: option.map_comp comp_def split_def)
  ultimately show ?case using m1(1) by simp
qed

lemma range_for_visit:
  assumes r: "r = gen_fresh m" and m1: "m1 = snd (Generator_get_return_object b m)"
    and run: "gen_run (m1\<lparr>gen_control := Gen_transfer r\<rparr>) = Some m2" and stop: "gen_stopped m2"
  shows "range_for n b m = map_option (\<lambda>(vs, q, m). (vs, q, gen_destroy r m)) (visit_from n r m2)"
proof -
  have "Generator_get_return_object b m = (Some r, m1)" by (simp add: r m1 Generator_get_return_object_def)
  moreover have "resume_outcome r m1 =
      Some (case gen_control m2 of Gen_thrown e \<Rightarrow> (Inl e, m2\<lparr>gen_control := Gen_back\<rparr>) | _ \<Rightarrow> (Inr (), m2))"
    by (simp add: resume_outcome_def gen_resume_def run)
  ultimately show ?thesis using stop
    by (auto simp: range_for_def Generator_begin_def visit_from_def gen_stopped_def Generator_destructor_def
        iterator_destructor_def split: gen_control.splits)
qed

lemma range_for_runs:
  assumes "emits b xs s" and free: "\<forall>x\<ge>gen_fresh m. gen_frames m x = None" and r: "r = gen_fresh m"
  obtains m' where "reaches r (gen_frames m) r [] r s m'"
    "\<And>n. range_for (length xs + n) b m =
        map_option (\<lambda>(vs, q, m). (xs @ vs, q, gen_destroy r m)) (visit_from n r m')"
proof -
  define m1 where "m1 = snd (Generator_get_return_object b m)"
  define m2 where "m2 = m1\<lparr>gen_control := Gen_transfer r\<rparr>"
  have f: "gen_frames m1 = (gen_frames m)(r \<mapsto> gen_promise_base r b)" "gen_fresh m1 = Suc r"
    by (simp_all add: m1_def Generator_get_return_object_def r)
  have "gen_inv r (gen_frames m) m2 r [] r"
    using free r by (auto simp: m2_def gen_inv_def f gen_view_def gen_promise_base_def)
  moreover have "gen_control m2 = Gen_transfer r" "map_option snd (gen_view m2 r) = Some (Gen_initial b)"
    by (simp_all add: m2_def gen_view_def f gen_promise_base_def)
  ultimately obtain m3 where m3: "gen_runs r m2 [] m3" "gen_inv r (gen_frames m) m3 r [] r" "gen_control m3 = Gen_running r b"
    by (rule step_initial)
  obtain m' where m': "gen_runs r m3 xs m'" "reaches r (gen_frames m) r [] r s m'"
    using emits_runs [OF assms(1) m3(2,3)] by blast
  have stop: "gen_stopped m'" using m'(2)
    by (auto simp: reaches_def gen_stopped_def suspended_at_def split: gen_status.splits sum.splits)
  have runs: "gen_runs r m2 xs m'" using runs_trans [OF m3(1) m'(1)] by simp
  show ?thesis
  proof (rule that [OF m'(2)])
    fix n
    obtain m4 where m4: "gen_run m2 = Some m4" "gen_stopped m4"
      "visit_from (length xs + n) r m4 = map_option (\<lambda>(vs, q). (xs @ vs, q)) (visit_from n r m')"
      using visit_runs [OF runs stop] by blast
    have "range_for (length xs + n) b m = map_option (\<lambda>(vs, q, m). (vs, q, gen_destroy r m)) (visit_from (length xs + n) r m4)"
      by (rule range_for_visit [OF r m1_def _ m4(2)]) (use m4(1) in \<open>simp add: m2_def\<close>)
    then show "range_for (length xs + n) b m =
        map_option (\<lambda>(vs, q, m). (xs @ vs, q, gen_destroy r m)) (visit_from n r m')"
      by (simp add: m4(3) option.map_comp comp_def split_def)
  qed
qed

lemma gen_destroy_control [simp]: "gen_frames (gen_destroy h (m\<lparr>gen_control := c\<rparr>)) = gen_frames (gen_destroy h m)"
proof -
  have "gen_destroy_upto n h (m\<lparr>gen_control := c\<rparr>) = (gen_destroy_upto n h m)\<lparr>gen_control := c\<rparr>" for n
    by (induction n arbitrary: h) (auto simp: Let_def split: option.splits gen_point.splits)
  then show ?thesis by (simp add: gen_destroy_def)
qed

lemma reaches_visit:
  assumes free: "\<forall>x\<ge>r. F x = None" and re: "reaches r F r [] r s m"
  shows "\<exists>m'. visit_from n r m = Some (case s of At v \<Rightarrow> [v] | Ended _ \<Rightarrow> [], case s of At v \<Rightarrow> Inr () | Ended q \<Rightarrow> q, m') \<and>
    gen_frames (gen_destroy r m') = F \<or> (\<exists>v. s = At v) \<and> n \<noteq> 0"
proof -
  have F: "(\<lambda>x. if x < r then F x else None) = F" using free by (auto simp: fun_eq_iff)
  show ?thesis
  proof (cases s)
    case (At v)
    with re obtain h st b where s: "suspended_at r F m h st r v b" by (auto simp: reaches_def)
    then have i: "gen_inv r F m h st r" and y: "map_option snd (gen_view m h) = Some (Gen_yielded b)"
      and "gen_control m = Gen_back" and d: "iterator_deref (Some r) m = Inr v" by (simp_all add: suspended_at_def)
    have "map_option snd (gen_view m h) \<noteq> Some (Gen_nested a c k)" for a c k unfolding y by simp
    then have "gen_frames (gen_destroy r m) = F" using destroy_all [OF i] F by simp
    moreover have "visit 0 (Some r) m = Some ([v], Inr (), m)" using d deref_not_end [OF d] by (subst visit.simps) simp
    ultimately show ?thesis using At \<open>gen_control m = Gen_back\<close> by (cases "n = 0") (auto simp: visit_from_def)
  next
    case (Ended q)
    with re have i: "gen_inv r F m r [] r" and d: "gen_done r m = Inr True"
      and c: "gen_control m = (case q of Inl e \<Rightarrow> Gen_thrown e | Inr _ \<Rightarrow> Gen_back)" by (simp_all add: reaches_def)
    have "map_option snd (gen_view m r) = Some Gen_final"
      using d by (auto simp: gen_done_def gen_view_def split: option.splits gen_point.splits)
    then have "map_option snd (gen_view m r) \<noteq> Some (Gen_nested a c k)" for a c k by auto
    then have "gen_frames (gen_destroy r m) = F" using destroy_all [OF i] F by simp
    moreover have "visit n (Some r) m = Some ([], Inr (), m)" by (subst visit.simps) (simp add: iterator_at_end_def d)
    ultimately show ?thesis using c Ended by (cases q) (auto simp: visit_from_def)
  qed
qed

section \<open>Properties\<close>

text \<open>C6: A range-for over a generator that is left after n + 1 elements sees the elements that the
  body and all it nests give, in order: all of them and then the end or the exception that left the
  body, or the first n + 1 of them, also of a generator that goes on for ever. Each increment
  returns, and when the loop is left no frame of the generator or of those nested in it remains,
  while all other frames are as before.\<close>

theorem generator_elements:
  assumes "emits b xs s" and "\<forall>x\<ge>gen_fresh m. gen_frames m x = None"
    and "case s of At v \<Rightarrow> n = length xs | Ended q \<Rightarrow> length xs \<le> n"
  shows "\<exists>m'. range_for n b m =
      Some (case s of At v \<Rightarrow> xs @ [v] | Ended q \<Rightarrow> xs, case s of At v \<Rightarrow> Inr () | Ended q \<Rightarrow> q, m') \<and>
    gen_frames m' = gen_frames m"
proof -
  have n: "n = length xs + (n - length xs)" and z: "(\<exists>v. s = At v) \<longrightarrow> n - length xs = 0"
    using assms(3) by (auto split: gen_status.splits)
  obtain m1 where m1: "reaches (gen_fresh m) (gen_frames m) (gen_fresh m) [] (gen_fresh m) s m1"
    and eq: "\<And>n. range_for (length xs + n) b m =
        map_option (\<lambda>(vs, q, m'). (xs @ vs, q, gen_destroy (gen_fresh m) m')) (visit_from n (gen_fresh m) m1)"
    using range_for_runs [OF assms(1,2) refl] by blast
  from reaches_visit [OF assms(2) m1, of "n - length xs"] z eq [of "n - length xs"] n
  show ?thesis by (auto split: gen_status.splits)
qed

text \<open>A generator that counts for ever, and one that nests it after a range and one that throws.\<close>

primcorec gen_count_from :: "nat \<Rightarrow> nat gen_body" where
  "gen_count_from i = Yield_val i (gen_count_from (Suc i))"

definition catch_and_count :: "unit outcome \<Rightarrow> nat gen_body" where
  "catch_and_count r = (if r = Inl (User_exn 1) then Yield_gen (gen_count_from 0) (\<lambda>_. Gen_return) else Gen_return)"

lemma generator_elements_witness:
  "\<exists>m'. range_for 4 (Yield_range [7, 8] (\<lambda>_. Yield_gen (Yield_val 9 (Gen_throw (User_exn 1))) catch_and_count))
      gen_machine_empty = Some ([7, 8, 9, 0, 1], Inr (), m') \<and> gen_frames m' = gen_frames gen_machine_empty"
proof -
  have "emits (gen_count_from 0) [0] (At 1)"
    by (subst gen_count_from.code, rule emits_next, subst gen_count_from.code) (simp add: emits_at)
  then have "emits (catch_and_count (Inl (User_exn 1))) [0] (At 1)" by (simp add: catch_and_count_def emits_in_gen)
  then have "emits (Yield_gen (Yield_val 9 (Gen_throw (User_exn 1))) catch_and_count) ([9] @ [0]) (At (1::nat))"
    by (rule emits_after_gen [where b = "Yield_val 9 (Gen_throw (User_exn 1))", OF emits_next [OF emits_throw]])
  then have "emits (Yield_range [7, 8] (\<lambda>_. Yield_gen (Yield_val 9 (Gen_throw (User_exn 1))) catch_and_count))
      ([7, 8] @ ([9] @ [0])) (At 1)" by (rule emits_after_range)
  from generator_elements [OF this, of gen_machine_empty 4] show ?thesis by (simp add: gen_machine_empty_def)
qed

end
