(* ===== verification/Lazy.thy ===== *)
theory Lazy
  imports Try_Value
begin

text \<open>
  \<^verbatim>\<open>Lazy<T>\<close>, \<^verbatim>\<open>RescheduleLazy<T>\<close> and their promise and awaiters (\<^verbatim>\<open>src/coro/Lazy.h\<close>), the detached
  coroutine that starts them (\<^verbatim>\<open>src/coro/DetachedCoroutine.h\<close>) and lazy locals
  (\<^verbatim>\<open>src/coro/LazyLocalBase.h\<close>), as an abstract machine on coroutine frames. The body of a coroutine is
  a program over the awaits the promise accepts; one machine step is one piece of code between two
  suspension or resumption points, and a transfer of control is a step of its own, as symmetric
  transfer is.
\<close>

section \<open>LazyLocalBase\<close>

text \<open>A type tag is an address, null for the base class; \<open>ident\<close> tells objects apart.\<close>

record LazyLocalBase =
  typeinfo :: "nat option"
  ident :: nat

definition LazyLocalBase_new :: "nat option \<Rightarrow> nat \<Rightarrow> LazyLocalBase outcome" where
  "LazyLocalBase_new info i =
     bind_outcome (cassert (info \<noteq> None)) (\<lambda>_. Inr \<lparr>typeinfo = info, ident = i\<rparr>)"

definition LazyLocalBase_default :: "nat \<Rightarrow> LazyLocalBase" where
  "LazyLocalBase_default i = \<lparr>typeinfo = None, ident = i\<rparr>"

definition getTypeTag :: "LazyLocalBase \<Rightarrow> nat option" where
  "getTypeTag base = typeinfo base"

text \<open>
  The target of a cast: the base class itself, or a class with its \<^verbatim>\<open>classof\<close>. A tag test as the
  comment of the class shows is \<open>Class (\<lambda>b. getTypeTag b = Some tag)\<close>.
\<close>

datatype cast_target = Base_class | Class "LazyLocalBase \<Rightarrow> bool"

definition dynamicCast :: "cast_target \<Rightarrow> LazyLocalBase option \<Rightarrow> LazyLocalBase option outcome" where
  "dynamicCast T base =
     bind_outcome (cassert (base \<noteq> None)) (\<lambda>_.
       case T of Base_class \<Rightarrow> Inr base
       | Class classof \<Rightarrow> (case base of None \<Rightarrow> Inr None | Some b \<Rightarrow> Inr (if classof b then Some b else None)))"

section \<open>Coroutine bodies\<close>

text \<open>
  What a coroutine that returns a Lazy does next: \<^verbatim>\<open>co_return\<close>, an exception that leaves the body, or
  a \<^verbatim>\<open>co_await\<close> with what follows on its result. \<open>Await b l k\<close> awaits a fresh coroutine with body \<open>b\<close>
  whose local was first set to \<open>l\<close>; \<open>Await_null\<close> awaits a Lazy without a coroutine, as a failed
  allocation gives.
\<close>

datatype 'v body =
    Return_value 'v
  | Throw exn
  | Await "'v body" "LazyLocalBase option" "'v outcome \<Rightarrow> 'v body"
  | Await_null "'v outcome \<Rightarrow> 'v body"
  | Await_try "'v body" "LazyLocalBase option" "'v Try outcome \<Rightarrow> 'v body"
  | Await_yield "unit outcome \<Rightarrow> 'v body"
  | Current_executor "executor_ptr \<Rightarrow> 'v body"
  | Current_local cast_target "LazyLocalBase option \<Rightarrow> 'v body"

section \<open>Promises and frames\<close>

type_synonym handle = nat

text \<open>Where a frame is suspended; an awaiter that lives in the frame holds the handle it awaits.\<close>

datatype 'v suspend_point =
    Initial "'v body"
  | Awaiting handle "'v outcome \<Rightarrow> 'v body"
  | Awaiting_try handle "'v Try outcome \<Rightarrow> 'v body"
  | Yielded "unit outcome \<Rightarrow> 'v body"
  | Active
  | Final

record 'v LazyPromise =
  continuation :: "handle option"
  executor :: executor_ptr
  lazy_local :: "LazyLocalBase option"
  result_value :: "'v Try"
  point :: "'v suspend_point"

definition LazyPromise_new :: "'v body \<Rightarrow> 'v LazyPromise" where
  "LazyPromise_new b =
     \<lparr>continuation = None, executor = None, lazy_local = None, result_value = Nothing, point = Initial b\<rparr>"

definition LazyPromise_return_value :: "'v \<Rightarrow> 'v LazyPromise \<Rightarrow> 'v LazyPromise" where
  "LazyPromise_return_value v p = p\<lparr>result_value := Value v\<rparr>"

definition LazyPromise_unhandled_exception :: "exn \<Rightarrow> 'v LazyPromise \<Rightarrow> 'v LazyPromise" where
  "LazyPromise_unhandled_exception e p = p\<lparr>result_value := Exc (Some e)\<rparr>"

definition LazyPromise_result :: "'v LazyPromise \<Rightarrow> 'v outcome" where
  "LazyPromise_result p =
     (case result_value p of
        Exc q \<Rightarrow> rethrow_exception q
      | Value v \<Rightarrow> Inr v
      | Nothing \<Rightarrow> Inl Assert_failed)"

definition LazyPromise_tryResult :: "'v LazyPromise \<Rightarrow> 'v Try outcome" where
  "LazyPromise_tryResult p =
     (case result_value p of
        Exc q \<Rightarrow> Inr (Try_of_exception q)
      | Value v \<Rightarrow> Inr (Try_of_value v)
      | Nothing \<Rightarrow> Inl Assert_failed)"

text \<open>\<^verbatim>\<open>LazyPromise<void>\<close> only keeps an exception; it has no \<^verbatim>\<open>tryResult\<close>.\<close>

definition LazyPromise_void_unhandled :: "exn \<Rightarrow> exception_ptr \<Rightarrow> exception_ptr" where
  "LazyPromise_void_unhandled e p = Some e"

definition LazyPromise_void_result :: "exception_ptr \<Rightarrow> unit outcome" where
  "LazyPromise_void_result p = (case p of None \<Rightarrow> Inr () | Some e \<Rightarrow> Inl e)"

section \<open>The machine\<close>

text \<open>
  A detached coroutine is the \<^verbatim>\<open>launchCoro\<close> of \<^verbatim>\<open>start\<close>: it awaits one handle and calls a callback,
  which returns or throws. Control is in a running body, on its way to a handle, back in whoever
  resumed last (an executor's loop), or an exception leaves the resumed coroutine.
\<close>

datatype 'v coroutine =
    Lazy_frame "'v LazyPromise"
  | Detached handle "'v Try \<Rightarrow> unit outcome"

datatype 'v control = Running handle "'v body" | Transfer handle | Idle | Thrown exn

datatype schedule_info = Default_info | Yield_info

record 'v machine =
  frames :: "handle \<Rightarrow> 'v coroutine option"
  fresh :: handle
  ready :: "(nat \<times> handle \<times> schedule_info) list"
  delivered :: "'v Try list"
  control :: "'v control"

definition machine_empty :: "'v machine" where
  "machine_empty = \<lparr>frames = (\<lambda>_. None), fresh = 0, ready = [], delivered = [], control = Idle\<rparr>"

text \<open>A call of a coroutine function: the frame is allocated and suspended at its start.\<close>

definition LazyPromise_get_return_object :: "'v body \<Rightarrow> 'v machine \<Rightarrow> handle option \<times> 'v machine" where
  "LazyPromise_get_return_object b m =
     (Some (fresh m),
      m\<lparr>frames := (frames m)(fresh m \<mapsto> Lazy_frame (LazyPromise_new b)), fresh := Suc (fresh m)\<rparr>)"

definition LazyPromise_allocation_failure :: "'v machine \<Rightarrow> handle option \<times> 'v machine" where
  "LazyPromise_allocation_failure m = (None, m)"

definition destroy_handle :: "handle \<Rightarrow> 'v machine \<Rightarrow> 'v machine" where
  "destroy_handle h m = m\<lparr>frames := (frames m)(h := None)\<rparr>"

text \<open>\<^verbatim>\<open>h.promise()\<close> of a null or dangling handle is undefined.\<close>

definition promise_of :: "handle option \<Rightarrow> 'v machine \<Rightarrow> 'v LazyPromise outcome" where
  "promise_of h m =
     (case h of None \<Rightarrow> Inl Undefined_behaviour
      | Some i \<Rightarrow> (case frames m i of Some (Lazy_frame p) \<Rightarrow> Inr p | _ \<Rightarrow> Inl Undefined_behaviour))"

definition put_promise :: "handle \<Rightarrow> 'v LazyPromise \<Rightarrow> 'v machine \<Rightarrow> 'v machine" where
  "put_promise h p m = m\<lparr>frames := (frames m)(h \<mapsto> Lazy_frame p)\<rparr>"

definition set_executor :: "executor_ptr \<Rightarrow> handle option \<Rightarrow> 'v machine \<Rightarrow> 'v machine outcome" where
  "set_executor ex h m =
     bind_outcome (promise_of h m) (\<lambda>p. Inr (put_promise (the h) (p\<lparr>executor := ex\<rparr>) m))"

section \<open>The awaiter of a Lazy\<close>

definition local_error :: string where
  "local_error = ''we don't allowed set lazy local twice or co_await a lazy with local value''"

definition coAwait_error :: string where
  "coAwait_error = ''Lazy do not have a coroutine_handle. Maybe the allocation failed or you're using a used Lazy.''"

text \<open>
  \<^verbatim>\<open>await_suspend\<close>: the awaited promise gets its continuation and, from a Lazy, its local. The
  continuation is written before the local is checked.
\<close>

definition await_suspend_lazy :: "handle \<Rightarrow> handle \<Rightarrow> 'v machine \<Rightarrow> 'v machine \<times> unit outcome" where
  "await_suspend_lazy child cont m =
     (case (promise_of (Some child) m, promise_of (Some cont) m) of
        (Inr p, Inr q) \<Rightarrow>
          (let p = p\<lparr>continuation := Some cont\<rparr>; m = put_promise child p m
           in case logicAssert (lazy_local p = None \<or> lazy_local q = None) local_error of
                Inl e \<Rightarrow> (m, Inl e)
              | Inr _ \<Rightarrow>
                  (if lazy_local p = None
                   then put_promise child (p\<lparr>lazy_local := lazy_local q\<rparr>) m else m, Inr ()))
      | _ \<Rightarrow> (m, Inl Undefined_behaviour))"

text \<open>
  \<^verbatim>\<open>awaitSuspendImpl\<close>: control goes to the coroutine, or its resumption is scheduled on its executor
  and control goes back to the resumer.
\<close>

definition awaitSuspendImpl :: "bool \<Rightarrow> handle \<Rightarrow> 'v machine \<Rightarrow> 'v machine outcome" where
  "awaitSuspendImpl reschedule h m =
     (if reschedule
      then bind_outcome (promise_of (Some h) m) (\<lambda>pr.
             case executor pr of
               None \<Rightarrow> Inl (Logic_error ''RescheduleLazy need executor'')
             | Some e \<Rightarrow> Inr (m\<lparr>ready := ready m @ [(e, h, Default_info)], control := Idle\<rparr>))
      else Inr (m\<lparr>control := Transfer h\<rparr>))"

text \<open>
  \<^verbatim>\<open>awaitResume\<close> and \<^verbatim>\<open>awaitResumeTry\<close>: the result is taken and the frame destroyed; when the result
  is thrown, the destructor of the awaiter destroys the frame.
\<close>

definition awaitResume :: "handle \<Rightarrow> 'v machine \<Rightarrow> 'v outcome \<times> 'v machine" where
  "awaitResume h m = (bind_outcome (promise_of (Some h) m) LazyPromise_result, destroy_handle h m)"

definition awaitResumeTry :: "handle \<Rightarrow> 'v machine \<Rightarrow> 'v Try outcome \<times> 'v machine" where
  "awaitResumeTry h m = (bind_outcome (promise_of (Some h) m) LazyPromise_tryResult, destroy_handle h m)"

text \<open>
  \<^verbatim>\<open>co_await\<close> of a fresh Lazy in the running coroutine \<open>h\<close> with promise \<open>p\<close>: the call, the setting of
  its local, \<^verbatim>\<open>coAwait\<close> with the promise's executor, and \<^verbatim>\<open>await_suspend\<close>. An exception out of
  \<^verbatim>\<open>await_suspend\<close> is thrown by the await expression, and the awaiter's destructor frees the child.
\<close>

definition co_await_lazy ::
    "handle \<Rightarrow> 'v LazyPromise \<Rightarrow> 'v body \<Rightarrow> LazyLocalBase option \<Rightarrow> (handle \<Rightarrow> 'v suspend_point) \<Rightarrow>
     (exn \<Rightarrow> 'v body) \<Rightarrow> 'v machine \<Rightarrow> 'v machine" where
  "co_await_lazy h p b l pt failed m =
     (let child = fresh m;
          m = m\<lparr>frames := (frames m)(child \<mapsto> Lazy_frame ((LazyPromise_new b)\<lparr>lazy_local := l, executor := executor p\<rparr>)),
                 fresh := Suc child\<rparr>
      in case await_suspend_lazy child h m of
           (m, Inl e) \<Rightarrow> (destroy_handle child m)\<lparr>control := Running h (failed e)\<rparr>
         | (m, Inr _) \<Rightarrow> (put_promise h (p\<lparr>point := pt child\<rparr>) m)\<lparr>control := Transfer child\<rparr>)"

section \<open>The step function\<close>

text \<open>\<^verbatim>\<open>final_suspend\<close>: the frame stays, suspended, and control goes to the continuation.\<close>

definition final_suspend :: "handle \<Rightarrow> 'v LazyPromise \<Rightarrow> 'v machine \<Rightarrow> 'v machine" where
  "final_suspend h p m =
     (put_promise h (p\<lparr>point := Final\<rparr>) m)
       \<lparr>control := (case continuation p of None \<Rightarrow> Thrown Undefined_behaviour | Some c \<Rightarrow> Transfer c)\<rparr>"

definition yield_error :: string where
  "yield_error = ''Yielding is only meaningful with an executor!''"

definition YieldAwaiter_await_suspend :: "handle \<Rightarrow> 'v LazyPromise \<Rightarrow> (unit outcome \<Rightarrow> 'v body) \<Rightarrow> 'v machine \<Rightarrow> 'v machine" where
  "YieldAwaiter_await_suspend h p k m =
     (case executor p of
        None \<Rightarrow> m\<lparr>control := Running h (k (Inl (Logic_error yield_error)))\<rparr>
      | Some e \<Rightarrow> (put_promise h (p\<lparr>point := Yielded k\<rparr>) m)
                    \<lparr>ready := ready m @ [(e, h, Yield_info)], control := Idle\<rparr>)"

text \<open>\<^verbatim>\<open>await_transform\<close> picks the awaiter by what is awaited.\<close>

definition await_transform :: "handle \<Rightarrow> 'v LazyPromise \<Rightarrow> 'v body \<Rightarrow> 'v machine \<Rightarrow> 'v machine" where
  "await_transform h p b m =
     (case b of
        Return_value v \<Rightarrow> final_suspend h (LazyPromise_return_value v p) m
      | Throw e \<Rightarrow> final_suspend h (LazyPromise_unhandled_exception e p) m
      | Await b l k \<Rightarrow> co_await_lazy h p b l (\<lambda>c. Awaiting c k) (\<lambda>e. k (Inl e)) m
      | Await_null k \<Rightarrow> m\<lparr>control := Running h (k (Inl (Logic_error coAwait_error)))\<rparr>
      | Await_try b l k \<Rightarrow> co_await_lazy h p b l (\<lambda>c. Awaiting_try c k) (\<lambda>e. k (Inl e)) m
      | Await_yield k \<Rightarrow> YieldAwaiter_await_suspend h p k m
      | Current_executor k \<Rightarrow> m\<lparr>control := Running h (k (executor p))\<rparr>
      | Current_local T k \<Rightarrow>
          (case lazy_local p of
             None \<Rightarrow> m\<lparr>control := Running h (k None)\<rparr>
           | Some l \<Rightarrow>
               (case dynamicCast T (Some l) of
                  Inl e \<Rightarrow> m\<lparr>control := Thrown e\<rparr>
                | Inr r \<Rightarrow> m\<lparr>control := Running h (k r)\<rparr>)))"

text \<open>
  A detached coroutine resumed: \<^verbatim>\<open>cb(co_await lazy.coAwaitTry())\<close>. It never suspends at its end, so
  its frame is freed; when the callback throws, \<^verbatim>\<open>unhandled_exception\<close> throws again, which leaves the
  coroutine suspended at its end for good and reaches the resumer.
\<close>

definition DetachedCoroutine_resume ::
    "handle \<Rightarrow> handle \<Rightarrow> ('v Try \<Rightarrow> unit outcome) \<Rightarrow> 'v machine \<Rightarrow> 'v machine" where
  "DetachedCoroutine_resume h child cb m =
     (case awaitResumeTry child m of
        (Inl e, m) \<Rightarrow> m\<lparr>control := Thrown e\<rparr>
      | (Inr t, m) \<Rightarrow>
          (let m = m\<lparr>delivered := delivered m @ [t]\<rparr>
           in case cb t of
                Inl e \<Rightarrow> m\<lparr>control := Thrown e\<rparr>
              | Inr _ \<Rightarrow> (destroy_handle h m)\<lparr>control := Idle\<rparr>))"

definition resume_handle :: "handle \<Rightarrow> 'v machine \<Rightarrow> 'v machine" where
  "resume_handle h m =
     (case frames m h of
        None \<Rightarrow> m\<lparr>control := Thrown Undefined_behaviour\<rparr>
      | Some (Detached child cb) \<Rightarrow> DetachedCoroutine_resume h child cb m
      | Some (Lazy_frame p) \<Rightarrow>
          (let m' = put_promise h (p\<lparr>point := Active\<rparr>) m
           in case point p of
                Initial b \<Rightarrow> m'\<lparr>control := Running h b\<rparr>
              | Awaiting c k \<Rightarrow> (case awaitResume c m' of (r, m) \<Rightarrow> m\<lparr>control := Running h (k r)\<rparr>)
              | Awaiting_try c k \<Rightarrow> (case awaitResumeTry c m' of (r, m) \<Rightarrow> m\<lparr>control := Running h (k r)\<rparr>)
              | Yielded k \<Rightarrow> m'\<lparr>control := Running h (k (Inr ()))\<rparr>
              | Active \<Rightarrow> m\<lparr>control := Thrown Undefined_behaviour\<rparr>
              | Final \<Rightarrow> m\<lparr>control := Thrown Undefined_behaviour\<rparr>))"

definition machine_step :: "'v machine \<Rightarrow> 'v machine" where
  "machine_step m =
     (case control m of
        Running h b \<Rightarrow>
          (case promise_of (Some h) m of Inl e \<Rightarrow> m\<lparr>control := Thrown e\<rparr> | Inr p \<Rightarrow> await_transform h p b m)
      | Transfer h \<Rightarrow> resume_handle h m
      | Idle \<Rightarrow>
          (case ready m of [] \<Rightarrow> m | (e, h, i) # ts \<Rightarrow> m\<lparr>ready := ts, control := Transfer h\<rparr>)
      | Thrown e \<Rightarrow> m)"

fun machine_run :: "nat \<Rightarrow> 'v machine \<Rightarrow> 'v machine" where
  "machine_run 0 m = m"
| "machine_run (Suc n) m = machine_run n (machine_step m)"

section \<open>Members of Lazy and RescheduleLazy\<close>

text \<open>
  A Lazy object is its handle, and \<^verbatim>\<open>std::exchange\<close> leaves a null one behind: each member that is
  called on an rvalue gives the new object, and the old one is null.
\<close>

definition via_error :: string where
  "via_error = ''Lazy do not have a coroutine_handle. May be the allocation failed or you're using a used Lazy''"

definition Lazy_via :: "executor_ptr \<Rightarrow> handle option \<Rightarrow> 'v machine \<Rightarrow> (handle option \<times> handle option \<times> 'v machine) outcome" where
  "Lazy_via ex coro m =
     bind_outcome (logicAssert (coro \<noteq> None) via_error) (\<lambda>_.
     bind_outcome (set_executor ex coro m) (\<lambda>m. Inr (coro, None, m)))"

definition Lazy_setEx :: "executor_ptr \<Rightarrow> handle option \<Rightarrow> 'v machine \<Rightarrow> (handle option \<times> handle option \<times> 'v machine) outcome" where
  "Lazy_setEx ex coro m =
     bind_outcome (logicAssert (coro \<noteq> None) via_error) (\<lambda>_.
     bind_outcome (set_executor ex coro m) (\<lambda>m. Inr (coro, None, m)))"

definition LazyBase_getExecutor :: "handle option \<Rightarrow> 'v machine \<Rightarrow> executor_ptr outcome" where
  "LazyBase_getExecutor coro m = bind_outcome (promise_of coro m) (\<lambda>p. Inr (executor p))"

definition LazyBase_isReady :: "handle option \<Rightarrow> 'v machine \<Rightarrow> bool outcome" where
  "LazyBase_isReady coro m =
     (case coro of None \<Rightarrow> Inr True
      | Some _ \<Rightarrow> bind_outcome (promise_of coro m) (\<lambda>p. Inr (case point p of Final \<Rightarrow> True | _ \<Rightarrow> False)))"

definition LazyBase_destroy :: "handle option \<Rightarrow> 'v machine \<Rightarrow> 'v machine" where
  "LazyBase_destroy coro m = (case coro of None \<Rightarrow> m | Some h \<Rightarrow> destroy_handle h m)"

text \<open>\<^verbatim>\<open>setLazyLocal\<close> is a coroutine that sets the local of another and awaits it.\<close>

definition setLazyLocalImpl :: "'v body \<Rightarrow> LazyLocalBase option \<Rightarrow> 'v body" where
  "setLazyLocalImpl self base =
     Await self base (\<lambda>r. case r of Inr v \<Rightarrow> Return_value v | Inl e \<Rightarrow> Throw e)"

definition start_error :: string where
  "start_error = ''Lazy do not have a coroutine_handle. Maybe the allocation failed or you're using a used Lazy''"

text \<open>
  \<^verbatim>\<open>start\<close> creates the detached coroutine, which runs at once up to its await; from a detached
  coroutine only the continuation is set.
\<close>

definition LazyBase_start ::
    "bool \<Rightarrow> ('v Try \<Rightarrow> unit outcome) \<Rightarrow> handle option \<Rightarrow> 'v machine \<Rightarrow> 'v machine outcome" where
  "LazyBase_start reschedule cb coro m =
     bind_outcome (logicAssert (coro \<noteq> None) start_error) (\<lambda>_.
     bind_outcome (promise_of coro m) (\<lambda>p.
       (let d = fresh m;
            m = m\<lparr>frames := (frames m)(d \<mapsto> Detached (the coro) cb), fresh := Suc d\<rparr>;
            m = put_promise (the coro) (p\<lparr>continuation := Some d\<rparr>) m
        in awaitSuspendImpl reschedule (the coro) m)))"

definition Lazy_directlyStart ::
    "('v Try \<Rightarrow> unit outcome) \<Rightarrow> executor_ptr \<Rightarrow> handle option \<Rightarrow> 'v machine \<Rightarrow> 'v machine outcome" where
  "Lazy_directlyStart cb ex coro m = bind_outcome (set_executor ex coro m) (LazyBase_start False cb coro)"

text \<open>\<^verbatim>\<open>detach\<close> starts with a callback that throws the exception of the result.\<close>

definition detach_callback :: "'v Try \<Rightarrow> unit outcome" where
  "detach_callback t =
     (if Try_hasError t then bind_outcome (Try_getException t) rethrow_exception else Inr ())"

definition RescheduleLazy_detach :: "handle option \<Rightarrow> 'v machine \<Rightarrow> 'v machine outcome" where
  "RescheduleLazy_detach coro m = LazyBase_start True detach_callback coro m"

section \<open>Reference semantics\<close>

text \<open>
  What a body computes, in direct style: no frames, continuations or transfers, the executor and the
  local as an environment.
\<close>

primrec eval :: "'v body \<Rightarrow> executor_ptr \<Rightarrow> LazyLocalBase option \<Rightarrow> 'v outcome" where
  "eval (Return_value v) ex loc = Inr v"
| "eval (Throw e) ex loc = Inl e"
| "eval (Await b l k) ex loc =
     (let r = (if l \<noteq> None \<and> loc \<noteq> None then Inl (Logic_error local_error)
               else eval b ex (if l = None then loc else l))
      in eval (k r) ex loc)"
| "eval (Await_null k) ex loc = eval (k (Inl (Logic_error coAwait_error))) ex loc"
| "eval (Await_try b l k) ex loc =
     (let r = (if l \<noteq> None \<and> loc \<noteq> None then Inl (Logic_error local_error)
               else Inr (makeTryCall (eval b ex) (if l = None then loc else l)))
      in eval (k r) ex loc)"
| "eval (Await_yield k) ex loc =
     eval (k (if ex = None then Inl (Logic_error yield_error) else Inr ())) ex loc"
| "eval (Current_executor k) ex loc = eval (k ex) ex loc"
| "eval (Current_local T k) ex loc =
     eval (k (case (T, loc) of (Class classof, Some l) \<Rightarrow> if classof l then Some l else None | _ \<Rightarrow> loc)) ex loc"

end
