(* ===== verification/Lazy_Props.thy ===== *)
theory Lazy_Props
  imports Lazy
begin

text \<open>
  Properties of Lazy. The coroutine machine computes what the direct-style semantics of the body
  says, delivers it to the callback of \<^verbatim>\<open>start\<close> once and frees every frame; the members of Lazy and
  RescheduleLazy fail as their assertions say.
\<close>

section \<open>Runs of the machine\<close>

definition leads :: "'v machine \<Rightarrow> 'v machine \<Rightarrow> bool" where
  "leads m m' \<longleftrightarrow> (\<exists>n. machine_run n m = m')"

lemma machine_run_add: "machine_run (a + b) m = machine_run b (machine_run a m)"
  by (induction a arbitrary: m) auto

lemma leads_refl [simp]: "leads m m"
  unfolding leads_def by (rule exI[of _ 0]) simp

lemma leads_trans: "leads m m' \<Longrightarrow> leads m' m'' \<Longrightarrow> leads m m''"
  unfolding leads_def by (metis machine_run_add)

lemma leads_step: "leads (machine_step m) m' \<Longrightarrow> leads m m'"
  unfolding leads_def by (metis machine_run.simps(2))

lemma leads_one: "machine_step m = m' \<Longrightarrow> leads m m'"
  by (rule leads_step) simp

abbreviation chain :: "(handle \<Rightarrow> 'v coroutine option) \<Rightarrow> nat \<Rightarrow> 'v Try list \<Rightarrow> 'v control \<Rightarrow> 'v machine" where
  "chain F n d c \<equiv> \<lparr>frames = F, fresh = n, ready = [], delivered = d, control = c\<rparr>"

definition try_of :: "'v outcome \<Rightarrow> 'v Try" where
  "try_of r = makeTryCall (\<lambda>_. r) ()"

lemma try_of_simps [simp]: "try_of (Inr v) = Value v" "try_of (Inl e) = Exc (Some e)"
  by (simp_all add: try_of_def makeTryCall_def Try_defs)

lemma makeTryCall_try_of: "makeTryCall f x = try_of (f x)"
  by (simp add: try_of_def makeTryCall_def)

lemma result_of_try [simp]:
  "result_value p = try_of r \<Longrightarrow> LazyPromise_result p = r"
  "result_value p = try_of r \<Longrightarrow> LazyPromise_tryResult p = Inr (try_of r)"
  by (cases r; simp add: LazyPromise_result_def LazyPromise_tryResult_def Try_defs)+

lemmas machine_defs =
  machine_step_def await_transform_def co_await_lazy_def await_suspend_lazy_def promise_of_def
  put_promise_def destroy_handle_def resume_handle_def awaitResume_def awaitResumeTry_def
  final_suspend_def LazyPromise_new_def logicAssert_def YieldAwaiter_await_suspend_def
  LazyPromise_return_value_def LazyPromise_unhandled_exception_def Let_def

text \<open>The first two steps of an await: the child is created, linked and entered.\<close>

definition child_promise :: "executor_ptr \<Rightarrow> LazyLocalBase option \<Rightarrow> handle \<Rightarrow> 'v LazyPromise" where
  "child_promise ex loc c =
     \<lparr>continuation = Some c, executor = ex, lazy_local = loc, result_value = Nothing, point = Active\<rparr>"

lemma co_await_enters:
  assumes "F h = Some (Lazy_frame p)" "F n = None" "l = None \<or> lazy_local p = None"
  shows "machine_step (co_await_lazy h p b l pt failed (chain F n d ct)) =
    chain (F(h \<mapsto> Lazy_frame (p\<lparr>point := pt n\<rparr>),
             n \<mapsto> Lazy_frame (child_promise (executor p) (if l = None then lazy_local p else l) h)))
      (Suc n) d (Running n b)"
  using assms by (cases "h = n") (auto simp: machine_defs child_promise_def fun_upd_twist)

lemma co_await_refuses:
  assumes "F h = Some (Lazy_frame p)" "F n = None" "l \<noteq> None" "lazy_local p \<noteq> None"
  shows "co_await_lazy h p b l pt failed (chain F n d ct) =
    chain F (Suc n) d (Running h (failed (Logic_error local_error)))"
  using assms by (cases "h = n") (auto simp: machine_defs fun_upd_idem)

text \<open>The last step: the finished child's result is taken and its frame destroyed.\<close>

lemma await_resumes:
  assumes "F h = Some (Lazy_frame p)" "point p = Active" "F c = None" "h \<noteq> c" "result_value q = try_of r"
  shows "machine_step (chain (F(h \<mapsto> Lazy_frame (p\<lparr>point := Awaiting c k\<rparr>), c \<mapsto> Lazy_frame q)) n d (Transfer h)) =
      chain F n d (Running h (k r))"
    and "machine_step (chain (F(h \<mapsto> Lazy_frame (p\<lparr>point := Awaiting_try c k'\<rparr>), c \<mapsto> Lazy_frame q)) n d (Transfer h)) =
      chain F n d (Running h (k' (Inr (try_of r))))"
proof -
  have "F(h \<mapsto> Lazy_frame (p\<lparr>point := Active\<rparr>), c := None) = F"
  proof -
    have "p\<lparr>point := Active\<rparr> = p" using assms by simp
    then show ?thesis using assms by (auto simp: fun_eq_iff)
  qed
  then show "machine_step (chain (F(h \<mapsto> Lazy_frame (p\<lparr>point := Awaiting c k\<rparr>), c \<mapsto> Lazy_frame q)) n d (Transfer h)) =
      chain F n d (Running h (k r))"
    and "machine_step (chain (F(h \<mapsto> Lazy_frame (p\<lparr>point := Awaiting_try c k'\<rparr>), c \<mapsto> Lazy_frame q)) n d (Transfer h)) =
      chain F n d (Running h (k' (Inr (try_of r))))"
    using assms by (simp_all add: machine_defs fun_upd_twist[of c h])
qed

section \<open>The machine computes the semantics\<close>

text \<open>A coroutine with frame \<open>p\<close> ends with the result its body has in the direct-style semantics.\<close>

definition computes :: "'v Try list \<Rightarrow> 'v body \<Rightarrow> bool" where
  "computes d b \<longleftrightarrow> (\<forall>F h p c n. F h = Some (Lazy_frame p) \<longrightarrow> point p = Active \<longrightarrow> continuation p = Some c \<longrightarrow>
     (\<forall>i\<ge>n. F i = None) \<longrightarrow>
     (\<exists>n'\<ge>n. leads (chain F n d (Running h b))
       (chain (F(h \<mapsto> Lazy_frame (p\<lparr>result_value := try_of (eval b (executor p) (lazy_local p)), point := Final\<rparr>)))
         n' d (Transfer c))))"

lemma computesI:
  assumes "\<And>F h p c n. F h = Some (Lazy_frame p) \<Longrightarrow> point p = Active \<Longrightarrow> continuation p = Some c \<Longrightarrow>
     \<forall>i\<ge>n. F i = None \<Longrightarrow>
     \<exists>n'\<ge>n. leads (chain F n d (Running h b))
       (chain (F(h \<mapsto> Lazy_frame (p\<lparr>result_value := try_of (eval b (executor p) (lazy_local p)), point := Final\<rparr>)))
         n' d (Transfer c))"
  shows "computes d b"
  using assms unfolding computes_def by blast

lemma computesD:
  assumes "computes d b" "F h = Some (Lazy_frame p)" "point p = Active" "continuation p = Some c" "\<forall>i\<ge>n. F i = None"
  obtains n' where "n' \<ge> n" "leads (chain F n d (Running h b))
    (chain (F(h \<mapsto> Lazy_frame (p\<lparr>result_value := try_of (eval b (executor p) (lazy_local p)), point := Final\<rparr>)))
      n' d (Transfer c))"
  using assms unfolding computes_def by blast

text \<open>A body that first goes over to another body with the same result.\<close>

lemma computes_stepI:
  assumes "\<And>F h c n p. F h = Some (Lazy_frame p) \<Longrightarrow> point p = Active \<Longrightarrow> continuation p = Some c \<Longrightarrow>
     \<forall>i\<ge>n. F i = None \<Longrightarrow>
     \<exists>n1\<ge>n. \<exists>b'. computes d b' \<and> leads (chain F n d (Running h b)) (chain F n1 d (Running h b')) \<and>
       eval b (executor p) (lazy_local p) = eval b' (executor p) (lazy_local p)"
  shows "computes d b"
proof (rule computesI)
  fix F :: "nat \<Rightarrow> 'a coroutine option" and h c n and p :: "'a LazyPromise"
  assume A: "F h = Some (Lazy_frame p)" "point p = Active" "continuation p = Some c" "\<forall>i\<ge>n. F i = None"
  from assms[OF A] obtain n1 b' where n1: "n1 \<ge> n" and b': "computes d b'"
    and to: "leads (chain F n d (Running h b)) (chain F n1 d (Running h b'))"
    and ev: "eval b (executor p) (lazy_local p) = eval b' (executor p) (lazy_local p)" by blast
  have "\<forall>i\<ge>n1. F i = None" using A(4) n1 by auto
  with b' A(1-3) obtain n' where n': "n' \<ge> n1" "leads (chain F n1 d (Running h b'))
    (chain (F(h \<mapsto> Lazy_frame (p\<lparr>result_value := try_of (eval b' (executor p) (lazy_local p)), point := Final\<rparr>)))
      n' d (Transfer c))"
    by (rule computesD)
  from leads_trans[OF to n'(2)] n'(1) n1 show "\<exists>n'\<ge>n. leads (chain F n d (Running h b))
    (chain (F(h \<mapsto> Lazy_frame (p\<lparr>result_value := try_of (eval b (executor p) (lazy_local p)), point := Final\<rparr>)))
      n' d (Transfer c))"
    unfolding ev by (meson order_trans)
qed

text \<open>A body that ends at once.\<close>

lemma computes_endI:
  assumes "\<And>ex loc. eval b ex loc = r"
    and "\<And>F h c n p. F h = Some (Lazy_frame p) \<Longrightarrow> continuation p = Some c \<Longrightarrow>
      machine_step (chain F n d (Running h b)) =
        chain (F(h \<mapsto> Lazy_frame (p\<lparr>result_value := try_of r, point := Final\<rparr>))) n d (Transfer c)"
  shows "computes d b"
proof (rule computesI)
  fix F :: "nat \<Rightarrow> 'a coroutine option" and h c n and p :: "'a LazyPromise"
  assume "F h = Some (Lazy_frame p)" "continuation p = Some c"
  from leads_one[OF assms(2)[of F h p c, OF this]] show "\<exists>n'\<ge>n. leads (chain F n d (Running h b))
    (chain (F(h \<mapsto> Lazy_frame (p\<lparr>result_value := try_of (eval b (executor p) (lazy_local p)), point := Final\<rparr>)))
      n' d (Transfer c))"
    unfolding assms(1) by (meson le_refl)
qed

text \<open>An await, from the await expression to what follows it.\<close>

lemma await_leads:
  assumes child: "computes d b"
    and frame: "F h = Some (Lazy_frame p)" "point p = Active" "\<forall>i\<ge>n. F i = None"
    and step: "machine_step (chain F n d (Running h bd)) = co_await_lazy h p b l pt failed (chain F n d (Running h bd))"
    and resumed: "\<And>q n'. result_value q = try_of (eval b (executor p) (if l = None then lazy_local p else l)) \<Longrightarrow>
      machine_step (chain (F(h \<mapsto> Lazy_frame (p\<lparr>point := pt n\<rparr>), n \<mapsto> Lazy_frame q)) n' d (Transfer h)) =
      chain F n' d (Running h nxt)"
  shows "\<exists>n1\<ge>n. leads (chain F n d (Running h bd))
    (chain F n1 d (Running h (if l \<noteq> None \<and> lazy_local p \<noteq> None then failed (Logic_error local_error) else nxt)))"
proof -
  have free: "F n = None" and hn: "h < n" using frame by (auto simp: not_le[symmetric])
  show ?thesis
  proof (cases "l \<noteq> None \<and> lazy_local p \<noteq> None")
    case True
    then have "machine_step (chain F n d (Running h bd)) =
        chain F (Suc n) d (Running h (failed (Logic_error local_error)))"
      using frame(1) free step by (simp add: co_await_refuses)
    from leads_one[OF this] True show ?thesis by (intro exI[of _ "Suc n"]) auto
  next
    case False
    then have ok: "l = None \<or> lazy_local p = None" by auto
    let ?loc = "if l = None then lazy_local p else l"
    let ?p = "child_promise (executor p) ?loc h :: 'a LazyPromise"
    let ?F = "F(h \<mapsto> Lazy_frame (p\<lparr>point := pt n\<rparr>), n \<mapsto> Lazy_frame ?p)"
    have "?F n = Some (Lazy_frame ?p)" "point ?p = Active" "continuation ?p = Some h" "\<forall>i\<ge>Suc n. ?F i = None"
      using frame hn by (auto simp: child_promise_def)
    note child_facts = this
    obtain n' where n': "n' \<ge> Suc n" and run: "leads (chain ?F (Suc n) d (Running n b))
        (chain (?F(n \<mapsto> Lazy_frame (?p\<lparr>result_value := try_of (eval b (executor ?p) (lazy_local ?p)), point := Final\<rparr>)))
          n' d (Transfer h))"
      by (rule computesD[OF child child_facts])
    define q where "q = ?p\<lparr>result_value := try_of (eval b (executor p) ?loc), point := Final\<rparr>"
    have q: "result_value q = try_of (eval b (executor p) ?loc)" by (simp add: q_def)
    have "?p\<lparr>result_value := try_of (eval b (executor ?p) (lazy_local ?p)), point := Final\<rparr> = q"
      unfolding q_def child_promise_def by (simp only: LazyPromise.simps)
    note run = run[unfolded this]
    have "machine_step (chain (?F(n \<mapsto> Lazy_frame q)) n' d (Transfer h)) = chain F n' d (Running h nxt)"
      using resumed[OF q, of n'] by simp
    from leads_trans[OF run leads_one[OF this]]
    have "leads (machine_step (co_await_lazy h p b l pt failed (chain F n d (Running h bd)))) (chain F n' d (Running h nxt))"
      using co_await_enters[where F = F, OF frame(1) free ok] by simp
    from leads_step[of "chain F n d (Running h bd)", unfolded step, OF leads_step[OF this]]
    show ?thesis using n' False by (intro exI[of _ n']) auto
  qed
qed

lemma running_computes: "computes d b"
proof (induction b)
  case (Return_value v)
  show ?case by (rule computes_endI[where r = "Inr v"]) (simp_all add: machine_defs)
next
  case (Throw e)
  show ?case by (rule computes_endI[where r = "Inl e"]) (simp_all add: machine_defs)
next
  case (Await b l k)
  show ?case
  proof (rule computes_stepI)
    fix F :: "nat \<Rightarrow> 'a coroutine option" and h c n and p :: "'a LazyPromise"
    assume A: "F h = Some (Lazy_frame p)" "point p = Active" "continuation p = Some c" "\<forall>i\<ge>n. F i = None"
    then have free: "F n = None" "h \<noteq> n" by auto
    let ?r = "eval b (executor p) (if l = None then lazy_local p else l)"
    let ?r' = "if l \<noteq> None \<and> lazy_local p \<noteq> None then Inl (Logic_error local_error) else ?r"
    have "\<exists>n1\<ge>n. leads (chain F n d (Running h (Await b l k)))
      (chain F n1 d (Running h (if l \<noteq> None \<and> lazy_local p \<noteq> None then k (Inl (Logic_error local_error)) else k ?r)))"
      by (rule await_leads[OF Await.IH(1) A(1,2,4), where pt = "\<lambda>c. Awaiting c k"])
        (use A(1) await_resumes(1)[OF A(1,2) free] in \<open>auto simp: machine_step_def await_transform_def promise_of_def\<close>)
    then obtain n1 where "n1 \<ge> n" "leads (chain F n d (Running h (Await b l k))) (chain F n1 d (Running h (k ?r')))"
      unfolding if_distrib[of k, symmetric] by blast
    moreover have "eval (Await b l k) (executor p) (lazy_local p) = eval (k ?r') (executor p) (lazy_local p)"
      by (simp add: Let_def makeTryCall_try_of)
    ultimately show "\<exists>n1\<ge>n. \<exists>b'. computes d b' \<and> leads (chain F n d (Running h (Await b l k))) (chain F n1 d (Running h b')) \<and>
       eval (Await b l k) (executor p) (lazy_local p) = eval b' (executor p) (lazy_local p)"
      using Await.IH(2)[OF rangeI] by blast
  qed
next
  case (Await_null k)
  show ?case
  proof (rule computes_stepI)
    fix F :: "nat \<Rightarrow> 'a coroutine option" and h c n and p :: "'a LazyPromise"
    assume A: "F h = Some (Lazy_frame p)" "point p = Active" "continuation p = Some c" "\<forall>i\<ge>n. F i = None"
    let ?r = "Inl (Logic_error coAwait_error)"
    have "leads (chain F n d (Running h (Await_null k))) (chain F n d (Running h (k ?r)))"
      using A by (intro leads_one) (simp add: machine_step_def await_transform_def promise_of_def)
    moreover have "eval (Await_null k) (executor p) (lazy_local p) = eval (k ?r) (executor p) (lazy_local p)" by simp
    ultimately show "\<exists>n1\<ge>n. \<exists>b'. computes d b' \<and> leads (chain F n d (Running h (Await_null k))) (chain F n1 d (Running h b')) \<and>
       eval (Await_null k) (executor p) (lazy_local p) = eval b' (executor p) (lazy_local p)"
      using Await_null.IH[OF rangeI] by blast
  qed
next
  case (Await_try b l k)
  show ?case
  proof (rule computes_stepI)
    fix F :: "nat \<Rightarrow> 'a coroutine option" and h c n and p :: "'a LazyPromise"
    assume A: "F h = Some (Lazy_frame p)" "point p = Active" "continuation p = Some c" "\<forall>i\<ge>n. F i = None"
    then have free: "F n = None" "h \<noteq> n" by auto
    let ?r = "Inr (try_of (eval b (executor p) (if l = None then lazy_local p else l)))"
    let ?r' = "if l \<noteq> None \<and> lazy_local p \<noteq> None then Inl (Logic_error local_error) else ?r"
    have "\<exists>n1\<ge>n. leads (chain F n d (Running h (Await_try b l k)))
      (chain F n1 d (Running h (if l \<noteq> None \<and> lazy_local p \<noteq> None then k (Inl (Logic_error local_error)) else k ?r)))"
      by (rule await_leads[OF Await_try.IH(1) A(1,2,4), where pt = "\<lambda>c. Awaiting_try c k"])
        (use A(1) await_resumes(2)[OF A(1,2) free] in \<open>auto simp: machine_step_def await_transform_def promise_of_def\<close>)
    then obtain n1 where "n1 \<ge> n" "leads (chain F n d (Running h (Await_try b l k))) (chain F n1 d (Running h (k ?r')))"
      unfolding if_distrib[of k, symmetric] by blast
    moreover have "eval (Await_try b l k) (executor p) (lazy_local p) = eval (k ?r') (executor p) (lazy_local p)"
      by (simp add: Let_def makeTryCall_try_of)
    ultimately show "\<exists>n1\<ge>n. \<exists>b'. computes d b' \<and> leads (chain F n d (Running h (Await_try b l k))) (chain F n1 d (Running h b')) \<and>
       eval (Await_try b l k) (executor p) (lazy_local p) = eval b' (executor p) (lazy_local p)"
      using Await_try.IH(2)[OF rangeI] by blast
  qed
next
  case (Await_yield k)
  show ?case
  proof (rule computes_stepI)
    fix F :: "nat \<Rightarrow> 'a coroutine option" and h c n and p :: "'a LazyPromise"
    assume A: "F h = Some (Lazy_frame p)" "point p = Active" "continuation p = Some c" "\<forall>i\<ge>n. F i = None"
    let ?r = "if executor p = None then Inl (Logic_error yield_error) else Inr ()"
    have "leads (chain F n d (Running h (Await_yield k))) (chain F n d (Running h (k ?r)))"
    proof (cases "executor p")
      case None
      then show ?thesis using A by (intro leads_one) (simp add: machine_defs)
    next
      case (Some e)
      have "p\<lparr>point := Active\<rparr> = p" using A by simp
      then have same: "F(h \<mapsto> Lazy_frame (p\<lparr>point := Active\<rparr>)) = F" using A by (simp add: fun_eq_iff)
      have "machine_step (machine_step (machine_step (chain F n d (Running h (Await_yield k))))) =
          chain (F(h \<mapsto> Lazy_frame (p\<lparr>point := Active\<rparr>))) n d (Running h (k ?r))"
        using A Some by (simp add: machine_defs)
      then show ?thesis unfolding same by (metis leads_step leads_refl)
    qed
    moreover have "eval (Await_yield k) (executor p) (lazy_local p) = eval (k ?r) (executor p) (lazy_local p)" by simp
    ultimately show "\<exists>n1\<ge>n. \<exists>b'. computes d b' \<and> leads (chain F n d (Running h (Await_yield k))) (chain F n1 d (Running h b')) \<and>
       eval (Await_yield k) (executor p) (lazy_local p) = eval b' (executor p) (lazy_local p)"
      using Await_yield.IH[OF rangeI] by blast
  qed
next
  case (Current_executor k)
  show ?case
  proof (rule computes_stepI)
    fix F :: "nat \<Rightarrow> 'a coroutine option" and h c n and p :: "'a LazyPromise"
    assume A: "F h = Some (Lazy_frame p)" "point p = Active" "continuation p = Some c" "\<forall>i\<ge>n. F i = None"
    let ?r = "executor p"
    have "leads (chain F n d (Running h (Current_executor k))) (chain F n d (Running h (k ?r)))"
      using A by (intro leads_one) (simp add: machine_step_def await_transform_def promise_of_def)
    moreover have "eval (Current_executor k) (executor p) (lazy_local p) = eval (k ?r) (executor p) (lazy_local p)" by simp
    ultimately show "\<exists>n1\<ge>n. \<exists>b'. computes d b' \<and> leads (chain F n d (Running h (Current_executor k))) (chain F n1 d (Running h b')) \<and>
       eval (Current_executor k) (executor p) (lazy_local p) = eval b' (executor p) (lazy_local p)"
      using Current_executor.IH[OF rangeI] by blast
  qed
next
  case (Current_local T k)
  show ?case
  proof (rule computes_stepI)
    fix F :: "nat \<Rightarrow> 'a coroutine option" and h c n and p :: "'a LazyPromise"
    assume A: "F h = Some (Lazy_frame p)" "point p = Active" "continuation p = Some c" "\<forall>i\<ge>n. F i = None"
    let ?r = "case (T, lazy_local p) of (Class classof, Some l) \<Rightarrow> if classof l then Some l else None | _ \<Rightarrow> lazy_local p"
    have "leads (chain F n d (Running h (Current_local T k))) (chain F n d (Running h (k ?r)))"
      using A by (intro leads_one) (cases T; cases "lazy_local p";
        simp add: machine_step_def await_transform_def promise_of_def dynamicCast_def cassert_def)
    moreover have "eval (Current_local T k) (executor p) (lazy_local p) = eval (k ?r) (executor p) (lazy_local p)" by simp
    ultimately show "\<exists>n1\<ge>n. \<exists>b'. computes d b' \<and> leads (chain F n d (Running h (Current_local T k))) (chain F n1 d (Running h b')) \<and>
       eval (Current_local T k) (executor p) (lazy_local p) = eval b' (executor p) (lazy_local p)"
      using Current_local.IH[OF rangeI] by blast
  qed
qed
section \<open>Starting a Lazy\<close>

text \<open>What is left when the callback has returned or thrown.\<close>

definition finished :: "'v machine \<Rightarrow> nat \<Rightarrow> handle \<Rightarrow> handle \<Rightarrow> ('v Try \<Rightarrow> unit outcome) \<Rightarrow> 'v Try \<Rightarrow> 'v machine" where
  "finished m n' d c cb t =
     m\<lparr>frames := (case cb t of Inr _ \<Rightarrow> frames m | Inl _ \<Rightarrow> (frames m)(d \<mapsto> Detached c cb)), fresh := n', ready := [],
       delivered := delivered m @ [t], control := (case cb t of Inr _ \<Rightarrow> Idle | Inl e \<Rightarrow> Thrown e)\<rparr>"

lemma machine_fixed: "machine_step m = m \<Longrightarrow> machine_run k m = m"
  by (induction k) auto

lemma leads_forever:
  assumes "leads m m'" "machine_step m' = m'"
  shows "\<exists>n. \<forall>k\<ge>n. machine_run k m = m'"
proof -
  from assms(1) obtain n where n: "machine_run n m = m'" unfolding leads_def by blast
  have "machine_run k m = m'" if "k \<ge> n" for k
    using machine_run_add[of n "k - n" m] n machine_fixed[OF assms(2), of "k - n"] that by simp
  then show ?thesis by blast
qed

lemma machine_eq_chain:
  "ready m = [] \<Longrightarrow> m = chain (frames m) (fresh m) (delivered m) (control m)"
  by (cases m) simp

text \<open>The root: a started frame whose continuation is the detached coroutine.\<close>

lemma started_leads:
  assumes fr: "ready m = []" "\<forall>i\<ge>fresh m. frames m i = None"
    and c: "c = fresh m" "d = Suc c"
    and p: "p = \<lparr>continuation = Some d, executor = ex, lazy_local = None, result_value = Nothing, point = Initial b\<rparr>"
  defines "t \<equiv> try_of (eval b ex None)"
  shows "\<exists>n'\<ge>fresh m. leads (chain ((frames m)(c \<mapsto> Lazy_frame p, d \<mapsto> Detached c cb)) (Suc d) (delivered m) (Transfer c))
    (finished m n' d c cb t)"
proof -
  let ?q = "p\<lparr>point := Active\<rparr>"
  let ?F = "(frames m)(c \<mapsto> Lazy_frame ?q, d \<mapsto> Detached c cb)"
  have step1: "machine_step (chain ((frames m)(c \<mapsto> Lazy_frame p, d \<mapsto> Detached c cb)) (Suc d) (delivered m) (Transfer c))
      = chain ?F (Suc d) (delivered m) (Running c b)"
    using c p by (simp add: machine_defs fun_upd_twist)
  have child: "?F c = Some (Lazy_frame ?q)" "point ?q = Active" "continuation ?q = Some d" "\<forall>i\<ge>Suc d. ?F i = None"
    using c fr(2) p by auto
  obtain n' where n': "n' \<ge> Suc d" and run: "leads (chain ?F (Suc d) (delivered m) (Running c b))
     (chain (?F(c \<mapsto> Lazy_frame (?q\<lparr>result_value := try_of (eval b (executor ?q) (lazy_local ?q)), point := Final\<rparr>)))
       n' (delivered m) (Transfer d))"
    by (rule computesD[OF running_computes child])
  define q where "q = ?q\<lparr>result_value := t, point := Final\<rparr>"
  have "?q\<lparr>result_value := try_of (eval b (executor ?q) (lazy_local ?q)), point := Final\<rparr> = q"
    unfolding q_def t_def by (simp add: p)
  note run = run[unfolded this]
  have q: "LazyPromise_tryResult q = Inr t" using result_of_try(2)[of q "eval b ex None"] by (simp add: q_def t_def)
  have none: "frames m c = None" "frames m d = None" "c \<noteq> d" using fr(2) c by auto
  have "machine_step (chain (?F(c \<mapsto> Lazy_frame q)) n' (delivered m) (Transfer d)) = finished m n' d c cb t"
    using q none fr(1) unfolding finished_def machine_step_def resume_handle_def DetachedCoroutine_resume_def
      awaitResumeTry_def promise_of_def destroy_handle_def Let_def
    by (cases "cb t") (auto simp: fun_eq_iff)
  from leads_trans[OF run leads_one[OF this]] have "leads (machine_step (chain ((frames m)(c \<mapsto> Lazy_frame p, d \<mapsto> Detached c cb)) (Suc d) (delivered m) (Transfer c))) (finished m n' d c cb t)"
    unfolding step1 .
  from leads_step[OF this] n' c show ?thesis by (intro exI[of _ n']) auto
qed

lemma finished_fixed: "machine_step (finished m n' d c cb t) = finished m n' d c cb t"
  by (cases "cb t") (simp_all add: finished_def machine_step_def)

lemma finished_facts:
  "delivered (finished m n' d c cb t) = delivered m @ [t]"
  "cb t = Inr u \<Longrightarrow> frames (finished m n' d c cb t) = frames m \<and> control (finished m n' d c cb t) = Idle"
  "cb t = Inl e \<Longrightarrow> control (finished m n' d c cb t) = Thrown e"
  by (simp_all add: finished_def)

lemma directlyStart_runs:
  assumes "ready m = []" "\<forall>i\<ge>fresh m. frames m i = None"
    and "LazyPromise_get_return_object b m = (coro, m1)"
    and "\<forall>t. cb t = Inr ()"
  shows "\<exists>m2 m3 n. Lazy_directlyStart cb ex coro m1 = Inr m2 \<and> (\<forall>k\<ge>n. machine_run k m2 = m3) \<and>
    delivered m3 = delivered m @ [try_of (eval b ex None)] \<and> frames m3 = frames m \<and> ready m3 = []"
proof -
  let ?c = "fresh m" and ?d = "Suc (fresh m)" and ?t = "try_of (eval b ex None)"
  define p where "p = \<lparr>continuation = Some ?d, executor = ex, lazy_local = None, result_value = Nothing, point = Initial b\<rparr>"
  let ?m2 = "chain ((frames m)(?c \<mapsto> Lazy_frame p, ?d \<mapsto> Detached ?c cb)) (Suc ?d) (delivered m) (Transfer ?c)"
  have "Lazy_directlyStart cb ex coro m1 = Inr ?m2"
    using assms(1,3) by (auto simp: Lazy_directlyStart_def LazyPromise_get_return_object_def set_executor_def
        LazyBase_start_def awaitSuspendImpl_def machine_defs p_def fun_upd_twist)
  moreover obtain n' where "leads ?m2 (finished m n' ?d ?c cb ?t)"
    using started_leads[OF assms(1,2) refl refl p_def, of cb] by blast
  then obtain n where "\<forall>k\<ge>n. machine_run k ?m2 = finished m n' ?d ?c cb ?t"
    using leads_forever finished_fixed by metis
  moreover have "cb ?t = Inr ()" using assms(4) by blast
  ultimately show ?thesis
    using finished_facts(1) finished_facts(2)[of cb ?t "()" m n' ?d ?c]
    by (intro exI[of _ ?m2] exI[of _ "finished m n' ?d ?c cb ?t"] exI[of _ n]) (auto simp: finished_def)
qed

text \<open>C5: A Lazy started with \<^verbatim>\<open>directlyStart\<close> hands its callback, once and for good, the result that the
  direct-style semantics of its body gives under that executor and no local: the return value or the
  exception that left the body, through every nested await, yield and local. If the callback returns,
  every frame has been freed again.\<close>

theorem lazy_start_delivers:
  assumes "ready m = []" "\<forall>i\<ge>fresh m. frames m i = None"
    and "LazyPromise_get_return_object b m = (coro, m1)"
    and "\<forall>t. cb t = Inr ()"
  shows "\<exists>m2 m3 n. Lazy_directlyStart cb ex coro m1 = Inr m2 \<and> (\<forall>k\<ge>n. machine_run k m2 = m3) \<and>
    delivered m3 = delivered m @ [try_of (eval b ex None)] \<and> frames m3 = frames m \<and> ready m3 = []"
  by (rule directlyStart_runs[OF assms])

definition awaiting_twice :: "nat body" where
  "awaiting_twice = Await (Await_yield (\<lambda>r. case r of Inl e \<Rightarrow> Throw e | Inr _ \<Rightarrow> Return_value 3)) None
     (\<lambda>r. case r of Inl e \<Rightarrow> Throw e | Inr v \<Rightarrow> Return_value (v + 1))"

lemma lazy_start_delivers_witness:
  "\<exists>m2 n. Lazy_directlyStart (\<lambda>_. Inr ()) (Some 7) (Some 0)
     (snd (LazyPromise_get_return_object awaiting_twice machine_empty)) = Inr m2 \<and>
     delivered (machine_run n m2) = [Value 4] \<and> frames (machine_run n m2) = (\<lambda>_. None)"
proof -
  have "LazyPromise_get_return_object awaiting_twice machine_empty =
      (Some 0, snd (LazyPromise_get_return_object awaiting_twice machine_empty))"
    "ready (machine_empty :: nat machine) = []" "\<forall>i\<ge>fresh (machine_empty :: nat machine). frames (machine_empty :: nat machine) i = None"
    by (simp_all add: LazyPromise_get_return_object_def machine_empty_def)
  from lazy_start_delivers[OF this(2,3,1), of "\<lambda>_. Inr ()" "Some 7"] show ?thesis
    by (fastforce simp: awaiting_twice_def machine_empty_def)
qed

text \<open>A local set on a Lazy is the one its body and everything it awaits sees; setting a local on a
  Lazy that runs below a local, as when it is set twice, throws instead.\<close>

theorem lazy_local_once:
  assumes "ready m = []" "\<forall>i\<ge>fresh m. frames m i = None"
    and "\<forall>t. cb t = Inr ()"
  shows "(\<exists>coro m1 m2 n. LazyPromise_get_return_object (setLazyLocalImpl b (Some l)) m = (coro, m1) \<and>
      Lazy_directlyStart cb ex coro m1 = Inr m2 \<and>
      delivered (machine_run n m2) = delivered m @ [try_of (eval b ex (Some l))]) \<and>
    (\<exists>coro m1 m2 n. LazyPromise_get_return_object (setLazyLocalImpl (setLazyLocalImpl b (Some l)) (Some l')) m = (coro, m1) \<and>
      Lazy_directlyStart cb ex coro m1 = Inr m2 \<and>
      delivered (machine_run n m2) = delivered m @ [Exc (Some (Logic_error local_error))])"
proof (intro conjI)
  have A: "\<exists>coro m1 m2 n. LazyPromise_get_return_object b' m = (coro, m1) \<and>
      Lazy_directlyStart cb ex coro m1 = Inr m2 \<and>
      delivered (machine_run n m2) = delivered m @ [try_of (eval b' ex None)]" for b'
    using directlyStart_runs[where b = b' and ex = ex, OF assms(1,2) prod.collapse[symmetric] assms(3)]
    by (metis order_refl prod.collapse)
  have "eval (setLazyLocalImpl b (Some l)) ex None = eval b ex (Some l)"
    by (simp add: setLazyLocalImpl_def Let_def split: sum.splits)
  with A[of "setLazyLocalImpl b (Some l)"] show "\<exists>coro m1 m2 n. LazyPromise_get_return_object (setLazyLocalImpl b (Some l)) m = (coro, m1) \<and>
      Lazy_directlyStart cb ex coro m1 = Inr m2 \<and>
      delivered (machine_run n m2) = delivered m @ [try_of (eval b ex (Some l))]" by simp
  have "eval (setLazyLocalImpl (setLazyLocalImpl b (Some l)) (Some l')) ex None = Inl (Logic_error local_error)"
    by (simp add: setLazyLocalImpl_def Let_def)
  with A[of "setLazyLocalImpl (setLazyLocalImpl b (Some l)) (Some l')"]
  show "\<exists>coro m1 m2 n. LazyPromise_get_return_object (setLazyLocalImpl (setLazyLocalImpl b (Some l)) (Some l')) m = (coro, m1) \<and>
      Lazy_directlyStart cb ex coro m1 = Inr m2 \<and>
      delivered (machine_run n m2) = delivered m @ [Exc (Some (Logic_error local_error))]" by simp
qed

lemma lazy_local_once_witness:
  "\<exists>coro m1 m2 n. LazyPromise_get_return_object
      (setLazyLocalImpl (Current_local (Class (\<lambda>b. getTypeTag b = Some 5))
        (\<lambda>r. Return_value (case r of None \<Rightarrow> 0 | Some o1 \<Rightarrow> ident o1))) (Some \<lparr>typeinfo = Some 5, ident = 9\<rparr>))
      machine_empty = (coro, m1) \<and>
    Lazy_directlyStart (\<lambda>_. Inr ()) None coro m1 = Inr m2 \<and> delivered (machine_run n m2) = [Value 9]"
proof -
  have "ready (machine_empty :: nat machine) = []" "\<forall>i\<ge>fresh (machine_empty :: nat machine). frames (machine_empty :: nat machine) i = None"
    by (simp_all add: machine_empty_def)
  from lazy_local_once[OF this, THEN conjunct1, of "\<lambda>_. Inr ()" "Current_local (Class (\<lambda>b. getTypeTag b = Some 5))
        (\<lambda>r. Return_value (case r of None \<Rightarrow> 0 | Some o1 \<Rightarrow> ident o1))" "\<lparr>typeinfo = Some 5, ident = 9\<rparr>" None]
  show ?thesis by (simp add: getTypeTag_def machine_empty_def)
qed

text \<open>A RescheduleLazy made by \<^verbatim>\<open>via\<close> only submits a task to its executor when it is started; when
  that task runs, the result is delivered as by a direct start. Detached, the exception of its result
  is thrown out of the task. With a null executor the start throws.\<close>

theorem reschedule_lazy_start:
  assumes "ready m = []" "\<forall>i\<ge>fresh m. frames m i = None"
    and "LazyPromise_get_return_object b m = (coro, m1)"
  shows "\<exists>m2. Lazy_via ex coro m1 = Inr (coro, None, m2) \<and>
    (case ex of
       None \<Rightarrow> RescheduleLazy_detach coro m2 = Inl (Logic_error ''RescheduleLazy need executor'')
     | Some e \<Rightarrow> (\<exists>m3 m4 n. RescheduleLazy_detach coro m2 = Inr m3 \<and> ready m3 = [(e, the coro, Default_info)] \<and>
         delivered m3 = delivered m \<and> (\<forall>k\<ge>n. machine_run k m3 = m4) \<and>
         delivered m4 = delivered m @ [try_of (eval b ex None)] \<and>
         (case eval b ex None of
            Inr v \<Rightarrow> control m4 = Idle \<and> frames m4 = frames m
          | Inl x \<Rightarrow> control m4 = Thrown x)))"
proof -
  let ?c = "fresh m" and ?d = "Suc (fresh m)" and ?t = "try_of (eval b ex None)" and ?cb = detach_callback
  define p where "p = \<lparr>continuation = Some ?d, executor = ex, lazy_local = None, result_value = Nothing, point = Initial b\<rparr>"
  let ?m2 = "m\<lparr>frames := (frames m)(?c \<mapsto> Lazy_frame ((LazyPromise_new b)\<lparr>executor := ex\<rparr>)), fresh := ?d\<rparr>"
  let ?F = "(frames m)(?c \<mapsto> Lazy_frame p, ?d \<mapsto> Detached ?c ?cb)"
  have coro: "coro = Some ?c" and via: "Lazy_via ex coro m1 = Inr (coro, None, ?m2)"
    using assms(3) by (auto simp: LazyPromise_get_return_object_def Lazy_via_def set_executor_def
        promise_of_def put_promise_def logicAssert_def)
  show ?thesis
  proof (cases ex)
    case None
    then show ?thesis using via coro
      by (intro exI[of _ ?m2]) (simp add: RescheduleLazy_detach_def LazyBase_start_def awaitSuspendImpl_def machine_defs)
  next
    case (Some e)
    let ?m3 = "\<lparr>frames = ?F, fresh = Suc ?d, ready = [(e, ?c, Default_info)], delivered = delivered m, control = Idle\<rparr>"
    have start: "RescheduleLazy_detach coro ?m2 = Inr ?m3"
      using Some assms(1) coro
      by (auto simp: RescheduleLazy_detach_def LazyBase_start_def awaitSuspendImpl_def machine_defs p_def fun_upd_twist)
    have "machine_step ?m3 = chain ?F (Suc ?d) (delivered m) (Transfer ?c)" by (simp add: machine_step_def)
    moreover obtain n' where "leads (chain ?F (Suc ?d) (delivered m) (Transfer ?c)) (finished m n' ?d ?c ?cb ?t)"
      using started_leads[OF assms(1,2) refl refl p_def, of ?cb] by blast
    ultimately have "leads ?m3 (finished m n' ?d ?c ?cb ?t)" by (metis leads_step)
    then obtain n where run: "\<forall>k\<ge>n. machine_run k ?m3 = finished m n' ?d ?c ?cb ?t"
      using leads_forever finished_fixed by metis
    have cb: "?cb ?t = (case eval b ex None of Inr v \<Rightarrow> Inr () | Inl x \<Rightarrow> Inl x)"
      by (cases "eval b ex None") (simp_all add: detach_callback_def Try_getException_def logicAssert_def rethrow_exception_def)
    show ?thesis
      by (intro exI[of _ ?m2] conjI via)
        (use Some start coro run cb in \<open>auto simp: finished_def split: sum.splits intro!: exI[of _ "finished m n' ?d ?c ?cb ?t"] exI[of _ n]\<close>)
  qed
qed
lemma reschedule_lazy_start_witness:
  "\<exists>m2 m3 n. Lazy_via (Some 4) (Some 0) (snd (LazyPromise_get_return_object awaiting_twice machine_empty)) =
      Inr (Some 0, None, m2) \<and> RescheduleLazy_detach (Some 0) m2 = Inr m3 \<and>
      ready m3 = [(4, 0, Default_info)] \<and> delivered (machine_run n m3) = [Value 4]"
proof -
  have "LazyPromise_get_return_object awaiting_twice machine_empty =
      (Some 0, snd (LazyPromise_get_return_object awaiting_twice machine_empty))"
    "ready (machine_empty :: nat machine) = []" "\<forall>i\<ge>fresh (machine_empty :: nat machine). frames (machine_empty :: nat machine) i = None"
    by (simp_all add: LazyPromise_get_return_object_def machine_empty_def)
  from reschedule_lazy_start[OF this(2,3,1), of "Some 4"] show ?thesis
    by (fastforce simp: awaiting_twice_def machine_empty_def)
qed

end
