(* ===== verification/Lazy_Bridge.thy ===== *)
theory Lazy_Bridge
  imports Lazy_Props
begin

text \<open>
  Between Lazy and executors: \<^verbatim>\<open>dispatch\<close> moves the running coroutine and all that await it to another
  executor (\<^verbatim>\<open>src/coro/Dispatch.h\<close>), and \<^verbatim>\<open>syncAwait\<close> blocks a thread until a Lazy has run
  (\<^verbatim>\<open>src/coro/SyncAwait.h\<close>). Both work on the machine of Lazy.
\<close>

section \<open>Dispatch\<close>

text \<open>
  The continuation is the first member of both promise types, so it is read through any handle; that
  of a detached coroutine is null.
\<close>

definition GetContinuationFromHandle :: "handle \<Rightarrow> 'v machine \<Rightarrow> handle option outcome" where
  "GetContinuationFromHandle h m =
     (case frames m h of
        None \<Rightarrow> Inl Undefined_behaviour
      | Some (Lazy_frame p) \<Rightarrow> Inr (continuation p)
      | Some (Detached c cb) \<Rightarrow> Inr None)"

text \<open>The loop goes along the continuations; no value means that it never ends.\<close>

partial_function (option) ChangeLaziessExecutorTo :: "handle \<Rightarrow> executor_ptr \<Rightarrow> 'v machine \<Rightarrow> 'v machine outcome option" where
  "ChangeLaziessExecutorTo h ex m =
     (case GetContinuationFromHandle h m of
        Inl e \<Rightarrow> Some (Inl e)
      | Inr None \<Rightarrow> Some (Inr m)
      | Inr (Some cont) \<Rightarrow>
          (case set_executor ex (Some h) m of
             Inl e \<Rightarrow> Some (Inl e)
           | Inr m \<Rightarrow> ChangeLaziessExecutorTo cont ex m))"

definition dispatch_failed :: string where
  "dispatch_failed = ''dispatch to executor failed''"

text \<open>
  \<^verbatim>\<open>await_suspend\<close> in the suspended frame \<open>h\<close>: whether it stays suspended, and the machine.
  \<open>accepts e\<close> is what \<^verbatim>\<open>schedule\<close> of the executor \<open>e\<close> returns.
\<close>

definition DispatchAwaiter_await_suspend ::
    "(nat \<Rightarrow> bool) \<Rightarrow> nat \<Rightarrow> handle \<Rightarrow> 'v machine \<Rightarrow> (bool outcome \<times> 'v machine) option" where
  "DispatchAwaiter_await_suspend accepts ex h m =
     (case promise_of (Some h) m of
        Inl e \<Rightarrow> Some (Inl e, m)
      | Inr p \<Rightarrow>
          if executor p = Some ex then Some (Inr False, m)
          else
            (let old_ex = executor p
             in case ChangeLaziessExecutorTo h (Some ex) m of
                  None \<Rightarrow> None
                | Some (Inl e) \<Rightarrow> Some (Inl e, m)
                | Some (Inr m) \<Rightarrow>
                    if accepts ex then Some (Inr True, m\<lparr>ready := ready m @ [(ex, h, Default_info)]\<rparr>)
                    else
                      (case ChangeLaziessExecutorTo h old_ex m of
                         None \<Rightarrow> None
                       | Some (Inl e) \<Rightarrow> Some (Inl e, m)
                       | Some (Inr m) \<Rightarrow> Some (Inl (Runtime_error dispatch_failed), m))))"

definition dispatch_error :: string where
  "dispatch_error = ''dispatch's param should not be nullptr''"

text \<open>The awaiter asserts in its turn that its executor is not null.\<close>

definition dispatch :: "executor_ptr \<Rightarrow> nat outcome" where
  "dispatch ex =
     bind_outcome (logicAssert (ex \<noteq> None) dispatch_error) (\<lambda>_.
     bind_outcome (cassert (ex \<noteq> None)) (\<lambda>_. Inr (the ex)))"

text \<open>
  \<^verbatim>\<open>co_await dispatch(ex)\<close> in the running body of the frame \<open>h\<close>, followed by \<open>k\<close>: the frame is
  suspended as at a yield, and goes on at once when it need not move or when the move fails.
\<close>

definition co_await_dispatch ::
    "(nat \<Rightarrow> bool) \<Rightarrow> executor_ptr \<Rightarrow> handle \<Rightarrow> (unit outcome \<Rightarrow> 'v body) \<Rightarrow> 'v machine \<Rightarrow> 'v machine option" where
  "co_await_dispatch accepts ex h k m =
     (case dispatch ex of
        Inl e \<Rightarrow> Some (m\<lparr>control := Running h (k (Inl e))\<rparr>)
      | Inr ex \<Rightarrow>
          (case promise_of (Some h) m of
             Inl e \<Rightarrow> Some (m\<lparr>control := Thrown e\<rparr>)
           | Inr p \<Rightarrow>
               map_option (\<lambda>(r, m).
                 case r of
                   Inr True \<Rightarrow> m\<lparr>control := Idle\<rparr>
                 | Inr False \<Rightarrow> m\<lparr>control := Transfer h\<rparr>
                 | Inl e \<Rightarrow>
                     (case promise_of (Some h) m of
                        Inl e \<Rightarrow> m\<lparr>control := Thrown e\<rparr>
                      | Inr q \<Rightarrow> (put_promise h (q\<lparr>point := Active\<rparr>) m)\<lparr>control := Running h (k (Inl e))\<rparr>))
                 (DispatchAwaiter_await_suspend accepts ex h (put_promise h (p\<lparr>point := Yielded k\<rparr>) m))))"

section \<open>syncAwait\<close>





section \<open>Waiting for a Lazy\<close>





lemma Try_value_try_of [simp]: "Try_value (try_of r) = r"
  by (cases r) (simp_all add: Try_value_def Try_checkHasTry_def Try_get_def rethrow_exception_def)




section \<open>Moving a chain of coroutines\<close>

text \<open>\<open>h\<close> is awaited by the Lazys of the list, innermost first, and the last by a detached coroutine.\<close>

fun lazy_chain :: "'v machine \<Rightarrow> handle \<Rightarrow> handle list \<Rightarrow> bool" where
  "lazy_chain m h [] \<longleftrightarrow>
     (\<exists>p d c cb. frames m h = Some (Lazy_frame p) \<and> continuation p = Some d \<and> frames m d = Some (Detached c cb))"
| "lazy_chain m h (c # hs) \<longleftrightarrow>
     (\<exists>p. frames m h = Some (Lazy_frame p) \<and> continuation p = Some c) \<and> lazy_chain m c hs"

definition with_executor ::
    "executor_ptr \<Rightarrow> handle set \<Rightarrow> (handle \<Rightarrow> 'v coroutine option) \<Rightarrow> handle \<Rightarrow> 'v coroutine option" where
  "with_executor ex S F x =
     (case F x of
        Some (Lazy_frame p) \<Rightarrow> if x \<in> S then Some (Lazy_frame (p\<lparr>executor := ex\<rparr>)) else F x
      | _ \<Rightarrow> F x)"

lemma lazy_chain_cong:
  "lazy_chain m h hs \<Longrightarrow>
   (\<And>x p. frames m x = Some (Lazy_frame p) \<Longrightarrow> \<exists>q. frames m' x = Some (Lazy_frame q) \<and> continuation q = continuation p) \<Longrightarrow>
   (\<And>x c cb. frames m x = Some (Detached c cb) \<Longrightarrow> frames m' x = Some (Detached c cb)) \<Longrightarrow> lazy_chain m' h hs"
proof (induction m h hs rule: lazy_chain.induct)
  case (1 m h)
  then show ?case by (metis lazy_chain.simps(1))
next
  case (2 m h c hs)
  from 2(2) obtain p where p: "frames m h = Some (Lazy_frame p)" "continuation p = Some c" "lazy_chain m c hs" by auto
  from 2(1) [OF p(3) 2(3,4)] 2(3) [OF p(1)] p(2) show ?case by auto
qed

lemma lazy_chain_with_executor: "lazy_chain m h hs \<Longrightarrow> frames m' = with_executor ex S (frames m) \<Longrightarrow> lazy_chain m' h hs"
  by (erule lazy_chain_cong) (auto simp: with_executor_def)

lemma with_executor_twice: "with_executor ex S (with_executor ex' T F) x = with_executor ex (S \<union> T) F x"
  if "ex = ex' \<or> T \<subseteq> S"
  using that by (auto simp: with_executor_def split: option.splits coroutine.splits)

lemma ChangeLaziessExecutorTo_chain:
  "lazy_chain m h hs \<Longrightarrow>
   ChangeLaziessExecutorTo h ex m = Some (Inr (m\<lparr>frames := with_executor ex (set (h # hs)) (frames m)\<rparr>))"
proof (induction hs arbitrary: h m)
  case Nil
  then obtain p d c cb where p: "frames m h = Some (Lazy_frame p)" "continuation p = Some d" "frames m d = Some (Detached c cb)"
    by auto
  define m1 where "m1 = put_promise h (p\<lparr>executor := ex\<rparr>) m"
  have "h \<noteq> d" using p by auto
  then have "ChangeLaziessExecutorTo d ex m1 = Some (Inr m1)"
    using p by (subst ChangeLaziessExecutorTo.simps) (simp add: GetContinuationFromHandle_def m1_def put_promise_def)
  moreover have "m1 = m\<lparr>frames := with_executor ex {h} (frames m)\<rparr>"
    using p by (auto simp: m1_def put_promise_def with_executor_def fun_eq_iff split: option.splits coroutine.splits
        intro!: arg_cong [where f = "\<lambda>f. m\<lparr>frames := f\<rparr>"])
  moreover have "ChangeLaziessExecutorTo h ex m = ChangeLaziessExecutorTo d ex m1"
    using p by (subst ChangeLaziessExecutorTo.simps) (simp add: GetContinuationFromHandle_def set_executor_def promise_of_def m1_def)
  ultimately show ?case by simp
next
  case (Cons c hs)
  then obtain p where p: "frames m h = Some (Lazy_frame p)" "continuation p = Some c" "lazy_chain m c hs" by auto
  define m1 where "m1 = put_promise h (p\<lparr>executor := ex\<rparr>) m"
  have m1: "m1 = m\<lparr>frames := with_executor ex {h} (frames m)\<rparr>"
    using p by (auto simp: m1_def put_promise_def with_executor_def fun_eq_iff split: option.splits coroutine.splits
        intro!: arg_cong [where f = "\<lambda>f. m\<lparr>frames := f\<rparr>"])
  have "lazy_chain m1 c hs" by (rule lazy_chain_with_executor [OF p(3)]) (simp add: m1)
  from Cons.IH [OF this] have "ChangeLaziessExecutorTo c ex m1 = Some (Inr (m1\<lparr>frames := with_executor ex (set (c # hs)) (frames m1)\<rparr>))" .
  moreover have "ChangeLaziessExecutorTo h ex m = ChangeLaziessExecutorTo c ex m1"
    using p by (subst ChangeLaziessExecutorTo.simps) (simp add: GetContinuationFromHandle_def set_executor_def promise_of_def m1_def)
  moreover have "with_executor ex (set (c # hs)) (with_executor ex {h} (frames m)) = with_executor ex (set (h # c # hs)) (frames m)"
    by (rule ext) (simp add: with_executor_twice insert_commute)
  ultimately show ?case by (simp add: m1)
qed

text \<open>With the executor they all have already, nothing changes.\<close>

lemma with_executor_same:
  assumes "\<And>x p. x \<in> S \<Longrightarrow> F x = Some (Lazy_frame p) \<Longrightarrow> executor p = ex"
  shows "with_executor ex S F = F"
proof
  fix x
  show "with_executor ex S F x = F x"
  proof (cases "F x")
    case (Some co)
    then show ?thesis using assms [of x] by (cases co) (auto simp: with_executor_def)
  qed (simp add: with_executor_def)
qed

text \<open>The three ways the await goes, from a body that runs in the frame \<open>h\<close>.\<close>

lemma dispatch_cases:
  assumes ch: "lazy_chain m h hs" and p: "frames m h = Some (Lazy_frame p)" "point p = Active"
    and same: "\<forall>x q. x \<in> set (h # hs) \<longrightarrow> frames m x = Some (Lazy_frame q) \<longrightarrow> executor q = executor p"
  shows "executor p = Some e \<Longrightarrow> co_await_dispatch accepts (Some e) h k m =
      Some (m\<lparr>frames := (frames m)(h \<mapsto> Lazy_frame (p\<lparr>point := Yielded k\<rparr>)), control := Transfer h\<rparr>)"
    and "executor p \<noteq> Some e \<Longrightarrow> accepts e \<Longrightarrow> co_await_dispatch accepts (Some e) h k m =
      Some (m\<lparr>frames := (with_executor (Some e) (set (h # hs)) (frames m))(h \<mapsto> Lazy_frame (p\<lparr>executor := Some e, point := Yielded k\<rparr>)),
               ready := ready m @ [(e, h, Default_info)], control := Idle\<rparr>)"
    and "executor p \<noteq> Some e \<Longrightarrow> \<not> accepts e \<Longrightarrow> co_await_dispatch accepts (Some e) h k m =
      Some (m\<lparr>control := Running h (k (Inl (Runtime_error dispatch_failed)))\<rparr>)"
proof -
  define my where "my = put_promise h (p\<lparr>point := Yielded k\<rparr>) m"
  have fy: "frames my = (frames m)(h \<mapsto> Lazy_frame (p\<lparr>point := Yielded k\<rparr>))" by (simp add: my_def put_promise_def)
  have chy: "lazy_chain my h hs" by (rule lazy_chain_cong [OF ch]) (use p in \<open>auto simp: fy\<close>)
  define S where "S = set (h # hs)"
  have hS: "h \<in> S" by (simp add: S_def)
  define m1 where "m1 = my\<lparr>frames := with_executor (Some e) S (frames my)\<rparr>"
  have go: "ChangeLaziessExecutorTo h (Some e) my = Some (Inr m1)"
    using ChangeLaziessExecutorTo_chain [OF chy] by (simp add: m1_def S_def)
  have "lazy_chain m1 h hs" by (rule lazy_chain_with_executor [OF chy]) (simp add: m1_def)
  then have "ChangeLaziessExecutorTo h (executor p) m1 = Some (Inr (m1\<lparr>frames := with_executor (executor p) S (frames m1)\<rparr>))"
    using ChangeLaziessExecutorTo_chain by (simp add: S_def)
  moreover have "with_executor (executor p) S (with_executor (Some e) S (frames my)) = with_executor (executor p) S (frames my)"
    by (rule ext) (simp add: with_executor_twice)
  moreover have "with_executor (executor p) S (frames my) = frames my"
    by (rule with_executor_same) (use same in \<open>auto simp: fy S_def split: if_splits\<close>)
  ultimately have restored: "ChangeLaziessExecutorTo h (executor p) m1 = Some (Inr my)" by (simp add: m1_def)
  have py: "promise_of (Some h) my = Inr (p\<lparr>point := Yielded k\<rparr>)" "promise_of (Some h) m = Inr p"
    using p by (simp_all add: promise_of_def fy)
  show "co_await_dispatch accepts (Some e) h k m =
      Some (m\<lparr>frames := (frames m)(h \<mapsto> Lazy_frame (p\<lparr>point := Yielded k\<rparr>)), control := Transfer h\<rparr>)"
    if "executor p = Some e"
    using that py by (simp add: co_await_dispatch_def dispatch_def logicAssert_def cassert_def DispatchAwaiter_await_suspend_def flip: my_def)
      (simp add: my_def put_promise_def)
  have "frames m1 = (with_executor (Some e) S (frames m))(h \<mapsto> Lazy_frame (p\<lparr>executor := Some e, point := Yielded k\<rparr>))"
    using hS by (auto simp: m1_def fy with_executor_def fun_eq_iff split: option.splits coroutine.splits)
  moreover have "m1 = m\<lparr>frames := frames m1\<rparr>" by (simp add: m1_def my_def put_promise_def)
  ultimately have m1: "m1 = m\<lparr>frames := (with_executor (Some e) S (frames m))(h \<mapsto> Lazy_frame (p\<lparr>executor := Some e, point := Yielded k\<rparr>))\<rparr>"
    by simp
  show "co_await_dispatch accepts (Some e) h k m =
      Some (m\<lparr>frames := (with_executor (Some e) (set (h # hs)) (frames m))(h \<mapsto> Lazy_frame (p\<lparr>executor := Some e, point := Yielded k\<rparr>)),
               ready := ready m @ [(e, h, Default_info)], control := Idle\<rparr>)"
    if "executor p \<noteq> Some e" "accepts e"
    using that py go by (simp add: co_await_dispatch_def dispatch_def logicAssert_def cassert_def DispatchAwaiter_await_suspend_def Let_def flip: my_def)
      (simp add: m1 S_def)
  have "put_promise h (p\<lparr>point := Active\<rparr>) my = m"
    using p by (simp add: my_def put_promise_def fun_upd_idem)
  then show "co_await_dispatch accepts (Some e) h k m =
      Some (m\<lparr>control := Running h (k (Inl (Runtime_error dispatch_failed)))\<rparr>)"
    if "executor p \<noteq> Some e" "\<not> accepts e"
    using that py go restored by (simp add: co_await_dispatch_def dispatch_def logicAssert_def cassert_def DispatchAwaiter_await_suspend_def Let_def flip: my_def)
qed

text \<open>From the resumption in the moved frames to the end of the body.\<close>

lemma dispatched_computes:
  assumes m: "ready m = []" "\<forall>i\<ge>fresh m. frames m i = None"
    and p: "frames m h = Some (Lazy_frame p)" "continuation p = Some c" "point p = Active"
    and m': "frames m' = (with_executor ex S (frames m))(h \<mapsto> Lazy_frame (p\<lparr>executor := ex, point := Yielded k\<rparr>))"
      "fresh m' = fresh m" "ready m' = []" "delivered m' = delivered m" "control m' = Transfer h" and S: "h \<in> S"
  shows "\<exists>n'. leads m' (chain ((with_executor ex S (frames m))(h \<mapsto> Lazy_frame
      (p\<lparr>executor := ex, result_value := try_of (eval (k (Inr ())) ex (lazy_local p)), point := Final\<rparr>))) n' (delivered m) (Transfer c))"
proof -
  let ?F = "with_executor ex S (frames m)" and ?p = "p\<lparr>executor := ex\<rparr>"
  have eq: "m' = chain (frames m') (fresh m) (delivered m) (Transfer h)" using machine_eq_chain [of m'] m' by simp
  have h: "?F h = Some (Lazy_frame ?p)" using p S by (simp add: with_executor_def)
  have "?p\<lparr>point := Active\<rparr> = ?p" using p by simp
  then have "?F(h \<mapsto> Lazy_frame (?p\<lparr>point := Active\<rparr>)) = ?F" using h by (simp add: fun_upd_idem)
  then have "machine_step m' = chain ?F (fresh m) (delivered m) (Running h (k (Inr ())))"
    by (subst eq) (simp add: machine_defs m'(1))
  moreover have "point ?p = Active" "continuation ?p = Some c" "\<forall>i\<ge>fresh m. ?F i = None"
    using p m by (auto simp: with_executor_def)
  with computesD [OF running_computes h this] obtain n' where
    "leads (chain ?F (fresh m) (delivered m) (Running h (k (Inr ()))))
       (chain (?F(h \<mapsto> Lazy_frame (?p\<lparr>result_value := try_of (eval (k (Inr ())) (executor ?p) (lazy_local ?p)), point := Final\<rparr>)))
         n' (delivered m) (Transfer c))" by metis
  ultimately show ?thesis using leads_step [of m'] by auto
qed

text \<open>C11: \<^verbatim>\<open>co_await dispatch(ex)\<close> in a Lazy that others await, all on one executor. If the executor of
  the Lazy is another one and accepts the task, the resumption is queued there; then, and at once if
  it is the same one, the Lazy and all that await it are on \<open>ex\<close>, the rest of the body computes what
  it computes there, and the one that awaits it is resumed. If the executor refuses, or is null, the
  await throws and every coroutine is as it was.\<close>

theorem dispatch_moves_chain:
  assumes "ready m = []" "\<forall>i\<ge>fresh m. frames m i = None"
    and "lazy_chain m h hs" "frames m h = Some (Lazy_frame p)" "continuation p = Some c" "point p = Active"
    and "\<forall>x\<in>set (h # hs). \<forall>q. frames m x = Some (Lazy_frame q) \<longrightarrow> executor q = executor p"
  shows "\<exists>m'. co_await_dispatch accepts ex h k m = Some m' \<and>
    (case ex of
       None \<Rightarrow> m' = m\<lparr>control := Running h (k (Inl (Logic_error dispatch_error)))\<rparr>
     | Some e \<Rightarrow>
         if executor p \<noteq> ex \<and> \<not> accepts e
         then m' = m\<lparr>control := Running h (k (Inl (Runtime_error dispatch_failed)))\<rparr>
         else ready m' = (if executor p = ex then [] else [(e, h, Default_info)]) \<and>
           (\<exists>n. leads m' (chain ((with_executor ex (set (h # hs)) (frames m))(h \<mapsto> Lazy_frame
              (p\<lparr>executor := ex, result_value := try_of (eval (k (Inr ())) ex (lazy_local p)), point := Final\<rparr>)))
              n (delivered m) (Transfer c))))"
proof (cases ex)
  case None
  then show ?thesis by (simp add: co_await_dispatch_def dispatch_def logicAssert_def)
next
  case (Some e)
  have same: "\<forall>x q. x \<in> set (h # hs) \<longrightarrow> frames m x = Some (Lazy_frame q) \<longrightarrow> executor q = executor p"
    using assms(7) by blast
  note go = dispatch_cases [OF assms(3,4,6) same]
  note run = dispatched_computes [OF assms(1,2,4,5,6), where S = "set (h # hs)" and ex = "Some e" and k = k]
  consider "executor p = Some e" | "executor p \<noteq> Some e" "accepts e" | "executor p \<noteq> Some e" "\<not> accepts e" by blast
  then show ?thesis
  proof cases
    case 1
    let ?m = "m\<lparr>frames := (frames m)(h \<mapsto> Lazy_frame (p\<lparr>point := Yielded k\<rparr>)), control := Transfer h\<rparr>"
    have "with_executor (Some e) (set (h # hs)) (frames m) = frames m"
      by (rule with_executor_same) (use same 1 in auto)
    moreover have pe: "p\<lparr>executor := Some e\<rparr> = p" using 1 by simp
    ultimately have "\<exists>n. leads ?m (chain ((with_executor (Some e) (set (h # hs)) (frames m))(h \<mapsto> Lazy_frame
              (p\<lparr>executor := Some e, result_value := try_of (eval (k (Inr ())) (Some e) (lazy_local p)), point := Final\<rparr>)))
              n (delivered m) (Transfer c))"
      using assms(1) by (intro run) (simp_all add: pe)
    with go(1) [OF 1] Some 1 assms(1) show ?thesis by (intro exI [of _ ?m]) simp
  next
    case 2
    define m' where "m' = m\<lparr>frames := (with_executor (Some e) (set (h # hs)) (frames m))(h \<mapsto> Lazy_frame (p\<lparr>executor := Some e, point := Yielded k\<rparr>)),
               ready := ready m @ [(e, h, Default_info)], control := Idle\<rparr>"
    define m2 where "m2 = m'\<lparr>ready := [], control := Transfer h\<rparr>"
    have "machine_step m' = m2" using assms(1) by (simp add: machine_step_def m'_def m2_def)
    moreover obtain n where "leads m2 (chain ((with_executor ex (set (h # hs)) (frames m))(h \<mapsto> Lazy_frame
              (p\<lparr>executor := ex, result_value := try_of (eval (k (Inr ())) ex (lazy_local p)), point := Final\<rparr>)))
              n (delivered m) (Transfer c))"
      using run [of m2] Some by (auto simp: m2_def m'_def)
    ultimately show ?thesis using go(2) [where accepts = accepts and k = k, OF 2] Some 2 assms(1) leads_step [of m']
      by (intro exI [of _ m']) (auto simp: m'_def)
  next
    case 3
    then show ?thesis using go(3) [where accepts = accepts and k = k, OF 3] Some by auto
  qed
qed

text \<open>A Lazy on executor 1 that moves to executor 2 and then asks for its executor, awaited by another.\<close>

definition dispatch_frame :: "nat \<Rightarrow> handle \<Rightarrow> nat suspend_point \<Rightarrow> nat coroutine" where
  "dispatch_frame e c pt =
     Lazy_frame \<lparr>continuation = Some c, executor = Some e, lazy_local = None, result_value = Nothing, point = pt\<rparr>"

lemma dispatch_moves_chain_witness:
  "\<exists>m'. co_await_dispatch (\<lambda>e. e = 2) (Some 2) 2
       (\<lambda>r. Current_executor (\<lambda>x. Return_value (case x of None \<Rightarrow> 0 | Some e \<Rightarrow> e)))
       (chain [0 \<mapsto> Detached 1 (\<lambda>_. Inr ()), 1 \<mapsto> dispatch_frame 1 0 (Awaiting 2 (\<lambda>r. Return_value 5)), 2 \<mapsto> dispatch_frame 1 1 Active]
          3 [] Idle) = Some m' \<and> ready m' = [(2, 2, Default_info)] \<and>
     (\<exists>m2. leads m' m2 \<and> frames m2 1 = Some (dispatch_frame 2 0 (Awaiting 2 (\<lambda>r. Return_value 5))))"
proof -
  define m where "m = chain [0 \<mapsto> Detached 1 (\<lambda>_. Inr ()), 1 \<mapsto> dispatch_frame 1 0 (Awaiting 2 (\<lambda>r. Return_value 5)),
     2 \<mapsto> dispatch_frame 1 1 Active] 3 [] Idle"
  define p :: "nat LazyPromise" where "p = \<lparr>continuation = Some 1, executor = Some 1, lazy_local = None, result_value = Nothing, point = Active\<rparr>"
  have "ready m = []" "\<forall>i\<ge>fresh m. frames m i = None" "lazy_chain m 2 [1]" "frames m 2 = Some (Lazy_frame p)"
    "continuation p = Some 1" "point p = Active"
    "\<forall>x\<in>set [2, 1]. \<forall>q. frames m x = Some (Lazy_frame q) \<longrightarrow> executor q = executor p"
    by (auto simp: m_def p_def dispatch_frame_def)
  from dispatch_moves_chain [OF this, of "\<lambda>e. e = 2" "Some 2"
       "\<lambda>r. Current_executor (\<lambda>x. Return_value (case x of None \<Rightarrow> 0 | Some e \<Rightarrow> e))"]
  obtain m' n where m': "co_await_dispatch (\<lambda>e. e = 2) (Some 2) 2
       (\<lambda>r. Current_executor (\<lambda>x. Return_value (case x of None \<Rightarrow> 0 | Some e \<Rightarrow> e))) m = Some m'"
    "ready m' = [(2, 2, Default_info)]"
    and l: "leads m' (chain ((with_executor (Some 2) (set [2, 1]) (frames m))(2 \<mapsto> Lazy_frame
              (p\<lparr>executor := Some 2, result_value := Value 2, point := Final\<rparr>))) n (delivered m) (Transfer 1))"
    by (auto simp: p_def)
  have "frames (chain ((with_executor (Some 2) (set [2, 1]) (frames m))(2 \<mapsto> Lazy_frame
              (p\<lparr>executor := Some 2, result_value := Value 2, point := Final\<rparr>))) n (delivered m) (Transfer 1)) 1 =
      Some (dispatch_frame 2 0 (Awaiting 2 (\<lambda>r. Return_value 5)))"
    by (simp add: with_executor_def m_def dispatch_frame_def)
  with m' l show ?thesis unfolding m_def by blast
qed

end
