(* ===== verification/Easylog.thy ===== *)
theory Easylog
  imports Prelude
begin

text \<open>
  The logger \<^verbatim>\<open>easylog\<close>: severities and records (\<^verbatim>\<open>src/coro_apps/easylog/record.hpp\<close>), the appender
  with its rolling files and its writer thread (\<^verbatim>\<open>src/coro_apps/easylog/appender.hpp\<close>), and the logger
  in front of it (\<^verbatim>\<open>src/coro_apps/easylog.hpp\<close>). The file system is a map from names to contents; a file
  that is opened can be written, and directories are not kept.
\<close>

section \<open>Severities\<close>

datatype Severity = NONE | TRACE | DEBUG | INFO | WARN | ERROR | CRITICAL

fun severity_rank :: "Severity \<Rightarrow> nat" where
  "severity_rank NONE = 0"
| "severity_rank TRACE = 1"
| "severity_rank DEBUG = 2"
| "severity_rank INFO = 3"
| "severity_rank WARN = 4"
| "severity_rank ERROR = 5"
| "severity_rank CRITICAL = 6"

lemma severity_rank_inj: "severity_rank x = severity_rank y \<longleftrightarrow> x = y"
  by (cases x; cases y) simp_all

text \<open>The order of an \<^verbatim>\<open>enum class\<close> is that of its numbers.\<close>

instantiation Severity :: linorder
begin

definition less_eq_Severity :: "Severity \<Rightarrow> Severity \<Rightarrow> bool" where
  "less_eq_Severity x y \<longleftrightarrow> severity_rank x \<le> severity_rank y"

definition less_Severity :: "Severity \<Rightarrow> Severity \<Rightarrow> bool" where
  "less_Severity x y \<longleftrightarrow> severity_rank x < severity_rank y"

instance
  by standard (auto simp: less_eq_Severity_def less_Severity_def severity_rank_inj)

end

fun severity_str :: "Severity \<Rightarrow> string" where
  "severity_str TRACE = ''TRACE   ''"
| "severity_str DEBUG = ''DEBUG   ''"
| "severity_str INFO = ''INFO    ''"
| "severity_str WARN = ''WARNING ''"
| "severity_str ERROR = ''ERROR   ''"
| "severity_str CRITICAL = ''CRITICAL''"
| "severity_str NONE = ''NONE    ''"

section \<open>Numbers as text\<close>

definition digit_char :: "nat \<Rightarrow> char" where
  "digit_char d = char_of (48 + d)"

text \<open>\<^verbatim>\<open>std::to_chars\<close> in a base up to 16, for natural numbers and for integers.\<close>

definition hex_char :: "nat \<Rightarrow> char" where
  "hex_char d = (if d < 10 then char_of (48 + d) else char_of (87 + d))"

fun to_chars_base :: "nat \<Rightarrow> nat \<Rightarrow> string" where
  "to_chars_base b n = (if b \<le> 1 \<or> n < b then [hex_char n] else to_chars_base b (n div b) @ [hex_char (n mod b)])"

declare to_chars_base.simps [simp del]

definition to_chars_int :: "int \<Rightarrow> string" where
  "to_chars_int i = (if i < 0 then CHR ''-'' # to_chars_base 10 (nat (- i)) else to_chars_base 10 (nat i))"

section \<open>Records\<close>

text \<open>The point in time as \<^verbatim>\<open>get_time_str\<close> takes it apart: whole seconds and milliseconds.\<close>

record record_t =
  tm_seconds :: int
  tm_millis :: int
  severity :: Severity
  tid :: nat
  file_str :: string
  ss :: string

definition record_new :: "int \<Rightarrow> int \<Rightarrow> Severity \<Rightarrow> nat \<Rightarrow> string \<Rightarrow> record_t" where
  "record_new s ms sev t str = \<lparr>tm_seconds = s, tm_millis = ms, severity = sev, tid = t, file_str = str, ss = ''''\<rparr>"

text \<open>
  What \<^verbatim>\<open>operator<<\<close> takes, by the branch of its \<^verbatim>\<open>if constexpr\<close>; \<open>A_printed\<close> is what a library prints
  for a floating-point number, a time point or any other type.
\<close>

datatype log_arg =
    A_printed string
  | A_bool bool
  | A_char char
  | A_enum int
  | A_integral int
  | A_pointer nat
  | A_string string
  | A_c_array string
  | A_data string

text \<open>The text of a C string ends at its first null character.\<close>

definition c_str :: "string \<Rightarrow> string" where
  "c_str s = takeWhile (\<lambda>c. c \<noteq> CHR 0x00) s"

fun arg_text :: "log_arg \<Rightarrow> string" where
  "arg_text (A_printed s) = s"
| "arg_text (A_bool b) = (if b then ''true'' else ''false'')"
| "arg_text (A_char c) = [c]"
| "arg_text (A_enum i) = to_chars_int i"
| "arg_text (A_integral i) = to_chars_int i"
| "arg_text (A_pointer p) = ''0x'' @ to_chars_base 16 p"
| "arg_text (A_string s) = s"
| "arg_text (A_c_array s) = c_str s"
| "arg_text (A_data s) = c_str s"

definition record_append :: "log_arg \<Rightarrow> record_t \<Rightarrow> record_t" where
  "record_append a r = r\<lparr>ss := ss r @ arg_text a\<rparr>"

definition record_format :: "string \<Rightarrow> record_t \<Rightarrow> record_t" where
  "record_format str r = r\<lparr>ss := ss r @ c_str str\<rparr>"

text \<open>\<^verbatim>\<open>get_message\<close> ends the text with a new line, each time it is called, and returns a C string.\<close>

definition get_message :: "record_t \<Rightarrow> string \<times> record_t" where
  "get_message r = (let r = r\<lparr>ss := ss r @ ''\<newline>''\<rparr> in (c_str (ss r), r))"

section \<open>Time and thread as text\<close>

text \<open>
  \<^verbatim>\<open>to_int<N, c>\<close> writes the last \<open>N\<close> digits from the back, and the separator before them unless \<open>N\<close> is 4.
  Writing before the buffer, and taking digits of a negative number, is undefined.
\<close>

fun log_to_int_loop :: "nat \<Rightarrow> nat \<Rightarrow> string \<Rightarrow> nat \<Rightarrow> (string \<times> nat) outcome" where
  "log_to_int_loop 0 num p sz = Inr (p, sz)"
| "log_to_int_loop (Suc n) num p sz =
     (if sz = 0 then Inl Undefined_behaviour
      else log_to_int_loop n (num div 10) (p[sz - 1 := digit_char (num mod 10)]) (sz - 1))"

definition log_to_int :: "nat \<Rightarrow> char \<Rightarrow> int \<Rightarrow> string \<Rightarrow> nat \<Rightarrow> (string \<times> nat) outcome" where
  "log_to_int n c num p sz =
     (if num < 0 then Inl Undefined_behaviour
      else bind_outcome (log_to_int_loop n (nat num) p sz) (\<lambda>(p, sz).
        if n \<noteq> 4 then (if sz = 0 then Inl Undefined_behaviour else Inr (p[sz - 1 := c], sz - 1))
        else Inr (p, sz)))"

record tm_fields =
  f_year :: int
  f_mon :: int
  f_mday :: int
  f_hour :: int
  f_min :: int
  f_sec :: int

text \<open>The two thread-local variables; \<open>localtime\<close> is the function of the C library.\<close>

record log_time_cache =
  ltc_buf :: string
  ltc_last_sec :: int

definition log_time_cache_new :: log_time_cache where
  "log_time_cache_new = \<lparr>ltc_buf = replicate 33 (CHR 0x00), ltc_last_sec = 0\<rparr>"

definition get_time_str :: "(int \<Rightarrow> tm_fields) \<Rightarrow> int \<Rightarrow> int \<Rightarrow> log_time_cache \<Rightarrow> log_time_cache outcome" where
  "get_time_str localtime s ms tc =
     bind_outcome (log_to_int 3 CHR ''.'' ms (ltc_buf tc) 23) (\<lambda>(buf, sz).
       if ltc_last_sec tc = s then Inr (tc\<lparr>ltc_buf := buf\<rparr>)
       else
         (let tm = localtime s
          in bind_outcome (log_to_int 2 CHR '':'' (f_sec tm) buf sz) (\<lambda>(buf, sz).
             bind_outcome (log_to_int 2 CHR '':'' (f_min tm) buf sz) (\<lambda>(buf, sz).
             bind_outcome (log_to_int 2 CHR '' '' (f_hour tm) buf sz) (\<lambda>(buf, sz).
             bind_outcome (log_to_int 2 CHR ''-'' (f_mday tm) buf sz) (\<lambda>(buf, sz).
             bind_outcome (log_to_int 2 CHR ''-'' (f_mon tm + 1) buf sz) (\<lambda>(buf, sz).
             bind_outcome (log_to_int 4 CHR '' '' (f_year tm + 1900) buf sz) (\<lambda>(buf, sz).
             Inr (tc\<lparr>ltc_buf := buf, ltc_last_sec := s\<rparr>)))))))))"

text \<open>The last thread identifier and its text; at first 0 and empty.\<close>

definition get_tid_buf :: "nat \<Rightarrow> nat \<times> string \<Rightarrow> nat \<times> string" where
  "get_tid_buf t cache =
     (if t = fst cache then cache else (t, ''['' @ to_chars_base 10 t @ ''] ''))"

section \<open>File names\<close>

text \<open>
  \<^verbatim>\<open>std::filesystem::path\<close>: the last component, what stands before it without its separators, and the
  two parts of the component around its last dot, unless that is its first character.
\<close>

definition path_filename :: "string \<Rightarrow> string" where
  "path_filename p = rev (takeWhile (\<lambda>c. c \<noteq> CHR ''/'') (rev p))"

definition parent_path :: "string \<Rightarrow> string" where
  "parent_path p =
     (let before = rev (dropWhile (\<lambda>c. c \<noteq> CHR ''/'') (rev p));
          stripped = rev (dropWhile (\<lambda>c. c = CHR ''/'') (rev before))
      in if before \<noteq> [] \<and> stripped = [] then ''/'' else stripped)"

definition extension :: "string \<Rightarrow> string" where
  "extension p =
     (let f = path_filename p; e = takeWhile (\<lambda>c. c \<noteq> CHR ''.'') (rev f)
      in if length e + 1 \<ge> length f \<or> f = ''..'' then [] else CHR ''.'' # rev e)"

definition stem :: "string \<Rightarrow> string" where
  "stem p = (let f = path_filename p in take (length f - length (extension p)) f)"

definition path_append :: "string \<Rightarrow> string \<Rightarrow> string" where
  "path_append p f = (if p = [] \<or> last p = CHR ''/'' then p @ f else p @ ''/'' @ f)"

definition build_filename :: "string \<Rightarrow> nat \<Rightarrow> string" where
  "build_filename nm file_number =
     (if file_number = 0 then nm
      else
        (let filename = stem nm @ ''.'' @ to_chars_base 10 file_number;
             filename = (if extension nm \<noteq> [] then filename @ extension nm else filename)
         in if parent_path nm \<noteq> [] then path_append (parent_path nm) filename else filename))"

section \<open>The appender and its files\<close>

type_synonym file_system = "string \<Rightarrow> string option"

record appender =
  has_init :: bool
  log_filename :: string
  enable_console :: bool
  flush_every_time :: bool
  file_size :: u64
  max_file_size :: u64
  max_files :: u64
  open_file :: "string option"

definition appender_default :: appender where
  "appender_default = \<lparr>has_init = False, log_filename = '''', enable_console = False, flush_every_time = False,
     file_size = 0, max_file_size = 0, max_files = 0, open_file = None\<rparr>"

definition BOM_STR :: string where
  "BOM_STR = [CHR 0xEF, CHR 0xBB, CHR 0xBF]"

text \<open>An empty name cannot be opened; the mode is binary append.\<close>

definition open_log_file :: "appender \<Rightarrow> file_system \<Rightarrow> appender \<times> file_system" where
  "open_log_file a fs =
     (let a = a\<lparr>file_size := 0\<rparr>; filename = build_filename (log_filename a) 0
      in if filename = [] then (a\<lparr>open_file := None\<rparr>, fs)
         else
           (let a = a\<lparr>open_file := Some filename\<rparr>;
                contents = (case fs filename of None \<Rightarrow> [] | Some s \<Rightarrow> s);
                fs = fs(filename \<mapsto> contents)
            in if contents = []
               then (a\<lparr>file_size := file_size a + word_of_nat (length BOM_STR)\<rparr>, fs(filename \<mapsto> contents @ BOM_STR))
               else (a, fs)))"

text \<open>Renaming a file that is not there changes nothing; renaming onto another replaces it.\<close>

definition rename_file :: "string \<Rightarrow> string \<Rightarrow> file_system \<Rightarrow> file_system" where
  "rename_file old_p new_p fs =
     (case fs old_p of None \<Rightarrow> fs | Some s \<Rightarrow> if old_p = new_p then fs else fs(new_p \<mapsto> s, old_p := None))"

text \<open>The loop runs over \<open>n - 1, ..., 0\<close>.\<close>

fun roll_loop :: "string \<Rightarrow> nat \<Rightarrow> file_system \<Rightarrow> file_system" where
  "roll_loop name 0 fs = fs"
| "roll_loop name (Suc n) fs = roll_loop name n (rename_file (build_filename name n) (build_filename name (Suc n)) fs)"

text \<open>The counter is \<^verbatim>\<open>max_files_\<close> as an \<^verbatim>\<open>int\<close>, which is at most 1000; rolling needs it positive.\<close>

definition roll_log_files :: "appender \<Rightarrow> file_system \<Rightarrow> appender \<times> file_system" where
  "roll_log_files a fs =
     (let last_filename = build_filename (log_filename a) (unat (max_files a - 1));
          fs = fs(last_filename := None);
          fs = roll_loop (log_filename a) (unat (max_files a) - 1) fs
      in open_log_file (a\<lparr>open_file := None\<rparr>) fs)"

definition write_file :: "string \<Rightarrow> appender \<Rightarrow> file_system \<Rightarrow> appender \<times> file_system" where
  "write_file str a fs =
     (if has_init a
      then (case open_file a of
              None \<Rightarrow> (a, fs)
            | Some f \<Rightarrow> (a\<lparr>file_size := file_size a + word_of_nat (length str)\<rparr>,
                         fs(f \<mapsto> (case fs f of None \<Rightarrow> [] | Some s \<Rightarrow> s) @ str)))
      else (a, fs))"

definition roll_due :: "appender \<Rightarrow> bool" where
  "roll_due a \<longleftrightarrow> max_files a > 0 \<and> file_size a > max_file_size a \<and> file_size a \<noteq> - 1"

definition appender_new ::
    "string \<Rightarrow> bool \<Rightarrow> u64 \<Rightarrow> u64 \<Rightarrow> bool \<Rightarrow> file_system \<Rightarrow> appender \<times> file_system" where
  "appender_new filename console mfs mf flush_all fs =
     open_log_file
       (appender_default\<lparr>has_init := True, flush_every_time := flush_all, enable_console := console,
          max_file_size := mfs, log_filename := filename, max_files := min mf 1000\<rparr>) fs"

text \<open>
  The four pieces of a line. The time and the thread come from \<^verbatim>\<open>get_time_str\<close> and \<^verbatim>\<open>get_tid_buf\<close>,
  with a blank, the severity and a blank behind the time.
\<close>

definition line_pieces :: "string \<Rightarrow> string \<Rightarrow> record_t \<Rightarrow> string list" where
  "line_pieces time_buf tid_text r =
     [take 23 time_buf @ '' '' @ severity_str (severity r) @ '' '', tid_text, file_str r, fst (get_message r)]"

text \<open>\<^verbatim>\<open>write_record<sync, console>\<close>; only a synchronous one rolls the files itself.\<close>

definition write_record ::
    "bool \<Rightarrow> string list \<Rightarrow> appender \<Rightarrow> file_system \<Rightarrow> appender \<times> file_system" where
  "write_record sync pieces a fs =
     (let (a, fs) = (if sync \<and> roll_due a then roll_log_files a fs else (a, fs))
      in fold (\<lambda>str (a, fs). write_file str a fs) pieces (a, fs))"

text \<open>The colours on the console.\<close>

definition add_color :: "Severity \<Rightarrow> string" where
  "add_color s =
     (if s = WARN then CHR 0x1B # ''[93m''
      else if s = ERROR then CHR 0x1B # ''[91m''
      else if s = CRITICAL then (CHR 0x1B # ''[97m'') @ (CHR 0x1B # ''[41m'') else [])"

definition clean_color :: "Severity \<Rightarrow> string" where
  "clean_color s = (if s \<ge> WARN then (CHR 0x1B # ''[0m'') @ (CHR 0x1B # ''[0K'') else [])"

definition console_text :: "Severity \<Rightarrow> string list \<Rightarrow> string" where
  "console_text s pieces =
     (case pieces of [] \<Rightarrow> [] | time_str # rest \<Rightarrow> add_color s @ time_str @ clean_color s @ concat rest)"

section \<open>The writer thread\<close>

text \<open>
  The thread of \<^verbatim>\<open>start_thread\<close>, one step per access to what it shares with the loggers: the test of
  the loop, the dequeue of the round, the wait, the test after it, and the dequeues of the last round.
  The queue gives its elements in some order: a step dequeues any of them.
\<close>

datatype writer_pc = W_loop | W_dequeue | W_wait | W_test | W_drain | W_exited

record 'r async_log =
  al_queue :: "'r list"
  al_written :: "'r list"
  al_accepted :: "'r list"
  al_stop :: bool
  al_pc :: writer_pc

definition async_log_new :: "'r async_log" where
  "async_log_new = \<lparr>al_queue = [], al_written = [], al_accepted = [], al_stop = False, al_pc = W_loop\<rparr>"

definition take_record :: "nat \<Rightarrow> writer_pc \<Rightarrow> 'r async_log \<Rightarrow> 'r async_log" where
  "take_record i pc s =
     s\<lparr>al_queue := take i (al_queue s) @ drop (Suc i) (al_queue s), al_written := al_written s @ [al_queue s ! i], al_pc := pc\<rparr>"

inductive async_step :: "'r async_log \<Rightarrow> 'r async_log \<Rightarrow> bool" where
  appender_write: "async_step s (s\<lparr>al_queue := al_queue s @ [r], al_accepted := al_accepted s @ [r]\<rparr>)"
| appender_stop: "async_step s (s\<lparr>al_stop := True\<rparr>)"
| writer_loop: "al_pc s = W_loop \<Longrightarrow> async_step s (s\<lparr>al_pc := if al_stop s then W_exited else W_dequeue\<rparr>)"
| writer_dequeue: "al_pc s = W_dequeue \<Longrightarrow> i < length (al_queue s) \<Longrightarrow> async_step s (take_record i W_wait s)"
| writer_nothing: "al_pc s = W_dequeue \<Longrightarrow> al_queue s = [] \<Longrightarrow> async_step s (s\<lparr>al_pc := W_wait\<rparr>)"
| writer_wait: "al_pc s = W_wait \<Longrightarrow> al_queue s \<noteq> [] \<or> al_stop s \<Longrightarrow> async_step s (s\<lparr>al_pc := W_test\<rparr>)"
| writer_test: "al_pc s = W_test \<Longrightarrow> async_step s (s\<lparr>al_pc := if al_stop s then W_drain else W_loop\<rparr>)"
| writer_drain: "al_pc s = W_drain \<Longrightarrow> i < length (al_queue s) \<Longrightarrow> async_step s (take_record i W_drain s)"
| writer_drained: "al_pc s = W_drain \<Longrightarrow> al_queue s = [] \<Longrightarrow> async_step s (s\<lparr>al_pc := W_loop\<rparr>)"

section \<open>The logger\<close>

record logger =
  min_severity :: Severity
  lg_async :: bool
  lg_console :: bool
  lg_appender :: bool

definition check_severity :: "Severity \<Rightarrow> logger \<Rightarrow> bool" where
  "check_severity s l \<longleftrightarrow> s \<ge> min_severity l"

text \<open>What \<^verbatim>\<open>write\<close> does with a record, and whether the program is left after a flush.\<close>

datatype log_action = To_queue | To_file bool | Dropped

definition logger_write :: "record_t \<Rightarrow> logger \<Rightarrow> log_action \<times> bool" where
  "logger_write r l =
     (if lg_async l \<and> lg_appender l then To_queue
      else if lg_appender l then To_file (lg_console l) else Dropped,
      severity r = CRITICAL)"

text \<open>\<^verbatim>\<open>ELOG(severity)\<close>: records below the least severity are not even made.\<close>

definition ELOG :: "record_t \<Rightarrow> logger \<Rightarrow> (log_action \<times> bool) option" where
  "ELOG r l = (if \<not> check_severity (severity r) l then None else Some (logger_write r l))"

end
