(* ===== verification/Easylog_Props.thy ===== *)
theory Easylog_Props
  imports Easylog "HOL-Library.Multiset"
begin

text \<open>
  Properties of the logger: the rolling files hold the most recent lines and nothing is dropped early;
  the writer thread loses no line while it runs, but may leave some behind when it is stopped.
\<close>

section \<open>Names of the rolled files\<close>

definition text_value :: "string \<Rightarrow> nat" where
  "text_value s = foldl (\<lambda>a c. a * 10 + (of_char c - 48)) 0 s"

lemma digit_value: "d < 10 \<Longrightarrow> of_char (hex_char d) - (48 :: nat) = d"
  by (simp add: hex_char_def)

lemma text_value_to_chars: "text_value (to_chars_base 10 n) = n"
proof (induction n rule: less_induct)
  case (less n)
  show ?case
  proof (cases "n < 10")
    case True
    then show ?thesis by (subst to_chars_base.simps) (simp add: text_value_def digit_value)
  next
    case False
    then have "text_value (to_chars_base 10 n) = text_value (to_chars_base 10 (n div 10)) * 10 + n mod 10"
      by (subst to_chars_base.simps) (simp add: text_value_def digit_value)
    with False less [of "n div 10"] show ?thesis by simp
  qed
qed

lemma to_chars_inj: "to_chars_base 10 m = to_chars_base 10 n \<Longrightarrow> m = n"
  by (metis text_value_to_chars)

lemma to_chars_no_slash: "CHR ''/'' \<notin> set (to_chars_base 10 n)"
proof (induction n rule: less_induct)
  case (less n)
  have "CHR ''/'' \<noteq> hex_char d" if "d < 10" for d
  proof
    assume "CHR ''/'' = hex_char d"
    then have "of_char (CHR ''/'') - (47 :: nat) = of_char (hex_char d) - 47" by simp
    with that show False by (simp add: hex_char_def)
  qed
  with less [of "n div 10"] show ?case by (subst to_chars_base.simps) auto
qed

lemma path_filename_split: "path_filename p = stem p @ extension p"
proof -
  define f where "f = path_filename p"
  define e where "e = takeWhile (\<lambda>c. c \<noteq> CHR ''.'') (rev f)"
  show ?thesis
  proof (cases "length e + 1 \<ge> length f \<or> f = ''..''")
    case True
    then show ?thesis by (simp add: stem_def extension_def Let_def f_def e_def)
  next
    case False
    then have "length e < length (rev f)" by simp
    then have "dropWhile (\<lambda>c. c \<noteq> CHR ''.'') (rev f) \<noteq> []"
      unfolding e_def by (metis append_Nil2 nat_neq_iff takeWhile_dropWhile_id)
    then obtain c rest where cr: "dropWhile (\<lambda>c. c \<noteq> CHR ''.'') (rev f) = c # rest" by (cases "dropWhile (\<lambda>c. c \<noteq> CHR ''.'') (rev f)") auto
    then have "c = CHR ''.''" using hd_dropWhile [of "\<lambda>c. c \<noteq> CHR ''.''" "rev f"] by simp
    then have "rev f = e @ CHR ''.'' # rest"
      using takeWhile_dropWhile_id [of "\<lambda>c. c \<noteq> CHR ''.''" "rev f"] by (simp add: e_def cr)
    then have "rev (rev f) = rev (e @ CHR ''.'' # rest)" by simp
    then have f: "f = rev rest @ CHR ''.'' # rev e" by simp
    have ext: "extension p = CHR ''.'' # rev e"
      using False by (simp add: extension_def Let_def flip: f_def e_def)
    have "stem p = rev rest" unfolding stem_def Let_def ext f_def [symmetric] by (simp add: f)
    with ext f show ?thesis by (simp add: f_def)
  qed
qed

lemma path_filename_no_slash: "CHR ''/'' \<notin> set (path_filename p)"
  by (auto simp: path_filename_def dest: set_takeWhileD)

lemma path_filename_self: "CHR ''/'' \<notin> set f \<Longrightarrow> path_filename f = f"
proof -
  assume "CHR ''/'' \<notin> set f"
  then have eq: "takeWhile (\<lambda>c. c \<noteq> CHR ''/'') (rev f) = rev f" by (subst takeWhile_eq_all_conv) auto
  show ?thesis unfolding path_filename_def eq by simp
qed

lemma path_filename_append: "CHR ''/'' \<notin> set f \<Longrightarrow> path_filename (path_append p f) = f"
proof -
  assume f: "CHR ''/'' \<notin> set f"
  have "path_filename (q @ CHR ''/'' # f) = f" for q
  proof -
    have "takeWhile (\<lambda>c. c \<noteq> CHR ''/'') (rev f @ CHR ''/'' # rev q) = rev f"
      using f by (subst takeWhile_append2) auto
    then show ?thesis by (simp add: path_filename_def)
  qed
  note sl = this
  show ?thesis
  proof (cases "p = []")
    case True
    then show ?thesis using path_filename_self [OF f] by (simp add: path_append_def)
  next
    case False
    show ?thesis
    proof (cases "last p = CHR ''/''")
      case True
      with append_butlast_last_id [OF False] obtain q where "p = q @ [CHR ''/'']" by metis
      then have "path_append p f = q @ CHR ''/'' # f" by (simp add: path_append_def)
      then show ?thesis by (simp only: sl)
    next
      case nosl: False
      with sl [of p] False show ?thesis by (simp add: path_append_def)
    qed
  qed
qed

lemma build_filename_component:
  "n \<noteq> 0 \<Longrightarrow> path_filename (build_filename nm n) = stem nm @ ''.'' @ to_chars_base 10 n @ extension nm"
proof -
  assume n: "n \<noteq> 0"
  define f where "f = stem nm @ ''.'' @ to_chars_base 10 n @ extension nm"
  have "CHR ''/'' \<notin> set f"
    using path_filename_no_slash [of nm] to_chars_no_slash by (auto simp: f_def path_filename_split)
  moreover have "build_filename nm n = (if parent_path nm \<noteq> [] then path_append (parent_path nm) f else f)"
    using n by (simp add: build_filename_def f_def Let_def)
  ultimately show ?thesis using path_filename_self path_filename_append f_def by auto
qed

lemma build_filename_inj: "build_filename nm m = build_filename nm n \<Longrightarrow> m = n"
proof -
  assume eq: "build_filename nm m = build_filename nm n"
  then have c: "path_filename (build_filename nm m) = path_filename (build_filename nm n)" by simp
  have zero: "path_filename (build_filename nm 0) = stem nm @ extension nm"
    by (simp add: build_filename_def path_filename_split)
  show ?thesis using c zero
    by (cases "m = 0"; cases "n = 0") (auto simp: build_filename_component dest: to_chars_inj arg_cong [where f = length])
qed

lemma build_filename_eq [simp]: "build_filename nm m = build_filename nm n \<longleftrightarrow> m = n"
  using build_filename_inj by auto

section \<open>Rolling\<close>

lemma roll_loop_moves:
  "fs (build_filename nm n) = None \<Longrightarrow>
   (\<forall>j<n. roll_loop nm n fs (build_filename nm (Suc j)) = fs (build_filename nm j)) \<and>
   roll_loop nm n fs (build_filename nm 0) = None"
proof (induction n arbitrary: fs)
  case (Suc n)
  define fs1 where "fs1 = rename_file (build_filename nm n) (build_filename nm (Suc n)) fs"
  have fs1: "fs1 (build_filename nm (Suc n)) = fs (build_filename nm n)" "fs1 (build_filename nm n) = None"
    "\<And>j. j < n \<Longrightarrow> fs1 (build_filename nm j) = fs (build_filename nm j)"
    using Suc.prems by (auto simp: fs1_def rename_file_def split: option.splits)
  have keep: "roll_loop nm i g (build_filename nm (Suc n)) = g (build_filename nm (Suc n))" if "i \<le> n" for i g
    using that by (induction i arbitrary: g) (auto simp: rename_file_def split: option.splits)
  from Suc.IH [of fs1, OF fs1(2)] fs1 keep [of n fs1] show ?case by (auto simp: fs1_def [symmetric] less_Suc_eq)
qed simp

lemma min_unat: "unat (min x (1000 :: u64)) = min (unat x) 1000"
  by (simp add: min_def word_le_nat_alt)

text \<open>What \<^verbatim>\<open>roll_log_files\<close> leaves in the \<open>N\<close> files.\<close>

lemma roll_log_files_moves:
  assumes N: "N = unat (max_files a)" "0 < N" and nm: "log_filename a = nm" "nm \<noteq> []"
    and r: "roll_log_files a fs = (a', fs')"
  shows "fs' (build_filename nm 0) = Some BOM_STR"
    and "j < N - 1 \<Longrightarrow> fs' (build_filename nm (Suc j)) = fs (build_filename nm j)"
    and "a' = a\<lparr>open_file := Some nm, file_size := 3\<rparr>"
proof -
  have n0: "build_filename nm 0 = nm" by (simp add: build_filename_def)
  have pred: "unat (max_files a - 1) = N - 1" using N by (simp add: unat_minus_one_word unat_gt_0)
  define fs1 where "fs1 = fs(build_filename nm (N - 1) := None)"
  define fs2 where "fs2 = roll_loop nm (N - 1) fs1"
  have "fs1 (build_filename nm (N - 1)) = None" by (simp add: fs1_def)
  from roll_loop_moves [of fs1, OF this]
  have mv: "\<forall>j<N - 1. fs2 (build_filename nm (Suc j)) = fs1 (build_filename nm j)" and z: "fs2 nm = None"
    using n0 by (auto simp: fs2_def)
  have "(a', fs') = open_log_file (a\<lparr>open_file := None\<rparr>) fs2"
    using r by (simp add: roll_log_files_def Let_def pred nm fs1_def fs2_def N(1))
  then have o: "fs' = fs2(nm \<mapsto> BOM_STR)" "a' = a\<lparr>open_file := Some nm, file_size := 3\<rparr>"
    using z nm by (auto simp: open_log_file_def Let_def n0 BOM_STR_def)
  show "fs' (build_filename nm 0) = Some BOM_STR" by (simp add: o n0)
  show "a' = a\<lparr>open_file := Some nm, file_size := 3\<rparr>" by (rule o(2))
  show "fs' (build_filename nm (Suc j)) = fs (build_filename nm j)" if "j < N - 1"
  proof -
    have "build_filename nm (Suc j) \<noteq> nm" using build_filename_inj [of nm "Suc j" 0] n0 by auto
    with mv that show ?thesis by (simp add: o fs1_def)
  qed
qed

lemma fold_write_file:
  assumes "has_init a" "open_file a = Some f" "fs f = Some s"
  shows "fold (\<lambda>str (a, fs). write_file str a fs) pieces (a, fs) =
    (a\<lparr>file_size := file_size a + word_of_nat (length (concat pieces))\<rparr>, fs(f \<mapsto> s @ concat pieces))"
  using assms
proof (induction pieces arbitrary: a fs s)
  case (Cons p ps)
  then have w: "write_file p a fs = (a\<lparr>file_size := file_size a + word_of_nat (length p)\<rparr>, fs(f \<mapsto> s @ p))"
    by (simp add: write_file_def)
  define a1 where "a1 = a\<lparr>file_size := file_size a + word_of_nat (length p)\<rparr>"
  define fs1 where "fs1 = fs(f \<mapsto> s @ p)"
  have "fold (\<lambda>str (a, fs). write_file str a fs) ps (a1, fs1) =
      (a1\<lparr>file_size := file_size a1 + word_of_nat (length (concat ps))\<rparr>, fs1(f \<mapsto> (s @ p) @ concat ps))"
    by (rule Cons.IH) (use Cons.prems in \<open>simp_all add: a1_def fs1_def\<close>)
  moreover have "write_file p a fs = (a1, fs1)" using w by (simp add: a1_def fs1_def)
  ultimately show ?case by (auto simp: a1_def fs1_def add.assoc fun_eq_iff)
qed (simp add: fun_upd_idem)

section \<open>The files hold the most recent lines\<close>

text \<open>
  The invariant: the lines are split into segments, newest first, one per file, after \<open>k\<close> lines that
  were dropped; none is dropped while there is room for another file, and the rolled ones are full.
\<close>

definition log_inv :: "string \<Rightarrow> nat \<Rightarrow> u64 \<Rightarrow> appender \<Rightarrow> file_system \<Rightarrow> string list list \<Rightarrow> nat \<Rightarrow> string list \<Rightarrow> bool" where
  "log_inv nm N mfs a fs segs k lines \<longleftrightarrow>
     has_init a \<and> log_filename a = nm \<and> open_file a = Some nm \<and> max_file_size a = mfs \<and>
     N = max 1 (unat (max_files a)) \<and> segs \<noteq> [] \<and> length segs \<le> N \<and>
     (\<forall>n<length segs. fs (build_filename nm n) = Some (BOM_STR @ concat (segs ! n))) \<and>
     (\<forall>n. length segs \<le> n \<longrightarrow> n < N \<longrightarrow> fs (build_filename nm n) = None) \<and>
     concat (rev segs) = drop k lines \<and> k \<le> length lines \<and> (0 < k \<longrightarrow> length segs = N) \<and>
     (\<forall>n<length segs. 0 < n \<longrightarrow> unat mfs < 3 + length (concat (segs ! n))) \<and>
     file_size a = word_of_nat (3 + length (concat (hd segs)))"

lemma write_line_append:
  assumes "log_inv nm N mfs a fs (seg # segs) k lines"
    and w: "fold (\<lambda>str (a, fs). write_file str a fs) pieces (a, fs) = (a', fs')"
  shows "log_inv nm N mfs a' fs' ((seg @ [concat pieces]) # segs) k (lines @ [concat pieces])"
proof -
  have n0: "build_filename nm 0 = nm" by (simp add: build_filename_def)
  have "fs nm = Some (BOM_STR @ concat seg)" using assms(1) n0 unfolding log_inv_def by fastforce
  then have a': "a' = a\<lparr>file_size := file_size a + word_of_nat (length (concat pieces))\<rparr>"
    and fs': "fs' = fs(nm \<mapsto> BOM_STR @ concat (seg @ [concat pieces]))"
    using fold_write_file [of a nm fs] w assms(1) unfolding log_inv_def by auto
  have other: "fs' (build_filename nm n) = fs (build_filename nm n)" if "0 < n" for n
    using build_filename_inj [of nm n 0] n0 that by (auto simp: fs')
  have "fs' (build_filename nm n) = Some (BOM_STR @ concat (((seg @ [concat pieces]) # segs) ! n))" if "n < Suc (length segs)" for n
    using that assms(1) other [of n] n0 unfolding log_inv_def by (cases n) (auto simp: fs')
  moreover have "fs' (build_filename nm n) = None" if "Suc (length segs) \<le> n" "n < N" for n
    using that assms(1) other [of n] unfolding log_inv_def by auto
  moreover have "unat mfs < 3 + length (concat (((seg @ [concat pieces]) # segs) ! n))" if "n < Suc (length segs)" "0 < n" for n
    using that assms(1) unfolding log_inv_def by (cases n) auto
  ultimately show ?thesis using assms(1) unfolding log_inv_def by (auto simp: a' drop_append)
qed

text \<open>A roll starts a new segment and drops the oldest when there are \<open>N\<close>.\<close>

lemma roll_segments:
  assumes inv: "log_inv nm N mfs a fs segs k lines" and nm: "nm \<noteq> []"
    and due: "max_files a > 0" "unat mfs < 3 + length (concat (hd segs))"
    and r: "roll_log_files a fs = (a', fs')"
  shows "\<exists>k'. log_inv nm N mfs a' fs' ([] # take (N - 1) segs) k' lines"
proof -
  have N: "N = unat (max_files a)" "0 < N"
    using inv due(1) unat_gt_0 [of "max_files a"] unfolding log_inv_def by (auto simp: max_def)
  note moves = roll_log_files_moves [OF N _ nm r]
  have a: "log_filename a = nm" using inv by (simp add: log_inv_def)
  define segs' where "segs' = take (N - 1) segs"
  have len: "length segs' = min (N - 1) (length segs)" by (simp add: segs'_def)
  have files: "fs' (build_filename nm n) = Some (BOM_STR @ concat (([] # segs') ! n))" if "n < Suc (length segs')" for n
    using that inv moves(1) [OF a] moves(2) [OF a, of "n - 1"] len unfolding log_inv_def by (cases n) (auto simp: segs'_def)
  have none: "fs' (build_filename nm n) = None" if "Suc (length segs') \<le> n" "n < N" for n
  proof -
    obtain j where j: "n = Suc j" "j < N - 1" "length segs \<le> j" using \<open>Suc (length segs') \<le> n\<close> \<open>n < N\<close> len by (cases n) auto
    then have "fs (build_filename nm j) = None" using inv unfolding log_inv_def by auto
    with moves(2) [OF a j(2)] j show ?thesis by simp
  qed
  have full: "unat mfs < 3 + length (concat (([] # segs') ! n))" if n: "n < Suc (length segs')" "0 < n" for n
  proof -
    obtain j where j: "n = Suc j" "j < length segs'" using n by (cases n) auto
    have "unat mfs < 3 + length (concat (segs ! j))"
      using j len inv due(2) unfolding log_inv_def by (cases j) (auto simp: hd_conv_nth)
    with j show ?thesis by (simp add: segs'_def)
  qed
  define k' where "k' = k + length (concat (rev (drop (N - 1) segs)))"
  have split: "concat (rev segs) = concat (rev (drop (N - 1) segs)) @ concat (rev segs')"
    unfolding segs'_def by (metis append_take_drop_id concat_append rev_append)
  have k: "concat (rev segs) = drop k lines" "k \<le> length lines" "0 < k \<longrightarrow> length segs = N" "length segs \<le> N"
    using inv unfolding log_inv_def by auto
  have "concat (rev segs') = drop k' lines"
    using arg_cong [OF split [unfolded k(1)], of "drop (length (concat (rev (drop (N - 1) segs))))"] by (simp add: k'_def add.commute)
  moreover have "k' \<le> length lines"
    using arg_cong [OF split [unfolded k(1)], of length] k(2) by (simp add: k'_def)
  moreover have "0 < k' \<longrightarrow> Suc (length segs') = N"
    using k(3,4) N(2) by (auto simp: k'_def len min_def)
  moreover have "Suc (length segs') \<le> N" using len N(2) by simp
  ultimately have "log_inv nm N mfs a' fs' ([] # segs') k' lines"
    using inv files none full unfolding log_inv_def moves(3) [OF a] by auto
  then show ?thesis unfolding segs'_def by blast
qed

lemma write_record_inv:
  assumes inv: "log_inv nm N mfs a fs segs k lines" and nm: "nm \<noteq> []"
    and small: "3 + length (concat lines) < 2 ^ 64 - 1"
    and w: "write_record True pieces a fs = (a', fs')"
  shows "\<exists>segs k. log_inv nm N mfs a' fs' segs k (lines @ [concat pieces])"
proof -
  have seg: "segs = hd segs # tl segs" and size_w: "file_size a = word_of_nat (3 + length (concat (hd segs)))"
    and mfs: "max_file_size a = mfs" using inv by (auto simp: log_inv_def)
  show ?thesis
  proof (cases "roll_due a")
    case False
    with w have "fold (\<lambda>str (a, fs). write_file str a fs) pieces (a, fs) = (a', fs')" by (simp add: write_record_def)
    moreover have "log_inv nm N mfs a fs (hd segs # tl segs) k lines" using inv seg by simp
    ultimately show ?thesis using write_line_append by blast
  next
    case True
    have "rev segs = rev (tl segs) @ [hd segs]" using seg by (metis rev.simps(2))
    then have "length (concat (hd segs)) \<le> length (concat (concat (rev segs)))" by simp
    also have "\<dots> = length (concat (drop k lines))" using inv by (simp add: log_inv_def)
    also have "\<dots> \<le> length (concat lines)" by (metis append_take_drop_id concat_append length_append le_add2)
    finally have "unat (file_size a) = 3 + length (concat (hd segs))"
      unfolding size_w unat_of_nat using small by (intro mod_less) simp
    moreover have "unat mfs < unat (file_size a)" "max_files a > 0" using True mfs by (auto simp: roll_due_def word_less_nat_alt)
    moreover obtain a1 fs1 where r: "roll_log_files a fs = (a1, fs1)" by fastforce
    ultimately obtain k' where inv1: "log_inv nm N mfs a1 fs1 ([] # take (N - 1) segs) k' lines"
      using roll_segments [OF inv nm _ _ r] by auto
    have "fold (\<lambda>str (a, fs). write_file str a fs) pieces (a1, fs1) = (a', fs')"
      using w True r by (simp add: write_record_def)
    from write_line_append [OF inv1 this] show ?thesis by blast
  qed
qed

section \<open>Properties\<close>

text \<open>A sequence of synchronous writes, each line as its pieces, by a fresh appender.\<close>

definition write_lines :: "string \<Rightarrow> bool \<Rightarrow> u64 \<Rightarrow> u64 \<Rightarrow> bool \<Rightarrow> string list list \<Rightarrow> file_system \<Rightarrow> appender \<times> file_system" where
  "write_lines nm console mfs mf flush_all ps fs =
     fold (\<lambda>pieces (a, fs). write_record True pieces a fs) ps (appender_new nm console mfs mf flush_all fs)"

text \<open>What a log file holds behind its byte order mark; nothing if there is none.\<close>

definition log_text :: "file_system \<Rightarrow> string \<Rightarrow> string" where
  "log_text fs f = (case fs f of None \<Rightarrow> [] | Some s \<Rightarrow> drop (length BOM_STR) s)"

lemma write_lines_inv:
  assumes nm: "nm \<noteq> []" and N: "N = max 1 (unat (min mf 1000))"
    and free: "\<forall>n<N. fs (build_filename nm n) = None"
    and small: "3 + length (concat (map concat ps)) < 2 ^ 64 - 1"
    and w: "write_lines nm console mfs mf flush_all ps fs = (a', fs')"
  shows "\<exists>segs k. log_inv nm N mfs a' fs' segs k (map concat ps)"
  using small w
proof (induction ps arbitrary: a' fs' rule: rev_induct)
  case Nil
  have n0: "build_filename nm 0 = nm" by (simp add: build_filename_def)
  have one: "1 \<le> N" using N by simp
  then have f0: "fs nm = None" using free n0 by force
  have other: "build_filename nm n \<noteq> nm" if "1 \<le> n" for n using build_filename_inj [of nm n 0] n0 that by auto
  from Nil f0 nm have "a' = appender_default\<lparr>has_init := True, flush_every_time := flush_all, enable_console := console,
          max_file_size := mfs, log_filename := nm, max_files := min mf 1000, open_file := Some nm, file_size := 3\<rparr>"
      "fs' = fs(nm \<mapsto> BOM_STR)"
    by (auto simp: write_lines_def appender_new_def open_log_file_def n0 Let_def BOM_STR_def appender_default_def)
  then have "log_inv nm N mfs a' fs' [[]] 0 (map concat [])"
    using one N free n0 other by (auto simp: log_inv_def appender_default_def)
  then show ?case by blast
next
  case (snoc p ps)
  obtain a1 fs1 where r: "write_lines nm console mfs mf flush_all ps fs = (a1, fs1)" by fastforce
  have "3 + length (concat (map concat ps)) < 2 ^ 64 - 1" using snoc.prems(1) by simp
  with snoc.IH r obtain segs k where inv: "log_inv nm N mfs a1 fs1 segs k (map concat ps)" by blast
  have "write_record True p a1 fs1 = (a', fs')" using snoc.prems(2) r by (simp add: write_lines_def)
  from write_record_inv [OF inv nm \<open>3 + length (concat (map concat ps)) < 2 ^ 64 - 1\<close> this] show ?case by simp
qed

lemma concat_rev_upt:
  assumes "length segs \<le> N" and "\<And>n. n < length segs \<Longrightarrow> f n = g (segs ! n)" and "\<And>n. length segs \<le> n \<Longrightarrow> n < N \<Longrightarrow> f n = []"
  shows "concat (map f (rev [0..<N])) = concat (map g (rev segs))"
proof -
  have "[0..<N] = [0..<length segs] @ [length segs..<N]" using assms(1) by (metis le_Suc_ex upt_add_eq_append zero_le)
  moreover have "map f [0..<length segs] = map g segs" using assms(2) by (auto intro: nth_equalityI)
  moreover have "concat (rev (map f [length segs..<N])) = []" using assms(3) by simp
  ultimately show ?thesis by (simp flip: rev_map)
qed

text \<open>C34: The log files of an appender that started with none hold, read from the oldest to the newest
  and without their byte order marks, the most recent lines in order and complete. No line is dropped
  while fewer than \<^verbatim>\<open>max_files\<close> files exist, and all but the newest are larger than \<^verbatim>\<open>max_file_size\<close>.\<close>

theorem log_files_hold_recent_lines:
  assumes "nm \<noteq> []" "N = max 1 (unat (min mf 1000))"
    and "\<forall>n<N. fs (build_filename nm n) = None"
    and "3 + length (concat (map concat ps)) < 2 ^ 64 - 1"
    and "write_lines nm console mfs mf flush_all ps fs = (a', fs')"
  shows "\<exists>k\<le>length ps.
    concat (map (\<lambda>n. log_text fs' (build_filename nm n)) (rev [0..<N])) = concat (drop k (map concat ps)) \<and>
    (0 < k \<longrightarrow> (\<forall>n<N. fs' (build_filename nm n) \<noteq> None)) \<and>
    (\<forall>n. 0 < n \<longrightarrow> n < N \<longrightarrow> (\<forall>s. fs' (build_filename nm n) = Some s \<longrightarrow> unat mfs < length s))"
proof -
  obtain segs k where inv: "log_inv nm N mfs a' fs' segs k (map concat ps)" using write_lines_inv [OF assms] by blast
  have "concat (map (\<lambda>n. log_text fs' (build_filename nm n)) (rev [0..<N])) = concat (map concat (rev segs))"
    by (rule concat_rev_upt) (use inv in \<open>auto simp: log_inv_def log_text_def\<close>)
  also have "concat (map concat (rev segs)) = concat (concat (rev segs))" by (induction segs) simp_all
  also have "\<dots> = concat (drop k (map concat ps))" using inv by (simp add: log_inv_def)
  finally have "concat (map (\<lambda>n. log_text fs' (build_filename nm n)) (rev [0..<N])) = concat (drop k (map concat ps))" .
  moreover have "k \<le> length ps" "0 < k \<longrightarrow> (\<forall>n<N. fs' (build_filename nm n) \<noteq> None)" using inv by (auto simp: log_inv_def)
  moreover have "unat mfs < length s" if "0 < n" "n < N" "fs' (build_filename nm n) = Some s" for n s
    using inv that unfolding log_inv_def by (cases "n < length segs") (auto simp: BOM_STR_def not_less)
  ultimately show ?thesis by blast
qed

text \<open>Files of more than five bytes, two of them, and three lines: the first is dropped.\<close>

lemma log_files_hold_recent_lines_witness:
  "\<exists>k\<le>3. concat (map (\<lambda>n. log_text (snd (write_lines ''a.log'' False 5 2 True [[''one''], [''two''], [''x'', ''yz'']] (\<lambda>_. None)))
      (build_filename ''a.log'' n)) (rev [0..<2])) = concat (drop k [''one'', ''two'', ''xyz''])"
proof -
  have m: "min (2 :: u64) 1000 = 2" by (simp add: min_def)
  have N: "(2 :: nat) = max 1 (unat (min (2 :: u64) 1000))" unfolding m by simp
  obtain a' fs' where w: "write_lines ''a.log'' False 5 2 True [[''one''], [''two''], [''x'', ''yz'']] (\<lambda>_. None) = (a', fs')"
    by fastforce
  from log_files_hold_recent_lines [OF _ N _ _ w] obtain k where "k \<le> 3"
    "concat (map (\<lambda>n. log_text fs' (build_filename ''a.log'' n)) (rev [0..<2])) = concat (drop k [''one'', ''two'', ''xyz''])"
    by (auto simp: numeral_3_eq_3)
  then show ?thesis by (auto simp: w)
qed

inductive_cases async_stepE: "async_step s s'"

lemma async_step_conserves:
  "async_step s s' \<Longrightarrow> mset (al_written s) + mset (al_queue s) = mset (al_accepted s) \<Longrightarrow>
   mset (al_written s') + mset (al_queue s') = mset (al_accepted s')"
proof (induction rule: async_step.induct)
  case (writer_dequeue s i)
  then show ?case using arg_cong [OF id_take_nth_drop [OF writer_dequeue(2)], of mset] by (simp add: take_record_def)
next
  case (writer_drain s i)
  then show ?case using arg_cong [OF id_take_nth_drop [OF writer_drain(2)], of mset] by (simp add: take_record_def)
qed simp_all

lemma async_reachable:
  "async_step\<^sup>*\<^sup>* async_log_new s \<Longrightarrow>
   mset (al_written s) + mset (al_queue s) = mset (al_accepted s) \<and> (al_pc s = W_exited \<longrightarrow> al_stop s)"
proof (induction rule: rtranclp_induct)
  case base
  then show ?case by (simp add: async_log_new_def)
next
  case (step s s')
  then have "al_pc s' = W_exited \<longrightarrow> al_stop s'"
    by (auto elim!: async_stepE simp: take_record_def split: if_splits)
  with step async_step_conserves show ?case by blast
qed

text \<open>A run in which the thread has just tested that it need not stop, with a record still queued.\<close>

lemma loop_with_queued_record:
  "async_step\<^sup>*\<^sup>* async_log_new
     \<lparr>al_queue = [r2], al_written = [r1], al_accepted = [r1, r2], al_stop = False, al_pc = W_loop\<rparr>"
proof -
  have next_step: "async_step\<^sup>*\<^sup>* a c" if "async_step\<^sup>*\<^sup>* a b" "async_step b c'" "c' = c" for a b c c' :: "'a async_log"
    using that by simp
  have "async_step\<^sup>*\<^sup>* (async_log_new :: 'a async_log) \<lparr>al_queue = [r1], al_written = [], al_accepted = [r1], al_stop = False, al_pc = W_loop\<rparr>"
    by (rule next_step [OF rtranclp.rtrancl_refl appender_write]) (simp add: async_log_new_def)
  then have "async_step\<^sup>*\<^sup>* async_log_new \<lparr>al_queue = [r1, r2], al_written = [], al_accepted = [r1, r2], al_stop = False, al_pc = W_loop\<rparr>"
    by (rule next_step [OF _ appender_write]) simp
  then have "async_step\<^sup>*\<^sup>* async_log_new \<lparr>al_queue = [r1, r2], al_written = [], al_accepted = [r1, r2], al_stop = False, al_pc = W_dequeue\<rparr>"
    by (rule next_step [OF _ writer_loop]) simp_all
  then have "async_step\<^sup>*\<^sup>* async_log_new \<lparr>al_queue = [r2], al_written = [r1], al_accepted = [r1, r2], al_stop = False, al_pc = W_wait\<rparr>"
    by (rule next_step [OF _ writer_dequeue [where i = 0]]) (simp_all add: take_record_def)
  then have "async_step\<^sup>*\<^sup>* async_log_new \<lparr>al_queue = [r2], al_written = [r1], al_accepted = [r1, r2], al_stop = False, al_pc = W_test\<rparr>"
    by (rule next_step [OF _ writer_wait]) simp_all
  then show ?thesis by (rule next_step [OF _ writer_test]) simp_all
qed

text \<open>C35: In every run of the loggers and the writer thread the accepted records are exactly those
  written and those still queued, and the thread only exits when it was told to stop. It may exit,
  though, with records behind that were accepted before: when it is stopped between the test at the
  end of a round and the test of the loop, it does not drain its queue.\<close>

theorem writer_thread_may_leave_records:
  "(\<forall>s. async_step\<^sup>*\<^sup>* async_log_new s \<longrightarrow>
      mset (al_written s) + mset (al_queue s) = mset (al_accepted s) \<and> (al_pc s = W_exited \<longrightarrow> al_stop s)) \<and>
   (\<exists>s. async_step\<^sup>*\<^sup>* async_log_new s \<and> \<not> al_stop s \<and> al_accepted s = [r1, r2] \<and>
      async_step s (s\<lparr>al_stop := True\<rparr>) \<and>
      async_step (s\<lparr>al_stop := True\<rparr>) (s\<lparr>al_stop := True, al_pc := W_exited\<rparr>) \<and> al_queue s = [r2])"
proof (rule conjI)
  show "\<forall>s. async_step\<^sup>*\<^sup>* async_log_new s \<longrightarrow>
      mset (al_written s) + mset (al_queue s) = mset (al_accepted s) \<and> (al_pc s = W_exited \<longrightarrow> al_stop s)"
    using async_reachable by blast
  let ?s = "\<lparr>al_queue = [r2], al_written = [r1], al_accepted = [r1, r2], al_stop = False, al_pc = W_loop\<rparr>"
  have "async_step ?s (?s\<lparr>al_stop := True\<rparr>)" by (rule appender_stop)
  moreover have "async_step (?s\<lparr>al_stop := True\<rparr>) (?s\<lparr>al_stop := True, al_pc := W_exited\<rparr>)"
    using writer_loop [of "?s\<lparr>al_stop := True\<rparr>"] by simp
  ultimately show "\<exists>s. async_step\<^sup>*\<^sup>* async_log_new s \<and> \<not> al_stop s \<and> al_accepted s = [r1, r2] \<and>
      async_step s (s\<lparr>al_stop := True\<rparr>) \<and>
      async_step (s\<lparr>al_stop := True\<rparr>) (s\<lparr>al_stop := True, al_pc := W_exited\<rparr>) \<and> al_queue s = [r2]"
    using loop_with_queued_record [of r2 r1] by (intro exI [of _ ?s]) simp
qed

lemma writer_thread_may_leave_records_witness:
  "mset [1 :: nat] + mset [2] = mset [1, 2] \<and>
   async_step\<^sup>*\<^sup>* async_log_new \<lparr>al_queue = [2 :: nat], al_written = [1], al_accepted = [1, 2], al_stop = False, al_pc = W_loop\<rparr>"
  using writer_thread_may_leave_records [THEN conjunct1, rule_format, OF loop_with_queued_record [of "2 :: nat" 1]]
    loop_with_queued_record [of "2 :: nat" 1] by simp

end
