(* ===== verification/Promise_Allocator.thy ===== *)
theory Promise_Allocator
  imports Prelude
begin

text \<open>
  The layout of coroutine frames, \<^verbatim>\<open>src/coro/PromiseAllocator.h\<close>: behind the frame of \<open>sz\<close> bytes lie,
  depending on the kind of promise and of allocator, the function that deallocates it and the allocator
  itself. Addresses and sizes are 64-bit and wrap as in the code. The allocator is a parameter: its
  \<^verbatim>\<open>allocate\<close> gives an address for a number of blocks or throws.
\<close>

section \<open>Allocators and memory\<close>

text \<open>A \<open>stateless\<close> allocator is default initialisable and all its objects are equal.\<close>

record alloc_traits =
  stateless :: bool
  size_of :: u64
  align_of :: u64

definition sizeof_block :: u64 where
  "sizeof_block = 16"

definition sizeof_DeallocFn :: u64 where
  "sizeof_DeallocFn = 8"

definition Align :: "alloc_traits \<Rightarrow> u64" where
  "Align A = max (align_of A) sizeof_block"

text \<open>The type-erased deallocation functions: of plain new, of a stateless and of a stored allocator.\<close>

datatype DeallocFn = Dealloc_default | Dealloc_stateless | Dealloc_stored alloc_traits

text \<open>What a call of an allocation leaves: the address, and what was written behind the frame where.\<close>

record frame_alloc =
  fr_ptr :: u64
  fr_units :: u64
  fr_dealloc :: "(u64 \<times> DeallocFn) option"
  fr_al_address :: "u64 option"

text \<open>What a deallocation gives back: address, number of blocks (bytes for plain new), stored allocator.\<close>

record dealloc_call =
  dc_ptr :: u64
  dc_units :: u64
  dc_al_address :: "u64 option"

definition al_address :: "alloc_traits \<Rightarrow> u64 \<Rightarrow> u64 \<Rightarrow> u64" where
  "al_address A ptr sz = (ptr + sz + align_of A - 1) AND NOT (align_of A - 1)"

section \<open>PromiseAllocator<Allocator>\<close>

definition count_stateless :: "u64 \<Rightarrow> u64" where
  "count_stateless sz = (sz + sizeof_block - 1) div sizeof_block"

definition count_stored :: "alloc_traits \<Rightarrow> u64 \<Rightarrow> u64" where
  "count_stored A sz = (sz + size_of A + Align A - 1) div sizeof_block"

definition PA_Allocate :: "(u64 \<Rightarrow> u64 outcome) \<Rightarrow> alloc_traits \<Rightarrow> u64 \<Rightarrow> frame_alloc outcome" where
  "PA_Allocate allocate A sz =
     (if stateless A
      then bind_outcome (allocate (count_stateless sz)) (\<lambda>ptr.
             Inr \<lparr>fr_ptr = ptr, fr_units = count_stateless sz, fr_dealloc = None, fr_al_address = None\<rparr>)
      else bind_outcome (allocate (count_stored A sz)) (\<lambda>ptr.
             Inr \<lparr>fr_ptr = ptr, fr_units = count_stored A sz, fr_dealloc = None, fr_al_address = Some (al_address A ptr sz)\<rparr>))"

definition PA_delete :: "alloc_traits \<Rightarrow> u64 \<Rightarrow> u64 \<Rightarrow> dealloc_call" where
  "PA_delete A ptr sz =
     (if stateless A
      then \<lparr>dc_ptr = ptr, dc_units = count_stateless sz, dc_al_address = None\<rparr>
      else \<lparr>dc_ptr = ptr, dc_units = count_stored A sz, dc_al_address = Some (al_address A ptr sz)\<rparr>)"

section \<open>PromiseAllocator<void>\<close>

text \<open>
  The type-erased allocators differ only in a failing allocation: with \<open>no_except_new\<close> it gives a null
  pointer (\<open>None\<close>), else the exception passes through.
\<close>

definition no_except :: "bool \<Rightarrow> u64 outcome \<Rightarrow> u64 option outcome" where
  "no_except no_except_new r =
     (case r of Inr p \<Rightarrow> Inr (Some p) | Inl e \<Rightarrow> if no_except_new then Inr None else Inl e)"

definition erased_count_stateless :: "u64 \<Rightarrow> u64" where
  "erased_count_stateless sz = (sz + sizeof_DeallocFn + sizeof_block - 1) div sizeof_block"

definition erased_count_stored :: "alloc_traits \<Rightarrow> u64 \<Rightarrow> u64" where
  "erased_count_stored A sz = (sz + sizeof_DeallocFn + size_of A + Align A - 1) div sizeof_block"

definition PV_Allocate ::
    "bool \<Rightarrow> (u64 \<Rightarrow> u64 outcome) \<Rightarrow> alloc_traits \<Rightarrow> u64 \<Rightarrow> frame_alloc option outcome" where
  "PV_Allocate no_except_new allocate A sz =
     (if stateless A
      then bind_outcome (no_except no_except_new (allocate (erased_count_stateless sz))) (\<lambda>r. Inr (map_option (\<lambda>ptr.
             \<lparr>fr_ptr = ptr, fr_units = erased_count_stateless sz, fr_dealloc = Some (ptr + sz, Dealloc_stateless),
              fr_al_address = None\<rparr>) r))
      else bind_outcome (no_except no_except_new (allocate (erased_count_stored A sz))) (\<lambda>r. Inr (map_option (\<lambda>ptr.
             \<lparr>fr_ptr = ptr, fr_units = erased_count_stored A sz, fr_dealloc = Some (ptr + sz, Dealloc_stored A),
              fr_al_address = Some (al_address A ptr (sz + sizeof_DeallocFn))\<rparr>) r)))"

text \<open>\<^verbatim>\<open>operator new\<close> without an allocator takes bytes from \<^verbatim>\<open>::operator new[]\<close>.\<close>

definition PV_new_default :: "bool \<Rightarrow> (u64 \<Rightarrow> u64 outcome) \<Rightarrow> u64 \<Rightarrow> frame_alloc option outcome" where
  "PV_new_default no_except_new operator_new sz =
     bind_outcome (no_except no_except_new (operator_new (sz + sizeof_DeallocFn))) (\<lambda>r. Inr (map_option (\<lambda>ptr.
       \<lparr>fr_ptr = ptr, fr_units = sz + sizeof_DeallocFn, fr_dealloc = Some (ptr + sz, Dealloc_default), fr_al_address = None\<rparr>) r))"

text \<open>The three deallocation functions, called with the address and the size of the frame.\<close>

definition call_DeallocFn :: "DeallocFn \<Rightarrow> u64 \<Rightarrow> u64 \<Rightarrow> dealloc_call" where
  "call_DeallocFn fn ptr sz =
     (case fn of
        Dealloc_default \<Rightarrow> \<lparr>dc_ptr = ptr, dc_units = sz + sizeof_DeallocFn, dc_al_address = None\<rparr>
      | Dealloc_stateless \<Rightarrow>
          \<lparr>dc_ptr = ptr, dc_units = (sz + sizeof_DeallocFn + sizeof_block - 1) div sizeof_block, dc_al_address = None\<rparr>
      | Dealloc_stored A \<Rightarrow>
          (let sz = sz + sizeof_DeallocFn
           in \<lparr>dc_ptr = ptr, dc_units = (sz + size_of A + Align A - 1) div sizeof_block,
               dc_al_address = Some (al_address A ptr sz)\<rparr>))"

text \<open>\<^verbatim>\<open>operator delete\<close> reads the function behind the frame; \<open>mem\<close> is what is stored where.\<close>

definition PV_delete :: "(u64 \<Rightarrow> DeallocFn option) \<Rightarrow> u64 \<Rightarrow> u64 \<Rightarrow> dealloc_call outcome" where
  "PV_delete mem ptr sz =
     (case mem (ptr + sz) of None \<Rightarrow> Inl Undefined_behaviour | Some fn \<Rightarrow> Inr (call_DeallocFn fn ptr sz))"

section \<open>Layout\<close>

text \<open>A type's alignment is a power of two that divides its size.\<close>

definition alloc_type :: "alloc_traits \<Rightarrow> bool" where
  "alloc_type A \<longleftrightarrow> (\<exists>k j. align_of A = 2 ^ k \<and> k < 64 \<and> unat (size_of A) = 2 ^ k * j \<and> 0 < j)"

lemma align_down:
  fixes x :: u64
  assumes "k < 64"
  shows "unat (x AND NOT (2 ^ k - 1)) = 2 ^ k * (unat x div 2 ^ k)"
proof -
  have m: "2 ^ k - 1 = (mask k :: u64)" by (simp add: mask_eq_exp_minus_1)
  have "x AND NOT (mask k) = push_bit k (drop_bit k x)" by (rule bit_eqI) (auto simp: bit_simps)
  then have sum: "x AND NOT (2 ^ k - 1) = x - take_bit k x"
    unfolding m using bits_ident[of k x] by (simp add: eq_diff_eq)
  have t: "unat (take_bit k x) = unat x mod 2 ^ k" by (simp add: unsigned_take_bit_eq flip: take_bit_eq_mod)
  then have "unat (x - take_bit k x) = unat x - unat x mod 2 ^ k"
    by (subst unat_sub) (simp_all add: word_le_nat_alt)
  then show ?thesis unfolding sum by (simp add: minus_mod_eq_mult_div)
qed

text \<open>Rounding up to a multiple of \<open>a\<close> stays within the blocks of 16 that make up the allocation.\<close>

lemma round_up_blocks:
  fixes X a :: nat
  assumes "a dvd 16 \<or> 16 dvd a" "0 < a"
  shows "a * ((X + a - 1) div a) \<le> 16 * ((X + max a 16 - 1) div 16)"
proof (cases "a dvd 16")
  case True
  then have "a \<le> 16" by (rule dvd_imp_le) simp
  define t where "t = (16 * ((X + 15) div 16)) div a"
  have t: "16 * ((X + 15) div 16) = a * t" using True by (simp add: t_def)
  have "X \<le> 16 * ((X + 15) div 16)" by linarith
  then have "X + a - 1 < a * Suc t" using t assms(2) by simp
  then have "(X + a - 1) div a < Suc t" by (simp add: less_mult_imp_div_less mult.commute)
  then have "a * ((X + a - 1) div a) \<le> a * t" by (intro mult_le_mono2) simp
  moreover have "X + max a 16 - 1 = X + 15" using \<open>a \<le> 16\<close> by simp
  ultimately show ?thesis unfolding t[symmetric] by (simp only:)
next
  case False
  with assms have d: "16 dvd a" by blast
  then have "16 \<le> a" using assms(2) by (rule dvd_imp_le)
  obtain q where q: "a = 16 * q" using d by blast
  have "16 * (q * ((X + a - 1) div a)) \<le> X + a - 1"
    using times_div_less_eq_dividend[of a "X + a - 1"] q by (simp add: mult.assoc)
  then have "q * ((X + a - 1) div a) \<le> (X + a - 1) div 16" by (simp add: less_eq_div_iff_mult_less_eq mult.commute)
  then have "16 * (q * ((X + a - 1) div a)) \<le> 16 * ((X + a - 1) div 16)" by (rule mult_le_mono2)
  moreover have "16 * (q * ((X + a - 1) div a)) = a * ((X + a - 1) div a)" by (simp only: q mult.assoc)
  moreover have "max a 16 = a" using \<open>16 \<le> a\<close> by (simp add: max_def)
  ultimately show ?thesis by (simp only:)
qed

lemma al_address_fits:
  assumes A: "alloc_type A" and al: "16 dvd unat ptr"
    and no_wrap: "unat ptr + unat sz + unat (size_of A) + unat (align_of A) + 16 < 2 ^ 64"
  shows "unat (al_address A ptr sz) mod unat (align_of A) = 0"
    and "unat ptr + unat sz \<le> unat (al_address A ptr sz)"
    and "unat (al_address A ptr sz) + unat (size_of A) \<le> unat ptr + 16 * unat (count_stored A sz)"
proof -
  from A obtain k j where k: "align_of A = 2 ^ k" "k < 64" "unat (size_of A) = 2 ^ k * j"
    by (auto simp: alloc_type_def)
  define a where "a = (2 ^ k :: nat)"
  have "(2 ^ k :: nat) < 2 ^ 64" using k(2) by (rule power_strict_increasing) simp
  then have "unat (word_of_nat (2 ^ k) :: u64) = 2 ^ k"
    using k(2) by (simp only: unsigned_of_nat) (simp add: take_bit_nat_eq_self)
  then have ua: "unat (align_of A) = a" using k(1) by (simp add: a_def)
  have a: "0 < a" by (simp add: a_def)
  have so: "unat (size_of A) = a * j" using k(3) by (simp add: a_def)
  define X where "X = unat ptr + unat sz"
  have wrap: "X + a * j + a + 16 < 2 ^ 64" using no_wrap so ua by (simp add: X_def)
  have "unat (ptr + sz) = X" using wrap by (subst unat_plus_small) (simp_all add: X_def)
  then have "unat (ptr + sz + align_of A) = X + a" using wrap ua by (subst unat_plus_small) simp_all
  then have "unat (ptr + sz + align_of A - 1) = X + a - 1" using a
    by (subst unat_sub) (simp_all add: word_le_nat_alt)
  then have al_eq: "unat (al_address A ptr sz) = a * ((X + a - 1) div a)"
    unfolding al_address_def k(1) by (simp add: align_down[OF k(2)] a_def)
  then show "unat (al_address A ptr sz) mod unat (align_of A) = 0" by (simp add: ua)
  have "X + a - 1 < a * ((X + a - 1) div a) + a" using dividend_less_times_div[OF a, of "X + a - 1"] by simp
  then show "unat ptr + unat sz \<le> unat (al_address A ptr sz)" using a by (simp add: al_eq X_def)
  have max_u: "unat (Align A) = max a 16"
    by (simp add: Align_def sizeof_block_def ua[symmetric] max_def word_le_nat_alt)
  have "unat (sz + size_of A) = unat sz + a * j" using wrap so by (subst unat_plus_small) (simp_all add: X_def)
  then have "unat (sz + size_of A + Align A) = unat sz + a * j + max a 16"
    using wrap max_u by (subst unat_plus_small) (simp_all add: X_def)
  then have "unat (sz + size_of A + Align A - 1) = unat sz + a * j + max a 16 - 1"
    by (subst unat_sub) (simp_all add: word_le_nat_alt)
  then have cnt: "unat (count_stored A sz) = (unat sz + a * j + max a 16 - 1) div 16"
    by (simp add: count_stored_def sizeof_block_def unat_div)
  obtain p where p: "unat ptr = 16 * p" using al by blast
  have "a dvd 16 \<or> 16 dvd a"
  proof (cases "k \<le> 4")
    case True
    then have "(2 :: nat) ^ k dvd 2 ^ 4" by (rule le_imp_power_dvd)
    then show ?thesis by (simp add: a_def)
  next
    case False
    then have "(2 :: nat) ^ 4 dvd 2 ^ k" by (intro le_imp_power_dvd) simp
    then show ?thesis by (simp add: a_def)
  qed
  from round_up_blocks[OF this a, of "X + a * j"]
  have "a * ((X + a * j + a - 1) div a) \<le> 16 * ((X + a * j + max a 16 - 1) div 16)" .
  moreover have "X + a * j + a - 1 = (X + a - 1) + j * a" using a by (simp add: mult.commute)
  then have "(X + a * j + a - 1) div a = j + (X + a - 1) div a"
    using div_mult_self1[of a "X + a - 1" j] a by (simp only:)
  then have "a * ((X + a * j + a - 1) div a) = a * ((X + a - 1) div a) + a * j"
    by (simp only: distrib_left add.commute)
  moreover have "X + a * j + max a 16 - 1 = (unat sz + a * j + max a 16 - 1) + p * 16"
    using p by (simp add: X_def)
  then have "16 * ((X + a * j + max a 16 - 1) div 16) = unat ptr + 16 * ((unat sz + a * j + max a 16 - 1) div 16)"
    using div_mult_self1[of 16 "unat sz + a * j + max a 16 - 1" p] p by (simp only: distrib_left)
  ultimately show "unat (al_address A ptr sz) + unat (size_of A) \<le> unat ptr + 16 * unat (count_stored A sz)"
    by (simp add: al_eq so cnt)
qed

text \<open>C33: What \<^verbatim>\<open>operator new\<close> with an allocator puts behind a coroutine's frame lies inside the allocated
  blocks and apart: first the deallocation function, then the allocator, aligned for its type.
  \<^verbatim>\<open>operator delete\<close> of the same frame finds the function and the allocator again, and gives back the
  address and number of blocks that were allocated.\<close>

theorem promise_allocator_layout:
  assumes "alloc_type A" "16 dvd unat ptr"
    and "unat ptr + unat sz + unat (size_of A) + unat (align_of A) + 24 < 2 ^ 64"
    and "allocate (if stateless A then erased_count_stateless sz else erased_count_stored A sz) = Inr ptr"
    and "mem (ptr + sz) = Some (if stateless A then Dealloc_stateless else Dealloc_stored A)"
  shows "\<exists>fr d. PV_Allocate no_except_new allocate A sz = Inr (Some fr) \<and> PV_delete mem ptr sz = Inr d \<and>
    fr_ptr fr = ptr \<and> dc_ptr d = ptr \<and> dc_units d = fr_units fr \<and> dc_al_address d = fr_al_address fr \<and>
    fr_dealloc fr = map_option (Pair (ptr + sz)) (mem (ptr + sz)) \<and>
    unat (ptr + sz) + 8 \<le> unat ptr + 16 * unat (fr_units fr) \<and>
    (case fr_al_address fr of None \<Rightarrow> stateless A
     | Some al \<Rightarrow> unat al mod unat (align_of A) = 0 \<and> unat (ptr + sz) + 8 \<le> unat al \<and>
         unat al + unat (size_of A) \<le> unat ptr + 16 * unat (fr_units fr))"
proof -
  have ps: "unat (ptr + sz) = unat ptr + unat sz" using assms(3) by (subst unat_plus_small) simp_all
  have s8: "unat (sz + sizeof_DeallocFn) = unat sz + 8"
    using assms(3) by (subst unat_plus_small) (simp_all add: sizeof_DeallocFn_def)
  show ?thesis
  proof (cases "stateless A")
    case True
    have "unat (sz + sizeof_DeallocFn + sizeof_block) = unat sz + 8 + 16"
      using assms(3) s8 by (subst unat_plus_small) (simp_all add: sizeof_block_def)
    then have "unat (sz + sizeof_DeallocFn + sizeof_block - 1) = unat sz + 23"
      by (subst unat_sub) (simp_all add: word_le_nat_alt)
    then have "unat (erased_count_stateless sz) = (unat sz + 23) div 16"
      by (simp add: erased_count_stateless_def sizeof_block_def unat_div)
    moreover have "unat sz + 8 \<le> 16 * ((unat sz + 23) div 16)" by linarith
    ultimately show ?thesis using True assms(4,5) ps
      by (simp add: PV_Allocate_def PV_delete_def no_except_def call_DeallocFn_def erased_count_stateless_def)
  next
    case False
    have cnt: "erased_count_stored A sz = count_stored A (sz + sizeof_DeallocFn)"
      by (simp add: erased_count_stored_def count_stored_def add.assoc)
    have "unat ptr + unat (sz + sizeof_DeallocFn) + unat (size_of A) + unat (align_of A) + 16 < 2 ^ 64"
      using assms(3) s8 by simp
    note fits = al_address_fits[OF assms(1,2) this]
    have "unat (ptr + sz) + 8 \<le> unat ptr + 16 * unat (count_stored A (sz + sizeof_DeallocFn))"
      using fits(2,3) s8 ps by linarith
    with fits show ?thesis using False assms(4,5) ps s8
      by (simp add: PV_Allocate_def PV_delete_def no_except_def call_DeallocFn_def cnt Let_def count_stored_def)
  qed
qed

lemma promise_allocator_layout_witness:
  "\<exists>fr d. PV_Allocate True (\<lambda>n. Inr 4096) \<lparr>stateless = False, size_of = 64, align_of = 32\<rparr> 100 = Inr (Some fr) \<and>
    PV_delete (\<lambda>_. Some (Dealloc_stored \<lparr>stateless = False, size_of = 64, align_of = 32\<rparr>)) 4096 100 = Inr d \<and>
    dc_units d = fr_units fr \<and> dc_al_address d = fr_al_address fr"
proof -
  let ?A = "\<lparr>stateless = False, size_of = 64, align_of = 32\<rparr>"
  have "alloc_type ?A" unfolding alloc_type_def by (rule exI[of _ 5], rule exI[of _ 2]) simp
  from promise_allocator_layout [OF this, of 4096 100 "\<lambda>n. Inr 4096" "\<lambda>_. Some (Dealloc_stored ?A)" True]
  show ?thesis by auto
qed

end
