(* ===== verification/Map_Sharded.thy ===== *)
theory Map_Sharded
  imports Prelude
begin

text \<open>
  The sharded map of \<^verbatim>\<open>src/coro_apps/util/map_sharded.hpp\<close>. A shard is a lazily created map under a
  mutex, whose entries are an association list in iteration order with distinct keys; a member of a
  shard runs under its mutex, so it is one step. The hash is a parameter.
\<close>

section \<open>map_lock_t\<close>

type_synonym ('k, 'v) map_lock = "('k \<times> 'v) list option"

definition map_lock_new :: "('k, 'v) map_lock" where
  "map_lock_new = None"

definition visit_map :: "('k, 'v) map_lock \<Rightarrow> ('k \<times> 'v) list" where
  "visit_map m = (case m of None \<Rightarrow> [] | Some es \<Rightarrow> es)"

definition map_lock_find :: "'k \<Rightarrow> ('k, 'v) map_lock \<Rightarrow> 'v option" where
  "map_lock_find k m = (case m of None \<Rightarrow> None | Some es \<Rightarrow> map_of es k)"

text \<open>
  \<^verbatim>\<open>try_emplace\<close> keeps an entry that is there; \<open>op\<close> then sees the entry and whether it is new, and may
  change its value.
\<close>

definition update_entry :: "'k \<Rightarrow> ('v \<Rightarrow> 'v) \<Rightarrow> ('k \<times> 'v) list \<Rightarrow> ('k \<times> 'v) list" where
  "update_entry k f es = map (\<lambda>(k', v). (k', if k' = k then f v else v)) es"

definition map_lock_try_emplace_with_op ::
    "'k \<Rightarrow> ('v \<Rightarrow> bool \<Rightarrow> 'v) \<Rightarrow> 'v \<Rightarrow> ('k, 'v) map_lock \<Rightarrow> ('v \<times> bool) \<times> ('k, 'v) map_lock" where
  "map_lock_try_emplace_with_op k op v m =
     (let es = visit_map m; inserted = (map_of es k = None);
          es = (if inserted then es @ [(k, v)] else es);
          es = update_entry k (\<lambda>x. op x inserted) es
      in ((the (map_of es k), inserted), Some es))"

definition map_lock_erase :: "'k \<Rightarrow> ('k, 'v) map_lock \<Rightarrow> nat \<times> ('k, 'v) map_lock" where
  "map_lock_erase k m =
     (case m of None \<Rightarrow> (0, m)
      | Some es \<Rightarrow> (if map_of es k = None then 0 else 1, Some (filter (\<lambda>e. fst e \<noteq> k) es)))"

definition map_lock_erase_if :: "('k \<times> 'v \<Rightarrow> bool) \<Rightarrow> ('k, 'v) map_lock \<Rightarrow> nat \<times> ('k, 'v) map_lock" where
  "map_lock_erase_if op m =
     (case m of None \<Rightarrow> (0, m)
      | Some es \<Rightarrow> (length (filter op es), Some (filter (\<lambda>e. \<not> op e) es)))"

text \<open>
  \<^verbatim>\<open>for_each\<close> with an \<open>op\<close> that says whether to go on: the entries it was called on and the value
  returned. The loop is left before the \<^verbatim>\<open>return false\<close>.
\<close>

fun for_each_loop :: "('k \<times> 'v \<Rightarrow> bool) \<Rightarrow> ('k \<times> 'v) list \<Rightarrow> ('k \<times> 'v) list" where
  "for_each_loop op [] = []"
| "for_each_loop op (e # es) = (if \<not> op e then [e] else e # for_each_loop op es)"

definition map_lock_for_each :: "('k \<times> 'v \<Rightarrow> bool) \<Rightarrow> ('k, 'v) map_lock \<Rightarrow> ('k \<times> 'v) list \<times> bool" where
  "map_lock_for_each op m = (case m of None \<Rightarrow> ([], True) | Some es \<Rightarrow> (for_each_loop op es, True))"

section \<open>map_sharded_t\<close>

text \<open>\<^verbatim>\<open>size_\<close> is a signed counter apart from the shards.\<close>

record ('k, 'v) map_sharded =
  shards :: "('k, 'v) map_lock list"
  sh_size :: int

definition map_sharded_new :: "nat \<Rightarrow> ('k, 'v) map_sharded" where
  "map_sharded_new shard_num = \<lparr>shards = replicate shard_num map_lock_new, sh_size = 0\<rparr>"

definition get_sharded :: "u64 \<Rightarrow> ('k, 'v) map_sharded \<Rightarrow> nat" where
  "get_sharded h s = unat h mod length (shards s)"

definition map_sharded_try_emplace_with_op ::
    "('k \<Rightarrow> u64) \<Rightarrow> 'k \<Rightarrow> ('v \<Rightarrow> bool \<Rightarrow> 'v) \<Rightarrow> 'v \<Rightarrow> ('k, 'v) map_sharded \<Rightarrow> ('v \<times> bool) \<times> ('k, 'v) map_sharded" where
  "map_sharded_try_emplace_with_op hash k func v s =
     (let i = get_sharded (hash k) s;
          (ret, m) = map_lock_try_emplace_with_op k func v (shards s ! i);
          s = s\<lparr>shards := (shards s)[i := m]\<rparr>
      in (ret, if snd ret then s\<lparr>sh_size := sh_size s + 1\<rparr> else s))"

definition map_sharded_try_emplace ::
    "('k \<Rightarrow> u64) \<Rightarrow> 'k \<Rightarrow> 'v \<Rightarrow> ('k, 'v) map_sharded \<Rightarrow> ('v \<times> bool) \<times> ('k, 'v) map_sharded" where
  "map_sharded_try_emplace hash k v s = map_sharded_try_emplace_with_op hash k (\<lambda>x _. x) v s"

definition map_sharded_size :: "('k, 'v) map_sharded \<Rightarrow> int" where
  "map_sharded_size s = (let val = sh_size s in if val < 0 then 0 else val)"

definition map_sharded_find :: "('k \<Rightarrow> u64) \<Rightarrow> 'k \<Rightarrow> ('k, 'v) map_sharded \<Rightarrow> 'v option" where
  "map_sharded_find hash k s = map_lock_find k (shards s ! get_sharded (hash k) s)"

definition map_sharded_erase :: "('k \<Rightarrow> u64) \<Rightarrow> 'k \<Rightarrow> ('k, 'v) map_sharded \<Rightarrow> nat \<times> ('k, 'v) map_sharded" where
  "map_sharded_erase hash k s =
     (let i = get_sharded (hash k) s;
          (result, m) = map_lock_erase k (shards s ! i);
          s = s\<lparr>shards := (shards s)[i := m]\<rparr>
      in (result, if result \<noteq> 0 then s\<lparr>sh_size := sh_size s - int result\<rparr> else s))"

text \<open>The loops over the shards: the counts add up, and \<^verbatim>\<open>erase_one\<close> ends at the first shard that erased.\<close>

fun erase_if_shards :: "('k \<times> 'v \<Rightarrow> bool) \<Rightarrow> ('k, 'v) map_lock list \<Rightarrow> nat \<times> ('k, 'v) map_lock list" where
  "erase_if_shards op [] = (0, [])"
| "erase_if_shards op (m # ms) =
     (let (result, m) = map_lock_erase_if op m; (total, ms) = erase_if_shards op ms in (result + total, m # ms))"

definition map_sharded_erase_if :: "('k \<times> 'v \<Rightarrow> bool) \<Rightarrow> ('k, 'v) map_sharded \<Rightarrow> nat \<times> ('k, 'v) map_sharded" where
  "map_sharded_erase_if op s =
     (let (total, ms) = erase_if_shards op (shards s) in (total, \<lparr>shards = ms, sh_size = sh_size s - int total\<rparr>))"

fun erase_one_shards :: "('k \<times> 'v \<Rightarrow> bool) \<Rightarrow> ('k, 'v) map_lock list \<Rightarrow> nat \<times> ('k, 'v) map_lock list" where
  "erase_one_shards op [] = (0, [])"
| "erase_one_shards op (m # ms) =
     (let (result, m) = map_lock_erase_if op m
      in if result \<noteq> 0 then (result, m # ms)
         else (let (total, ms) = erase_one_shards op ms in (total, m # ms)))"

definition map_sharded_erase_one :: "('k \<times> 'v \<Rightarrow> bool) \<Rightarrow> ('k, 'v) map_sharded \<Rightarrow> nat \<times> ('k, 'v) map_sharded" where
  "map_sharded_erase_one op s =
     (let (total, ms) = erase_one_shards op (shards s) in (total, \<lparr>shards = ms, sh_size = sh_size s - int total\<rparr>))"

fun for_each_shards :: "('k \<times> 'v \<Rightarrow> bool) \<Rightarrow> ('k, 'v) map_lock list \<Rightarrow> ('k \<times> 'v) list" where
  "for_each_shards op [] = []"
| "for_each_shards op (m # ms) =
     (let (visited, go) = map_lock_for_each op m
      in if \<not> go then visited else visited @ for_each_shards op ms)"

definition map_sharded_for_each :: "('k \<times> 'v \<Rightarrow> bool) \<Rightarrow> ('k, 'v) map_sharded \<Rightarrow> ('k \<times> 'v) list" where
  "map_sharded_for_each op s = for_each_shards op (shards s)"

text \<open>\<^verbatim>\<open>copy\<close> calls \<^verbatim>\<open>for_each\<close> of a shard with an operation that returns nothing, which visits every entry.\<close>

definition map_sharded_copy :: "('v \<Rightarrow> bool) \<Rightarrow> ('k, 'v) map_sharded \<Rightarrow> 'v list" where
  "map_sharded_copy op s =
     concat (map (\<lambda>m. filter op (map snd (fst (map_lock_for_each (\<lambda>_. True) m)))) (shards s))"

section \<open>The contract of a map\<close>

text \<open>
  What a caller of either map relies on: an abstraction to a partial function that lookups read, and
  the effect of each operation on it and on the number of entries.
\<close>

locale map_contract =
  fixes find1 :: "'k \<Rightarrow> 's \<Rightarrow> 'v option"
    and emplace :: "'k \<Rightarrow> ('v \<Rightarrow> bool \<Rightarrow> 'v) \<Rightarrow> 'v \<Rightarrow> 's \<Rightarrow> ('v \<times> bool) \<times> 's"
    and erase :: "'k \<Rightarrow> 's \<Rightarrow> nat \<times> 's"
    and eraseif :: "('k \<times> 'v \<Rightarrow> bool) \<Rightarrow> 's \<Rightarrow> nat \<times> 's"
    and inv :: "'s \<Rightarrow> bool"
  assumes emplace_inv: "inv s \<Longrightarrow> inv (snd (emplace k f v s))"
    and erase_inv: "inv s \<Longrightarrow> inv (snd (erase k s))"
    and eraseif_inv: "inv s \<Longrightarrow> inv (snd (eraseif p s))"
    and emplace_find: "inv s \<Longrightarrow> find1 k' (snd (emplace k f v s)) =
      (if k' = k then Some (case find1 k s of None \<Rightarrow> f v True | Some x \<Rightarrow> f x False) else find1 k' s)"
    and emplace_ret: "inv s \<Longrightarrow> fst (emplace k f v s) =
      (the (find1 k (snd (emplace k f v s))), find1 k s = None)"
    and erase_find: "inv s \<Longrightarrow> find1 k' (snd (erase k s)) = (if k' = k then None else find1 k' s)"
    and erase_ret: "inv s \<Longrightarrow> fst (erase k s) = (if find1 k s = None then 0 else 1)"
    and eraseif_find: "inv s \<Longrightarrow> find1 k (snd (eraseif p s)) =
      (case find1 k s of None \<Rightarrow> None | Some x \<Rightarrow> if p (k, x) then None else Some x)"
    and finite_dom: "inv s \<Longrightarrow> finite {k. find1 k s \<noteq> None}"
    and eraseif_ret: "inv s \<Longrightarrow> fst (eraseif p s) = card {k. \<exists>x. find1 k s = Some x \<and> p (k, x)}"

text \<open>Calls of a map, and what they return.\<close>

datatype ('k, 'v) map_op =
    Op_find 'k
  | Op_emplace 'k "'v \<Rightarrow> bool \<Rightarrow> 'v" 'v
  | Op_erase 'k
  | Op_erase_if "'k \<times> 'v \<Rightarrow> bool"

datatype 'v map_ret = Ret_find "'v option" | Ret_emplace 'v bool | Ret_count nat

text \<open>The reference: the calls on a partial function.\<close>

fun reference_op :: "('k, 'v) map_op \<Rightarrow> ('k \<rightharpoonup> 'v) \<Rightarrow> 'v map_ret \<times> ('k \<rightharpoonup> 'v)" where
  "reference_op (Op_find k) m = (Ret_find (m k), m)"
| "reference_op (Op_emplace k f v) m =
     (let x = (case m k of None \<Rightarrow> f v True | Some y \<Rightarrow> f y False) in (Ret_emplace x (m k = None), m(k \<mapsto> x)))"
| "reference_op (Op_erase k) m = (Ret_count (if m k = None then 0 else 1), m(k := None))"
| "reference_op (Op_erase_if p) m =
     (Ret_count (card {k. \<exists>x. m k = Some x \<and> p (k, x)}),
      \<lambda>k. case m k of None \<Rightarrow> None | Some x \<Rightarrow> if p (k, x) then None else Some x)"

fun map_step ::
    "('k \<Rightarrow> 's \<Rightarrow> 'v option) \<Rightarrow> ('k \<Rightarrow> ('v \<Rightarrow> bool \<Rightarrow> 'v) \<Rightarrow> 'v \<Rightarrow> 's \<Rightarrow> ('v \<times> bool) \<times> 's) \<Rightarrow> ('k \<Rightarrow> 's \<Rightarrow> nat \<times> 's) \<Rightarrow>
     (('k \<times> 'v \<Rightarrow> bool) \<Rightarrow> 's \<Rightarrow> nat \<times> 's) \<Rightarrow> ('k, 'v) map_op \<Rightarrow> 's \<Rightarrow> 'v map_ret \<times> 's" where
  "map_step fd em er ei (Op_find k) s = (Ret_find (fd k s), s)"
| "map_step fd em er ei (Op_emplace k f v) s = (case em k f v s of ((x, b), s) \<Rightarrow> (Ret_emplace x b, s))"
| "map_step fd em er ei (Op_erase k) s = (case er k s of (n, s) \<Rightarrow> (Ret_count n, s))"
| "map_step fd em er ei (Op_erase_if p) s = (case ei p s of (n, s) \<Rightarrow> (Ret_count n, s))"

definition sharded_op :: "('k \<Rightarrow> u64) \<Rightarrow> ('k, 'v) map_op \<Rightarrow> ('k, 'v) map_sharded \<Rightarrow> 'v map_ret \<times> ('k, 'v) map_sharded" where
  "sharded_op hash = map_step (map_sharded_find hash) (map_sharded_try_emplace_with_op hash)
     (map_sharded_erase hash) map_sharded_erase_if"

fun run_ops :: "('o \<Rightarrow> 's \<Rightarrow> 'r \<times> 's) \<Rightarrow> 'o list \<Rightarrow> 's \<Rightarrow> 'r list \<times> 's" where
  "run_ops step [] s = ([], s)"
| "run_ops step (c # cs) s = (let (r, s) = step c s; (rs, s) = run_ops step cs s in (r # rs, s))"

end
