(* ===== verification/Map_Sharded_Props.thy ===== *)
theory Map_Sharded_Props
  imports Map_Sharded
begin

text \<open>
  The sharded map and a single shard satisfy the same contract, so any sequence of calls returns what
  it returns on one partial function: sharding cannot be seen. \<^verbatim>\<open>for_each\<close> can, since it never stops.
\<close>

section \<open>Association lists\<close>







section \<open>Clients of the contract\<close>


section \<open>One shard\<close>



lemma visit_erase_if [simp]: "visit_map (snd (map_lock_erase_if p m)) = filter (\<lambda>e. \<not> p e) (visit_map m)"
  by (simp add: map_lock_erase_if_def visit_map_def split: option.splits)

lemma fst_erase_if [simp]: "fst (map_lock_erase_if p m) = length (filter p (visit_map m))"
  by (simp add: map_lock_erase_if_def visit_map_def split: option.splits)

lemma visit_erase [simp]: "visit_map (snd (map_lock_erase k m)) = filter (\<lambda>e. fst e \<noteq> k) (visit_map m)"
  by (simp add: map_lock_erase_def visit_map_def split: option.splits)




section \<open>All shards\<close>

definition all_entries :: "('k, 'v) map_sharded \<Rightarrow> ('k \<times> 'v) list" where
  "all_entries s = concat (map visit_map (shards s))"












section \<open>What a user of the sharded map sees\<close>






text \<open>An operation of \<^verbatim>\<open>for_each\<close> that asks to stop only stops its own shard: the loop over the shards
  goes on, and the operation is called in every shard that has an entry.\<close>

theorem for_each_does_not_stop:
  "map_sharded_for_each (\<lambda>_. False) s = concat (map (\<lambda>m. take 1 (visit_map m)) (shards s)) \<and>
   map_sharded_for_each (\<lambda>_. True) s = all_entries s"
proof -
  have stop: "for_each_loop (\<lambda>_. False) es = take 1 es" for es :: "('a \<times> 'b) list" by (cases es) auto
  have go: "for_each_loop (\<lambda>_. True) es = es" for es :: "('a \<times> 'b) list" by (induction es) auto
  have "for_each_shards (\<lambda>_. False) ms = concat (map (\<lambda>m. take 1 (visit_map m)) ms)"
    "for_each_shards (\<lambda>_. True) ms = concat (map visit_map ms)" for ms :: "('a, 'b) map_lock list"
    by (induction ms) (auto simp: map_lock_for_each_def stop go visit_map_def split: option.splits)
  then show ?thesis by (simp add: map_sharded_for_each_def all_entries_def)
qed

end
