(* ===== verification/Load_Balancer.thy ===== *)
theory Load_Balancer
  imports Prelude
begin

text \<open>
  The client load balancer, \<^verbatim>\<open>src/coro_apps/coro_io/load_blancer.hpp\<close>: the three ways to choose a host,
  the choice of a live host for a request, and the checks at creation. A client pool is its index; whether
  it is alive, and the drawing of a random index, are parameters.
\<close>

datatype load_blance_algorithm = RR | WRR | Random_host

section \<open>Round robin\<close>

definition RR_pick :: "nat \<Rightarrow> u32 \<Rightarrow> nat \<times> u32" where
  "RR_pick pools index = (unat index mod pools, index + 1)"

section \<open>Weighted round robin\<close>

record WRRLoadBlancer =
  weights :: "int list"
  max_gcd :: int
  max_weight :: int
  wrr_current :: int
  weight_current :: int

fun gcd_loop :: "int \<Rightarrow> int list \<Rightarrow> int" where
  "gcd_loop res [] = res"
| "gcd_loop res (w # ws) = (let cur_max = max res w; cur_min = min res w in gcd_loop (gcd cur_max cur_min) ws)"

definition get_max_weight_gcd :: "int list \<Rightarrow> int" where
  "get_max_weight_gcd ws = gcd_loop (ws ! 0) ws"

fun max_element :: "int \<Rightarrow> int list \<Rightarrow> int" where
  "max_element largest [] = largest"
| "max_element largest (w # ws) = max_element (if largest < w then w else largest) ws"

definition get_max_weight :: "int list \<Rightarrow> int" where
  "get_max_weight ws = max_element (ws ! 0) ws"

definition WRR_new :: "int list \<Rightarrow> WRRLoadBlancer outcome" where
  "WRR_new ws =
     (if ws = [] then Inl Undefined_behaviour
      else Inr \<lparr>weights = ws, max_gcd = get_max_weight_gcd ws, max_weight = get_max_weight ws,
                wrr_current = -1, weight_current = 0\<rparr>)"

text \<open>One turn of the loop of \<^verbatim>\<open>select_host_with_weight_round_robin\<close>; \<open>wrr_current + 1\<close> is never negative.\<close>

datatype wrr_turn = Turn_none WRRLoadBlancer | Turn_select WRRLoadBlancer | Turn_again WRRLoadBlancer

definition wrr_check :: "WRRLoadBlancer \<Rightarrow> wrr_turn" where
  "wrr_check lb =
     (if weights lb ! nat (wrr_current lb) \<ge> weight_current lb then Turn_select lb else Turn_again lb)"

definition wrr_loop_turn :: "WRRLoadBlancer \<Rightarrow> wrr_turn" where
  "wrr_loop_turn lb =
     (let lb = lb\<lparr>wrr_current := (wrr_current lb + 1) mod int (length (weights lb))\<rparr>
      in if wrr_current lb = 0
         then (let lb = lb\<lparr>weight_current := weight_current lb - max_gcd lb\<rparr>
               in if weight_current lb \<le> 0
                  then (let lb = lb\<lparr>weight_current := max_weight lb\<rparr>
                        in if weight_current lb = 0 then Turn_none lb else wrr_check lb)
                  else wrr_check lb)
         else wrr_check lb)"

partial_function (option) select_host_with_weight_round_robin :: "WRRLoadBlancer \<Rightarrow> (int \<times> WRRLoadBlancer) option" where
  "select_host_with_weight_round_robin lb =
     (case wrr_loop_turn lb of
        Turn_none lb \<Rightarrow> Some (-1, lb)
      | Turn_select lb \<Rightarrow> Some (wrr_current lb, lb)
      | Turn_again lb \<Rightarrow> select_host_with_weight_round_robin lb)"

definition WRR_pick :: "nat \<Rightarrow> WRRLoadBlancer \<Rightarrow> (nat \<times> WRRLoadBlancer) option" where
  "WRR_pick pools lb =
     (case select_host_with_weight_round_robin lb of
        None \<Rightarrow> None
      | Some (selected, lb) \<Rightarrow>
          (let selected = (if selected = -1 then 0 else selected)
           in Some (nat selected mod pools, lb\<lparr>wrr_current := selected\<rparr>)))"

text \<open>A number of picks in a row, by any worker.\<close>

fun picks :: "('w \<Rightarrow> (nat \<times> 'w) option) \<Rightarrow> nat \<Rightarrow> 'w \<Rightarrow> nat list option" where
  "picks worker 0 lb = Some []"
| "picks worker (Suc m) lb =
     (case worker lb of None \<Rightarrow> None | Some (i, lb) \<Rightarrow> map_option ((#) i) (picks worker m lb))"

section \<open>The balancer\<close>

datatype lb_worker = RRLoadBlancer u32 | WRRWorker WRRLoadBlancer | RandomLoadBlancer

definition worker_pick :: "(nat \<Rightarrow> nat) \<Rightarrow> nat \<Rightarrow> lb_worker \<Rightarrow> (nat \<times> lb_worker) option" where
  "worker_pick rnd pools w =
     (case w of
        RRLoadBlancer i \<Rightarrow> (case RR_pick pools i of (h, i) \<Rightarrow> Some (h, RRLoadBlancer i))
      | WRRWorker lb \<Rightarrow> map_option (\<lambda>(h, lb). (h, WRRWorker lb)) (WRR_pick pools lb)
      | RandomLoadBlancer \<Rightarrow> Some (rnd (pools - 1), RandomLoadBlancer))"

text \<open>
  The loop of \<^verbatim>\<open>send_request\<close>, with the retries left instead of \<open>cnt\<close>, which starts at 0 and may reach
  twice the number of hosts: the host chosen, and the worker.
\<close>

fun choose_host :: "(nat \<Rightarrow> bool) \<Rightarrow> ('w \<Rightarrow> (nat \<times> 'w) option) \<Rightarrow> nat \<Rightarrow> 'w \<Rightarrow> (nat \<times> 'w) option" where
  "choose_host is_alive worker 0 w = worker w"
| "choose_host is_alive worker (Suc retries) w =
     (case worker w of
        None \<Rightarrow> None
      | Some (h, w) \<Rightarrow> if is_alive h then Some (h, w) else choose_host is_alive worker retries w)"

definition send_request_host ::
    "(nat \<Rightarrow> bool) \<Rightarrow> (nat \<Rightarrow> nat) \<Rightarrow> nat \<Rightarrow> lb_worker \<Rightarrow> (nat \<times> lb_worker) outcome option" where
  "send_request_host is_alive rnd pools w =
     (if pools > 1 then map_option Inr (choose_host is_alive (worker_pick rnd pools) (pools * 2) w)
      else if pools = 0 then Some (Inl Undefined_behaviour) else Some (Inr (0, w)))"

definition load_blancer_init :: "load_blance_algorithm \<Rightarrow> nat \<Rightarrow> int list \<Rightarrow> lb_worker outcome" where
  "load_blancer_init lba hosts ws =
     (case lba of
        RR \<Rightarrow> Inr (RRLoadBlancer 0)
      | WRR \<Rightarrow>
          (if hosts = 0 \<or> ws = [] then Inl (Invalid_argument ''host/weight list is empty!'')
           else if hosts \<noteq> length ws then Inl (Invalid_argument ''hosts count is not equal with weights!'')
           else bind_outcome (WRR_new ws) (\<lambda>lb. Inr (WRRWorker lb)))
      | Random_host \<Rightarrow> Inr RandomLoadBlancer)"

end
