(* ===== verification/Load_Balancer_Props.thy ===== *)
theory Load_Balancer_Props
  imports Load_Balancer
begin

text \<open>
  Properties of the load balancer: weighted round robin serves every host in proportion to its weight,
  and round robin finds a live host.
\<close>

section \<open>The parameters of weighted round robin\<close>

lemma gcd_loop_Gcd: "gcd_loop r ws = (if ws = [] then r else gcd r (Gcd (set ws)))"
proof (induction ws arbitrary: r)
  case (Cons w ws)
  have "gcd (max r w) (min r w) = gcd r w" by (cases "r \<le> w") (simp_all add: gcd.commute max_def min_def)
  with Cons show ?case by (simp add: gcd.assoc Let_def)
qed simp

lemma get_max_weight_gcd_Gcd: "ws \<noteq> [] \<Longrightarrow> get_max_weight_gcd ws = Gcd (set ws)"
  by (cases ws) (simp_all add: get_max_weight_gcd_def gcd_loop_Gcd)

lemma max_element_Max: "max_element r ws = Max (insert r (set ws))"
proof (induction ws arbitrary: r)
  case (Cons w ws)
  have "(if r < w then w else r) = max r w" by simp
  then show ?case using Cons by (simp only: max_element.simps) (cases "ws = []"; simp add: max.assoc max.left_commute)
qed simp

lemma get_max_weight_Max: "ws \<noteq> [] \<Longrightarrow> get_max_weight ws = Max (set ws)"
  by (cases ws) (simp_all add: get_max_weight_def max_element_Max)

section \<open>Rounds\<close>

lemma map_option_append: "map_option (append A) (map_option (append B) x) = map_option (append (A @ B)) x"
  by (cases x) simp_all

abbreviation lb_at :: "int list \<Rightarrow> int \<Rightarrow> int \<Rightarrow> WRRLoadBlancer" where
  "lb_at ws c cw \<equiv> \<lparr>weights = ws, max_gcd = Gcd (set ws), max_weight = Max (set ws), wrr_current = c, weight_current = cw\<rparr>"

lemma picks_select:
  assumes "wrr_loop_turn lb = Turn_select lb'" "0 \<le> wrr_current lb'" "nat (wrr_current lb') < n"
  shows "picks (WRR_pick n) (Suc m) lb = map_option ((#) (nat (wrr_current lb'))) (picks (WRR_pick n) m lb')"
proof -
  have "lb'\<lparr>wrr_current := wrr_current lb'\<rparr> = lb'" by simp
  then show ?thesis
    using assms by (simp add: WRR_pick_def select_host_with_weight_round_robin.simps[of lb] Let_def)
qed

lemma picks_again:
  assumes "wrr_loop_turn lb = Turn_again lb'"
  shows "picks (WRR_pick n) m lb = picks (WRR_pick n) m lb'"
  using assms by (cases m) (simp_all add: WRR_pick_def select_host_with_weight_round_robin.simps[of lb])

definition hosts_above :: "int list \<Rightarrow> int \<Rightarrow> nat \<Rightarrow> nat list" where
  "hosts_above ws cw j = filter (\<lambda>i. cw \<le> ws ! i) [j..<length ws]"

text \<open>A check at index \<open>j\<close> and then the rest of the round.\<close>

lemma picks_check:
  assumes "wrr_loop_turn lb = wrr_check (lb_at ws (int j) cw)" "j < length ws" "n = length ws"
    and "\<And>m. picks (WRR_pick n) (length (hosts_above ws cw (Suc j)) + m) (lb_at ws (int j) cw) =
      map_option (append (hosts_above ws cw (Suc j))) (picks (WRR_pick n) m (lb_at ws (int n - 1) cw))"
  shows "picks (WRR_pick n) (length (hosts_above ws cw j) + m) lb =
    map_option (append (hosts_above ws cw j)) (picks (WRR_pick n) m (lb_at ws (int n - 1) cw))"
proof (cases "cw \<le> ws ! j")
  case True
  then have a: "hosts_above ws cw j = j # hosts_above ws cw (Suc j)" using assms(2) by (simp add: hosts_above_def upt_conv_Cons)
  have "wrr_loop_turn lb = Turn_select (lb_at ws (int j) cw)" using True assms(1) by (simp add: wrr_check_def)
  from picks_select[OF this, of n "length (hosts_above ws cw (Suc j)) + m"]
  have "picks (WRR_pick n) (Suc (length (hosts_above ws cw (Suc j)) + m)) lb =
      map_option ((#) j) (picks (WRR_pick n) (length (hosts_above ws cw (Suc j)) + m) (lb_at ws (int j) cw))"
    using assms(2,3) by simp
  also have "\<dots> = map_option (append (hosts_above ws cw j)) (picks (WRR_pick n) m (lb_at ws (int n - 1) cw))"
    unfolding assms(4) option.map_comp by (rule arg_cong2[where f = map_option]) (simp_all add: a fun_eq_iff)
  finally show ?thesis by (simp only: a list.size add_Suc_right add_Suc add_0_right)
next
  case False
  then have a: "hosts_above ws cw j = hosts_above ws cw (Suc j)" using assms(2) by (simp add: hosts_above_def upt_conv_Cons)
  have "wrr_loop_turn lb = Turn_again (lb_at ws (int j) cw)" using False assms(1) by (simp add: wrr_check_def)
  from picks_again[OF this] show ?thesis by (simp add: a assms(4))
qed

lemma picks_rest_of_round:
  assumes "0 < j" "j \<le> length ws" "n = length ws"
  shows "picks (WRR_pick n) (length (hosts_above ws cw j) + m) (lb_at ws (int j - 1) cw) =
    map_option (append (hosts_above ws cw j)) (picks (WRR_pick n) m (lb_at ws (int n - 1) cw))"
  using assms(1,2)
proof (induction "length ws - j" arbitrary: j m)
  case 0
  then have "j = n" using assms(3) by simp
  then show ?case using assms(3) by (simp add: hosts_above_def option.map_ident)
next
  case (Suc d)
  then have j: "j < length ws" by simp
  then have "(int j - 1 + 1) mod int (length ws) = int j" by simp
  then have "wrr_loop_turn (lb_at ws (int j - 1) cw) = wrr_check (lb_at ws (int j) cw)"
    using Suc.prems by (simp add: wrr_loop_turn_def Let_def)
  moreover have "picks (WRR_pick n) (length (hosts_above ws cw (Suc j)) + k) (lb_at ws (int j) cw) =
      map_option (append (hosts_above ws cw (Suc j))) (picks (WRR_pick n) k (lb_at ws (int n - 1) cw))" for k
    using Suc.hyps(1)[of "Suc j" k] Suc.hyps(2) j by simp
  ultimately show ?case by (rule picks_check[OF _ j assms(3)])
qed

lemma picks_round:
  assumes "c = -1 \<or> c = int (length ws) - 1" "ws \<noteq> []" "n = length ws"
    and "cw' = (if cw - Gcd (set ws) \<le> 0 then Max (set ws) else cw - Gcd (set ws))" "cw' \<noteq> 0"
  shows "picks (WRR_pick n) (length (hosts_above ws cw' 0) + m) (lb_at ws c cw) =
    map_option (append (hosts_above ws cw' 0)) (picks (WRR_pick n) m (lb_at ws (int n - 1) cw'))"
proof (rule picks_check[where j = 0])
  have "(c + 1) mod int (length ws) = 0" using assms(1) by auto
  then show "wrr_loop_turn (lb_at ws c cw) = wrr_check (lb_at ws (int 0) cw')"
    using assms(4,5) by (cases "cw - Gcd (set ws) \<le> 0") (simp_all add: wrr_loop_turn_def Let_def)
  show "0 < length ws" "n = length ws" using assms(2,3) by simp_all
  show "picks (WRR_pick n) (length (hosts_above ws cw' (Suc 0)) + m) (lb_at ws (int 0) cw') =
      map_option (append (hosts_above ws cw' (Suc 0))) (picks (WRR_pick n) m (lb_at ws (int n - 1) cw'))" for m
    using picks_rest_of_round[of "Suc 0" ws n cw' m] assms(2,3) by (cases ws) auto
qed

section \<open>Cycles\<close>

text \<open>One cycle: a round for every multiple of the common divisor, from the greatest weight down.\<close>

definition wrr_cycle :: "int list \<Rightarrow> nat list" where
  "wrr_cycle ws =
     concat (map (\<lambda>r. hosts_above ws (Max (set ws) - int r * Gcd (set ws)) 0) [0..<nat (Max (set ws) div Gcd (set ws))])"

text \<open>The weights a balancer is meant for: none negative, and not all zero.\<close>

definition wrr_weights :: "int list \<Rightarrow> bool" where
  "wrr_weights ws \<longleftrightarrow> (\<forall>w\<in>set ws. 0 \<le> w) \<and> (\<exists>w\<in>set ws. 0 < w)"

lemma wrr_params:
  assumes "wrr_weights ws"
  shows "0 < Gcd (set ws)" "ws \<noteq> []" "\<And>w. w \<in> set ws \<Longrightarrow> w \<le> Max (set ws)" "\<And>w. w \<in> set ws \<Longrightarrow> Gcd (set ws) dvd w"
    "Max (set ws) = int (nat (Max (set ws) div Gcd (set ws))) * Gcd (set ws)" "0 < nat (Max (set ws) div Gcd (set ws))"
proof -
  from assms obtain w where w: "w \<in> set ws" "0 < w" by (auto simp: wrr_weights_def)
  show le: "\<And>w. w \<in> set ws \<Longrightarrow> w \<le> Max (set ws)" by (rule Max_ge) simp_all
  show dvd: "\<And>w. w \<in> set ws \<Longrightarrow> Gcd (set ws) dvd w" by (rule Gcd_dvd)
  have "Gcd (set ws) \<noteq> 0" using w by (auto simp: Gcd_0_iff)
  then show g: "0 < Gcd (set ws)" using Gcd_int_greater_eq_0[of "set ws"] by linarith
  show ne: "ws \<noteq> []" using w(1) by auto
  have M: "Gcd (set ws) dvd Max (set ws)" using ne by (intro dvd) simp
  moreover have pos: "0 < Max (set ws)" using le[OF w(1)] w(2) by linarith
  ultimately have q: "0 < Max (set ws) div Gcd (set ws)" using g by (simp add: pos_imp_zdiv_pos_iff zdvd_imp_le)
  then show "0 < nat (Max (set ws) div Gcd (set ws))" by simp
  show "Max (set ws) = int (nat (Max (set ws) div Gcd (set ws))) * Gcd (set ws)" using M q by simp
qed

lemma picks_rounds:
  assumes "wrr_weights ws" "n = length ws" "M = Max (set ws)" "g = Gcd (set ws)" "R = nat (M div g)"
    and "c = -1 \<or> c = int n - 1" "if r = 0 then cw \<le> g else cw = M - (int r - 1) * g" "r \<le> R"
  shows "picks (WRR_pick n) (length (concat (map (\<lambda>k. hosts_above ws (M - int k * g) 0) [r..<R])) + m) (lb_at ws c cw) =
    map_option (append (concat (map (\<lambda>k. hosts_above ws (M - int k * g) 0) [r..<R])))
      (picks (WRR_pick n) m (if r = R then lb_at ws c cw else lb_at ws (int n - 1) g))"
  using assms(6-8)
proof (induction "R - r" arbitrary: r c cw m)
  case 0
  then show ?case by (simp add: option.map_ident)
next
  case (Suc d)
  then have rR: "r < R" by simp
  have M: "M = int R * g" "0 < g" and ne: "ws \<noteq> []"
    using wrr_params[OF assms(1)] by (simp_all add: assms(3-5))
  let ?A = "hosts_above ws (M - int r * g) 0" and ?B = "concat (map (\<lambda>k. hosts_above ws (M - int k * g) 0) [Suc r..<R])"
  have split: "[r..<R] = r # [Suc r..<R]" using rR by (rule upt_conv_Cons)
  have "(int R - int r) * g > 0" using rR M(2) by simp
  then have pos: "M - int r * g > 0" using M(1) by (simp add: left_diff_distrib)
  have cw': "M - int r * g = (if cw - Gcd (set ws) \<le> 0 then Max (set ws) else cw - Gcd (set ws))"
    using Suc.prems(2) pos by (cases "r = 0") (auto simp: assms(3,4) algebra_simps)
  have "picks (WRR_pick n) (length ?A + (length ?B + m)) (lb_at ws c cw) =
      map_option (append ?A) (picks (WRR_pick n) (length ?B + m) (lb_at ws (int n - 1) (M - int r * g)))"
    using Suc.prems(1) by (intro picks_round[OF _ ne assms(2) cw']) (use pos assms(2) in auto)
  also have "picks (WRR_pick n) (length ?B + m) (lb_at ws (int n - 1) (M - int r * g)) =
      map_option (append ?B) (picks (WRR_pick n) m
        (if Suc r = R then lb_at ws (int n - 1) (M - int r * g) else lb_at ws (int n - 1) g))"
    using Suc.hyps(2) rR by (intro Suc.hyps(1)) auto
  also have "(if Suc r = R then lb_at ws (int n - 1) (M - int r * g) else lb_at ws (int n - 1) g) = lb_at ws (int n - 1) g"
    using M(1) by (auto simp: algebra_simps)
  finally show ?case using rR
    by (simp add: split map_option_append add.assoc del: upt_Suc)
qed

lemma picks_cycle:
  assumes "wrr_weights ws" "n = length ws" "c = -1 \<or> c = int n - 1" "cw \<le> Gcd (set ws)"
  shows "picks (WRR_pick n) (length (wrr_cycle ws) + m) (lb_at ws c cw) =
    map_option (append (wrr_cycle ws)) (picks (WRR_pick n) m (lb_at ws (int n - 1) (Gcd (set ws))))"
  using picks_rounds[OF assms(1,2) refl refl refl assms(3), of 0 cw m] wrr_params(6)[OF assms(1)] assms(4)
  by (simp add: wrr_cycle_def)

lemma picks_cycles:
  assumes "wrr_weights ws" "n = length ws" "c = -1 \<or> c = int n - 1" "cw \<le> Gcd (set ws)"
  shows "picks (WRR_pick n) (k * length (wrr_cycle ws)) (lb_at ws c cw) = Some (concat (replicate k (wrr_cycle ws)))"
  using assms(3,4)
proof (induction k arbitrary: c cw)
  case (Suc k)
  have "picks (WRR_pick n) (k * length (wrr_cycle ws)) (lb_at ws (int n - 1) (Gcd (set ws))) =
      Some (concat (replicate k (wrr_cycle ws)))" by (rule Suc.IH) simp_all
  then show ?case using picks_cycle[OF assms(1,2) Suc.prems, of "k * length (wrr_cycle ws)"] by simp
qed simp

section \<open>Shares\<close>

lemma count_list_distinct: "distinct xs \<Longrightarrow> count_list xs x = (if x \<in> set xs then 1 else 0)"
  by (induction xs) auto

lemma count_list_concat: "count_list (concat xss) x = sum_list (map (\<lambda>xs. count_list xs x) xss)"
  by (induction xss) auto

lemma sum_list_ones: "sum_list (map (\<lambda>k. if P k then 1 else 0) xs) = length (filter P xs)"
  by (induction xs) auto

lemma wrr_cycle_share:
  assumes "wrr_weights ws" "i < length ws"
  shows "int (count_list (wrr_cycle ws) i) * Gcd (set ws) = ws ! i"
proof -
  define M g R where d: "M = Max (set ws)" "g = Gcd (set ws)" "R = nat (M div g)"
  have M: "M = int R * g" "0 < g" using wrr_params[OF assms(1)] by (simp_all add: d)
  have wi: "ws ! i \<in> set ws" using assms(2) by simp
  from wrr_params(4)[OF assms(1) wi] obtain a where a: "ws ! i = g * a" by (auto simp: d dvd_def)
  have "0 \<le> ws ! i" using assms(1) wi by (auto simp: wrr_weights_def)
  then have "0 \<le> a" using a M(2) by (simp add: zero_le_mult_iff)
  moreover have "g * a \<le> g * int R" using wrr_params(3)[OF assms(1) wi] a M(1) by (simp add: d mult.commute)
  then have "a \<le> int R" using M(2) by simp
  ultimately obtain b where b: "a = int b" "b \<le> R" by (metis nonneg_int_cases of_nat_le_iff)
  have "count_list (hosts_above ws (M - int r * g) 0) i = (if R - b \<le> r then 1 else 0)" if "r < R" for r
  proof -
    have "M - int r * g \<le> ws ! i \<longleftrightarrow> (int R - int r) * g \<le> int b * g" using a b M(1) by (simp add: algebra_simps)
    also have "\<dots> \<longleftrightarrow> int R - int r \<le> int b" using M(2) by simp
    finally show ?thesis using assms(2) by (auto simp: hosts_above_def count_list_distinct)
  qed
  then have "count_list (wrr_cycle ws) i = sum_list (map (\<lambda>r. if R - b \<le> r then 1 else 0) [0..<R])"
    unfolding wrr_cycle_def count_list_concat map_map by (intro arg_cong[where f = sum_list] map_cong) (simp_all add: d)
  also have "\<dots> = length (filter (\<lambda>r. R - b \<le> r) [0..<R])" by (rule sum_list_ones)
  also have "filter (\<lambda>r. R - b \<le> r) [0..<R] = [R - b..<R]"
  proof -
    have "[0..<R] = [0..<R - b] @ [R - b..<R]" using upt_add_eq_append[of 0 "R - b" b] b(2) by simp
    then show ?thesis by (simp add: filter_id_conv)
  qed
  finally have "count_list (wrr_cycle ws) i = b" using b(2) by simp
  then show ?thesis using a b by (simp add: d)
qed

lemma wrr_cycle_length:
  assumes "wrr_weights ws"
  shows "int (length (wrr_cycle ws)) * Gcd (set ws) = sum_list ws"
proof -
  have "set (wrr_cycle ws) \<subseteq> {..<length ws}" by (auto simp: wrr_cycle_def hosts_above_def)
  then have "length (wrr_cycle ws) = (\<Sum>i<length ws. count_list (wrr_cycle ws) i)"
    by (intro sum_count_set[symmetric]) simp_all
  then have "int (length (wrr_cycle ws)) * Gcd (set ws) = (\<Sum>i<length ws. int (count_list (wrr_cycle ws) i) * Gcd (set ws))"
    by (simp add: sum_distrib_right)
  also have "\<dots> = (\<Sum>i<length ws. ws ! i)" by (rule sum.cong) (simp_all add: wrr_cycle_share[OF assms])
  finally show ?thesis by (simp add: sum_list_sum_nth atLeast0LessThan)
qed

text \<open>C29: Weighted round robin over hosts with weights that are not negative and not all zero always finds
  a host. Its picks repeat one cycle, as long as the weights' sum over their greatest common divisor, in
  which every host is picked in proportion to its weight.\<close>

theorem wrr_fair:
  assumes "wrr_weights ws" "WRR_new ws = Inr lb"
  shows "picks (WRR_pick (length ws)) (k * length (wrr_cycle ws)) lb = Some (concat (replicate k (wrr_cycle ws))) \<and>
    int (length (wrr_cycle ws)) * Gcd (set ws) = sum_list ws \<and>
    (\<forall>i<length ws. int (count_list (wrr_cycle ws) i) * Gcd (set ws) = ws ! i)"
proof -
  have ne: "ws \<noteq> []" by (rule wrr_params(2)[OF assms(1)])
  then have "lb = lb_at ws (-1) 0"
    using assms(2) by (simp add: WRR_new_def get_max_weight_gcd_Gcd get_max_weight_Max)
  moreover have "0 \<le> Gcd (set ws)" using wrr_params(1)[OF assms(1)] by simp
  ultimately show ?thesis
    using picks_cycles[OF assms(1) refl, of "-1" 0 k] wrr_cycle_share[OF assms(1)] wrr_cycle_length[OF assms(1)] by simp
qed

lemma wrr_fair_witness:
  "\<exists>lb. WRR_new [4, 2, 6] = Inr lb \<and> picks (WRR_pick 3) 12 lb = Some [2, 0, 2, 0, 1, 2, 2, 0, 2, 0, 1, 2]"
proof -
  have G: "Gcd (set [4, 2, 6 :: int]) = 2" by (simp add: gcd_int_def)
  have M: "Max (set [4, 2, 6 :: int]) = 6" by simp
  have "[0..<3] = [0, 1, 2 :: nat]" by (simp add: upt_conv_Cons)
  then have c: "wrr_cycle [4, 2, 6] = [2, 0, 2, 0, 1, 2]"
    unfolding wrr_cycle_def G M by (simp add: hosts_above_def)
  have w: "wrr_weights [4, 2, 6]" by (simp add: wrr_weights_def)
  obtain lb where lb: "WRR_new [4, 2, 6] = Inr lb" by (simp add: WRR_new_def)
  from wrr_fair[OF w lb, of 2, unfolded c, THEN conjunct1]
  have "picks (WRR_pick 3) 12 lb = Some [2, 0, 2, 0, 1, 2, 2, 0, 2, 0, 1, 2]" by (simp add: numeral_eq_Suc)
  with lb show ?thesis by blast
qed

section \<open>A live host\<close>





end
