(* ===== verification/Coro_Sync.thy ===== *)
theory Coro_Sync
  imports Prelude
begin

text \<open>
  The synchronisation primitives of coroutines: \<^verbatim>\<open>SpinLock.h\<close>, \<^verbatim>\<open>ConditionVariable.h\<close>,
  \<^verbatim>\<open>SharedMutex.h\<close>, \<^verbatim>\<open>Semaphore.h\<close>, \<^verbatim>\<open>Latch.h\<close> and \<^verbatim>\<open>CountEvent.h\<close> of \<^verbatim>\<open>src/coro\<close>, and the latch of
  \<^verbatim>\<open>src/uthread/Latch.h\<close>. A section of code under the lock is one step. The source declares the
  notifying members of the condition variable but does not define them, so a notification is recorded
  as a signal, and a waiting task may be woken at any time: its wait re-checks its predicate.
\<close>

section \<open>SpinLock\<close>

record SpinLock =
  spinCount :: int
  locked :: bool

definition SpinLock_new :: "int \<Rightarrow> SpinLock" where
  "SpinLock_new cnt = \<lparr>spinCount = cnt, locked = False\<rparr>"

definition SpinLock_tryLock :: "SpinLock \<Rightarrow> bool \<times> SpinLock" where
  "SpinLock_tryLock s = (\<not> locked s, s\<lparr>locked := True\<rparr>)"

definition SpinLock_unlock :: "SpinLock \<Rightarrow> SpinLock" where
  "SpinLock_unlock s = s\<lparr>locked := False\<rparr>"

text \<open>
  The loops of \<^verbatim>\<open>lock\<close> and \<^verbatim>\<open>coLock\<close>, which differ in how they yield: one step is an exchange or a read
  of \<^verbatim>\<open>locked_\<close>, with the local counter in the program counter. The flag of the result is a yield.
\<close>

datatype spin_pc = Spin_try int | Spin_read int | Spin_acquired

definition SpinLock_lock_start :: "SpinLock \<Rightarrow> spin_pc" where
  "SpinLock_lock_start s = Spin_try (spinCount s)"

fun SpinLock_lock_step :: "spin_pc \<Rightarrow> SpinLock \<Rightarrow> spin_pc \<times> SpinLock \<times> bool" where
  "SpinLock_lock_step (Spin_try counter) s =
     (let (ok, s') = SpinLock_tryLock s
      in (if ok then Spin_acquired else Spin_read counter, s', False))"
| "SpinLock_lock_step (Spin_read counter) s =
     (if \<not> locked s then (Spin_try counter, s, False)
      else if counter \<le> 0 then (Spin_read (spinCount s), s, True)
      else (Spin_read (counter - 1), s, False))"
| "SpinLock_lock_step Spin_acquired s = (Spin_acquired, s, False)"

text \<open>A task spinning while \<open>n\<close> steps see the lock taken by another: the counter and the yields.\<close>

fun spin_reads :: "nat \<Rightarrow> spin_pc \<Rightarrow> SpinLock \<Rightarrow> spin_pc \<times> nat" where
  "spin_reads 0 pc s = (pc, 0)"
| "spin_reads (Suc n) pc s =
     (let (pc', s', y) = SpinLock_lock_step pc s; (pc'', k) = spin_reads n pc' s'
      in (pc'', (if y then 1 else 0) + k))"

section \<open>The interface of a lock that can be tried\<close>

locale try_lock =
  fixes trylk :: "'l \<Rightarrow> bool \<times> 'l" and unlk :: "'l \<Rightarrow> 'l" and is_locked :: "'l \<Rightarrow> bool"
  assumes try_iff: "fst (trylk l) \<longleftrightarrow> \<not> is_locked l"
    and try_locks: "is_locked (snd (trylk l))"
    and try_fails: "is_locked l \<Longrightarrow> snd (trylk l) = l"
    and unlock_frees: "\<not> is_locked (unlk l)"

interpretation spin: try_lock SpinLock_tryLock SpinLock_unlock locked
  by unfold_locales (simp_all add: SpinLock_tryLock_def SpinLock_unlock_def)

section \<open>ConditionVariable\<close>

text \<open>
  \<^verbatim>\<open>awaiters_\<close> is a stack of waiting tasks; \<^verbatim>\<open>await_suspend\<close> pushes the task, in one step with the
  compare-exchange that succeeds, and releases the lock.
\<close>

type_synonym condition_variable = "nat list"

definition CV_await_suspend ::
    "('l \<Rightarrow> 'l) \<Rightarrow> nat \<Rightarrow> condition_variable \<times> 'l \<Rightarrow> condition_variable \<times> 'l" where
  "CV_await_suspend unlock this s = (case s of (awaiters, lock) \<Rightarrow> (this # awaiters, unlock lock))"

text \<open>
  One turn of \<^verbatim>\<open>wait\<close>, with the lock held: go on if the predicate holds, else suspend. After a
  wake-up and \<^verbatim>\<open>coLock\<close> the same turn runs again.
\<close>

definition CV_wait_turn ::
    "('l \<Rightarrow> 'l) \<Rightarrow> bool \<Rightarrow> nat \<Rightarrow> condition_variable \<times> 'l \<Rightarrow> bool \<times> condition_variable \<times> 'l" where
  "CV_wait_turn unlock pred this s = (if pred then (True, s) else (False, CV_await_suspend unlock this s))"

datatype signal = Notify_one nat | Notify_all nat

section \<open>SharedMutex\<close>

record 'l SharedMutexBase =
  mut :: 'l
  sm_state :: u32

definition write_entered_flag :: u32 where
  "write_entered_flag = push_bit (4 * 8 - 1) 1"

definition max_readers :: u32 where
  "max_readers = NOT write_entered_flag"

definition write_entered :: "u32 \<Rightarrow> bool" where
  "write_entered st \<longleftrightarrow> st AND write_entered_flag \<noteq> 0"

definition readers :: "u32 \<Rightarrow> u32" where
  "readers st = st AND max_readers"

definition SharedMutex_new :: "'l \<Rightarrow> 'l SharedMutexBase" where
  "SharedMutex_new l = \<lparr>mut = l, sm_state = 0\<rparr>"

definition SharedMutex_destroy :: "'l SharedMutexBase \<Rightarrow> unit outcome" where
  "SharedMutex_destroy s = cassert (sm_state s = 0)"

definition SharedMutex_tryLock ::
    "('l \<Rightarrow> bool \<times> 'l) \<Rightarrow> ('l \<Rightarrow> 'l) \<Rightarrow> 'l SharedMutexBase \<Rightarrow> bool \<times> 'l SharedMutexBase" where
  "SharedMutex_tryLock trylk unlk s =
     (let (ok, l) = trylk (mut s)
      in if \<not> ok then (False, s\<lparr>mut := l\<rparr>)
         else (let allow_write = (sm_state s = 0);
                   st = (if allow_write then write_entered_flag else sm_state s)
               in (allow_write, s\<lparr>mut := unlk l, sm_state := st\<rparr>)))"

definition SharedMutex_tryLockShared ::
    "('l \<Rightarrow> bool \<times> 'l) \<Rightarrow> ('l \<Rightarrow> 'l) \<Rightarrow> 'l SharedMutexBase \<Rightarrow> bool \<times> 'l SharedMutexBase" where
  "SharedMutex_tryLockShared trylk unlk s =
     (let (ok, l) = trylk (mut s)
      in if \<not> ok then (False, s\<lparr>mut := l\<rparr>)
         else (let allow_read = (sm_state s < max_readers);
                   st = (if allow_read then sm_state s + 1 else sm_state s)
               in (allow_read, s\<lparr>mut := unlk l, sm_state := st\<rparr>)))"

text \<open>
  The coroutine members, section by section under \<^verbatim>\<open>mut_\<close>: where the task stands afterwards, the new
  state, and the signals sent. Gate 1 and gate 2 are the two condition variables.
\<close>

datatype rw_pc =
    RW_idle | RW_gate1_write | RW_gate2_write | RW_write | RW_gate1_read | RW_read | RW_assert_failed

definition coLock_flagged :: "u32 \<Rightarrow> rw_pc \<times> u32 \<times> signal list" where
  "coLock_flagged st =
     (let st = st OR write_entered_flag
      in (if readers st \<noteq> 0 then RW_gate2_write else RW_write, st, []))"

definition SharedMutex_coLock :: "u32 \<Rightarrow> rw_pc \<times> u32 \<times> signal list" where
  "SharedMutex_coLock st = (if write_entered st then (RW_gate1_write, st, []) else coLock_flagged st)"

definition SharedMutex_unlock :: "u32 \<Rightarrow> rw_pc \<times> u32 \<times> signal list" where
  "SharedMutex_unlock st =
     (if \<not> write_entered st then (RW_assert_failed, st, []) else (RW_idle, 0, [Notify_all 1]))"

definition SharedMutex_coLockShared :: "u32 \<Rightarrow> rw_pc \<times> u32 \<times> signal list" where
  "SharedMutex_coLockShared st =
     (if st \<ge> max_readers then (RW_gate1_read, st, []) else (RW_read, st + 1, []))"

definition SharedMutex_unlockShared :: "u32 \<Rightarrow> rw_pc \<times> u32 \<times> signal list" where
  "SharedMutex_unlockShared st =
     (if \<not> readers st > 0 then (RW_assert_failed, st, [])
      else (let prev = st; st = st - 1
            in if write_entered st then (RW_idle, st, if readers st = 0 then [Notify_one 2] else [])
               else (RW_idle, st, if prev = max_readers then [Notify_one 1] else [])))"

text \<open>A woken task re-checks the predicate it waits for.\<close>

fun rw_predicate :: "rw_pc \<Rightarrow> u32 \<Rightarrow> bool" where
  "rw_predicate RW_gate1_write st \<longleftrightarrow> \<not> write_entered st"
| "rw_predicate RW_gate2_write st \<longleftrightarrow> readers st = 0"
| "rw_predicate RW_gate1_read st \<longleftrightarrow> st < max_readers"
| "rw_predicate _ st \<longleftrightarrow> True"

fun rw_gate :: "rw_pc \<Rightarrow> nat" where
  "rw_gate RW_gate2_write = 2"
| "rw_gate _ = 1"

datatype rw_op = Op_lock | Op_try_lock | Op_lock_shared | Op_try_lock_shared | Op_go

text \<open>
  A section of a task that stands at \<open>pc\<close>. The tries are written out with a free \<^verbatim>\<open>mut_\<close>; with a taken
  one they change nothing.
\<close>

definition rw_section :: "rw_op \<Rightarrow> rw_pc \<Rightarrow> u32 \<Rightarrow> (rw_pc \<times> u32 \<times> signal list) option" where
  "rw_section op pc st =
     (case pc of
        RW_idle \<Rightarrow>
          (case op of
             Op_lock \<Rightarrow> Some (SharedMutex_coLock st)
           | Op_lock_shared \<Rightarrow> Some (SharedMutex_coLockShared st)
           | Op_try_lock \<Rightarrow>
               (let (ok, s) = SharedMutex_tryLock (\<lambda>_. (True, ())) (\<lambda>_. ()) \<lparr>mut = (), sm_state = st\<rparr>
                in Some (if ok then RW_write else RW_idle, sm_state s, []))
           | Op_try_lock_shared \<Rightarrow>
               (let (ok, s) = SharedMutex_tryLockShared (\<lambda>_. (True, ())) (\<lambda>_. ()) \<lparr>mut = (), sm_state = st\<rparr>
                in Some (if ok then RW_read else RW_idle, sm_state s, []))
           | Op_go \<Rightarrow> None)
      | RW_gate1_write \<Rightarrow> if rw_predicate pc st then Some (coLock_flagged st) else Some (pc, st, [])
      | RW_gate2_write \<Rightarrow> if rw_predicate pc st then Some (RW_write, st, []) else Some (pc, st, [])
      | RW_gate1_read \<Rightarrow> if rw_predicate pc st then Some (RW_read, st + 1, []) else Some (pc, st, [])
      | RW_write \<Rightarrow> Some (SharedMutex_unlock st)
      | RW_read \<Rightarrow> Some (SharedMutex_unlockShared st)
      | RW_assert_failed \<Rightarrow> None)"

type_synonym rw_system = "u32 \<times> (nat \<Rightarrow> rw_pc)"

inductive rw_step :: "rw_system \<Rightarrow> signal list \<Rightarrow> rw_system \<Rightarrow> bool" where
  "rw_section op (pcs i) st = Some (pc', st', sigs) \<Longrightarrow> rw_step (st, pcs) sigs (st', pcs(i := pc'))"

inductive rw_reachable :: "rw_system \<Rightarrow> bool" where
  rw_start: "rw_reachable (0, \<lambda>_. RW_idle)"
| rw_next: "rw_reachable s \<Longrightarrow> rw_step s sigs s' \<Longrightarrow> rw_reachable s'"

inductive_cases rw_stepE: "rw_step s sigs s'"

section \<open>CountingSemaphore\<close>

text \<open>The maximum is a template argument of at most 32 bits; the counter is a \<^verbatim>\<open>size_t\<close>.\<close>

definition sem_acquire :: "u64 \<Rightarrow> u64 option" where
  "sem_acquire cnt = (if cnt > 0 then Some (cnt - 1) else None)"

definition sem_release :: "u64 \<Rightarrow> u64 \<Rightarrow> u64 \<Rightarrow> (u64 \<times> signal) outcome" where
  "sem_release LeastMaxValue update cnt =
     bind_outcome (cassert (update \<le> LeastMaxValue \<and> update \<noteq> 0)) (\<lambda>_.
     bind_outcome (cassert (cnt \<le> LeastMaxValue - update)) (\<lambda>_.
     Inr (cnt + update, if update > 1 then Notify_all 0 else Notify_one 0)))"

definition sem_try_acquire :: "u64 \<Rightarrow> bool \<times> u64" where
  "sem_try_acquire cnt = (if cnt \<noteq> 0 then (True, cnt - 1) else (False, cnt))"

text \<open>Runs of a semaphore: what was acquired and released, and the counter.\<close>

inductive sem_run :: "u64 \<Rightarrow> u64 \<Rightarrow> nat \<Rightarrow> nat \<Rightarrow> u64 \<Rightarrow> bool" for lim desired where
  sem_start: "sem_run lim desired 0 0 desired"
| sem_acq: "sem_run lim desired a r c \<Longrightarrow> sem_acquire c = Some c' \<Longrightarrow> sem_run lim desired (Suc a) r c'"
| sem_try: "sem_run lim desired a r c \<Longrightarrow> sem_try_acquire c = (ok, c') \<Longrightarrow>
    sem_run lim desired (if ok then Suc a else a) r c'"
| sem_rel: "sem_run lim desired a r c \<Longrightarrow> sem_release lim update c = Inr (c', sig) \<Longrightarrow>
    sem_run lim desired a (r + unat update) c'"

section \<open>Latch\<close>

definition latch_count_down :: "u64 \<Rightarrow> u64 \<Rightarrow> (u64 \<times> signal list) outcome" where
  "latch_count_down update cnt =
     bind_outcome (cassert (cnt \<ge> update)) (\<lambda>_.
     (let c = cnt - update in Inr (c, if c = 0 then [Notify_all 0] else [])))"

definition latch_try_wait :: "u64 \<Rightarrow> bool" where
  "latch_try_wait cnt = (cnt = 0)"

definition latch_wait_turn :: "nat \<Rightarrow> u64 \<Rightarrow> condition_variable \<Rightarrow> bool \<times> condition_variable" where
  "latch_wait_turn this cnt cv =
     (let (ok, cv', _) = CV_wait_turn (\<lambda>_. ()) (cnt = 0) this (cv, ()) in (ok, cv'))"

definition latch_arrive_and_wait ::
    "nat \<Rightarrow> u64 \<Rightarrow> u64 \<Rightarrow> condition_variable \<Rightarrow> (u64 \<times> signal list \<times> bool \<times> condition_variable) outcome" where
  "latch_arrive_and_wait this update cnt cv =
     bind_outcome (latch_count_down update cnt) (\<lambda>(c, sigs).
     (let (ok, cv') = latch_wait_turn this c cv in Inr (c, sigs, ok, cv')))"

text \<open>A sequence of counting down: the counter left and the signals sent.\<close>

fun latch_run :: "u64 list \<Rightarrow> u64 \<Rightarrow> (u64 \<times> signal list) outcome" where
  "latch_run [] c = Inr (c, [])"
| "latch_run (u # us) c =
     bind_outcome (latch_count_down u c) (\<lambda>(c', sigs).
     bind_outcome (latch_run us c') (\<lambda>(c'', sigs'). Inr (c'', sigs @ sigs')))"

section \<open>CountEvent\<close>

text \<open>A coroutine handle is null or names a coroutine.\<close>

record CountEvent =
  ce_count :: u64
  ce_awaitingCoro :: "nat option"

definition CountEvent_new :: "u64 \<Rightarrow> CountEvent" where
  "CountEvent_new cnt = \<lparr>ce_count = cnt + 1, ce_awaitingCoro = None\<rparr>"

definition CountEvent_move :: "CountEvent \<Rightarrow> CountEvent \<times> CountEvent" where
  "CountEvent_move other = (other, \<lparr>ce_count = 0, ce_awaitingCoro = None\<rparr>)"

definition CountEvent_down :: "u64 \<Rightarrow> CountEvent \<Rightarrow> nat option \<times> CountEvent" where
  "CountEvent_down n e =
     (let oldCount = ce_count e; e = e\<lparr>ce_count := oldCount - n\<rparr>
      in if oldCount = 1 then (ce_awaitingCoro e, e\<lparr>ce_awaitingCoro := None\<rparr>) else (None, e))"

definition CountEvent_downCount :: "u64 \<Rightarrow> CountEvent \<Rightarrow> u64 \<times> CountEvent" where
  "CountEvent_downCount n e = (ce_count e, e\<lparr>ce_count := ce_count e - n\<rparr>)"

definition CountEvent_setAwaitingCoro :: "nat option \<Rightarrow> CountEvent \<Rightarrow> CountEvent" where
  "CountEvent_setAwaitingCoro h e = e\<lparr>ce_awaitingCoro := h\<rparr>"

fun CountEvent_downs :: "u64 list \<Rightarrow> CountEvent \<Rightarrow> nat option list \<times> CountEvent" where
  "CountEvent_downs [] e = ([], e)"
| "CountEvent_downs (n # ns) e =
     (let (h, e1) = CountEvent_down n e; (hs, e2) = CountEvent_downs ns e1 in (h # hs, e2))"

section \<open>uthread::Latch\<close>

text \<open>The promise is seen through how often \<^verbatim>\<open>setValue(true)\<close> was called on it.\<close>

record uLatch =
  ul_count :: u64
  ul_skip :: bool
  ul_set :: nat

definition uLatch_new :: "u64 \<Rightarrow> uLatch" where
  "uLatch_new cnt = \<lparr>ul_count = cnt, ul_skip = (cnt = 0), ul_set = 0\<rparr>"

definition uLatch_downCount :: "u64 \<Rightarrow> uLatch \<Rightarrow> uLatch" where
  "uLatch_downCount n l =
     (if ul_skip l then l
      else let lastCount = ul_count l; l = l\<lparr>ul_count := lastCount - n\<rparr>
           in if lastCount = 1 then l\<lparr>ul_set := ul_set l + 1\<rparr> else l)"

text \<open>Whether \<^verbatim>\<open>await\<close> returns at once, without waiting on the promise's future.\<close>

definition uLatch_await_skips :: "uLatch \<Rightarrow> bool" where
  "uLatch_await_skips l = ul_skip l"

definition uLatch_currentCount :: "uLatch \<Rightarrow> u64" where
  "uLatch_currentCount l = ul_count l"

end
