(* ===== verification/Collect.thy ===== *)
theory Collect
  imports Coro_Sync Try_Value
begin

text \<open>
  Waiting for several coroutines at once, \<^verbatim>\<open>src/coro/Collect.h\<close>. An input is seen through its executor
  and through what its \<^verbatim>\<open>start\<close> does: it finishes before \<^verbatim>\<open>start\<close> returns, with a result, or it
  suspends and finishes later; a run of an awaiter is its \<^verbatim>\<open>await_suspend\<close> followed by the later
  completions in some order. Resuming the awaiting coroutine ends the life of the awaiter, which is a
  temporary of that coroutine.
\<close>

section \<open>Inputs\<close>

record 'v input =
  in_executor :: executor_ptr
  in_start :: "'v Try option"

text \<open>An input without an executor gets the one of the awaiting coroutine.\<close>

definition inherit_executor :: "executor_ptr \<Rightarrow> 'v input \<Rightarrow> 'v input" where
  "inherit_executor ex x = (if in_executor x = None then x\<lparr>in_executor := ex\<rparr> else x)"

section \<open>CollectAnyResult\<close>

record 'v CollectAnyResult =
  idx :: u64
  any_value :: "'v Try"

definition CollectAnyResult_default :: "'v CollectAnyResult" where
  "CollectAnyResult_default = \<lparr>idx = - 1, any_value = Try_default\<rparr>"

definition CollectAnyResult_new :: "u64 \<Rightarrow> 'v \<Rightarrow> 'v CollectAnyResult" where
  "CollectAnyResult_new i v = \<lparr>idx = i, any_value = Try_of_value v\<rparr>"

text \<open>The move leaves the index of the source unset.\<close>

definition CollectAnyResult_move :: "'v CollectAnyResult \<Rightarrow> 'v CollectAnyResult \<times> 'v CollectAnyResult" where
  "CollectAnyResult_move other = (other, other\<lparr>idx := - 1\<rparr>)"

definition CollectAnyResult_hasError :: "'v CollectAnyResult \<Rightarrow> bool" where
  "CollectAnyResult_hasError r = Try_hasError (any_value r)"

definition CollectAnyResult_getException :: "'v CollectAnyResult \<Rightarrow> exception_ptr outcome" where
  "CollectAnyResult_getException r = Try_getException (any_value r)"

definition CollectAnyResult_value :: "'v CollectAnyResult \<Rightarrow> 'v outcome" where
  "CollectAnyResult_value r = Try_value (any_value r)"

section \<open>CollectAnyAwaiter\<close>

text \<open>
  What the callbacks share: the event, the result, how often they resumed the coroutine, and the
  calls of the user's callback, in the variant that has one.
\<close>

record 'v any_state =
  any_event :: CountEvent
  any_result :: "'v CollectAnyResult"
  any_resumed :: nat
  any_calls :: "(nat \<times> 'v Try) list"

definition CollectAny_new :: "nat \<Rightarrow> 'v any_state" where
  "CollectAny_new sz =
     \<lparr>any_event = CountEvent_new (word_of_nat sz), any_result = CollectAnyResult_default,
      any_resumed = 0, any_calls = []\<rparr>"

definition CollectAny_await_ready :: "nat \<Rightarrow> 'v CollectAnyResult option \<Rightarrow> bool" where
  "CollectAny_await_ready sz result =
     (sz = 0 \<or> (case result of None \<Rightarrow> False | Some r \<Rightarrow> idx r \<noteq> - 1))"

text \<open>The callback given to \<^verbatim>\<open>start\<close>, without and with a callback of the user.\<close>

definition CollectAny_callback :: "nat \<Rightarrow> nat \<Rightarrow> 'v Try \<Rightarrow> 'v any_state \<Rightarrow> 'v any_state" where
  "CollectAny_callback sz i result s =
     (let (cnt, e) = CountEvent_downCount 1 (any_event s); s = s\<lparr>any_event := e\<rparr>
      in if cnt = word_of_nat sz + 1
         then s\<lparr>any_result := \<lparr>idx = word_of_nat i, any_value = result\<rparr>, any_resumed := any_resumed s + 1\<rparr>
         else s)"

definition CollectAny_callback_user :: "nat \<Rightarrow> nat \<Rightarrow> 'v Try \<Rightarrow> 'v any_state \<Rightarrow> 'v any_state" where
  "CollectAny_callback_user sz i result s =
     (let (cnt, e) = CountEvent_downCount 1 (any_event s); s = s\<lparr>any_event := e\<rparr>
      in if cnt = word_of_nat sz + 1
         then s\<lparr>any_result := (any_result s)\<lparr>idx := word_of_nat i\<rparr>, any_calls := any_calls s @ [(i, result)],
                any_resumed := any_resumed s + 1\<rparr>
         else s)"

text \<open>
  The loop of \<^verbatim>\<open>await_suspend\<close>, for either callback: it ends when an input has finished, and it gives
  the inputs started, with their executors.
\<close>

fun CollectAny_loop ::
    "(nat \<Rightarrow> 'v Try \<Rightarrow> 's \<Rightarrow> 's) \<Rightarrow> ('s \<Rightarrow> bool) \<Rightarrow> executor_ptr \<Rightarrow> nat \<Rightarrow> 'v input list \<Rightarrow> 's \<Rightarrow>
     (nat \<times> executor_ptr) list \<times> 's" where
  "CollectAny_loop cb got ex i [] s = ([], s)"
| "CollectAny_loop cb got ex i (x # xs) s =
     (if got s then ([], s)
      else (let x = inherit_executor ex x;
                s = (case in_start x of None \<Rightarrow> s | Some t \<Rightarrow> cb i t s);
                (started, s) = CollectAny_loop cb got ex (Suc i) xs s
            in ((i, in_executor x) # started, s)))"

definition any_got :: "'v any_state \<Rightarrow> bool" where
  "any_got s = (idx (any_result s) \<noteq> - 1)"

definition CollectAny_await_suspend ::
    "executor_ptr \<Rightarrow> 'v input list \<Rightarrow> (nat \<times> executor_ptr) list \<times> 'v any_state" where
  "CollectAny_await_suspend ex input =
     CollectAny_loop (CollectAny_callback (length input)) any_got ex 0 input (CollectAny_new (length input))"

definition CollectAny_await_suspend_user ::
    "executor_ptr \<Rightarrow> 'v input list \<Rightarrow> (nat \<times> executor_ptr) list \<times> 'v any_state" where
  "CollectAny_await_suspend_user ex input =
     CollectAny_loop (CollectAny_callback_user (length input)) any_got ex 0 input (CollectAny_new (length input))"

text \<open>\<^verbatim>\<open>result_\<close> is null until \<^verbatim>\<open>await_suspend\<close> has run.\<close>

definition CollectAny_await_resume :: "'v any_state option \<Rightarrow> 'v CollectAnyResult outcome" where
  "CollectAny_await_resume s =
     bind_outcome (cassert (s \<noteq> None)) (\<lambda>_. case s of None \<Rightarrow> Inl Undefined_behaviour | Some s \<Rightarrow> Inr (any_result s))"

definition CollectAny_await_resume_user :: "'v any_state option \<Rightarrow> u64 outcome" where
  "CollectAny_await_resume_user s =
     (case s of None \<Rightarrow> Inl Undefined_behaviour | Some s \<Rightarrow> Inr (idx (any_result s)))"

section \<open>CollectAnyVariadicAwaiter and CollectAnyVariadicPairAwaiter\<close>

text \<open>
  The result is an \<^verbatim>\<open>optional\<close> of the winner's index and Try; in the variant with pairs it is an
  \<^verbatim>\<open>optional\<close> index, and the winner's own callback gets the Try.
\<close>

record 'v anyv_state =
  anyv_event :: CountEvent
  anyv_result :: "(nat \<times> 'v Try) option"
  anyv_resumed :: nat

record 'v anyp_state =
  anyp_event :: CountEvent
  anyp_result :: "nat option"
  anyp_resumed :: nat
  anyp_calls :: "(nat \<times> 'v Try) list"

definition CollectAnyVariadic_new :: "nat \<Rightarrow> 'v anyv_state" where
  "CollectAnyVariadic_new sz =
     \<lparr>anyv_event = CountEvent_new (word_of_nat sz), anyv_result = None, anyv_resumed = 0\<rparr>"

definition CollectAnyPair_new :: "nat \<Rightarrow> 'v anyp_state" where
  "CollectAnyPair_new sz =
     \<lparr>anyp_event = CountEvent_new (word_of_nat sz), anyp_result = None, anyp_resumed = 0, anyp_calls = []\<rparr>"

definition CollectAnyVariadic_callback :: "nat \<Rightarrow> nat \<Rightarrow> 'v Try \<Rightarrow> 'v anyv_state \<Rightarrow> 'v anyv_state" where
  "CollectAnyVariadic_callback sz i res s =
     (let (cnt, e) = CountEvent_downCount 1 (anyv_event s); s = s\<lparr>anyv_event := e\<rparr>
      in if cnt = word_of_nat sz + 1
         then s\<lparr>anyv_result := Some (i, res), anyv_resumed := anyv_resumed s + 1\<rparr>
         else s)"

definition CollectAnyPair_callback :: "nat \<Rightarrow> nat \<Rightarrow> 'v Try \<Rightarrow> 'v anyp_state \<Rightarrow> 'v anyp_state" where
  "CollectAnyPair_callback sz i res s =
     (let (cnt, e) = CountEvent_downCount 1 (anyp_event s); s = s\<lparr>anyp_event := e\<rparr>
      in if cnt = word_of_nat sz + 1
         then s\<lparr>anyp_calls := anyp_calls s @ [(i, res)], anyp_result := Some i, anyp_resumed := anyp_resumed s + 1\<rparr>
         else s)"

text \<open>The fold over the tuple visits every input, and skips it once there is a result.\<close>

fun CollectAnyVariadic_fold ::
    "(nat \<Rightarrow> 'v Try \<Rightarrow> 's \<Rightarrow> 's) \<Rightarrow> ('s \<Rightarrow> bool) \<Rightarrow> executor_ptr \<Rightarrow> nat \<Rightarrow> 'v input list \<Rightarrow> 's \<Rightarrow>
     (nat \<times> executor_ptr) list \<times> 's" where
  "CollectAnyVariadic_fold cb got ex i [] s = ([], s)"
| "CollectAnyVariadic_fold cb got ex i (x # xs) s =
     (if got s then CollectAnyVariadic_fold cb got ex (Suc i) xs s
      else (let x = inherit_executor ex x;
                s = (case in_start x of None \<Rightarrow> s | Some t \<Rightarrow> cb i t s);
                (started, s) = CollectAnyVariadic_fold cb got ex (Suc i) xs s
            in ((i, in_executor x) # started, s)))"

definition CollectAnyVariadic_await_suspend ::
    "executor_ptr \<Rightarrow> 'v input list \<Rightarrow> (nat \<times> executor_ptr) list \<times> 'v anyv_state" where
  "CollectAnyVariadic_await_suspend ex inputs =
     CollectAnyVariadic_fold (CollectAnyVariadic_callback (length inputs)) (\<lambda>s. anyv_result s \<noteq> None) ex 0 inputs
       (CollectAnyVariadic_new (length inputs))"

definition CollectAnyPair_await_suspend ::
    "executor_ptr \<Rightarrow> 'v input list \<Rightarrow> (nat \<times> executor_ptr) list \<times> 'v anyp_state" where
  "CollectAnyPair_await_suspend ex inputs =
     CollectAnyVariadic_fold (CollectAnyPair_callback (length inputs)) (\<lambda>s. anyp_result s \<noteq> None) ex 0 inputs
       (CollectAnyPair_new (length inputs))"

text \<open>Later completions, in the order in which they happen.\<close>

definition completions :: "(nat \<Rightarrow> 'v Try \<Rightarrow> 's \<Rightarrow> 's) \<Rightarrow> (nat \<times> 'v Try) list \<Rightarrow> 's \<Rightarrow> 's" where
  "completions cb evs s = fold (\<lambda>(i, t). cb i t) evs s"

section \<open>CollectAllAwaiter\<close>

text \<open>
  \<open>all_resumed\<close> holds the outputs that \<^verbatim>\<open>await_resume\<close> moved out, one for each time the coroutine was
  resumed; after the first the awaiter is gone, and touching it is undefined.
\<close>

record 'v all_state =
  all_output :: "'v Try list"
  all_event :: CountEvent
  all_resumed :: "'v Try list list"
  all_scheduled :: "(nat \<times> nat) list"

definition CollectAll_new :: "nat \<Rightarrow> 'v all_state" where
  "CollectAll_new sz =
     \<lparr>all_output = replicate sz Try_default, all_event = CountEvent_new (word_of_nat sz),
      all_resumed = [], all_scheduled = []\<rparr>"

definition CollectAll_await_ready :: "'v input list \<Rightarrow> bool" where
  "CollectAll_await_ready input = (input = [])"

definition awaiter_alive :: "'v all_state \<Rightarrow> unit outcome" where
  "awaiter_alive s = (if all_resumed s = [] then Inr () else Inl Undefined_behaviour)"

definition CollectAll_await_resume :: "'v all_state \<Rightarrow> 'v Try list" where
  "CollectAll_await_resume s = all_output s"

text \<open>\<^verbatim>\<open>down\<close> and, when it gives the coroutine, \<^verbatim>\<open>resume\<close>.\<close>

definition down_and_resume :: "'v all_state \<Rightarrow> 'v all_state" where
  "down_and_resume s =
     (let (awaitingCoro, e) = CountEvent_down 1 (all_event s); s = s\<lparr>all_event := e\<rparr>
      in if awaitingCoro \<noteq> None then s\<lparr>all_resumed := all_resumed s @ [CollectAll_await_resume s]\<rparr> else s)"

definition CollectAll_callback :: "nat \<Rightarrow> 'v Try \<Rightarrow> 'v all_state \<Rightarrow> 'v all_state outcome" where
  "CollectAll_callback i result s =
     bind_outcome (awaiter_alive s) (\<lambda>_. Inr (down_and_resume (s\<lparr>all_output := (all_output s)[i := result]\<rparr>)))"

text \<open>
  \<open>func\<close>: start input \<open>i\<close>; what follows it in the loop is done for every input that is not scheduled. The
  condition of the loop reads \<^verbatim>\<open>input_\<close>, a member of the awaiter.
\<close>

definition CollectAll_func :: "nat \<Rightarrow> 'v input \<Rightarrow> 'v all_state \<Rightarrow> 'v all_state outcome" where
  "CollectAll_func i x s =
     bind_outcome (awaiter_alive s) (\<lambda>_.
       case in_start x of None \<Rightarrow> Inr s | Some t \<Rightarrow> CollectAll_callback i t s)"

fun CollectAll_loop ::
    "bool \<Rightarrow> executor_ptr \<Rightarrow> nat \<Rightarrow> nat \<Rightarrow> nat \<Rightarrow> 'v input list \<Rightarrow> 'v all_state \<Rightarrow> 'v all_state outcome" where
  "CollectAll_loop Para ex cont sz i [] s = bind_outcome (awaiter_alive s) (\<lambda>_. Inr s)"
| "CollectAll_loop Para ex cont sz i (x # xs) s =
     bind_outcome (awaiter_alive s) (\<lambda>_.
       (let x = inherit_executor ex x
        in if Para \<and> sz > 1 \<and> in_executor x \<noteq> None
           then CollectAll_loop Para ex cont sz (Suc i) xs
                  (s\<lparr>all_scheduled := all_scheduled s @ [(the (in_executor x), i)]\<rparr>)
           else bind_outcome (CollectAll_func i x s) (\<lambda>s.
                bind_outcome (awaiter_alive s) (\<lambda>_.
                CollectAll_loop Para ex cont sz (Suc i) xs
                  (down_and_resume (s\<lparr>all_event := CountEvent_setAwaitingCoro (Some cont) (all_event s)\<rparr>))))))"

text \<open>The awaiting coroutine is \<open>cont\<close>, on executor \<open>ex\<close>.\<close>

definition CollectAll_await_suspend :: "bool \<Rightarrow> executor_ptr \<Rightarrow> nat \<Rightarrow> 'v input list \<Rightarrow> 'v all_state outcome" where
  "CollectAll_await_suspend Para ex cont input =
     CollectAll_loop Para ex cont (length input) 0 input (CollectAll_new (length input))"

fun all_completions :: "(nat \<times> 'v Try) list \<Rightarrow> 'v all_state \<Rightarrow> 'v all_state outcome" where
  "all_completions [] s = Inr s"
| "all_completions ((i, t) # evs) s = bind_outcome (CollectAll_callback i t s) (all_completions evs)"

section \<open>CollectAllVariadicAwaiter\<close>

fun CollectAllVariadic_fold ::
    "bool \<Rightarrow> executor_ptr \<Rightarrow> nat \<Rightarrow> nat \<Rightarrow> 'v input list \<Rightarrow> 'v all_state \<Rightarrow> 'v all_state outcome" where
  "CollectAllVariadic_fold Para ex sz i [] s = Inr s"
| "CollectAllVariadic_fold Para ex sz i (x # xs) s =
     (let x = inherit_executor ex x
      in if Para \<and> sz > 1 \<and> in_executor x \<noteq> None
         then CollectAllVariadic_fold Para ex sz (Suc i) xs
                (s\<lparr>all_scheduled := all_scheduled s @ [(the (in_executor x), i)]\<rparr>)
         else bind_outcome (CollectAll_func i x s) (CollectAllVariadic_fold Para ex sz (Suc i) xs))"

definition CollectAllVariadic_await_suspend :: "bool \<Rightarrow> executor_ptr \<Rightarrow> nat \<Rightarrow> 'v input list \<Rightarrow> 'v all_state outcome" where
  "CollectAllVariadic_await_suspend Para ex cont inputs =
     (let s = CollectAll_new (length inputs)
      in CollectAllVariadic_fold Para ex (length inputs) 0 inputs
           (s\<lparr>all_event := CountEvent_setAwaitingCoro (Some cont) (all_event s)\<rparr>))"

section \<open>collectAllWindowed\<close>

text \<open>
  \<open>await g\<close> is what awaiting a group gives. The loop moves the inputs into groups by index, in
  \<^verbatim>\<open>size_t\<close>; the second result counts the yields between the groups.
\<close>

partial_function (option) windowed_loop ::
    "('l list \<Rightarrow> 'r list) \<Rightarrow> u64 \<Rightarrow> bool \<Rightarrow> 'l list \<Rightarrow> u64 \<Rightarrow> 'r list \<Rightarrow> nat \<Rightarrow> ('r list \<times> nat) outcome option" where
  "windowed_loop await maxConcurrency yield input start output yields =
     (let input_size = word_of_nat (length input) in
      if start < input_size
      then (let fin = min input_size (start + maxConcurrency)
            in if fin < start then Some (Inl Undefined_behaviour)
               else (let tmp_group = take (unat fin - unat start) (drop (unat start) input)
                     in windowed_loop await maxConcurrency yield input fin (output @ await tmp_group)
                          (if yield then Suc yields else yields)))
      else Some (Inr (output, yields)))"

definition collectAllWindowedImpl ::
    "(bool \<Rightarrow> 'l list \<Rightarrow> 'r list) \<Rightarrow> bool \<Rightarrow> u64 \<Rightarrow> bool \<Rightarrow> 'l list \<Rightarrow> ('r list \<times> nat) outcome option" where
  "collectAllWindowedImpl await Para maxConcurrency yield input =
     (if maxConcurrency = 0 \<or> word_of_nat (length input) \<le> maxConcurrency
      then Some (Inr (await Para input, 0))
      else windowed_loop (await Para) maxConcurrency yield input 0 [] 0)"

section \<open>The public functions\<close>

definition collectAll :: "executor_ptr \<Rightarrow> nat \<Rightarrow> 'v input list \<Rightarrow> 'v all_state outcome" where
  "collectAll ex cont input = CollectAll_await_suspend False ex cont input"

definition collectAllPara :: "executor_ptr \<Rightarrow> nat \<Rightarrow> 'v input list \<Rightarrow> 'v all_state outcome" where
  "collectAllPara ex cont input = CollectAll_await_suspend True ex cont input"

definition collectAllWindowed ::
    "(bool \<Rightarrow> 'l list \<Rightarrow> 'r list) \<Rightarrow> u64 \<Rightarrow> bool \<Rightarrow> 'l list \<Rightarrow> ('r list \<times> nat) outcome option" where
  "collectAllWindowed await maxConcurrency yield input = collectAllWindowedImpl await True maxConcurrency yield input"

definition collectAllWIndowedPara ::
    "(bool \<Rightarrow> 'l list \<Rightarrow> 'r list) \<Rightarrow> u64 \<Rightarrow> bool \<Rightarrow> 'l list \<Rightarrow> ('r list \<times> nat) outcome option" where
  "collectAllWIndowedPara await maxConcurrency yield input = collectAllWindowedImpl await False maxConcurrency yield input"

end
