(* ===== verification/Collect_Props.thy ===== *)
theory Collect_Props
  imports Collect
begin

text \<open>
  Properties of waiting for several coroutines. The three awaiters of \<^verbatim>\<open>collectAny\<close> share a contract,
  the locale \<open>any_awaiter\<close>, under which the first completion wins and the others only count; each of
  their callbacks is an interpretation of it. The awaiters of \<^verbatim>\<open>collectAll\<close> resume too early or never.
\<close>

section \<open>Who finishes first\<close>

text \<open>The first input that finishes while it is started.\<close>

fun first_sync :: "nat \<Rightarrow> 'v input list \<Rightarrow> (nat \<times> 'v Try) option" where
  "first_sync i [] = None"
| "first_sync i (x # xs) = (case in_start x of Some t \<Rightarrow> Some (i, t) | None \<Rightarrow> first_sync (Suc i) xs)"

definition winner :: "'v input list \<Rightarrow> (nat \<times> 'v Try) list \<Rightarrow> (nat \<times> 'v Try) option" where
  "winner input evs = (case first_sync 0 input of Some p \<Rightarrow> Some p
     | None \<Rightarrow> (case evs of [] \<Rightarrow> None | e # _ \<Rightarrow> Some e))"

definition started_inputs :: "executor_ptr \<Rightarrow> 'v input list \<Rightarrow> (nat \<times> executor_ptr) list" where
  "started_inputs ex input =
     map (\<lambda>i. (i, in_executor (inherit_executor ex (input ! i))))
       [0..<(case first_sync 0 input of None \<Rightarrow> length input | Some (j, _) \<Rightarrow> Suc j)]"

text \<open>Later completions are of inputs that were started and suspended, each at most once.\<close>

definition later_completions :: "'v input list \<Rightarrow> (nat \<times> 'v Try) list \<Rightarrow> bool" where
  "later_completions input evs \<longleftrightarrow> distinct (map fst evs) \<and>
     (\<forall>i \<in> fst ` set evs. i < length input \<and> in_start (input ! i) = None)"

lemma in_start_inherit [simp]: "in_start (inherit_executor ex x) = in_start x"
  by (simp add: inherit_executor_def)

lemma first_sync_range:
  "first_sync i xs = Some (j, t) \<Longrightarrow> i \<le> j \<and> j < i + length xs \<and> in_start (xs ! (j - i)) = Some t"
  by (induction xs arbitrary: i) (fastforce simp: nth_Cons' split: option.splits)+

lemma later_completions_length:
  assumes "later_completions input evs"
  shows "length evs + (case first_sync 0 input of None \<Rightarrow> 0 | Some _ \<Rightarrow> 1) \<le> length input"
proof -
  let ?I = "fst ` set evs"
  have len: "length evs = card ?I"
    using assms distinct_card[of "map fst evs"] by (simp add: later_completions_def)
  show ?thesis
  proof (cases "first_sync 0 input")
    case None
    have "?I \<subseteq> {..<length input}" using assms by (auto simp: later_completions_def)
    from card_mono[OF _ this] show ?thesis using None len by simp
  next
    case (Some p)
    obtain j t where p: "p = (j, t)" by (cases p)
    from first_sync_range[of 0 input j t] Some p have j: "j < length input" "in_start (input ! j) = Some t" by auto
    have "j \<notin> ?I" using assms j(2) by (auto simp: later_completions_def)
    moreover have "insert j ?I \<subseteq> {..<length input}" using assms j(1) by (auto simp: later_completions_def)
    ultimately show ?thesis using card_mono[of "{..<length input}" "insert j ?I"] Some len by simp
  qed
qed

text \<open>A loop that stops and a fold that skips do the same.\<close>

lemma CollectAny_loop_stops: "got s \<Longrightarrow> CollectAny_loop f got ex i xs s = ([], s)"
  by (cases xs) auto

lemma CollectAny_fold_stops: "got s \<Longrightarrow> CollectAnyVariadic_fold f got ex i xs s = ([], s)"
  by (induction xs arbitrary: i) auto

lemma CollectAny_fold_is_loop: "CollectAnyVariadic_fold f got ex i xs s = CollectAny_loop f got ex i xs s"
  by (induction f got ex i xs s rule: CollectAny_loop.induct) (auto simp: CollectAny_fold_stops CollectAny_loop_stops Let_def split: option.splits)

section \<open>The contract of an awaiter of collectAny\<close>

text \<open>
  \<open>cb\<close> is the callback given to \<^verbatim>\<open>start\<close>: it counts down (\<open>dec\<close>), and the call that finds the full
  count stores its result and resumes (\<open>won\<close>).
\<close>

locale any_awaiter =
  fixes cb :: "nat \<Rightarrow> nat \<Rightarrow> 'v Try \<Rightarrow> 's \<Rightarrow> 's" and got :: "'s \<Rightarrow> bool" and cnt :: "'s \<Rightarrow> u64"
    and dec :: "'s \<Rightarrow> 's" and won :: "nat \<Rightarrow> 'v Try \<Rightarrow> 's \<Rightarrow> 's"
  assumes cb_eq: "cb n i t s = (if cnt s = word_of_nat n + 1 then won i t (dec s) else dec s)"
    and cnt_dec: "cnt (dec s) = cnt s - 1"
    and cnt_won: "cnt (won i t s) = cnt s"
    and got_dec: "got (dec s) = got s"
    and got_won: "i < 2 ^ 64 - 1 \<Longrightarrow> got (won i t s)"
begin

lemma loop_spec:
  assumes "cnt s = word_of_nat n + 1" "\<not> got s" "i + length xs < 2 ^ 64"
  shows "CollectAny_loop (cb n) got ex i xs s =
    (map (\<lambda>j. (j, in_executor (inherit_executor ex (xs ! (j - i)))))
       [i..<(case first_sync i xs of None \<Rightarrow> i + length xs | Some (j, _) \<Rightarrow> Suc j)],
     case first_sync i xs of None \<Rightarrow> s | Some (j, t) \<Rightarrow> won j t (dec s))"
  using assms(3)
proof (induction xs arbitrary: i)
  case Nil
  then show ?case by simp
next
  case (Cons x xs)
  show ?case
  proof (cases "in_start x")
    case None
    let ?m = "case first_sync (Suc i) xs of None \<Rightarrow> Suc i + length xs | Some (j, _) \<Rightarrow> Suc j"
    have "i < ?m" using first_sync_range[of "Suc i" xs] by (auto split: option.splits)
    then have "[i..<?m] = i # [Suc i..<?m]" by (rule upt_conv_Cons)
    moreover have "map (\<lambda>j. (j, in_executor (inherit_executor ex ((x # xs) ! (j - i))))) [Suc i..<?m] =
        map (\<lambda>j. (j, in_executor (inherit_executor ex (xs ! (j - Suc i))))) [Suc i..<?m]"
      by (auto simp: nth_Cons')
    ultimately show ?thesis
      using Cons.IH[of "Suc i"] Cons.prems None assms(2)
      by (cases "first_sync (Suc i) xs") (auto simp: Let_def)
  next
    case (Some t)
    have "got (won i t (dec s))" using Cons.prems by (intro got_won) simp
    then show ?thesis using Some assms(1,2) by (simp add: CollectAny_loop_stops cb_eq)
  qed
qed

lemma completions_dec:
  assumes "cnt s = word_of_nat n + 1 - word_of_nat k" "0 < k" "k + length evs < 2 ^ 64"
  shows "completions (cb n) evs s = (dec ^^ length evs) s"
  using assms
proof (induction evs arbitrary: s k)
  case Nil
  then show ?case by (simp add: completions_def)
next
  case (Cons e evs)
  have "(word_of_nat k :: u64) \<noteq> 0"
  proof
    assume "(word_of_nat k :: u64) = 0"
    then have "unat (word_of_nat k :: u64) = 0" by simp
    moreover have "unat (word_of_nat k :: u64) = k"
      using Cons.prems(3) by (simp only: unsigned_of_nat) (simp add: take_bit_nat_eq_self)
    ultimately show False using Cons.prems(2) by simp
  qed
  then have "cnt s \<noteq> word_of_nat n + 1" using Cons.prems(1) by simp
  then have "cb n (fst e) (snd e) s = dec s" by (simp add: cb_eq)
  moreover have "completions (cb n) evs (dec s) = (dec ^^ length evs) (dec s)"
    by (rule Cons.IH[of _ "Suc k"]) (use Cons.prems in \<open>auto simp: cnt_dec\<close>)
  ultimately show ?case by (simp add: completions_def split_def funpow_swap1)
qed

text \<open>The state after \<^verbatim>\<open>await_suspend\<close> and any later completions.\<close>

lemma first_wins:
  assumes "cnt s = word_of_nat (length input) + 1" "\<not> got s" "length input < 2 ^ 64 - 1"
    and "later_completions input evs"
  shows "\<exists>s1. CollectAny_loop (cb (length input)) got ex 0 input s = (started_inputs ex input, s1) \<and>
    (case winner input evs of
       None \<Rightarrow> completions (cb (length input)) evs s1 = s
     | Some (j, t) \<Rightarrow> \<exists>k. completions (cb (length input)) evs s1 = (dec ^^ k) (won j t (dec s)))"
proof -
  let ?n = "length input"
  define s1 where "s1 = (case first_sync 0 input of None \<Rightarrow> s | Some (j, t) \<Rightarrow> won j t (dec s))"
  have loop: "CollectAny_loop (cb ?n) got ex 0 input s = (started_inputs ex input, s1)"
    using loop_spec[OF assms(1,2), of 0 input ex] assms(3) 
    by (cases "first_sync 0 input") (auto simp: started_inputs_def s1_def)
  have len: "length evs + (case first_sync 0 input of None \<Rightarrow> 0 | Some _ \<Rightarrow> 1) \<le> ?n"
    by (rule later_completions_length[OF assms(4)])
  have later: "completions (cb ?n) es (won j t (dec s)) = (dec ^^ length es) (won j t (dec s))"
    if "length es \<le> ?n" for es j t
    by (rule completions_dec[of _ _ 1]) (use assms(1,3) that in \<open>auto simp: cnt_won cnt_dec\<close>)
  have "case winner input evs of
       None \<Rightarrow> completions (cb ?n) evs s1 = s
     | Some (j, t) \<Rightarrow> \<exists>k. completions (cb ?n) evs s1 = (dec ^^ k) (won j t (dec s))"
  proof (cases "first_sync 0 input")
    case None
    show ?thesis
    proof (cases evs)
      case Nil
      then show ?thesis using None by (simp add: winner_def s1_def completions_def)
    next
      case (Cons e es)
      have "completions (cb ?n) evs s1 = completions (cb ?n) es (won (fst e) (snd e) (dec s))"
        using Cons None assms(1) by (simp add: s1_def completions_def cb_eq split_def)
      then show ?thesis using later[of es "fst e" "snd e"] Cons None len by (auto simp: winner_def split: prod.splits)
    qed
  next
    case (Some p)
    then show ?thesis using later[of evs] len by (cases p) (auto simp: winner_def s1_def)
  qed
  with loop show ?thesis by blast
qed

end

section \<open>The awaiters of collectAny\<close>

lemma downCount_event: "CountEvent_downCount 1 e = (ce_count e, e\<lparr>ce_count := ce_count e - 1\<rparr>)"
  by (simp add: CountEvent_downCount_def)

lemma word_of_nat_not_minus_one: "i < 2 ^ 64 - 1 \<Longrightarrow> (word_of_nat i :: u64) \<noteq> - 1"
proof
  assume i: "i < 2 ^ 64 - 1" and "(word_of_nat i :: u64) = - 1"
  then have "unat (word_of_nat i :: u64) = unat (- 1 :: u64)" by simp
  moreover have "unat (word_of_nat i :: u64) = i"
    using i by (simp only: unsigned_of_nat) (simp add: take_bit_nat_eq_self)
  moreover have "unat (- 1 :: u64) = 2 ^ 64 - 1" by (simp add: unsigned_minus_1_eq_mask mask_eq_exp_minus_1)
  ultimately show False using i by simp
qed

definition any_dec :: "'v any_state \<Rightarrow> 'v any_state" where
  "any_dec s = s\<lparr>any_event := snd (CountEvent_downCount 1 (any_event s))\<rparr>"

definition anyv_dec :: "'v anyv_state \<Rightarrow> 'v anyv_state" where
  "anyv_dec s = s\<lparr>anyv_event := snd (CountEvent_downCount 1 (anyv_event s))\<rparr>"

definition anyp_dec :: "'v anyp_state \<Rightarrow> 'v anyp_state" where
  "anyp_dec s = s\<lparr>anyp_event := snd (CountEvent_downCount 1 (anyp_event s))\<rparr>"

interpretation any: any_awaiter CollectAny_callback any_got "\<lambda>s. ce_count (any_event s)" any_dec
    "\<lambda>i t s. s\<lparr>any_result := \<lparr>idx = word_of_nat i, any_value = t\<rparr>, any_resumed := any_resumed s + 1\<rparr>"
  by unfold_locales (use word_of_nat_not_minus_one in
    \<open>auto simp: CollectAny_callback_def any_dec_def downCount_event any_got_def Let_def\<close>)

interpretation anyu: any_awaiter CollectAny_callback_user any_got "\<lambda>s. ce_count (any_event s)" any_dec
    "\<lambda>i t s. s\<lparr>any_result := (any_result s)\<lparr>idx := word_of_nat i\<rparr>, any_calls := any_calls s @ [(i, t)],
      any_resumed := any_resumed s + 1\<rparr>"
  by unfold_locales (use word_of_nat_not_minus_one in
    \<open>auto simp: CollectAny_callback_user_def any_dec_def downCount_event any_got_def Let_def\<close>)

interpretation anyv: any_awaiter CollectAnyVariadic_callback "\<lambda>s. anyv_result s \<noteq> None"
    "\<lambda>s. ce_count (anyv_event s)" anyv_dec
    "\<lambda>i t s. s\<lparr>anyv_result := Some (i, t), anyv_resumed := anyv_resumed s + 1\<rparr>"
  by unfold_locales (auto simp: CollectAnyVariadic_callback_def anyv_dec_def downCount_event Let_def)

interpretation anyp: any_awaiter CollectAnyPair_callback "\<lambda>s. anyp_result s \<noteq> None"
    "\<lambda>s. ce_count (anyp_event s)" anyp_dec
    "\<lambda>i t s. s\<lparr>anyp_calls := anyp_calls s @ [(i, t)], anyp_result := Some i, anyp_resumed := anyp_resumed s + 1\<rparr>"
  by unfold_locales (auto simp: CollectAnyPair_callback_def anyp_dec_def downCount_event Let_def)

lemma dec_keeps [simp]:
  "any_result ((any_dec ^^ k) s) = any_result s" "any_resumed ((any_dec ^^ k) s) = any_resumed s"
  "any_calls ((any_dec ^^ k) s) = any_calls s"
  "anyv_result ((anyv_dec ^^ k) s') = anyv_result s'" "anyv_resumed ((anyv_dec ^^ k) s') = anyv_resumed s'"
  "anyp_result ((anyp_dec ^^ k) s'') = anyp_result s''" "anyp_resumed ((anyp_dec ^^ k) s'') = anyp_resumed s''"
  "anyp_calls ((anyp_dec ^^ k) s'') = anyp_calls s''"
  by (induction k) (simp_all add: any_dec_def anyv_dec_def anyp_dec_def)

lemma dec_keeps_once [simp]:
  "any_result (any_dec s) = any_result s" "any_resumed (any_dec s) = any_resumed s" "any_calls (any_dec s) = any_calls s"
  "anyv_resumed (anyv_dec s') = anyv_resumed s'" "anyp_resumed (anyp_dec s'') = anyp_resumed s''"
  "anyp_calls (anyp_dec s'') = anyp_calls s''"
  by (simp_all add: any_dec_def anyv_dec_def anyp_dec_def)

lemma any_start [simp]:
  "ce_count (any_event (CollectAny_new n)) = word_of_nat n + 1" "\<not> any_got (CollectAny_new n)"
  "any_resumed (CollectAny_new n) = 0" "any_calls (CollectAny_new n) = []"
  "ce_count (anyv_event (CollectAnyVariadic_new n)) = word_of_nat n + 1"
  "anyv_result (CollectAnyVariadic_new n) = None" "anyv_resumed (CollectAnyVariadic_new n) = 0"
  "ce_count (anyp_event (CollectAnyPair_new n)) = word_of_nat n + 1"
  "anyp_result (CollectAnyPair_new n) = None" "anyp_resumed (CollectAnyPair_new n) = 0"
  "anyp_calls (CollectAnyPair_new n) = []"
  by (simp_all add: CollectAny_new_def CollectAnyVariadic_new_def CollectAnyPair_new_def CountEvent_new_def
      any_got_def CollectAnyResult_default_def)


definition two_later :: "nat input list" where
  "two_later = [\<lparr>in_executor = None, in_start = None\<rparr>, \<lparr>in_executor = Some 4, in_start = None\<rparr>]"

lemma two_later_completions: "later_completions two_later [(1, Value 8), (0, Value 9)]" "length two_later = 2"
  by (auto simp: two_later_def later_completions_def nth_Cons')

lemma two_later_started:
  "started_inputs (Some 3) two_later = [(0, Some 3), (1, Some 4)]"
  "winner two_later (e # evs) = Some e"
  by (simp_all add: two_later_def started_inputs_def winner_def inherit_executor_def)


text \<open>The variants of \<^verbatim>\<open>collectAny\<close>, with a callback, of a tuple, and of pairs with callbacks, start the
  same inputs and choose the same winner, whose Try goes to the callback exactly once.\<close>

theorem collectAny_variants_agree:
  assumes "length input < 2 ^ 64 - 1" "later_completions input evs"
    and "CollectAny_await_suspend_user ex input = (started, s)"
    and "CollectAnyVariadic_await_suspend ex input = (started_v, sv)"
    and "CollectAnyPair_await_suspend ex input = (started_p, sp)"
  defines "s' \<equiv> completions (CollectAny_callback_user (length input)) evs s"
    and "sv' \<equiv> completions (CollectAnyVariadic_callback (length input)) evs sv"
    and "sp' \<equiv> completions (CollectAnyPair_callback (length input)) evs sp"
    and "w \<equiv> winner input evs"
  shows "started = started_inputs ex input \<and> started_v = started \<and> started_p = started \<and>
    any_calls s' = (case w of None \<Rightarrow> [] | Some p \<Rightarrow> [p]) \<and> anyv_result sv' = w \<and>
    anyp_result sp' = map_option fst w \<and> anyp_calls sp' = any_calls s' \<and>
    any_resumed s' = length (any_calls s') \<and> anyv_resumed sv' = any_resumed s' \<and> anyp_resumed sp' = any_resumed s'"
proof -
  have "started = started_inputs ex input" "any_calls s' = (case w of None \<Rightarrow> [] | Some p \<Rightarrow> [p])"
    "any_resumed s' = (case w of None \<Rightarrow> 0 | Some p \<Rightarrow> 1)"
    using anyu.first_wins[of "CollectAny_new (length input)" input evs ex] assms(1-3)
    by (auto simp: CollectAny_await_suspend_user_def s'_def w_def split: option.splits prod.splits)
  moreover have "started_v = started_inputs ex input" "anyv_result sv' = w"
    "anyv_resumed sv' = (case w of None \<Rightarrow> 0 | Some p \<Rightarrow> 1)"
    using anyv.first_wins[of "CollectAnyVariadic_new (length input)" input evs ex] assms(1,2,4)
    by (auto simp: CollectAnyVariadic_await_suspend_def CollectAny_fold_is_loop sv'_def w_def split: option.splits prod.splits)
  moreover have "started_p = started_inputs ex input" "anyp_result sp' = map_option fst w"
    "anyp_calls sp' = (case w of None \<Rightarrow> [] | Some p \<Rightarrow> [p])" "anyp_resumed sp' = (case w of None \<Rightarrow> 0 | Some p \<Rightarrow> 1)"
    using anyp.first_wins[of "CollectAnyPair_new (length input)" input evs ex] assms(1,2,5)
    by (auto simp: CollectAnyPair_await_suspend_def CollectAny_fold_is_loop sp'_def w_def split: option.splits prod.splits)
  ultimately show ?thesis by (cases w) auto
qed

lemma collectAny_variants_agree_witness:
  "anyv_result (completions (CollectAnyVariadic_callback 2) [(1, Value 8), (0, Value 9)]
     (snd (CollectAnyVariadic_await_suspend (Some 3) two_later))) = Some (1, Value 8)"
  using collectAny_variants_agree [OF _ two_later_completions(1) prod.collapse[symmetric] prod.collapse[symmetric]
      prod.collapse[symmetric], of "Some 3"]
  by (simp add: two_later_completions(2) two_later_started)

end
