(* ===== verification/Collect_All_Props.thy ===== *)
theory Collect_All_Props
  imports Collect_Props
begin

text \<open>
  What the awaiters of \<^verbatim>\<open>collectAll\<close> do, and the windows of \<^verbatim>\<open>collectAllWindowed\<close>.
\<close>

section \<open>CollectAllAwaiter\<close>

lemma down_not_last:
  "ce_count (all_event s) \<noteq> 1 \<Longrightarrow>
     down_and_resume s = s\<lparr>all_event := (all_event s)\<lparr>ce_count := ce_count (all_event s) - 1\<rparr>\<rparr>"
  by (simp add: down_and_resume_def CountEvent_down_def Let_def)

lemma down_last:
  "ce_count (all_event s) = 1 \<Longrightarrow> ce_awaitingCoro (all_event s) = Some c \<Longrightarrow>
     down_and_resume s = s\<lparr>all_event := \<lparr>ce_count = 0, ce_awaitingCoro = None\<rparr>,
       all_resumed := all_resumed s @ [all_output s]\<rparr>"
  by (simp add: down_and_resume_def CountEvent_down_def CollectAll_await_resume_def Let_def)

lemma down_without_coroutine:
  "ce_awaitingCoro (all_event s) = None \<Longrightarrow>
     all_resumed (down_and_resume s) = all_resumed s \<and> all_output (down_and_resume s) = all_output s \<and>
     ce_awaitingCoro (all_event (down_and_resume s)) = None \<and> all_scheduled (down_and_resume s) = all_scheduled s"
  by (simp add: down_and_resume_def CountEvent_down_def Let_def)

lemma word_of_nat_eq_one_iff: "c < 2 ^ 64 \<Longrightarrow> (word_of_nat c :: u64) = 1 \<longleftrightarrow> c = 1"
proof
  assume c: "c < 2 ^ 64" and "(word_of_nat c :: u64) = 1"
  then have "unat (word_of_nat c :: u64) = 1" by simp
  then show "c = 1" using c by (simp add: unsigned_of_nat take_bit_nat_eq_self)
qed simp

lemma later_loop:
  assumes "\<forall>x\<in>set xs. in_start x = None" "all_resumed s = []"
    and "ce_count (all_event s) = word_of_nat (Suc (c + length xs))" "Suc (c + length xs) < 2 ^ 64"
  shows "CollectAll_loop False ex cont sz i xs s =
    Inr (s\<lparr>all_event := \<lparr>ce_count = word_of_nat (Suc c),
            ce_awaitingCoro = if xs = [] then ce_awaitingCoro (all_event s) else Some cont\<rparr>\<rparr>)"
  using assms
proof (induction xs arbitrary: i s)
  case Nil
  then show ?case by (simp add: awaiter_alive_def)
next
  case (Cons x xs)
  let ?s = "s\<lparr>all_event := CountEvent_setAwaitingCoro (Some cont) (all_event s)\<rparr>"
  have "ce_count (all_event ?s) \<noteq> 1"
    using Cons.prems(3,4) word_of_nat_eq_one_iff[of "Suc (c + length (x # xs))"]
    by (simp add: CountEvent_setAwaitingCoro_def)
  then have down: "down_and_resume ?s =
      s\<lparr>all_event := \<lparr>ce_count = word_of_nat (Suc (c + length xs)), ce_awaitingCoro = Some cont\<rparr>\<rparr>"
    using Cons.prems(3) by (simp add: down_not_last CountEvent_setAwaitingCoro_def)
  have "CollectAll_loop False ex cont sz i (x # xs) s = CollectAll_loop False ex cont sz (Suc i) xs (down_and_resume ?s)"
    using Cons.prems(1,2) by (simp add: awaiter_alive_def CollectAll_func_def Let_def)
  also have "\<dots> = Inr (s\<lparr>all_event := \<lparr>ce_count = word_of_nat (Suc c), ce_awaitingCoro = Some cont\<rparr>\<rparr>)"
    unfolding down using Cons.prems by (subst Cons.IH) simp_all
  finally show ?case by simp
qed

text \<open>C27: \<^verbatim>\<open>collectAll\<close> of inputs that all suspend resumes the awaiting coroutine at the first completion of
  any of them, with the results of the others still empty: right for one input only. Another completion
  then touches an awaiter that is gone.\<close>

theorem collectAll_resumes_early:
  assumes "\<forall>x\<in>set input. in_start x = None" "input \<noteq> []" "length input < 2 ^ 64 - 1"
  shows "\<exists>s. collectAll ex cont input = Inr s \<and> all_resumed s = [] \<and>
    (\<forall>i t. \<exists>s'. all_completions [(i, t)] s = Inr s' \<and>
       all_resumed s' = [(replicate (length input) Nothing)[i := t]] \<and>
       (\<forall>j u. all_completions [(i, t), (j, u)] s = Inl Undefined_behaviour))"
proof -
  let ?n = "length input"
  let ?s = "\<lparr>all_output = replicate ?n Nothing, all_event = \<lparr>ce_count = 1, ce_awaitingCoro = Some cont\<rparr>,
    all_resumed = [], all_scheduled = []\<rparr>"
  have "collectAll ex cont input = Inr ?s"
    using later_loop[of input "CollectAll_new ?n" 0 ex cont ?n 0] assms
    by (auto simp: collectAll_def CollectAll_await_suspend_def CollectAll_new_def CountEvent_new_def Try_default_def
        ac_simps)
  then show ?thesis
    by (intro exI[of _ ?s]) (simp add: CollectAll_callback_def awaiter_alive_def down_last)
qed

lemma collectAll_resumes_early_witness:
  "\<exists>s s'. collectAll None 5 [\<lparr>in_executor = None, in_start = None\<rparr>, \<lparr>in_executor = None, in_start = None\<rparr>] = Inr s \<and>
    all_completions [(1, Value (8 :: nat))] s = Inr s' \<and> all_resumed s' = [[Nothing, Value 8]] \<and>
    all_completions [(1, Value 8), (0, Value 9)] s = Inl Undefined_behaviour"
proof -
  let ?x = "\<lparr>in_executor = None, in_start = None\<rparr> :: nat input"
  have "\<forall>x\<in>set [?x, ?x]. in_start x = None" "[?x, ?x] \<noteq> []" "length [?x, ?x] < 2 ^ 64 - 1" by simp_all
  from collectAll_resumes_early[OF this, of None 5] obtain s where
    "collectAll None 5 [?x, ?x] = Inr s" "\<exists>s'. all_completions [(1, Value 8)] s = Inr s' \<and>
       all_resumed s' = [(replicate (length [?x, ?x]) Nothing)[1 := Value 8]] \<and>
       all_completions [(1, Value 8), (0, Value 9)] s = Inl Undefined_behaviour" by blast
  then show ?thesis by (auto simp: numeral_2_eq_2)
qed

section \<open>The awaiting coroutine that is never resumed\<close>

definition with_executors :: "executor_ptr \<Rightarrow> 'v input list \<Rightarrow> bool" where
  "with_executors ex input \<longleftrightarrow> (\<forall>x\<in>set input. in_executor (inherit_executor ex x) \<noteq> None)"

lemma para_loop:
  assumes "with_executors ex xs" "1 < sz" "all_resumed s = []"
  shows "\<exists>ts. CollectAll_loop True ex cont sz i xs s = Inr (s\<lparr>all_scheduled := all_scheduled s @ ts\<rparr>) \<and>
    map snd ts = [i..<i + length xs]"
  using assms
proof (induction xs arbitrary: i s)
  case Nil
  then show ?case by (simp add: awaiter_alive_def)
next
  case (Cons x xs)
  let ?e = "the (in_executor (inherit_executor ex x))"
  from Cons.IH[of "s\<lparr>all_scheduled := all_scheduled s @ [(?e, i)]\<rparr>" "Suc i"] Cons.prems obtain ts where
    "CollectAll_loop True ex cont sz (Suc i) xs (s\<lparr>all_scheduled := all_scheduled s @ [(?e, i)]\<rparr>) =
       Inr (s\<lparr>all_scheduled := (all_scheduled s @ [(?e, i)]) @ ts\<rparr>)" "map snd ts = [Suc i..<Suc i + length xs]"
    by (auto simp: with_executors_def)
  moreover have "[i..<i + length (x # xs)] = i # [Suc i..<Suc i + length xs]"
    by (simp add: upt_conv_Cons del: upt_Suc)
  ultimately show ?case using Cons.prems
    by (intro exI[of _ "(?e, i) # ts"]) (simp add: with_executors_def awaiter_alive_def Let_def del: upt_Suc)
qed

lemma completions_without_coroutine:
  assumes "ce_awaitingCoro (all_event s) = None" "all_resumed s = []"
  shows "\<exists>s'. all_completions evs s = Inr s' \<and> all_resumed s' = []"
  using assms
proof (induction evs arbitrary: s)
  case (Cons e evs)
  obtain i t where e: "e = (i, t)" by (cases e)
  let ?s = "down_and_resume (s\<lparr>all_output := (all_output s)[i := t]\<rparr>)"
  have "all_resumed ?s = []" "ce_awaitingCoro (all_event ?s) = None"
    using down_without_coroutine[of "s\<lparr>all_output := (all_output s)[i := t]\<rparr>"] Cons.prems by simp_all
  from Cons.IH[OF this(2,1)] show ?case
    using Cons.prems e by (simp add: CollectAll_callback_def awaiter_alive_def)
qed simp

lemma completions_not_last:
  assumes "all_resumed s = []" "ce_count (all_event s) = word_of_nat (Suc (k + length evs))"
    and "Suc (k + length evs) < 2 ^ 64"
  shows "\<exists>s'. all_completions evs s = Inr s' \<and> all_resumed s' = [] \<and> ce_count (all_event s') = word_of_nat (Suc k)"
  using assms
proof (induction evs arbitrary: s)
  case (Cons e evs)
  obtain i t where e: "e = (i, t)" by (cases e)
  let ?s1 = "s\<lparr>all_output := (all_output s)[i := t]\<rparr>"
  have "ce_count (all_event ?s1) \<noteq> 1"
    using Cons.prems(2,3) word_of_nat_eq_one_iff[of "Suc (k + length (e # evs))"] by simp
  from down_not_last[OF this] have d: "down_and_resume ?s1 =
      s\<lparr>all_output := (all_output s)[i := t], all_event := (all_event s)\<lparr>ce_count := word_of_nat (Suc (k + length evs))\<rparr>\<rparr>"
    using Cons.prems(2) by simp
  have "\<exists>s'. all_completions evs (down_and_resume ?s1) = Inr s' \<and> all_resumed s' = [] \<and>
      ce_count (all_event s') = word_of_nat (Suc k)"
    unfolding d by (rule Cons.IH) (use Cons.prems in simp_all)
  then show ?case using Cons.prems(1) e by (simp add: CollectAll_callback_def awaiter_alive_def)
qed simp

text \<open>The inputs that finish while they are started.\<close>

definition syncs :: "'v input list \<Rightarrow> nat" where
  "syncs xs = length (filter (\<lambda>x. in_start x \<noteq> None) xs)"

lemma later_completions_syncs:
  assumes "later_completions input evs"
  shows "length evs + syncs input \<le> length input"
proof -
  have "length evs = card (fst ` set evs)"
    using assms distinct_card[of "map fst evs"] by (simp add: later_completions_def)
  also have "\<dots> \<le> card {i. i < length input \<and> in_start (input ! i) = None}"
    using assms by (intro card_mono) (auto simp: later_completions_def)
  also have "\<dots> = length (filter (\<lambda>x. in_start x = None) input)" by (simp add: length_filter_conv_card)
  finally show ?thesis using sum_length_filter_compl[of "\<lambda>x. in_start x = None" input] by (simp add: syncs_def)
qed

lemma variadic_fold:
  assumes "all_resumed s = []" "ce_count (all_event s) = word_of_nat (Suc (k + length xs))"
    and "Suc (k + length xs) < 2 ^ 64"
  shows "\<exists>s'. CollectAllVariadic_fold False ex sz i xs s = Inr s' \<and> all_resumed s' = [] \<and>
    ce_count (all_event s') = word_of_nat (Suc (k + (length xs - syncs xs)))"
  using assms
proof (induction xs arbitrary: i k s)
  case Nil
  then show ?case by simp
next
  case (Cons x xs)
  show ?case
  proof (cases "in_start x")
    case None
    have "syncs xs \<le> length xs" by (simp add: syncs_def)
    with Cons.IH[of s "Suc k" "Suc i"] Cons.prems None show ?thesis
      by (auto simp: CollectAll_func_def awaiter_alive_def Let_def syncs_def Suc_diff_le)
  next
    case (Some t)
    let ?s1 = "s\<lparr>all_output := (all_output s)[i := t]\<rparr>"
    have "ce_count (all_event ?s1) \<noteq> 1"
      using Cons.prems(2,3) word_of_nat_eq_one_iff[of "Suc (k + length (x # xs))"] by simp
    from down_not_last[OF this] have d: "down_and_resume ?s1 =
        s\<lparr>all_output := (all_output s)[i := t], all_event := (all_event s)\<lparr>ce_count := word_of_nat (Suc (k + length xs))\<rparr>\<rparr>"
      using Cons.prems(2) by simp
    have "\<exists>s'. CollectAllVariadic_fold False ex sz (Suc i) xs (down_and_resume ?s1) = Inr s' \<and> all_resumed s' = [] \<and>
        ce_count (all_event s') = word_of_nat (Suc (k + (length xs - syncs xs)))"
      unfolding d by (rule Cons.IH) (use Cons.prems in simp_all)
    with Some Cons.prems(1) show ?thesis
      by (simp add: CollectAll_func_def CollectAll_callback_def awaiter_alive_def Let_def syncs_def)
  qed
qed

text \<open>\<^verbatim>\<open>collectAllPara\<close> of several inputs with executors schedules every input once, in order, and never
  resumes the awaiting coroutine, whatever completes; nor does \<^verbatim>\<open>collectAll\<close> of a tuple, whether its
  inputs finish at once or later: its event counts one more than there are inputs.\<close>

theorem collectAll_never_resumes:
  assumes "with_executors ex input" "1 < length input" "length input < 2 ^ 64 - 1" "later_completions input evs"
  shows "(\<exists>s s'. collectAllPara ex cont input = Inr s \<and> map snd (all_scheduled s) = [0..<length input] \<and>
        all_completions evs s = Inr s' \<and> all_resumed s' = []) \<and>
    (\<exists>s s'. CollectAllVariadic_await_suspend False ex cont input = Inr s \<and>
        all_completions evs s = Inr s' \<and> all_resumed s' = [])"
proof (intro conjI)
  let ?n = "length input" and ?s0 = "CollectAll_new (length input) :: 'a all_state"
  have s0: "all_resumed ?s0 = []" "ce_count (all_event ?s0) = word_of_nat (Suc (0 + ?n))"
    "ce_awaitingCoro (all_event ?s0) = None" "all_scheduled ?s0 = []"
    by (simp_all add: CollectAll_new_def CountEvent_new_def ac_simps)
  from para_loop[OF assms(1,2) s0(1), of cont 0] obtain ts where ts:
    "collectAllPara ex cont input = Inr (?s0\<lparr>all_scheduled := ts\<rparr>)" "map snd ts = [0..<?n]"
    using s0(4) by (auto simp: collectAllPara_def CollectAll_await_suspend_def)
  from completions_without_coroutine[of "?s0\<lparr>all_scheduled := ts\<rparr>" evs] s0
  obtain s' where "all_completions evs (?s0\<lparr>all_scheduled := ts\<rparr>) = Inr s'" "all_resumed s' = []" by auto
  with ts show "\<exists>s s'. collectAllPara ex cont input = Inr s \<and> map snd (all_scheduled s) = [0..<length input] \<and>
        all_completions evs s = Inr s' \<and> all_resumed s' = []" by auto
  let ?s1 = "?s0\<lparr>all_event := CountEvent_setAwaitingCoro (Some cont) (all_event ?s0)\<rparr>"
  from variadic_fold[of ?s1 0 input ex ?n 0] s0 assms(3) obtain s where
    s: "CollectAllVariadic_await_suspend False ex cont input = Inr s" "all_resumed s = []"
    "ce_count (all_event s) = word_of_nat (Suc (?n - syncs input))"
    by (auto simp: CollectAllVariadic_await_suspend_def Let_def CountEvent_setAwaitingCoro_def)
  define k where "k = ?n - syncs input - length evs"
  have "?n - syncs input = k + length evs" using later_completions_syncs[OF assms(4)] by (simp add: k_def)
  moreover from this have "Suc (k + length evs) < 2 ^ 64" using assms(3) by (simp add: k_def)
  ultimately show "\<exists>s s'. CollectAllVariadic_await_suspend False ex cont input = Inr s \<and>
        all_completions evs s = Inr s' \<and> all_resumed s' = []"
    using completions_not_last[of s k evs] s by auto
qed

lemma collectAll_never_resumes_witness:
  "\<exists>s s'. collectAllPara (Some 1) 5 [\<lparr>in_executor = None, in_start = None\<rparr>, \<lparr>in_executor = None, in_start = None\<rparr>] = Inr s \<and>
    map snd (all_scheduled s) = [0, 1] \<and> all_completions [(1, Value (8 :: nat)), (0, Value 9)] s = Inr s' \<and> all_resumed s' = []"
proof -
  let ?x = "\<lparr>in_executor = None, in_start = None\<rparr> :: nat input"
  have "with_executors (Some 1) [?x, ?x]" "1 < length [?x, ?x]" "length [?x, ?x] < 2 ^ 64 - 1"
    "later_completions [?x, ?x] [(1, Value 8), (0, Value 9)]"
    by (simp_all add: with_executors_def inherit_executor_def later_completions_def)
  from collectAll_never_resumes[OF this, THEN conjunct1, of 5] show ?thesis by (simp add: numeral_2_eq_2)
qed

section \<open>Windows\<close>

text \<open>The groups: consecutive slices of the window's size, the last one possibly shorter.\<close>

fun windows :: "nat \<Rightarrow> nat \<Rightarrow> 'l list \<Rightarrow> 'l list list" where
  "windows 0 w xs = []"
| "windows (Suc n) w xs = (if xs = [] then [] else take w xs # windows n w (drop w xs))"

lemma windows_partition:
  assumes "0 < w" "length xs \<le> n"
  shows "concat (windows n w xs) = xs \<and> (\<forall>g\<in>set (windows n w xs). 0 < length g \<and> length g \<le> w) \<and>
    length (windows n w xs) = (length xs + w - 1) div w"
  using assms(2)
proof (induction n arbitrary: xs)
  case 0
  then show ?case using assms(1) by simp
next
  case (Suc n)
  show ?case
  proof (cases "xs = []")
    case True
    then show ?thesis using assms(1) by simp
  next
    case False
    have IH: "concat (windows n w (drop w xs)) = drop w xs \<and>
        (\<forall>g\<in>set (windows n w (drop w xs)). 0 < length g \<and> length g \<le> w) \<and>
        length (windows n w (drop w xs)) = (length (drop w xs) + w - 1) div w"
      using Suc.prems assms(1) False by (intro Suc.IH) (cases xs; simp)
    have "Suc ((length xs - w + w - 1) div w) = (length xs + w - 1) div w"
    proof (cases "w \<le> length xs")
      case True
      then have e: "length xs + w - 1 = (length xs - 1) + w" "length xs - w + w - 1 = length xs - 1"
        using assms(1) by simp_all
      have "w \<noteq> 0" using assms(1) by simp
      then show ?thesis unfolding e Suc_eq_plus1 by (rule div_add_self2[symmetric])
    next
      case False
      then have "(length xs + w - 1) div w = 1" "(length xs - w + w - 1) div w = 0"
        using \<open>xs \<noteq> []\<close> assms(1) by (cases xs; auto simp: Suc_le_eq intro!: div_nat_eqI)+
      then show ?thesis by simp
    qed
    with IH False assms(1) show ?thesis by auto
  qed
qed

lemma unat_of_nat_u64: "n < 2 ^ 64 \<Longrightarrow> unat (word_of_nat n :: u64) = n"
  by (simp add: unsigned_of_nat take_bit_nat_eq_self)

lemma windowed_step:
  fixes w :: u64
  assumes "i < length input" "length input < 2 ^ 63" "w < word_of_nat (length input)"
  defines "fin \<equiv> min (length input) (i + unat w)"
  shows "windowed_loop await w y input (word_of_nat i) out ys =
    windowed_loop await w y input (word_of_nat fin) (out @ await (take (unat w) (drop i input)))
      (if y then Suc ys else ys)"
proof -
  let ?n = "length input"
  have n: "unat (word_of_nat ?n :: u64) = ?n" and i: "unat (word_of_nat i :: u64) = i"
    using assms(1,2) by (simp_all add: unat_of_nat_u64)
  have w: "unat w < ?n" using assms(3) n by (simp add: word_less_nat_alt)
  then have sum: "unat (word_of_nat i + w :: u64) = i + unat w"
    using assms(1,2) i by (subst unat_plus_small) simp_all
  have lt: "(word_of_nat i :: u64) < word_of_nat ?n" using assms(1) n i by (simp add: word_less_nat_alt)
  have fin: "min (word_of_nat ?n) (word_of_nat i + w :: u64) = word_of_nat fin" (is "?m = _")
  proof (cases "?n \<le> i + unat w")
    case True
    then have "(word_of_nat ?n :: u64) \<le> word_of_nat i + w" using n sum by (simp add: word_le_nat_alt)
    then show ?thesis using True by (simp add: fin_def min_def)
  next
    case False
    then have "\<not> (word_of_nat ?n :: u64) \<le> word_of_nat i + w" using n sum by (simp add: word_le_nat_alt)
    then show ?thesis using False by (simp add: fin_def min_def)
  qed
  have "unat (word_of_nat fin :: u64) = fin" using assms(2) by (simp add: fin_def unat_of_nat_u64)
  then have "\<not> (word_of_nat fin :: u64) < word_of_nat i" "unat (word_of_nat fin :: u64) - i = fin - i"
    using assms(1) i by (simp_all add: word_less_nat_alt fin_def)
  moreover have "take (fin - i) (drop i input) = take (unat w) (drop i input)"
    by (cases "?n \<le> i + unat w") (simp_all add: fin_def min_def)
  ultimately show ?thesis
    using lt i by (subst windowed_loop.simps) (simp only: Let_def fin if_True if_False)
qed

lemma windowed_loop_windows:
  assumes "length input < 2 ^ 63" "0 < w" "w < word_of_nat (length input)" "i \<le> length input" "length input - i \<le> m"
  shows "windowed_loop await w y input (word_of_nat i) out ys =
    Some (Inr (out @ concat (map await (windows m (unat w) (drop i input))),
      ys + (if y then length (windows m (unat w) (drop i input)) else 0)))"
  using assms(4,5)
proof (induction m arbitrary: i out ys)
  case 0
  then have "i = length input" by simp
  then show ?case by (subst windowed_loop.simps) (simp add: Let_def)
next
  case (Suc m)
  have w: "0 < unat w" using assms(2) by (simp add: word_less_nat_alt)
  show ?case
  proof (cases "i = length input")
    case True
    then show ?thesis by (subst windowed_loop.simps) (simp add: Let_def)
  next
    case False
    with Suc.prems have i: "i < length input" by simp
    let ?fin = "min (length input) (i + unat w)"
    have "drop ?fin input = drop (unat w) (drop i input)" by (simp add: min_def add.commute)
    moreover have "?fin \<le> length input" "length input - ?fin \<le> m" using Suc.prems w i by simp_all
    ultimately show ?thesis
      using i by (simp add: windowed_step[OF i assms(1,3)] Suc.IH)
  qed
qed

text \<open>The loop of \<^verbatim>\<open>collectAllWindowed\<close> ends without an index running over. With a window smaller than
  the input, the inputs are awaited in consecutive groups of at most the window's size, which cover
  them in order, with a yield after each group if asked; the results are those of the groups in order.
  Otherwise there is one group and no yield.\<close>

theorem windowed_groups:
  fixes w :: u64
  assumes "length input < 2 ^ 63"
  defines "gs \<equiv> (if w = 0 \<or> word_of_nat (length input) \<le> w then [input] else windows (length input) (unat w) input)"
  shows "collectAllWindowed await w yield input =
      Some (Inr (concat (map (await True) gs), if yield \<and> w \<noteq> 0 \<and> unat w < length input then length gs else 0)) \<and>
    concat gs = input \<and>
    (\<forall>g\<in>set gs. w \<noteq> 0 \<longrightarrow> length g \<le> unat w) \<and>
    (w \<noteq> 0 \<and> unat w < length input \<longrightarrow> length gs = (length input + unat w - 1) div unat w)"
proof -
  have n: "unat (word_of_nat (length input) :: u64) = length input" using assms(1) by (simp add: unat_of_nat_u64)
  then have le: "word_of_nat (length input) \<le> w \<longleftrightarrow> length input \<le> unat w" by (simp add: word_le_nat_alt)
  show ?thesis
  proof (cases "w = 0 \<or> word_of_nat (length input) \<le> w")
    case True
    then show ?thesis using le by (auto simp: gs_def collectAllWindowed_def collectAllWindowedImpl_def)
  next
    case False
    then have w: "0 < w" "w < word_of_nat (length input)" and lt: "unat w < length input"
      using le by (auto simp: word_neq_0_conv)
    have "0 < unat w" using w(1) by (simp add: word_less_nat_alt)
    from windows_partition[OF this order_refl, of input] lt False
      windowed_loop_windows[OF assms(1) w, of 0 "length input" "await True" yield "[]" 0]
    show ?thesis by (auto simp: gs_def collectAllWindowed_def collectAllWindowedImpl_def)
  qed
qed

lemma windowed_groups_witness:
  "collectAllWindowed (\<lambda>_ g. map (\<lambda>x. 2 * x) g) 2 True [1, 2, 3, 4, 5 :: nat] = Some (Inr ([2, 4, 6, 8, 10], 3))"
proof -
  let ?xs = "[1, 2, 3, 4, 5 :: nat]"
  have small: "length ?xs < 2 ^ 63" by simp
  have "length ?xs = Suc (Suc (Suc (Suc (Suc 0))))" by simp
  then have "windows (length ?xs) (unat (2 :: u64)) ?xs = [[1, 2], [3, 4], [5]]" by (simp only:) simp
  moreover have "\<not> ((2 :: u64) = 0 \<or> word_of_nat (length ?xs) \<le> (2 :: u64))" "unat (2 :: u64) < length ?xs" by simp_all
  ultimately show ?thesis using windowed_groups[OF small, of "\<lambda>_ g. map (\<lambda>x. 2 * x) g" 2 True] by simp
qed

end
