(* ===== verification/Executors_Props.thy ===== *)
theory Executors_Props
  imports Executors
begin

text \<open>
  Properties of the executors: that a checked-out context leads back to its worker, that the context
  of a foreign thread does not, and that every I/O request's callback runs once.
\<close>

section \<open>Contexts\<close>

lemma bit_kContextMask: "bit kContextMask n \<longleftrightarrow> n = 30"
proof -
  have "kContextMask = push_bit 30 1" by (simp add: kContextMask_def push_bit_eq_mult)
  then have "bit kContextMask n = bit (push_bit 30 1 :: u64) n" by (rule arg_cong)
  also have "\<dots> \<longleftrightarrow> n = 30" unfolding bit_push_bit_iff by (auto simp: bit_1_iff)
  finally show ?thesis .
qed
lemma sint_small:
  assumes "tid < 2 ^ 30"
  shows "sint (word_of_nat tid :: u64) = int tid" 
  using assms by (simp add: signed_of_nat signed_take_bit_int_eq_self)
lemma sint_small_u32:
  assumes "tid < 2 ^ 30"
  shows  "sint (ucast (word_of_nat tid :: u64) :: 32 word) = int tid"
proof -
  have "unat (word_of_nat tid :: u64) = tid" 
    using assms by (simp add: unsigned_of_nat take_bit_nat_eq_self)
  then have "(ucast (word_of_nat tid :: u64) :: 32 word) = word_of_nat tid" 
    by (metis of_nat_unat)
  then show ?thesis using assms by (simp add: signed_of_nat signed_take_bit_int_eq_self)
qed

lemma context_roundtrip:
  assumes "tid < 2 ^ 30"
  shows "(word_of_nat tid OR kContextMask) AND NOT kContextMask = (word_of_nat tid :: u64)"
proof -
  have "take_bit 30 (word_of_nat tid :: u64) = word_of_nat tid"
    using assms by (metis take_bit_of_nat take_bit_nat_eq_self)
  then have "\<not> bit (word_of_nat tid :: u64) 30"
    by (metis bit_take_bit_iff less_irrefl)
  then show ?thesis
    by (intro bit_word_eqI) (auto simp: bit_simps bit_kContextMask)
qed

text \<open>A context checked out on worker \<open>tid\<close> leads back to that worker: checked in on the same worker
  with \<^verbatim>\<open>prompt\<close>, the function runs in place; checked in from any other thread, or without
  \<^verbatim>\<open>prompt\<close>, it is appended to the queue of worker \<open>tid\<close> and of no other.\<close>

theorem checkin_returns_to_context:
  assumes "tp_threadNum (ex_pool ex) = int (length (tp_queues (ex_pool ex)))"
    and "length (tp_queues (ex_pool ex)) \<le> 2 ^ 30"
    and "\<not> tp_stop (ex_pool ex)"
    and "tid < length (tp_queues (ex_pool ex))"
  shows "SimpleExecutor_checkin rand this current (Some f)
       (SimpleExecutor_checkout this (int tid, Some this)) opts ex =
     (if getCurrentId this current = int tid \<and> prompt opts then Inr (True, Some f, ex)
      else Inr (True, None, ex\<lparr>ex_pool := (ex_pool ex)\<lparr>tp_queues := (tp_queues (ex_pool ex))
             [tid := Queue_push \<lparr>canSteal = True, wi_fn = Some f\<rparr> (tp_queues (ex_pool ex) ! tid)]\<rparr>\<rparr>))"
proof -
  have lt: "tid < 2 ^ 30" using assms by simp
  have "SimpleExecutor_checkout this (int tid, Some this) AND NOT kContextMask = word_of_nat tid"
    using context_roundtrip[OF lt] by (simp add: SimpleExecutor_checkout_def getCurrentId_def)
  then show ?thesis
    using assms sint_small[OF lt] sint_small_u32[OF lt]
    by (simp add: SimpleExecutor_checkin_def SimpleExecutor_scheduleById_def scheduleById_def Let_def
        outcome_simps)
qed

theorem checkin_returns_to_context_witness:
  "SimpleExecutor_checkin 0 1 getCurrent_default (Some ''t'')
     (SimpleExecutor_checkout 1 (int 1, Some 1)) ScheduleOptions_new (SimpleExecutor_new 0 2 :: (string, nat) SimpleExecutor) =
   Inr (True, None, (SimpleExecutor_new 0 2)\<lparr>ex_pool := (ThreadPool_new 2 False)\<lparr>tp_queues :=
     [Queue_new, Queue_push \<lparr>canSteal = True, wi_fn = Some ''t''\<rparr> Queue_new]\<rparr>\<rparr>)"
proof -
  let ?ex = "SimpleExecutor_new 0 2 :: (string, nat) SimpleExecutor"
  have "tp_threadNum (ex_pool ?ex) = int (length (tp_queues (ex_pool ?ex)))"
    "length (tp_queues (ex_pool ?ex)) \<le> 2 ^ 30" "\<not> tp_stop (ex_pool ?ex)"
    "1 < length (tp_queues (ex_pool ?ex))"
    by (simp_all add: SimpleExecutor_new_def ThreadPool_new_def)
  from checkin_returns_to_context[OF this, of 0 1 getCurrent_default "''t''" ScheduleOptions_new]
  show ?thesis
    by (simp add: SimpleExecutor_new_def ThreadPool_new_def getCurrentId_def getCurrent_default_def
        numeral_2_eq_2)
qed

text \<open>A context checked out on a thread that is not a worker of the pool is not a valid context: a
  later check-in of a function on it, from any thread, indexes the queues with a negative number.\<close>

theorem checkin_foreign_context:
  assumes "getCurrentId this outside = -1" and "-1 \<le> getCurrentId this current"
    and "\<not> tp_stop (ex_pool ex)" and "0 \<le> tp_threadNum (ex_pool ex)"
  shows "SimpleExecutor_checkin rand this current (Some f) (SimpleExecutor_checkout this outside) opts ex =
    Inl Undefined_behaviour"
proof -
  have "SimpleExecutor_checkout this outside AND NOT kContextMask = 0xFFFFFFFFBFFFFFFF"
    using assms(1) by (simp add: SimpleExecutor_checkout_def kContextMask_def)
  moreover have "sint (0xFFFFFFFFBFFFFFFF :: u64) = -1073741825"
    "sint (ucast (0xFFFFFFFFBFFFFFFF :: u64) :: 32 word) = -1073741825"
    by (simp_all add: signed_take_bit_numeral_of_1)
  ultimately show ?thesis
    using assms
    by (simp add: SimpleExecutor_checkin_def SimpleExecutor_scheduleById_def scheduleById_def Let_def
        outcome_simps)
qed

theorem checkin_foreign_context_witness:
  "SimpleExecutor_checkin 0 1 (0, Some 1) (Some ''t'') (SimpleExecutor_checkout 1 getCurrent_default)
     ScheduleOptions_new (SimpleExecutor_new 0 2 :: (string, nat) SimpleExecutor) = Inl Undefined_behaviour"
  by (rule checkin_foreign_context)
    (simp_all add: getCurrentId_def getCurrent_default_def SimpleExecutor_new_def ThreadPool_new_def)

section \<open>I/O requests\<close>

text \<open>The callbacks of the requests that are still with the kernel.\<close>

definition io_waiting :: "'c SimpleIOExecutor \<Rightarrow> 'c multiset" where
  "io_waiting s = image_mset (the \<circ> io_tasks s) (mset_set (dom (io_tasks s)))"

definition io_fresh :: "'c SimpleIOExecutor \<Rightarrow> bool" where
  "io_fresh s \<longleftrightarrow> finite (dom (io_tasks s)) \<and> (\<forall>a \<in> dom (io_tasks s). a < io_next s)"

abbreviation io_called :: "'c SimpleIOExecutor \<Rightarrow> 'c multiset" where
  "io_called s \<equiv> mset (map fst (io_ran s))"

lemma process_delete_spec:
  assumes "io_fresh s" and "process_delete a ev s = Inr s'"
  shows "io_fresh s'" and "io_called s' + io_waiting s' = io_called s + io_waiting s"
    and "dom (io_tasks s') = dom (io_tasks s) - {a}"
proof -
  obtain cb where cb: "io_tasks s a = Some cb"
    and s': "s' = s\<lparr>io_tasks := (io_tasks s)(a := None), io_ran := io_ran s @ [(cb, ev)]\<rparr>"
    using assms(2) by (auto simp: process_delete_def split: option.splits)
  then have "mset_set (dom (io_tasks s)) = add_mset a (mset_set (dom (io_tasks s) - {a}))"
    using assms(1) by (intro mset_set.remove) (auto simp: io_fresh_def)
  moreover have "image_mset (the \<circ> (io_tasks s)(a := None)) (mset_set (dom (io_tasks s) - {a})) =
      image_mset (the \<circ> io_tasks s) (mset_set (dom (io_tasks s) - {a}))"
    using assms(1) by (intro image_mset_cong) (auto simp: io_fresh_def)
  ultimately show "io_called s' + io_waiting s' = io_called s + io_waiting s"
    using cb s' by (simp add: io_waiting_def)
  show "io_fresh s'" "dom (io_tasks s') = dom (io_tasks s) - {a}"
    using assms(1) s' by (auto simp: io_fresh_def)
qed

lemma add_task_spec:
  fixes s :: "'c SimpleIOExecutor" and cb :: 'c
  assumes "io_fresh s"
  defines "s' \<equiv> s\<lparr>io_tasks := (io_tasks s)(io_next s \<mapsto> cb), io_next := Suc (io_next s)\<rparr>"
  shows "io_fresh s'" and "io_called s' + io_waiting s' = add_mset cb (io_called s + io_waiting s)"
proof -
  have new: "io_next s \<notin> dom (io_tasks s)" using assms(1) by (auto simp: io_fresh_def)
  have "image_mset (the \<circ> (io_tasks s)(io_next s \<mapsto> cb)) (mset_set (dom (io_tasks s))) =
      image_mset (the \<circ> io_tasks s) (mset_set (dom (io_tasks s)))"
    using new assms(1) by (intro image_mset_cong) (auto simp: io_fresh_def)
  with new assms(1) show "io_called s' + io_waiting s' = add_mset cb (io_called s + io_waiting s)"
    by (simp add: s'_def io_waiting_def io_fresh_def)
  show "io_fresh s'" using assms(1) by (auto simp: s'_def io_fresh_def less_SucI)
qed

lemma submit_same: "submitIOV = submitIO"
  by (intro ext) (simp add: submitIO_def submitIOV_def)

lemma submitIO_spec:
  assumes "io_fresh s"
  shows "\<exists>s'. submitIO io_submit fd cmd buffer len offset cb s = Inr s' \<and> io_fresh s' \<and>
    io_called s' + io_waiting s' = add_mset cb (io_called s + io_waiting s)"
proof -
  let ?s = "s\<lparr>io_tasks := (io_tasks s)(io_next s \<mapsto> cb), io_next := Suc (io_next s)\<rparr>"
  have ex: "\<exists>s'. process_delete (io_next s) ev ?s = Inr s'" for ev by (simp add: process_delete_def)
  show ?thesis
    using add_task_spec[OF assms, of cb] ex process_delete_spec[OF add_task_spec(1)[OF assms, of cb]]
    unfolding submitIO_def Let_def by (auto) metis+
qed

lemma process_events_spec:
  "io_fresh s \<Longrightarrow> distinct (map fst evs) \<Longrightarrow> fst ` set evs \<subseteq> dom (io_tasks s) \<Longrightarrow>
   \<exists>s'. process_events evs s = Inr s' \<and> dom (io_tasks s') = dom (io_tasks s) - fst ` set evs"
proof (induction evs arbitrary: s)
  case (Cons e evs)
  obtain data obj res res2 where e: "e = (data, obj, res, res2)" by (cases e)
  then obtain s1 where s1: "process_delete data
      \<lparr>ev_data = Some data, ev_obj = Some obj, ev_res = Some res, ev_res2 = Some res2\<rparr> s = Inr s1"
    using Cons.prems(3) by (auto simp: process_delete_def)
  note sp = process_delete_spec[OF Cons.prems(1) s1]
  have "fst ` set evs \<subseteq> dom (io_tasks s1)"
    using Cons.prems(2,3) sp(3) e by auto
  from Cons.IH[OF sp(1) _ this] Cons.prems(2) s1 sp(3) e show ?case by auto
qed simp

lemma process_events_called:
  "io_fresh s \<Longrightarrow> process_events evs s = Inr s' \<Longrightarrow>
   io_fresh s' \<and> io_called s' + io_waiting s' = io_called s + io_waiting s"
proof (induction evs s rule: process_events.induct)
  case (2 data obj res res2 evs s)
  then obtain s1 where s1: "process_delete data
      \<lparr>ev_data = Some data, ev_obj = Some obj, ev_res = Some res, ev_res2 = Some res2\<rparr> s = Inr s1"
    and rest: "process_events evs s1 = Inr s'" by (auto simp: bind_Inr_iff)
  from "2.IH"[OF process_delete_spec(1)[OF "2.prems"(1) s1] rest] process_delete_spec(2)[OF "2.prems"(1) s1]
  show ?case by simp
qed simp

text \<open>The runs of an I/O executor: submissions, and rounds of the event loop before shutdown.\<close>

inductive io_run :: "'c multiset \<Rightarrow> 'c SimpleIOExecutor \<Rightarrow> bool" where
  io_start: "io_run {#} SimpleIOExecutor_new"
| io_init: "io_run sub s \<Longrightarrow> io_run sub (snd (SimpleIOExecutor_init r s))"
| io_submitIO: "io_run sub s \<Longrightarrow> submitIO io_submit fd cmd buffer len offset cb s = Inr s' \<Longrightarrow>
    io_run (add_mset cb sub) s'"
| io_submitIOV: "io_run sub s \<Longrightarrow> submitIOV io_submit fd cmd iov n offset cb s = Inr s' \<Longrightarrow>
    io_run (add_mset cb sub) s'"
| io_round: "io_run sub s \<Longrightarrow> io_loop [n] s = Inr s' \<Longrightarrow> io_run sub s'"
| io_destroy: "io_run sub s \<Longrightarrow> io_run sub (SimpleIOExecutor_destroy s)"

lemma io_run_inv: "io_run sub s \<Longrightarrow> io_fresh s \<and> sub = io_called s + io_waiting s"
proof (induction rule: io_run.induct)
  case io_start
  show ?case by (simp add: SimpleIOExecutor_new_def io_fresh_def io_waiting_def)
next
  case (io_init sub s r)
  then show ?case by (simp add: SimpleIOExecutor_init_def io_fresh_def io_waiting_def)
next
  case (io_submitIO sub s io_submit fd cmd buffer len offset cb s')
  then show ?case using submitIO_spec[of s io_submit fd cmd buffer len offset cb] by auto
next
  case (io_submitIOV sub s io_submit fd cmd iov n offset cb s')
  then show ?case using submitIO_spec[of s io_submit fd cmd iov n offset cb]
    by (auto simp: submit_same)
next
  case (io_round sub s n s')
  then show ?case
    using process_events_called[of s "projr n" s']
    by (auto simp: loop_round_def bind_Inr_iff split: if_splits sum.splits)
next
  case (io_destroy sub s)
  then show ?case by (simp add: SimpleIOExecutor_destroy_def io_fresh_def io_waiting_def)
qed

text \<open>In every run of the I/O executor the callbacks of the submitted requests are exactly those that
  were called together with those still waiting for the kernel: each is called at most once, and a
  request the kernel refuses is called back at once.\<close>

theorem io_callbacks_run_once:
  assumes "io_run sub s"
  shows "sub = mset (map fst (io_ran s)) + image_mset (the \<circ> io_tasks s) (mset_set (dom (io_tasks s)))"
  using io_run_inv[OF assms] by (simp add: io_waiting_def)

theorem io_callbacks_run_once_witness:
  "\<exists>s :: string SimpleIOExecutor. {#''cb''#} = mset (map fst (io_ran s)) + image_mset (the \<circ> io_tasks s) (mset_set (dom (io_tasks s)))
     \<and> length (io_ran s) = 1"
proof -
  let ?s = "SimpleIOExecutor_new :: string SimpleIOExecutor"
  obtain s where s: "submitIO (\<lambda>_. -1) 3 IOCB_CMD_PREAD 0 16 0 ''cb'' ?s = Inr s" and one: "length (io_ran s) = 1"
    by (auto simp: submitIO_def process_delete_def SimpleIOExecutor_new_def)
  have "{#''cb''#} = mset (map fst (io_ran s)) + image_mset (the \<circ> io_tasks s) (mset_set (dom (io_tasks s)))"
    by (rule io_callbacks_run_once[OF io_submitIO[OF io_start s]])
  with one show ?thesis by blast
qed

text \<open>A round of the event loop is defined for every batch of distinct events of requests that are
  waiting, and afterwards exactly the other requests wait.\<close>

theorem loop_round_completes:
  assumes "io_run sub s" and "distinct (map fst evs)" and "fst ` set evs \<subseteq> dom (io_tasks s)"
  shows "\<exists>s'. loop_round (Inr evs) s = Inr s' \<and> dom (io_tasks s') = dom (io_tasks s) - fst ` set evs"
  using process_events_spec[OF _ assms(2,3)] io_run_inv[OF assms(1)] by (simp add: loop_round_def)

theorem loop_round_completes_witness:
  "\<exists>s'. loop_round (Inr [(0, 0, 16, 0)]) (SimpleIOExecutor_new\<lparr>io_tasks := [0 \<mapsto> ''cb''], io_next := 1\<rparr>) =
     Inr s' \<and> dom (io_tasks s') = {}"
proof -
  let ?s = "SimpleIOExecutor_new :: string SimpleIOExecutor"
  have s: "submitIO (\<lambda>_. 1) 3 IOCB_CMD_PREAD 0 16 0 ''cb'' ?s = Inr (?s\<lparr>io_tasks := [0 \<mapsto> ''cb''], io_next := 1\<rparr>)"
    by (simp add: submitIO_def SimpleIOExecutor_new_def)
  show ?thesis
    using loop_round_completes[OF io_submitIO[OF io_start s], of "[(0, 0, 16, 0)]"] by simp
qed

end
