(* ===== verification/Time_Util.thy ===== *)
theory Time_Util
  imports Prelude "HOL-Library.Signed_Division" "HOL-Library.Char_ord"
begin

text \<open>
  Time stamps: \<^verbatim>\<open>src/coro_apps/util/time_util.h\<close>. The parser of the three formats walks the list of
  components of a format with the position in the string as its state; the calendar arithmetic is
  kept at its 64-bit width; the formatter writes into a buffer of a given size. Characters compare as
  signed numbers, as \<^verbatim>\<open>char\<close> does on x86. \<^verbatim>\<open>gmtime\<close> of the standard library counts years and months
  from 1970. A variable the code has not set yet is \<open>None\<close>.
\<close>

section \<open>Tables and constants\<close>

datatype time_format = http_format | utc_format | utc_without_punctuation_format

datatype component_of_time_format =
    Comp_day_name | Comp_day | Comp_month_name | Comp_month | Comp_year | Comp_hour | Comp_minute
  | Comp_second | Comp_second_decimal_part | Comp_SP | Comp_comma | Comp_colon | Comp_hyphen
  | Comp_dot | Comp_GMT | Comp_T | Comp_Z | Comp_ending

definition month_table :: "int list" where
  "month_table = [11, 4, -1, 7, -1, -1, -1, 0, 6, 3, 5, 2, 10, 8, -1, 9, 1]"

definition week_table :: "int list" where
  "week_table = [2, 4, 3, 1, -1, -1, -1, 6, -1, -1, -1, -1, 0, -1, -1, 5, -1]"

definition http_time_format :: "component_of_time_format list" where
  "http_time_format =
     [Comp_day_name, Comp_comma, Comp_SP, Comp_day, Comp_SP, Comp_month_name, Comp_SP, Comp_year,
      Comp_SP, Comp_hour, Comp_colon, Comp_minute, Comp_colon, Comp_second, Comp_SP, Comp_GMT,
      Comp_ending]"

definition utc_time_format :: "component_of_time_format list" where
  "utc_time_format =
     [Comp_year, Comp_hyphen, Comp_month, Comp_hyphen, Comp_day, Comp_T, Comp_hour, Comp_colon,
      Comp_minute, Comp_colon, Comp_second, Comp_dot, Comp_second_decimal_part, Comp_Z, Comp_ending]"

definition utc_time_without_punctuation_format :: "component_of_time_format list" where
  "utc_time_without_punctuation_format =
     [Comp_year, Comp_month, Comp_day, Comp_T, Comp_hour, Comp_minute, Comp_second,
      Comp_second_decimal_part, Comp_Z, Comp_ending]"

definition len_of_http_time_format :: nat where
  "len_of_http_time_format = 3 + 1 + 1 + 2 + 1 + 3 + 1 + 4 + 1 + 2 + 1 + 2 + 1 + 2 + 1 + 3"

definition len_of_utc_time_format :: nat where
  "len_of_utc_time_format = 4 + 1 + 2 + 1 + 2 + 1 + 2 + 1 + 2 + 1 + 2 + 1 + 0 + 1"

definition len_of_utc_time_without_punctuation_format :: nat where
  "len_of_utc_time_without_punctuation_format = 4 + 2 + 2 + 1 + 2 + 2 + 2 + 0 + 1"

definition absolute_zero_year :: int where "absolute_zero_year = -292277022399"

definition days_per_100_years :: int where "days_per_100_years = 365 * 100 + 24"

definition days_per_400_years :: int where "days_per_400_years = 365 * 400 + 97"

definition days_per_4_years :: int where "days_per_4_years = 365 * 4 + 1"

definition seconds_per_minute :: int where "seconds_per_minute = 60"

definition seconds_per_hour :: int where "seconds_per_hour = 60 * seconds_per_minute"

definition seconds_per_day :: int where "seconds_per_day = 24 * seconds_per_hour"

definition seconds_per_week :: int where "seconds_per_week = 7 * seconds_per_day"

definition internal_year :: int where "internal_year = 1"

text \<open>The product \<^verbatim>\<open>365.2425 * seconds_per_day\<close> is an integer, exact in a \<^verbatim>\<open>double\<close>.\<close>

definition absolute_to_internal :: int where
  "absolute_to_internal =
     (absolute_zero_year - internal_year) * (3652425 * seconds_per_day div 10000)"

definition unix_to_internal :: int where
  "unix_to_internal = (1969 * 365 + 1969 div 4 - 1969 div 100 + 1969 div 400) * seconds_per_day"

definition internal_to_unix :: int where "internal_to_unix = - unix_to_internal"

definition days_before :: "int list" where
  "days_before =
     [0, 31, 31 + 28, 31 + 28 + 31, 31 + 28 + 31 + 30, 31 + 28 + 31 + 30 + 31,
      31 + 28 + 31 + 30 + 31 + 30, 31 + 28 + 31 + 30 + 31 + 30 + 31,
      31 + 28 + 31 + 30 + 31 + 30 + 31 + 31, 31 + 28 + 31 + 30 + 31 + 30 + 31 + 31 + 30,
      31 + 28 + 31 + 30 + 31 + 30 + 31 + 31 + 30 + 31,
      31 + 28 + 31 + 30 + 31 + 30 + 31 + 31 + 30 + 31 + 30,
      31 + 28 + 31 + 30 + 31 + 30 + 31 + 31 + 30 + 31 + 30 + 31]"

lemmas time_consts =
  absolute_zero_year_def days_per_100_years_def days_per_400_years_def days_per_4_years_def
  seconds_per_minute_def seconds_per_hour_def seconds_per_day_def seconds_per_week_def
  internal_year_def absolute_to_internal_def unix_to_internal_def internal_to_unix_def

section \<open>Characters, names and digits\<close>

definition char_int :: "char \<Rightarrow> int" where
  "char_int c = (let n = of_char c in if n < 128 then n else n - 256)"

definition is_leap :: "int \<Rightarrow> bool" where
  "is_leap year \<longleftrightarrow> year mod 4 = 0 \<and> (year mod 100 \<noteq> 0 \<or> year mod 400 = 0)"

text \<open>The index is reduced by the unsigned 64-bit size of the table.\<close>

definition get_day_index :: "string \<Rightarrow> int" where
  "get_day_index str =
     week_table ! nat ((((char_int (str ! 0) AND NOT 0x20) XOR (char_int (str ! 2) AND NOT 0x20))
       mod 2 ^ 64) mod 17)"

definition get_month_index :: "string \<Rightarrow> int" where
  "get_month_index str =
     month_table ! nat ((((char_int (str ! 1) AND NOT 0x20) + (char_int (str ! 2) AND NOT 0x20))
       mod 2 ^ 64) mod 17)"

definition days_in :: "int \<Rightarrow> int \<Rightarrow> int" where
  "days_in m year =
     (if m = get_month_index ''Feb'' \<and> is_leap year then 29
      else days_before ! nat (m + 1) - days_before ! nat m)"

fun get_digit_loop :: "string \<Rightarrow> nat \<Rightarrow> int \<Rightarrow> int" where
  "get_digit_loop sv 0 num = num"
| "get_digit_loop (c # sv) (Suc width) num =
     (if char_int CHR ''0'' \<le> char_int c \<and> char_int c \<le> char_int CHR ''9''
      then get_digit_loop sv width (num * 10 + (char_int c - char_int CHR ''0''))
      else -1)"
| "get_digit_loop [] (Suc width) num = -1"

definition get_digit :: "string \<Rightarrow> nat \<Rightarrow> int" where
  "get_digit sv width = get_digit_loop sv width 0"

section \<open>From a date to seconds\<close>

definition days_since_epoch :: "int \<Rightarrow> u64" where
  "days_since_epoch year =
     (let y = word_of_int (year - absolute_zero_year);
          n = y div 400;
          y = y - 400 * n;
          d = word_of_int days_per_400_years * n;
          n = y div 100;
          y = y - 100 * n;
          d = d + word_of_int days_per_100_years * n;
          n = y div 4;
          y = y - 4 * n;
          d = d + word_of_int days_per_4_years * n;
          n = y;
          d = d + 365 * n
      in d)"

text \<open>The signed addition at the end is undefined when it overflows.\<close>

definition int64_add :: "int \<Rightarrow> int \<Rightarrow> int outcome" where
  "int64_add a b = (if - (2 ^ 63) \<le> a + b \<and> a + b < 2 ^ 63 then Inr (a + b) else Inl Undefined_behaviour)"

definition faster_mktime ::
    "int \<Rightarrow> int \<Rightarrow> int \<Rightarrow> int \<Rightarrow> int \<Rightarrow> int \<Rightarrow> int \<Rightarrow> (bool \<times> int) outcome" where
  "faster_mktime year month day hour mins sec day_of_week =
     (let d = days_since_epoch year;
          d = d + word_of_int (days_before ! nat month);
          d = (if is_leap year \<and> month \<ge> get_month_index ''Mar'' then d + 1 else d);
          d = d + word_of_int (day - 1);
          abs_sec = d * word_of_int seconds_per_day;
          abs_sec = abs_sec + word_of_int (hour * seconds_per_hour + mins * seconds_per_minute + sec);
          wday = ((abs_sec + word_of_int (get_day_index ''Mon'') * word_of_int seconds_per_day)
                    mod word_of_int seconds_per_week) div word_of_int seconds_per_day
      in if day_of_week \<noteq> -1 \<and> sint wday \<noteq> day_of_week then Inr (False, 0)
         else bind_outcome (int64_add (sint abs_sec) (absolute_to_internal + internal_to_unix))
                (\<lambda>t. Inr (True, t)))"

section \<open>The parser\<close>

fun get_format :: "time_format \<Rightarrow> component_of_time_format list" where
  "get_format http_format = http_time_format"
| "get_format utc_format = utc_time_format"
| "get_format utc_without_punctuation_format = utc_time_without_punctuation_format"

record timestamp_state =
  ts_year :: "int option"
  ts_month :: "int option"
  ts_day :: "int option"
  ts_hour :: "int option"
  ts_min :: "int option"
  ts_sec :: "int option"
  ts_day_of_week :: "int option"
  len_of_processed_part :: nat
  len_of_ignored_part :: nat

definition timestamp_init :: "time_format \<Rightarrow> timestamp_state" where
  "timestamp_init fmt =
     \<lparr>ts_year = None, ts_month = None, ts_day = None, ts_hour = None, ts_min = None, ts_sec = None,
      ts_day_of_week = (if fmt = http_format then None else Some (-1)),
      len_of_processed_part = 0, len_of_ignored_part = 0\<rparr>"

definition substr :: "string \<Rightarrow> nat \<Rightarrow> nat \<Rightarrow> string" where
  "substr sv pos n = List.take n (drop pos sv)"

fun punctuation :: "component_of_time_format \<Rightarrow> char option" where
  "punctuation Comp_Z = Some CHR ''Z''"
| "punctuation Comp_T = Some CHR ''T''"
| "punctuation Comp_dot = Some CHR ''.''"
| "punctuation Comp_hyphen = Some CHR ''-''"
| "punctuation Comp_SP = Some CHR '' ''"
| "punctuation Comp_colon = Some CHR '':''"
| "punctuation Comp_comma = Some CHR '',''"
| "punctuation _ = None"

text \<open>Storing the two digits of a component, after its range check.\<close>

definition store_digit ::
    "component_of_time_format \<Rightarrow> int \<Rightarrow> timestamp_state \<Rightarrow> timestamp_state option" where
  "store_digit cp digit st =
     (if cp = Comp_hour then
        (if digit < 0 \<or> digit \<ge> 24 then None else Some (st\<lparr>ts_hour := Some digit\<rparr>))
      else if cp = Comp_minute then
        (if digit < 0 \<or> digit \<ge> 60 then None else Some (st\<lparr>ts_min := Some digit\<rparr>))
      else if cp = Comp_month then
        (if digit < 1 \<or> digit > 12 then None else Some (st\<lparr>ts_month := Some (digit - 1)\<rparr>))
      else if cp = Comp_second then
        (if digit < 0 \<or> digit \<ge> 60 then None else Some (st\<lparr>ts_sec := Some digit\<rparr>))
      else Some (st\<lparr>ts_day := Some digit\<rparr>))"

definition is_digit :: "char \<Rightarrow> bool" where
  "is_digit c \<longleftrightarrow> char_int CHR ''0'' \<le> char_int c \<and> char_int c \<le> char_int CHR ''9''"

text \<open>One turn of the loop over the components; \<open>None\<close> is \<^verbatim>\<open>return {false, 0}\<close>.\<close>

definition component_step ::
    "string \<Rightarrow> component_of_time_format \<Rightarrow> timestamp_state \<Rightarrow> timestamp_state option" where
  "component_step sv cp st =
     (let pos = len_of_processed_part st; left = length sv - pos
      in case punctuation cp of
           Some p \<Rightarrow>
             if left < 1 \<or> sv ! pos \<noteq> p then None
             else Some (st\<lparr>len_of_processed_part := pos + 1\<rparr>)
         | None \<Rightarrow>
             if cp = Comp_year then
               (if left < 4 then None
                else let year = get_digit (substr sv pos 4) 4
                     in if year = -1 then None
                        else Some (st\<lparr>ts_year := Some year, len_of_processed_part := pos + 4\<rparr>))
             else if cp = Comp_month_name then
               (if left < 3 then None
                else let month = get_month_index (substr sv pos 3)
                     in if month = -1 then None
                        else Some (st\<lparr>ts_month := Some month, len_of_processed_part := pos + 3\<rparr>))
             else if cp = Comp_day_name then
               (if left < 3 then None
                else let dow = get_day_index (substr sv pos 3)
                     in if dow < 0 then None
                        else Some (st\<lparr>ts_day_of_week := Some dow, len_of_processed_part := pos + 3\<rparr>))
             else if cp = Comp_GMT then
               (if left < 3 \<or> substr sv pos 3 \<noteq> ''GMT'' then None
                else Some (st\<lparr>len_of_processed_part := pos + 3\<rparr>))
             else if cp = Comp_second_decimal_part then
               (let n = length (takeWhile is_digit (drop pos sv))
                in if n = 0 then None
                   else Some (st\<lparr>len_of_ignored_part := len_of_ignored_part st + n,
                                 len_of_processed_part := pos + n\<rparr>))
             else
               (if left < 2 then None
                else let digit = get_digit (substr sv pos 2) 2
                     in if digit = -1 then None
                        else map_option (\<lambda>st. st\<lparr>len_of_processed_part := pos + 2\<rparr>)
                               (store_digit cp digit st)))"

fun component_loop ::
    "string \<Rightarrow> component_of_time_format list \<Rightarrow> timestamp_state \<Rightarrow> timestamp_state option" where
  "component_loop sv [] st = Some st"
| "component_loop sv (cp # cps) st =
     (if cp = Comp_ending then Some st
      else case component_step sv cp st of
             None \<Rightarrow> None
           | Some st' \<Rightarrow> component_loop sv cps st')"

text \<open>After the loop: the length check, the check of the day, the conversion.\<close>

definition travel_done :: "string \<Rightarrow> timestamp_state \<Rightarrow> (bool \<times> int) outcome" where
  "travel_done sv st =
     (let pos = len_of_processed_part st; used = int pos - int (len_of_ignored_part st)
      in if pos \<noteq> length sv \<or>
            (pos \<noteq> len_of_http_time_format \<and> used \<noteq> int len_of_utc_time_format) \<and>
            used \<noteq> int len_of_utc_time_without_punctuation_format then Inr (False, 0)
         else case (ts_year st, ts_month st, ts_day st, ts_hour st, ts_min st, ts_sec st, ts_day_of_week st) of
                (Some year, Some month, Some day, Some hour, Some mins, Some sec, Some day_of_week) \<Rightarrow>
                  if day < 1 \<or> day > days_in month year then Inr (False, 0)
                  else faster_mktime year month day hour mins sec day_of_week
              | _ \<Rightarrow> Inl Undefined_behaviour)"

definition get_timestamp :: "time_format \<Rightarrow> string \<Rightarrow> (bool \<times> int) outcome" where
  "get_timestamp fmt gmt_time_str =
     (case component_loop gmt_time_str (get_format fmt) (timestamp_init fmt) of
        None \<Rightarrow> Inr (False, 0)
      | Some st \<Rightarrow> travel_done gmt_time_str st)"

section \<open>gmtime\<close>

record tm =
  tm_year :: int
  tm_mon :: int
  tm_mday :: int
  tm_hour :: int
  tm_min :: int
  tm_sec :: int
  tm_wday :: int

definition year_len :: "int \<Rightarrow> int" where
  "year_len y = (if is_leap y then 366 else 365)"

text \<open>The year of a day counted from 1 January of year \<open>y\<close>, and the day's number in that year.\<close>

function year_loop :: "int \<Rightarrow> int \<Rightarrow> int \<times> int" where
  "year_loop d y =
     (if d < 0 then year_loop (d + year_len (y - 1)) (y - 1)
      else if d \<ge> year_len y then year_loop (d - year_len y) (y + 1)
      else (y, d))"
  by auto
termination
  by (relation "measure (\<lambda>(d, y). if d < 0 then nat (- d) + 366 else nat d)")
    (auto simp: year_len_def split: if_splits)

declare year_loop.simps [simp del]

definition month_len :: "int \<Rightarrow> nat \<Rightarrow> int" where
  "month_len y m = [31, if is_leap y then 29 else 28, 31, 30, 31, 30, 31, 31, 30, 31, 30, 31] ! m"

fun month_loop :: "int \<Rightarrow> int \<Rightarrow> nat list \<Rightarrow> nat \<times> int" where
  "month_loop y d [] = (11, d)"
| "month_loop y d (m # ms) =
     (if d < month_len y m then (m, d) else month_loop y (d - month_len y m) ms)"

definition gmtime :: "int \<Rightarrow> tm option" where
  "gmtime t =
     (let days = t div 86400; s = t mod 86400;
          (y, yday) = year_loop days 1970;
          (mon, d) = month_loop y yday [0..<12]
      in if y - 1900 < - (2 ^ 31) \<or> y - 1900 \<ge> 2 ^ 31 then None
         else Some \<lparr>tm_year = y - 1900, tm_mon = int mon, tm_mday = d + 1, tm_hour = s div 3600,
                    tm_min = s div 60 mod 60, tm_sec = s mod 60, tm_wday = (days + 4) mod 7\<rparr>)"

section \<open>The formatter\<close>

definition digits :: string where
  "digits = ''0123456789''"

definition WDAY :: "string list" where
  "WDAY = [''Sun'', ''Mon'', ''Tue'', ''Wed'', ''Thu'', ''Fri'', ''Sat'']"

definition YMON :: "string list" where
  "YMON = [''Jan'', ''Feb'', ''Mar'', ''Apr'', ''May'', ''Jun'', ''Jul'', ''Aug'', ''Sep'', ''Oct'',
           ''Nov'', ''Dec'']"

text \<open>The digits are stored from the last to the first; a negative index is undefined.\<close>

fun to_int_loop :: "nat \<Rightarrow> int \<Rightarrow> string \<Rightarrow> string outcome" where
  "to_int_loop 0 num p = Inr p"
| "to_int_loop (Suc n) num p =
     (if num smod 10 < 0 then Inl Undefined_behaviour
      else to_int_loop n (num sdiv 10) (digits ! nat (num smod 10) # p))"

definition to_int :: "nat \<Rightarrow> int \<Rightarrow> char \<Rightarrow> string outcome" where
  "to_int n num c = to_int_loop n num [c]"

text \<open>Writing at the end of what is in the buffer of \<open>N\<close> bytes.\<close>

definition buf_write :: "nat \<Rightarrow> string \<Rightarrow> string \<Rightarrow> string outcome" where
  "buf_write N buf xs = (if length buf + length xs \<le> N then Inr (buf @ xs) else Inl Undefined_behaviour)"

definition convert_field :: "int \<Rightarrow> tm \<Rightarrow> char \<Rightarrow> char \<Rightarrow> string outcome" where
  "convert_field hour_offset loc_time k c =
     (if k = CHR ''Y'' then to_int 4 (tm_year loc_time + 1900) c
      else if k = CHR ''m'' then to_int 2 (tm_mon loc_time + 1) c
      else if k = CHR ''d'' then to_int 2 (tm_mday loc_time) c
      else if k = CHR ''H'' then to_int 2 (tm_hour loc_time + hour_offset) c
      else if k = CHR ''M'' then to_int 2 (tm_min loc_time) c
      else if k = CHR ''S'' then to_int 2 (tm_sec loc_time) c
      else if k = CHR ''a'' then Inr (WDAY ! nat (tm_wday loc_time) @ [c, CHR '' ''])
      else if k = CHR ''b'' then Inr (YMON ! nat (tm_mon loc_time) @ [c])
      else Inr [])"

fun format_loop :: "nat \<Rightarrow> int \<Rightarrow> tm \<Rightarrow> string \<Rightarrow> string \<Rightarrow> string outcome" where
  "format_loop N hour_offset loc_time [] buf = Inr buf"
| "format_loop N hour_offset loc_time [f] buf =
     (if f = CHR ''%'' then Inl Undefined_behaviour else Inr buf)"
| "format_loop N hour_offset loc_time (f # k # rest) buf =
     (if f = CHR ''%'' then
        (let c = (case rest of [] \<Rightarrow> CHR ''0'' | c # _ \<Rightarrow> c)
         in bind_outcome (convert_field hour_offset loc_time k c) (\<lambda>xs.
            bind_outcome (buf_write N buf xs) (format_loop N hour_offset loc_time rest)))
      else format_loop N hour_offset loc_time (k # rest) buf)"

text \<open>The last written character is left out of the result; nothing written gives a wrapped size.\<close>

definition get_local_time_str :: "int \<Rightarrow> nat \<Rightarrow> int \<Rightarrow> string \<Rightarrow> string outcome" where
  "get_local_time_str hour_offset N t format =
     (case gmtime t of
        None \<Rightarrow> Inl Undefined_behaviour
      | Some loc_time \<Rightarrow>
          bind_outcome (format_loop N hour_offset loc_time format []) (\<lambda>buf.
          if buf = [] then Inl Undefined_behaviour else Inr (butlast buf)))"

definition get_gmt_time_str :: "nat \<Rightarrow> int \<Rightarrow> string outcome" where
  "get_gmt_time_str N t =
     bind_outcome (get_local_time_str 0 N t ''%a, %d %b %Y %H:%M:%S'') (\<lambda>s.
     buf_write N s '' GMT'')"

section \<open>The cached variants\<close>

text \<open>The thread-local buffer with the second it was filled for; time points count nanoseconds.\<close>

record time_cache =
  tc_buf :: string
  tc_last_sec :: int
  tc_last_size :: nat

definition time_cache_new :: time_cache where
  "time_cache_new = \<lparr>tc_buf = [], tc_last_sec = 0, tc_last_size = 0\<rparr>"

definition cached_time_str ::
    "(int \<Rightarrow> string outcome) \<Rightarrow> int \<Rightarrow> time_cache \<Rightarrow> (string \<times> time_cache) outcome" where
  "cached_time_str fill t c =
     (let s = t sdiv 1000000000
      in if tc_last_sec c = s then Inr (List.take (tc_last_size c) (tc_buf c), c)
         else bind_outcome (fill s) (\<lambda>str.
              Inr (str, \<lparr>tc_buf = str, tc_last_sec = s, tc_last_size = length str\<rparr>)))"

definition get_local_time_str_cached :: "int \<Rightarrow> time_cache \<Rightarrow> (string \<times> time_cache) outcome" where
  "get_local_time_str_cached =
     cached_time_str (\<lambda>s. get_local_time_str 8 32 s ''%Y-%m-%d %H:%M:%S'')"

definition get_gmt_time_str_cached :: "int \<Rightarrow> time_cache \<Rightarrow> (string \<times> time_cache) outcome" where
  "get_gmt_time_str_cached = cached_time_str (get_gmt_time_str 32)"

text \<open>\<^verbatim>\<open>from_time_t\<close> multiplies to nanoseconds at 64 bits.\<close>

definition get_gmt_time_str_time_t :: "int \<Rightarrow> time_cache \<Rightarrow> (string \<times> time_cache) outcome" where
  "get_gmt_time_str_time_t t c =
     bind_outcome (int64_add (t * 1000000000) 0) (\<lambda>tp. get_gmt_time_str_cached tp c)"

end
