(* ===== verification/Time_Calendar.thy ===== *)
theory Time_Calendar
  imports Time_Util
begin

text \<open>
  The calendar: \<open>year_start\<close> counts the days before a year and grows by the length of each year, so it is
  the proleptic Gregorian calendar; the code's 64-bit computation of \<^verbatim>\<open>days_since_epoch\<close> and
  \<^verbatim>\<open>faster_mktime\<close> is shown equal to it, and inverse to \<^verbatim>\<open>gmtime\<close>.
\<close>

section \<open>Years and months\<close>

definition year_start :: "int \<Rightarrow> int" where
  "year_start y = 365 * (y - 1) + (y - 1) div 4 - (y - 1) div 100 + (y - 1) div 400"

lemma div_step:
  assumes "(n :: int) > 0"
  shows "y div n = (y - 1) div n + (if y mod n = 0 then 1 else 0)"
proof (cases "y mod n = 0")
  case True
  have "y - 1 = n * (y div n - 1) + (n - 1)" using True by (simp add: algebra_simps) (metis mult_div_mod_eq add.right_neutral mult.commute)
  then have "(y - 1) div n = y div n - 1" by (rule int_div_pos_eq) (use assms in auto)
  with True show ?thesis by simp
next
  case False
  have "y - 1 = n * (y div n) + (y mod n - 1)" by simp
  moreover have "0 \<le> y mod n - 1" "y mod n - 1 < n"
    using False assms pos_mod_sign[of n y] pos_mod_bound[of n y] by linarith+
  ultimately have "(y - 1) div n = y div n" by (intro int_div_pos_eq) auto
  with False show ?thesis by simp
qed

lemma leap_sum:
  fixes y :: int
  assumes "p4 = q4 + (if l4 then 1 else 0)" "p100 = q100 + (if l100 then 1 else 0)"
    "p400 = q400 + (if l400 then 1 else 0)" "l400 \<Longrightarrow> l100" "l100 \<Longrightarrow> l4"
  shows "365 * y + p4 - p100 + p400 =
    365 * (y - 1) + q4 - q100 + q400 + (if l4 \<and> (\<not> l100 \<or> l400) then 366 else 365)"
  using assms by auto

lemma year_start_Suc: "year_start (y + 1) = year_start y + year_len y"
proof -
  have "y mod 400 mod 100 = y mod 100" "y mod 100 mod 4 = y mod 4" by (rule mod_mod_cancel; simp)+
  then have imp: "y mod 400 = 0 \<Longrightarrow> y mod 100 = 0" "y mod 100 = 0 \<Longrightarrow> y mod 4 = 0" by auto
  have "y + 1 - 1 = y" by simp
  then show ?thesis
    unfolding year_start_def year_len_def is_leap_def
    by (simp only:) (rule leap_sum[OF div_step div_step div_step imp]; simp)
qed

lemma word_of_int_div:
  assumes "0 \<le> a" "a < 2 ^ 64" "0 < b" "b < 2 ^ 64"
  shows "(word_of_int a :: u64) div word_of_int b = word_of_int (a div b)"
    "(word_of_int a :: u64) mod word_of_int b = word_of_int (a mod b)"
  using assms by (simp_all add: word_div_def word_mod_def uint_word_of_int)

lemma div_shift: "(n :: int) \<noteq> 0 \<Longrightarrow> (Y - n * m * k) div n = Y div n - m * k"
  using div_mult_self2[of n Y "- (m * k)"] by (simp add: mult.assoc)

lemma days_since_epoch_eq:
  assumes "0 \<le> year" "year \<le> 9999"
  shows "days_since_epoch year = word_of_int (year_start year + 106751990353932)"
proof -
  define Y where "Y = year + 292277022399"
  have Y: "0 \<le> Y" "Y < 2 ^ 63" using assms by (auto simp: Y_def)
  define a b c d where "a = Y div 400" and "b = (Y - 400 * a) div 100" and "c = (Y - 400 * a - 100 * b) div 4"
    and "d = Y - 400 * a - 100 * b - 4 * c"
  have *: "(word_of_int x :: u64) div 400 = word_of_int (x div 400)" "(word_of_int x :: u64) div 100 = word_of_int (x div 100)"
     "(word_of_int x :: u64) div 4 = word_of_int (x div 4)" if "0 \<le> x" "x < 2 ^ 64" for x
    using word_of_int_div(1)[OF that, of 400] word_of_int_div(1)[OF that, of 100] word_of_int_div(1)[OF that, of 4] by simp_all
  have r: "0 \<le> Y - 400 * a" "Y - 400 * a < 400" "0 \<le> Y - 400 * a - 100 * b" "Y - 400 * a - 100 * b < 100" 
    "0 \<le> d" "d < 4"
    unfolding a_def b_def c_def d_def by presburger+
  have st: "(word_of_int x :: u64) - 400 * word_of_int y = word_of_int (x - 400 * y)" 
    "(word_of_int x :: u64) - 100 * word_of_int y = word_of_int (x - 100 * y)"
    "(word_of_int x :: u64) - 4 * word_of_int y = word_of_int (x - 4 * y)" for x y by simp_all
  have "days_since_epoch year = word_of_int (146097 * a + 36524 * b + 1461 * c + 365 * d)"
    unfolding days_since_epoch_def Let_def absolute_zero_year_def
    using r Y 
    by (simp add: Y_def[symmetric] * st a_def[symmetric] b_def[symmetric] c_def[symmetric] d_def[symmetric] days_per_400_years_def
       days_per_100_years_def days_per_4_years_def del: of_int_diff of_int_mult) simp
  also have "146097 * a + 36524 * b + 1461 * c + 365 * d = year_start year + 106751990353932"
  proof -
    have "0 \<le> R div 100 \<and> R div 100 \<le> 3" if "0 \<le> R" "R < 400" for R :: int using that by linarith
    moreover have "0 \<le> R div 4 \<and> R div 4 \<le> 24" if "0 \<le> R" "R < 100" for R :: int using that by linarith
    ultimately have b3: "b \<le> 3" "0 \<le> b" "c \<le> 24" "0 \<le> c"
      using r(1-4) unfolding c_def b_def by blast+
    have "Y = 4 * (100 * a + 25 * b + c) + d" "Y = 100 * (4 * a + b) + (4 * c + d)" by (simp_all add: d_def)
    then have Y4: "Y div 4 = 100 * a + 25 * b + c" and Y100: "Y div 100 = 4 * a + b"
      using r b3 by (auto intro!: int_div_pos_eq)
    have y: "year - 1 = Y - 400 * 730692556" by (simp add: Y_def)
    have "(Y - 400 * 730692556) div 4 = 100 * a + 25 * b + c - 100 * 730692556"
      using div_shift[of 4 Y 100 730692556] Y4 by simp
    moreover have "(Y - 400 * 730692556) div 100 = 4 * a + b - 4 * 730692556"
      using div_shift[of 100 Y 4 730692556] Y100 by simp
    moreover have "(Y - 400 * 730692556) div 400 = a - 730692556"
      using div_shift[of 400 Y 1 730692556] a_def by simp
    moreover have "Y - 400 * 730692556 = 400 * a + 100 * b + 4 * c + d - 400 * 730692556" by (simp add: d_def)
    ultimately show ?thesis
      unfolding year_start_def y by simp
  qed
  finally show ?thesis .
qed

lemma year_loop_spec:
  "year_loop d y = (y', d') \<Longrightarrow> year_start y' + d' = year_start y + d \<and> 0 \<le> d' \<and> d' < year_len y'"
proof (induction d y rule: year_loop.induct)
  case (1 d y)
  show ?case
  proof (cases "d < 0")
    case True
    with 1 year_start_Suc[of "y - 1"] show ?thesis by (simp add: year_loop.simps[of d y])
  next
    case nonneg: False
    show ?thesis
    proof (cases "d \<ge> year_len y")
      case True
      with nonneg 1 year_start_Suc[of y] show ?thesis by (simp add: year_loop.simps[of d y])
    next
      case False
      with nonneg 1 show ?thesis by (simp add: year_loop.simps[of d y])
    qed
  qed
qed

lemma year_len_pos: "365 \<le> year_len y" "year_len y \<le> 366"
  by (simp_all add: year_len_def)

lemma year_start_mono: "y \<le> z \<Longrightarrow> year_start y \<le> year_start z"
proof (induction z rule: int_ge_induct)
  case (step i)
  with year_start_Suc[of i] year_len_pos[of i] show ?case by linarith
qed simp

definition month_start :: "int \<Rightarrow> nat \<Rightarrow> int" where
  "month_start y m = days_before ! m + (if is_leap y \<and> 2 \<le> m then 1 else 0)"

lemma lt12: "(m :: nat) < 12 \<longleftrightarrow> m \<in> {0, 1, 2, 3, 4, 5, 6, 7, 8, 9, 10, 11}"
  by (simp only: insert_iff empty_iff) presburger

lemma month_start_Suc: "m < 12 \<Longrightarrow> month_start y (Suc m) = month_start y m + month_len y m"
  by (simp only: lt12 insert_iff empty_iff)
    (elim disjE; simp add: month_start_def month_len_def days_before_def)

lemma month_start_12: "month_start y 12 = year_len y"
  by (simp add: month_start_def year_len_def days_before_def)

lemma month_loop_spec:
  "k \<le> 12 \<Longrightarrow> month_loop y d [k..<12] = (m, d') \<Longrightarrow> 0 \<le> d \<Longrightarrow> d < year_len y - month_start y k \<Longrightarrow>
   m < 12 \<and> month_start y m + d' = month_start y k + d \<and> 0 \<le> d' \<and> d' < month_len y m"
proof (induction "12 - k" arbitrary: k d)
  case 0
  then have "k = 12" by simp
  with 0 month_start_12[of y] show ?case by simp
next
  case (Suc n)
  then have k: "k < 12" and up: "[k..<12] = k # [Suc k..<12]" by (simp_all add: upt_conv_Cons)
  show ?case
  proof (cases "d < month_len y k")
    case True
    with Suc.prems k up show ?thesis by auto
  next
    case False
    with Suc.prems up month_start_Suc[OF k, of y] Suc.hyps(2) k show ?thesis
      using Suc.hyps(1)[of "Suc k" "d - month_len y k"] by auto
  qed
qed

lemma month_index_YMON: "\<forall>m \<in> set [0..<12]. get_month_index (YMON ! m) = int m"
  by code_simp

lemma day_index_WDAY: "\<forall>m \<in> set [0..<7]. get_day_index (WDAY ! m) = int m"
  by code_simp

lemma names: "get_month_index ''Feb'' = 1" "get_month_index ''Mar'' = 2" "get_day_index ''Mon'' = 1"
  by code_simp+

lemma days_in_month_len: "m < 12 \<Longrightarrow> days_in (int m) y = month_len y m"
  unfolding days_in_def names lt12
  by (simp only: insert_iff empty_iff)
    (elim disjE; simp add: month_len_def days_before_def)


lemma sint_word_of_int_u64:
  assumes "0 \<le> A" "A < 2 ^ 64"
  shows "sint (word_of_int A :: u64) = (if A < 2 ^ 63 then A else A - 2 ^ 64)"
proof (cases "A < 2 ^ 63")
  case True
  with assms show ?thesis by (simp add: signed_of_int signed_take_bit_int_eq_self)
next
  case False
  have "take_bit (Suc 63) A = take_bit (Suc 63) (A - 2 ^ 64)"
    by (simp only: take_bit_eq_mod) (simp add: mod_diff_right_eq[symmetric])
  then have "signed_take_bit 63 A = signed_take_bit 63 (A - 2 ^ 64)"
    by (simp only: signed_take_bit_eq_iff_take_bit_eq)
  also have "\<dots> = A - 2 ^ 64"
    by (rule signed_take_bit_int_eq_self) (use assms False in simp_all)
  finally show ?thesis using False by (simp add: signed_of_int)
qed

lemma word_of_int_div_week:
  assumes "0 \<le> A" "A < 2 ^ 64 - 86400"
  shows "sint (((word_of_int A :: u64) + 86400) mod 604800 div 86400) = (A div 86400 + 1) mod 7"
proof -
  have r: "0 \<le> (A + 86400) mod 604800" "(A + 86400) mod 604800 < 604800" by simp_all
  have "((word_of_int A :: u64) + 86400) mod 604800 div 86400 = word_of_int ((A + 86400) mod 604800 div 86400)"
    using word_of_int_div(2)[of "A + 86400" 604800] word_of_int_div(1)[of "(A + 86400) mod 604800" 86400] r assms
    by simp
  moreover have "(A + 86400) mod 604800 div 86400 = (A div 86400 + 1) mod 7" 
  proof -
    have "(A + 86400) mod 604800 = 86400 * ((A + 86400) div 86400 mod 7) + (A + 86400) mod 86400"
      using zmod_zmult2_eq[of 7 "A + 86400" 86400] by simp
    then have "(A + 86400) mod 604800 div 86400 = (A + 86400) div 86400 mod 7"
      by (rule int_div_pos_eq) simp_all
    moreover have "(A + 86400) div 86400 = A div 86400 + 1" by (rule div_add_self2) simp
    ultimately show ?thesis by (simp only:)
  qed
  moreover have "0 \<le> q mod 7 \<and> q mod 7 < 7" for q :: int by simp
  note this[of "A div 86400 + 1"]
  ultimately show ?thesis using sint_word_of_int_u64[of "(A div 86400 + 1) mod 7"] by simp
qed

definition date_seconds :: "int \<Rightarrow> nat \<Rightarrow> int \<Rightarrow> int \<Rightarrow> int \<Rightarrow> int \<Rightarrow> int" where
  "date_seconds y m mday h mi s =
     (year_start y + month_start y m + mday - 1 - 719162) * 86400 + 3600 * h + 60 * mi + s"

lemma year_start_bounds:
  assumes "0 \<le> y" "y \<le> 9999"
  shows "-366 \<le> year_start y" "year_start y \<le> 3651694"
  using year_start_mono[OF assms(1)] year_start_mono[OF assms(2)] by (simp_all add: year_start_def)

lemma days_before_bounds: "m < 12 \<Longrightarrow> 0 \<le> days_before ! m \<and> days_before ! m \<le> 334"
  unfolding lt12 by (simp only: insert_iff empty_iff) (elim disjE; simp add: days_before_def)

lemma faster_mktime_eq:
  assumes "0 \<le> y" "y \<le> 9999" "m < 12" "1 \<le> mday" "mday \<le> 31" "0 \<le> h" "h < 24" "0 \<le> mi" "mi < 60"
    "0 \<le> s" "s < 60"
  defines "t \<equiv> date_seconds y m mday h mi s"
  shows "faster_mktime y (int m) mday h mi s dow =
    (if dow \<noteq> -1 \<and> dow \<noteq> (t div 86400 + 4) mod 7 then Inr (False, 0)
     else if t < 8139454208 then Inr (True, t) else Inl Undefined_behaviour)"
proof -
  define A where "A = t + 9223372028715321600"
  have A: "0 \<le> A" "A < 2 ^ 64 - 86400" "t < 2 ^ 40"
    using assms(1-11) year_start_bounds[OF assms(1,2)] days_before_bounds[OF assms(3)]
    by (auto simp: A_def t_def date_seconds_def month_start_def)
  have d: "(if is_leap y \<and> int m \<ge> 2 then x + 1 else x) = x + (if is_leap y \<and> 2 \<le> m then 1 else 0)" for x :: u64
    by simp
  have "(days_since_epoch y + word_of_int (days_before ! nat (int m)) + (if is_leap y \<and> 2 \<le> m then 1 else 0) +
       word_of_int (mday - 1)) * word_of_int seconds_per_day +
      word_of_int (h * seconds_per_hour + mi * seconds_per_minute + s) = word_of_int A"
    unfolding A_def t_def date_seconds_def days_since_epoch_eq[OF assms(1,2)] month_start_def time_consts
    by (simp add: algebra_simps)
  moreover have "(A div 86400 + 1) mod 7 = (t div 86400 + 4) mod 7"
  proof -
    have "A div 86400 = t div 86400 + 106751991073094"
      unfolding A_def using div_mult_self1[of 86400 t 106751991073094] by simp
    then show ?thesis using mod_mult_self1[of "t div 86400 + 4" 15250284439013 7] by simp
  qed
  moreover have "bind_outcome (int64_add (sint (word_of_int A :: u64)) (absolute_to_internal + internal_to_unix)) (\<lambda>t. Inr (True, t)) =
     (if t < 8139454208 then Inr (True, t) else Inl Undefined_behaviour)"
  proof -
    have "sint (word_of_int A :: u64) = (if A < 2 ^ 63 then A else A - 2 ^ 64)"
      by (rule sint_word_of_int_u64) (use A in simp_all)
    moreover have "absolute_to_internal + internal_to_unix = - 9223372028715321600" by (simp add: time_consts)
    moreover have "t = A - 9223372028715321600" by (simp add: A_def)
    ultimately show ?thesis using A by (cases "A < 2 ^ 63") (simp_all add: int64_add_def)
  qed
  ultimately show ?thesis
    unfolding faster_mktime_def Let_def names d
    using word_of_int_div_week[OF A(1,2)] by (simp add: time_consts)
qed


definition valid_date :: "int \<Rightarrow> nat \<Rightarrow> int \<Rightarrow> bool" where
  "valid_date y m d \<longleftrightarrow> m < 12 \<and> 1 \<le> d \<and> d \<le> month_len y m"

definition valid_time :: "int \<Rightarrow> int \<Rightarrow> int \<Rightarrow> bool" where
  "valid_time h mi s \<longleftrightarrow> 0 \<le> h \<and> h < 24 \<and> 0 \<le> mi \<and> mi < 60 \<and> 0 \<le> s \<and> s < 60"

definition tm_of :: "int \<Rightarrow> nat \<Rightarrow> int \<Rightarrow> int \<Rightarrow> int \<Rightarrow> int \<Rightarrow> tm" where
  "tm_of y m d h mi s =
     \<lparr>tm_year = y - 1900, tm_mon = int m, tm_mday = d, tm_hour = h, tm_min = mi, tm_sec = s,
      tm_wday = (date_seconds y m d h mi s div 86400 + 4) mod 7\<rparr>"

lemma gmtime_spec:
  obtains y m d h mi s where "valid_date y m d" "valid_time h mi s" "date_seconds y m d h mi s = t"
    "gmtime t = (if y - 1900 < - (2 ^ 31) \<or> y - 1900 \<ge> 2 ^ 31 then None else Some (tm_of y m d h mi s))"
proof -
  define D where "D = t div 86400"
  define S where "S = t mod 86400"
  define h mi sc where "h = S div 3600" and "mi = S div 60 mod 60" and "sc = S mod 60"
  obtain y yd where yl: "year_loop D 1970 = (y, yd)" by fastforce
  obtain m d where ml: "month_loop y yd [0..<12] = (m, d)" by fastforce
  note ys = year_loop_spec[OF yl]
  have ms: "m < 12 \<and> month_start y m + d = yd \<and> 0 \<le> d \<and> d < month_len y m"
    using month_loop_spec[OF _ ml] ys by (simp add: month_start_def days_before_def)
  have "year_start 1970 = 719162" by (simp add: year_start_def)
  moreover have "3600 * h + 60 * mi + sc = S"
  proof -
    have glue: "3600 * p + 60 * r + a = s" if "60 * q + a = s" "60 * p + r = q" for p q r a s :: int
      using that by simp
    have "S div 3600 = S div 60 div 60" using zdiv_zmult2_eq[of 60 S 60] by simp
    then show ?thesis unfolding h_def mi_def sc_def by (simp only: glue[OF mult_div_mod_eq mult_div_mod_eq])
  qed
  moreover have "86400 * D + S = t" unfolding D_def S_def by (rule mult_div_mod_eq)
  moreover have "year_start y + month_start y m + (d + 1) - 1 - 719162 = D"
    using ys ms calculation(1) by (elim conjE) linarith
  ultimately have secs: "date_seconds y m (d + 1) h mi sc = t"
    unfolding date_seconds_def by simp
  have "0 \<le> S" "S < 86400" by (simp_all add: S_def)
  then have h: "0 \<le> h" "h < 24" "0 \<le> mi" "mi < 60" "0 \<le> sc" "sc < 60"
    unfolding h_def mi_def sc_def by (auto simp: pos_imp_zdiv_nonneg_iff div_less_iff_less_mult)
  have "gmtime t = (if y - 1900 < - (2 ^ 31) \<or> y - 1900 \<ge> 2 ^ 31 then None
      else Some \<lparr>tm_year = y - 1900, tm_mon = int m, tm_mday = d + 1, tm_hour = h, tm_min = mi, tm_sec = sc,
        tm_wday = (D + 4) mod 7\<rparr>)"
    unfolding gmtime_def Let_def D_def[symmetric] S_def[symmetric] yl prod.case ml h_def mi_def sc_def
    by (rule refl)
  then have g: "gmtime t = (if y - 1900 < - (2 ^ 31) \<or> y - 1900 \<ge> 2 ^ 31 then None
      else Some (tm_of y m (d + 1) h mi sc))"
    unfolding tm_of_def secs D_def .
  have "valid_date y m (d + 1)" "valid_time h mi sc"
    using ms h by (simp_all add: valid_date_def valid_time_def)
  then show ?thesis using secs g by (rule that)
qed

section \<open>A date is determined by its seconds\<close>

lemma month_len_pos: "m < 12 \<Longrightarrow> 28 \<le> month_len y m \<and> month_len y m \<le> 31"
  unfolding lt12 by (simp only: insert_iff empty_iff) (elim disjE; simp add: month_len_def)

lemma month_start_mono: "m \<le> n \<Longrightarrow> n \<le> 12 \<Longrightarrow> month_start y m \<le> month_start y n"
proof (induction n rule: dec_induct)
  case (step n)
  with month_start_Suc[of n y] month_len_pos[of n y] show ?case by simp
qed simp

lemma day_number_inj:
  assumes "valid_date y m d" "valid_date y' m' d'"
    and eq: "year_start y + month_start y m + d = year_start y' + month_start y' m' + d'"
  shows "y = y' \<and> m = m' \<and> d = d'"
proof -
  have in_year: "month_start z n + e \<le> year_len z \<and> 1 \<le> month_start z n + e" if "valid_date z n e" for z n e
    using that month_start_Suc[of n z] month_start_mono[of "Suc n" 12 z] month_start_mono[of 0 n z]
    by (simp add: valid_date_def month_start_12) (simp add: month_start_def days_before_def)
  have "\<not> y < y'" if "valid_date y m d" "valid_date y' m' d'"
    "year_start y + month_start y m + d = year_start y' + month_start y' m' + d'" for y m d y' m' d'
    using in_year[OF that(1)] in_year[OF that(2)] that(3) year_start_mono[of "y + 1" y'] year_start_Suc[of y]
    by linarith
  from this[OF assms] this[OF assms(2,1) eq[symmetric]] have y: "y = y'" by simp
  have "\<not> m < m'" if "valid_date y m d" "valid_date y m' d'" "month_start y m + d = month_start y m' + d'" for m d m' d'
    using that month_start_Suc[of m y] month_start_mono[of "Suc m" m' y] by (auto simp: valid_date_def)
  from this[of m d m' d'] this[of m' d' m d] assms have "m = m'" by (simp add: y)
  with y eq show ?thesis by simp
qed

lemma mixed_radix:
  fixes s :: int
  assumes "valid_time h mi s"
  shows "(D * 86400 + 3600 * h + 60 * mi + s) div 86400 = D"
    and "valid_time h' mi' s' \<Longrightarrow> 3600 * h + 60 * mi + s = 3600 * h' + 60 * mi' + s' \<Longrightarrow>
      h = h' \<and> mi = mi' \<and> s = s'"
proof -
  show "(D * 86400 + 3600 * h + 60 * mi + s) div 86400 = D"
    by (rule int_div_pos_eq[of _ _ _ "3600 * h + 60 * mi + s"]) (use assms in \<open>auto simp: valid_time_def\<close>)
  assume "valid_time h' mi' s'" and eq: "3600 * h + 60 * mi + s = 3600 * h' + 60 * mi' + s'"
  with assms have v: "0 \<le> mi" "mi < 60" "0 \<le> s" "s < 60" "0 \<le> mi'" "mi' < 60" "0 \<le> s'" "s' < 60"
    by (simp_all add: valid_time_def)
  with eq have "h = h'" by linarith
  with eq v have "mi = mi'" by linarith
  with eq \<open>h = h'\<close> show "h = h' \<and> mi = mi' \<and> s = s'" by simp
qed

lemma date_seconds_inj:
  assumes "valid_date y m d" "valid_time h mi s" "valid_date y' m' d'" "valid_time h' mi' s'"
    and eq: "date_seconds y m d h mi s = date_seconds y' m' d' h' mi' s'"
  shows "y = y' \<and> m = m' \<and> d = d' \<and> h = h' \<and> mi = mi' \<and> s = s'"
proof -
  have "year_start y + month_start y m + d - 1 - 719162 = year_start y' + month_start y' m' + d' - 1 - 719162"
    using mixed_radix(1)[OF assms(2)] mixed_radix(1)[OF assms(4)] eq unfolding date_seconds_def by metis
  then have d: "y = y' \<and> m = m' \<and> d = d'" by (intro day_number_inj[OF assms(1,3)]) simp
  with eq mixed_radix(2)[OF assms(2,4)] show ?thesis by (simp add: date_seconds_def)
qed

lemma gmtime_date_seconds:
  assumes "valid_date y m d" "valid_time h mi s" "0 \<le> y" "y \<le> 9999"
  shows "gmtime (date_seconds y m d h mi s) = Some (tm_of y m d h mi s)"
proof -
  obtain y' m' d' h' mi' s' where g: "valid_date y' m' d'" "valid_time h' mi' s'"
    "date_seconds y' m' d' h' mi' s' = date_seconds y m d h mi s"
    "gmtime (date_seconds y m d h mi s) =
      (if y' - 1900 < - (2 ^ 31) \<or> y' - 1900 \<ge> 2 ^ 31 then None else Some (tm_of y' m' d' h' mi' s'))"
    by (rule gmtime_spec)
  from date_seconds_inj[OF g(1,2) assms(1,2) g(3)] g(4) assms show ?thesis by simp
qed

section \<open>The inverse of gmtime\<close>

text \<open>C20: For every time whose year has at most four digits, \<^verbatim>\<open>faster_mktime\<close> on the fields of
  \<^verbatim>\<open>gmtime\<close> accepts exactly the right day of the week (or none, -1) and gives the time back, up to
  6 December 2227, 15:30:07 UTC; from the next second on its last signed addition overflows.\<close>

theorem faster_mktime_inverts_gmtime:
  assumes "gmtime t = Some l" and "0 \<le> tm_year l + 1900" and "tm_year l + 1900 \<le> 9999"
  shows "faster_mktime (tm_year l + 1900) (tm_mon l) (tm_mday l) (tm_hour l) (tm_min l) (tm_sec l) dow =
    (if dow \<noteq> -1 \<and> dow \<noteq> tm_wday l then Inr (False, 0)
     else if t < 8139454208 then Inr (True, t) else Inl Undefined_behaviour)"
proof -
  obtain y m d h mi s where g: "valid_date y m d" "valid_time h mi s" "date_seconds y m d h mi s = t"
    "l = tm_of y m d h mi s"
    using gmtime_spec[of t] assms(1) by (metis option.distinct(1) option.inject)
  with month_len_pos[of m y] assms(2,3) show ?thesis
    using faster_mktime_eq[of y m d h mi s dow] by (simp add: tm_of_def valid_date_def valid_time_def)
qed

theorem faster_mktime_inverts_gmtime_witness:
  "faster_mktime 2006 0 2 15 4 5 1 = Inr (True, 1136214245)"
proof -
  have g: "gmtime 1136214245 = Some (tm_of 2006 0 2 15 4 5)"
    using gmtime_date_seconds[of 2006 0 2 15 4 5]
    by (simp add: valid_date_def valid_time_def month_len_def date_seconds_def year_start_def month_start_def
        days_before_def)
  show ?thesis
    using faster_mktime_inverts_gmtime[OF g, of 1]
    by (simp add: tm_of_def date_seconds_def year_start_def month_start_def days_before_def)
qed

end
