(* ===== verification/Time_Props.thy ===== *)
theory Time_Props
  imports Time_Calendar
begin

text \<open>
  Formatting and parsing: the exact string \<^verbatim>\<open>get_gmt_time_str\<close> writes, the parser on a string of 29
  characters as one condition on its parts, and from both the round trip and the soundness of the
  parser.
\<close>


section \<open>Digits\<close>

definition dg :: "int \<Rightarrow> char" where
  "dg n = digits ! nat n"

definition digit_value :: "char \<Rightarrow> int" where
  "digit_value c = char_int c - 48"

lemma char_zero_nine: "char_int CHR ''0'' = 48" "char_int CHR ''9'' = 57"
  by (simp_all add: char_int_def)

lemma is_digit_dg: "0 \<le> n \<Longrightarrow> n < 10 \<Longrightarrow> is_digit (dg n) \<and> digit_value (dg n) = n"
proof -
  assume n: "0 \<le> n" "n < 10"
  have "\<forall>k \<in> set [0..<10]. is_digit (digits ! k) \<and> digit_value (digits ! k) = int k" by code_simp
  then have "is_digit (digits ! nat n) \<and> digit_value (digits ! nat n) = int (nat n)" using n by auto
  with n show ?thesis by (simp add: dg_def)
qed

lemma digit_value_range: "is_digit c \<Longrightarrow> 0 \<le> digit_value c \<and> digit_value c < 10"
  by (auto simp: is_digit_def digit_value_def char_zero_nine)

lemma dg_digit_value: "is_digit c \<Longrightarrow> dg (digit_value c) = c"
proof -
  have *: "0 \<le> (of_char x :: int) \<and> (of_char x :: int) < 256" for x
    using pos_mod_sign[of 256 "of_char x :: int"] pos_mod_bound[of 256 "of_char x :: int"] by simp
  assume d: "is_digit c"
  from is_digit_dg[of "digit_value c"] digit_value_range[OF d]
  have "char_int (dg (digit_value c)) = char_int c" by (simp add: digit_value_def)
  then have "(of_char (dg (digit_value c)) :: int) = of_char c"
    using *[of c] *[of "dg (digit_value c)"]
    by (auto simp: char_int_def Let_def split: if_splits)
  then show ?thesis by (simp add: of_char_eq_iff)
qed

lemma get_digit_2: "get_digit [a, b] 2 =
    (if is_digit a \<and> is_digit b then digit_value a * 10 + digit_value b else -1)"
  by (simp add: get_digit_def numeral_2_eq_2 is_digit_def digit_value_def char_zero_nine)

lemma get_digit_4: "get_digit [a, b, c, d] 4 =
    (if is_digit a \<and> is_digit b \<and> is_digit c \<and> is_digit d
     then ((digit_value a * 10 + digit_value b) * 10 + digit_value c) * 10 + digit_value d else -1)"
  by (simp add: get_digit_def eval_nat_numeral is_digit_def digit_value_def char_zero_nine)

definition d2 :: "int \<Rightarrow> string" where
  "d2 n = [dg (n div 10), dg (n mod 10)]"

definition d4 :: "int \<Rightarrow> string" where
  "d4 n = [dg (n div 10 div 10 div 10), dg (n div 10 div 10 mod 10), dg (n div 10 mod 10), dg (n mod 10)]"

lemma to_int_loop_Suc:
  assumes "0 \<le> num"
  shows "to_int_loop (Suc n) num p = to_int_loop n (num div 10) (dg (num mod 10) # p)"
proof -
  have "num sdiv 10 = num div 10" "num smod 10 = num mod 10"
    using assms by (simp_all add: signed_divide_int_def signed_modulo_int_def sgn_if minus_div_mult_eq_mod)
  moreover have "\<not> num mod 10 < 0" by (simp add: not_less)
  ultimately show ?thesis by (simp only: to_int_loop.simps dg_def if_False)
qed

lemma div_10_nonneg: "0 \<le> (n :: int) \<Longrightarrow> 0 \<le> n div 10"
  by (simp add: pos_imp_zdiv_nonneg_iff)

lemma small_mod_10: "0 \<le> (n :: int) \<Longrightarrow> n < 10 \<Longrightarrow> n mod 10 = n"
  by (rule mod_pos_pos_trivial)

lemma to_int_2: "0 \<le> n \<Longrightarrow> n < 100 \<Longrightarrow> to_int 2 n c = Inr (d2 n @ [c])"
  using small_mod_10[of "n div 10"]
  by (simp only: to_int_def numeral_2_eq_2 to_int_loop_Suc div_10_nonneg to_int_loop.simps(1) d2_def append.simps)

lemma to_int_4: 
  assumes "0 \<le> n" "n < 10000" shows "to_int 4 n c = Inr (d4 n @ [c])"
proof -
  have "n div 10 < 1000" "m < 1000 \<Longrightarrow> m div 10 < 100" "m < 100 \<Longrightarrow> m div 10 < 10" for m :: int
    using assms by linarith+
  from small_mod_10[of "n div 10 div 10 div 10"] this(3)[OF this(2)[OF this(1)]] assms
  show ?thesis
    by (simp only: to_int_def eval_nat_numeral BitM.simps to_int_loop_Suc div_10_nonneg to_int_loop.simps(1) d4_def append.simps)
qed

section \<open>The formatted string\<close>

definition gmt_string :: "int \<Rightarrow> nat \<Rightarrow> int \<Rightarrow> int \<Rightarrow> int \<Rightarrow> int \<Rightarrow> nat \<Rightarrow> string" where
  "gmt_string y m d h mi s w =
     WDAY ! w @ '', '' @ d2 d @ '' '' @ YMON ! m @ '' '' @ d4 y @ '' '' @ d2 h @ '':'' @ d2 mi @ '':'' @
     d2 s @ '' GMT''"

lemma name_lengths: "\<forall>w \<in> set [0..<7]. length (WDAY ! w) = 3" "\<forall>m \<in> set [0..<12]. length (YMON ! m) = 3"
  by code_simp+

lemma length_3: "length xs = 3 \<longleftrightarrow> (\<exists>a b c. xs = [a, b, c])"
  by (auto simp: numeral_3_eq_3 length_Suc_conv)

lemma length_d2 [simp]: "length (d2 n) = 2" and length_d4 [simp]: "length (d4 n) = 4"
  by (simp_all add: d2_def d4_def)

lemma buf_write_simp: "length buf + length xs \<le> N \<Longrightarrow> buf_write N buf xs = Inr (buf @ xs)"
  by (simp add: buf_write_def)

lemma convert_fields:
  assumes "valid_date y m d" "valid_time h mi s" "0 \<le> y" "y \<le> 9999" "0 \<le> off" "off \<le> 8"
  defines "l \<equiv> tm_of y m d h mi s"
  shows "convert_field off l CHR ''Y'' c = Inr (d4 y @ [c])"
    "convert_field off l CHR ''m'' c = Inr (d2 (int m + 1) @ [c])"
    "convert_field off l CHR ''d'' c = Inr (d2 d @ [c])"
    "convert_field off l CHR ''H'' c = Inr (d2 (h + off) @ [c])"
    "convert_field off l CHR ''M'' c = Inr (d2 mi @ [c])"
    "convert_field off l CHR ''S'' c = Inr (d2 s @ [c])"
    "convert_field off l CHR ''a'' c = Inr (WDAY ! nat ((date_seconds y m d h mi s div 86400 + 4) mod 7) @ [c, CHR '' ''])"
    "convert_field off l CHR ''b'' c = Inr (YMON ! m @ [c])"
  using assms month_len_pos[of m y]
  by (simp_all add: convert_field_def tm_of_def valid_date_def valid_time_def to_int_2 to_int_4)

lemma get_gmt_time_str_eq:
  assumes "valid_date y m d" "valid_time h mi s" "0 \<le> y" "y \<le> 9999"
    and "29 \<le> N" and "t = date_seconds y m d h mi s"
  shows "get_gmt_time_str N t = Inr (gmt_string y m d h mi s (nat ((t div 86400 + 4) mod 7)))"
proof -
  define w where "w = nat ((t div 86400 + 4) mod 7)"
  have "0 \<le> (t div 86400 + 4) mod 7" "(t div 86400 + 4) mod 7 < 7" by simp_all
  then have "w < 7" unfolding w_def by linarith
  with name_lengths have len: "length (WDAY ! w) = 3" "length (YMON ! m) = 3"
    using assms(1) by (auto simp: valid_date_def)
  have g: "gmtime t = Some (tm_of y m d h mi s)"
    using gmtime_date_seconds[OF assms(1-4)] assms(6) by simp
  note cf = convert_fields[OF assms(1-4), of 0, simplified, folded assms(6), folded w_def]
  show ?thesis
    unfolding get_gmt_time_str_def get_local_time_str_def g option.case w_def[symmetric]
    using len assms(5) by (simp add: cf buf_write_simp butlast_append gmt_string_def)
qed

lemma get_local_time_str_eq:
  assumes "valid_date y m d" "valid_time h mi s" "0 \<le> y" "y \<le> 9999"
    and "20 \<le> N" and "t = date_seconds y m d h mi s"
  shows "get_local_time_str 8 N t ''%Y-%m-%d %H:%M:%S'' =
    Inr (d4 y @ ''-'' @ d2 (int m + 1) @ ''-'' @ d2 d @ '' '' @ d2 (h + 8) @ '':'' @ d2 mi @ '':'' @ d2 s)"
proof -
  have g: "gmtime t = Some (tm_of y m d h mi s)"
    using gmtime_date_seconds[OF assms(1-4)] assms(6) by simp
  note cf = convert_fields[OF assms(1-4), of 8, simplified]
  show ?thesis
    unfolding get_local_time_str_def g option.case
    using assms(5) by (simp add: cf buf_write_simp butlast_append)
qed

section \<open>Parsing\<close>

lemma div_10_range: "0 \<le> (n :: int) \<Longrightarrow> n < 10 * k \<Longrightarrow> 0 \<le> n div 10 \<and> n div 10 < k"
  by (simp add: pos_imp_zdiv_nonneg_iff div_less_iff_less_mult mult.commute)

lemma mod_10_range: "0 \<le> (n :: int) mod 10 \<and> n mod 10 < 10"
  by simp

lemma get_digit_d2:
  assumes "0 \<le> n" "n < 100"
  shows "get_digit (d2 n) 2 = n"
proof -
  have "0 \<le> n div 10 \<and> n div 10 < 10" using div_10_range[of n 10] assms by simp
  with is_digit_dg[of "n div 10"] is_digit_dg[of "n mod 10"] mod_10_range[of n] show ?thesis
    unfolding d2_def get_digit_2 by (simp add: div_mult_mod_eq)
qed

lemma get_digit_d4:
  assumes "0 \<le> n" "n < 10000"
  shows "get_digit (d4 n) 4 = n"
proof -
  define a b c where "a = n div 10" and "b = a div 10" and "c = b div 10"
  have "0 \<le> a \<and> a < 1000" unfolding a_def using div_10_range[of n 1000] assms by simp
  then have "0 \<le> b \<and> b < 100" unfolding b_def using div_10_range[of a 100] by simp
  then have "0 \<le> c \<and> c < 10" unfolding c_def using div_10_range[of b 10] by simp
  moreover have "c * 10 + b mod 10 = b" "b * 10 + a mod 10 = a" "a * 10 + n mod 10 = n"
    unfolding a_def b_def c_def by (rule div_mult_mod_eq)+
  ultimately show ?thesis
    using is_digit_dg[of c] is_digit_dg[of "b mod 10"] is_digit_dg[of "a mod 10"] is_digit_dg[of "n mod 10"]
      mod_10_range
    unfolding d4_def a_def[symmetric] b_def[symmetric] c_def[symmetric] get_digit_4 by simp
qed

lemma component_loop_http:
  "component_loop [c0, c1, c2, c3, c4, c5, c6, c7, c8, c9, c10, c11, c12, c13, c14, c15, c16, c17, c18, c19, c20,
     c21, c22, c23, c24, c25, c26, c27, c28] http_time_format (timestamp_init http_format) =
   (let w = get_day_index [c0, c1, c2]; d = get_digit [c5, c6] 2; m = get_month_index [c8, c9, c10];
        y = get_digit [c12, c13, c14, c15] 4; h = get_digit [c17, c18] 2; mi = get_digit [c20, c21] 2;
        s = get_digit [c23, c24] 2
    in if 0 \<le> w \<and> c3 = CHR '','' \<and> c4 = CHR '' '' \<and> d \<noteq> -1 \<and> c7 = CHR '' '' \<and> m \<noteq> -1 \<and> c11 = CHR '' '' \<and>
          y \<noteq> -1 \<and> c16 = CHR '' '' \<and> valid_time h mi s \<and> c19 = CHR '':'' \<and> c22 = CHR '':'' \<and> c25 = CHR '' '' \<and>
          [c26, c27, c28] = ''GMT''
       then Some \<lparr>ts_year = Some y, ts_month = Some m, ts_day = Some d, ts_hour = Some h, ts_min = Some mi,
              ts_sec = Some s, ts_day_of_week = Some w, len_of_processed_part = 29, len_of_ignored_part = 0\<rparr>
       else None)"
  unfolding Let_def http_time_format_def timestamp_init_def
  by (simp add: component_step_def substr_def store_digit_def valid_time_def Let_def not_less not_le)

lemma gmt_string_list:
  assumes "w < 7" "m < 12"
  obtains a b c a' b' c' where "WDAY ! w = [a, b, c]" "YMON ! m = [a', b', c']"
    "get_day_index [a, b, c] = int w" "get_month_index [a', b', c'] = int m"
proof -
  have "length (WDAY ! w) = 3" "length (YMON ! m) = 3" "get_day_index (WDAY ! w) = int w"
    "get_month_index (YMON ! m) = int m"
    using name_lengths day_index_WDAY month_index_YMON assms by auto
  with that show ?thesis unfolding length_3 by metis
qed

lemma component_loop_gmt:
  assumes "w < 7" "valid_date y m d" "valid_time h mi s" "0 \<le> y" "y \<le> 9999"
  shows "component_loop (gmt_string y m d h mi s w) http_time_format (timestamp_init http_format) =
    Some \<lparr>ts_year = Some y, ts_month = Some (int m), ts_day = Some d, ts_hour = Some h, ts_min = Some mi,
      ts_sec = Some s, ts_day_of_week = Some (int w), len_of_processed_part = 29, len_of_ignored_part = 0\<rparr>"
proof -
  from assms month_len_pos[of m y] have r: "m < 12" "0 \<le> d" "d < 100" "0 \<le> h" "h < 100" "0 \<le> mi" "mi < 100" "0 \<le> s" "s < 100" 
    by (simp_all add: valid_date_def valid_time_def)
  obtain a b c a' b' c' where n: "WDAY ! w = [a, b, c]" "YMON ! m = [a', b', c']"
    "get_day_index [a, b, c] = int w" "get_month_index [a', b', c'] = int m"
    by (rule gmt_string_list[OF assms(1) r(1)])
  have dig: "get_digit [dg (n div 10), dg (n mod 10)] 2 = n" if "0 \<le> n" "n < 100" for n
    using get_digit_d2[OF that] by (simp only: d2_def)
  have y: "get_digit [dg (y div 10 div 10 div 10), dg (y div 10 div 10 mod 10), dg (y div 10 mod 10), dg (y mod 10)] 4 = y"
    using get_digit_d4[of y] assms(4,5) by (simp add: d4_def)
  have ne: "x \<noteq> -1" if "0 \<le> x" for x :: int using that by simp
  show ?thesis
    unfolding gmt_string_def n(1,2) d2_def d4_def append.simps component_loop_http Let_def y dig[OF r(2,3)] dig[OF r(4,5)]
      dig[OF r(6,7)] dig[OF r(8,9)] n(3,4)
    using assms(3) ne[OF assms(4)] ne[OF r(2)] ne[of "int m"] by simp
qed

lemma year_range:
  assumes "valid_date y m d" "valid_time h mi s" "date_seconds y m d h mi s = t" "0 \<le> t" "t < 253402300800"
  shows "1970 \<le> y \<and> y \<le> 9999"
proof -
  define D where "D = year_start y + month_start y m + d - 1 - 719162"
  have m: "m < 12" "1 \<le> d" "d \<le> month_len y m" using assms(1) by (simp_all add: valid_date_def)
  have "D = t div 86400" using mixed_radix(1)[OF assms(2), of D] assms(3) by (simp add: date_seconds_def D_def)
  then have D: "0 \<le> D" "D < 2932897"
    using assms(4,5) by (simp_all add: pos_imp_zdiv_nonneg_iff div_less_iff_less_mult)
  have "0 \<le> month_start y m" "month_start y m + d \<le> year_len y"
    using month_start_mono[of 0 m y] month_start_Suc[OF m(1), of y] month_start_mono[of "Suc m" 12 y] m
    by (simp_all add: month_start_12) (simp add: month_start_def days_before_def)
  moreover have "year_start 1970 = 719162" "year_start 10000 = 3652059" by (simp_all add: year_start_def)
  ultimately show ?thesis
    using D m(2) year_start_mono[of "y + 1" 1970] year_start_Suc[of y] year_start_mono[of 10000 y]
    unfolding D_def by linarith
qed

lemma length_gmt_string: "w < 7 \<Longrightarrow> m < 12 \<Longrightarrow> length (gmt_string y m d h mi s w) = 29"
  using name_lengths by (auto simp: gmt_string_def)

lemma travel_done_http:
  assumes "length sv = 29" "valid_date y m d" "valid_time h mi s" "0 \<le> y" "y \<le> 9999"
  shows "travel_done sv \<lparr>ts_year = Some y, ts_month = Some (int m), ts_day = Some d, ts_hour = Some h, ts_min = Some mi,
      ts_sec = Some s, ts_day_of_week = Some w, len_of_processed_part = 29, len_of_ignored_part = 0\<rparr> =
    faster_mktime y (int m) d h mi s w"
  using assms days_in_month_len[of m y]
  by (simp add: travel_done_def Let_def len_of_http_time_format_def valid_date_def)

text \<open>C23: Every time from 1970 to 9999 formatted by \<^verbatim>\<open>get_gmt_time_str\<close> is read back by
  \<^verbatim>\<open>get_timestamp\<close> as the same time, up to 6 December 2227, 15:30:07 UTC; every later string makes
  its 64-bit arithmetic overflow.\<close>

theorem http_time_roundtrip:
  assumes "0 \<le> t" and "t < 253402300800" and "29 \<le> N"
  shows "bind_outcome (get_gmt_time_str N t) (get_timestamp http_format) =
    (if t < 8139454208 then Inr (True, t) else Inl Undefined_behaviour)"
proof -
  obtain y m d h mi s where g: "valid_date y m d" "valid_time h mi s" "date_seconds y m d h mi s = t"
    by (rule gmtime_spec)
  have "m < 12" "1 \<le> d" using g(1) by (simp_all add: valid_date_def)
  have y: "0 \<le> y" "y \<le> 9999"
    using year_range[OF g assms(1,2)] by simp_all
  define w where "w = nat ((t div 86400 + 4) mod 7)"
  have w: "0 \<le> (t div 86400 + 4) mod 7" "(t div 86400 + 4) mod 7 < 7" by simp_all
  then have "w < 7" and iw: "int w = (t div 86400 + 4) mod 7" unfolding w_def by linarith+
  have "get_gmt_time_str N t = Inr (gmt_string y m d h mi s w)"
    using get_gmt_time_str_eq[OF g(1,2) y assms(3) g(3)[symmetric]] by (simp only: w_def)
  moreover have "get_timestamp http_format (gmt_string y m d h mi s w) = faster_mktime y (int m) d h mi s (int w)"
    unfolding get_timestamp_def get_format.simps component_loop_gmt[OF \<open>w < 7\<close> g(1,2) y] option.case
    by (rule travel_done_http[OF length_gmt_string[OF \<open>w < 7\<close> \<open>m < 12\<close>] g(1,2) y])
  moreover have "\<dots> = (if t < 8139454208 then Inr (True, t) else Inl Undefined_behaviour)"
    using faster_mktime_eq[of y m d h mi s "int w"] g y month_len_pos[of m y] iw
    by (simp add: valid_date_def valid_time_def)
  ultimately show ?thesis by simp
qed
theorem http_time_roundtrip_witness:
  "bind_outcome (get_gmt_time_str 32 1136214245) (get_timestamp http_format) = Inr (True, 1136214245)"
  using http_time_roundtrip[of 1136214245 32] by simp

end
