(* ===== verification/Coro_Mutex.thy ===== *)
theory Coro_Mutex
  imports Prelude
begin

text \<open>
  The asynchronous mutex of \<^verbatim>\<open>src/coro/Mutex.h\<close>: an atomic pointer that is the mutex itself
  (unlocked), null (locked), or the head of a linked list of newly queued awaiters in LIFO order, and
  the holder's own FIFO list \<^verbatim>\<open>waiters_\<close>. Awaiters live in a heap and are named by numbers; each task
  has one awaiter, with the task's number. A step of a task is one access to the atomic pointer
  with the local code that follows it; the steps of all tasks interleave in any order.
\<close>

section \<open>State\<close>

datatype mutex_state = unlockedState | Awaiters "nat option"

text \<open>Where a task stands: in no call, in \<^verbatim>\<open>lockAsyncImpl\<close>, suspended, holding, or in \<^verbatim>\<open>unlock\<close>.\<close>

datatype mutex_pc =
    M_idle
  | M_load
  | M_loop mutex_state
  | M_suspended
  | M_holding
  | M_unlock_cas
  | M_unlock_exchange
  | M_assert_failed

record Mutex =
  m_state :: mutex_state
  m_waiters :: "nat option"
  m_next :: "nat \<Rightarrow> nat option"
  m_pc :: "nat \<Rightarrow> mutex_pc"

definition Mutex_new :: Mutex where
  "Mutex_new =
     \<lparr>m_state = unlockedState, m_waiters = None, m_next = (\<lambda>_. None), m_pc = (\<lambda>_. M_idle)\<rparr>"

definition Mutex_destroy_ok :: "Mutex \<Rightarrow> bool" where
  "Mutex_destroy_ok m \<longleftrightarrow>
     (m_state m = unlockedState \<or> m_state m = Awaiters None) \<and> m_waiters m = None"

definition compare_exchange :: "mutex_state \<Rightarrow> mutex_state \<Rightarrow> Mutex \<Rightarrow> (bool \<times> Mutex)" where
  "compare_exchange oldValue newValue m =
     (if m_state m = oldValue then (True, m\<lparr>m_state := newValue\<rparr>) else (False, m))"

section \<open>Locking\<close>

definition Mutex_tryLock :: "Mutex \<Rightarrow> bool \<times> Mutex" where
  "Mutex_tryLock m = compare_exchange unlockedState (Awaiters None) m"

abbreviation set_pc :: "nat \<Rightarrow> mutex_pc \<Rightarrow> Mutex \<Rightarrow> Mutex" where
  "set_pc i pc m \<equiv> m\<lparr>m_pc := (m_pc m)(i := pc)\<rparr>"

text \<open>\<^verbatim>\<open>await_ready\<close> tries; a failure goes on to \<^verbatim>\<open>await_suspend\<close> and \<^verbatim>\<open>lockAsyncImpl\<close>.\<close>

definition LockAwaiter_await_ready :: "nat \<Rightarrow> Mutex \<Rightarrow> Mutex" where
  "LockAwaiter_await_ready i m =
     (let (ok, m') = Mutex_tryLock m in set_pc i (if ok then M_holding else M_load) m')"

text \<open>One turn of the loop of \<^verbatim>\<open>lockAsyncImpl\<close>; a failed exchange reloads the old value.\<close>

definition lockAsyncImpl_turn :: "nat \<Rightarrow> mutex_state \<Rightarrow> Mutex \<Rightarrow> Mutex" where
  "lockAsyncImpl_turn i oldValue m =
     (case oldValue of
        unlockedState \<Rightarrow>
          (let (ok, m') = compare_exchange oldValue (Awaiters None) m
           in set_pc i (if ok then M_holding else M_loop (m_state m)) m')
      | Awaiters p \<Rightarrow>
          (let m = m\<lparr>m_next := (m_next m)(i := p)\<rparr>;
               (ok, m') = compare_exchange oldValue (Awaiters (Some i)) m
           in set_pc i (if ok then M_suspended else M_loop (m_state m)) m'))"

section \<open>Unlocking\<close>

text \<open>
  The do-while loop that reverses the queued awaiters in front of \<^verbatim>\<open>waitersHead\<close>; on a cyclic list
  it would not end.
\<close>

partial_function (option) reverse_waiters ::
    "(nat \<Rightarrow> nat option) \<Rightarrow> nat \<Rightarrow> nat option \<Rightarrow> ((nat \<Rightarrow> nat option) \<times> nat) option" where
  "reverse_waiters nxt waiter waitersHead =
     (let temp = nxt waiter; next' = nxt(waiter := waitersHead)
      in case temp of
           None \<Rightarrow> Some (next', waiter)
         | Some w \<Rightarrow> reverse_waiters next' w (Some waiter))"

text \<open>The end of \<^verbatim>\<open>unlock\<close>: the first waiter becomes the holder and runs.\<close>

definition resume_head :: "nat \<Rightarrow> nat \<Rightarrow> Mutex \<Rightarrow> Mutex" where
  "resume_head i waitersHead m =
     (let m' = m\<lparr>m_waiters := m_next m waitersHead\<rparr>
      in m'\<lparr>m_pc := (m_pc m')(i := M_idle, waitersHead := M_holding)\<rparr>)"

definition unlock_start :: "nat \<Rightarrow> Mutex \<Rightarrow> Mutex" where
  "unlock_start i m =
     (if m_state m = unlockedState then set_pc i M_assert_failed m
      else case m_waiters m of
             Some waitersHead \<Rightarrow> resume_head i waitersHead m
           | None \<Rightarrow>
               if m_state m = Awaiters None then set_pc i M_unlock_cas m
               else set_pc i M_unlock_exchange m)"

definition unlock_cas :: "nat \<Rightarrow> Mutex \<Rightarrow> Mutex" where
  "unlock_cas i m =
     (let (releasedLock, m') = compare_exchange (Awaiters None) unlockedState m
      in set_pc i (if releasedLock then M_idle else M_unlock_exchange) m')"

text \<open>\<open>None\<close> is a reversal that does not end.\<close>

definition unlock_exchange :: "nat \<Rightarrow> Mutex \<Rightarrow> Mutex option" where
  "unlock_exchange i m =
     (let currentState = m_state m; m = m\<lparr>m_state := Awaiters None\<rparr>
      in case currentState of
           Awaiters (Some waiter) \<Rightarrow>
             map_option (\<lambda>(next', waitersHead). resume_head i waitersHead (m\<lparr>m_next := next'\<rparr>))
               (reverse_waiters (m_next m) waiter (m_waiters m))
         | _ \<Rightarrow> Some (set_pc i M_assert_failed m))"

section \<open>A step of a task\<close>

text \<open>
  What a task that is in no call, or holds the mutex, does next is its own choice: \<open>Try\<close> is
  \<^verbatim>\<open>tryLock\<close>, \<open>Lock\<close> is \<^verbatim>\<open>co_await coLock()\<close> or \<^verbatim>\<open>coScopedLock()\<close>, \<open>Go\<close> continues or calls \<^verbatim>\<open>unlock\<close>.
\<close>

datatype mutex_op = Try | Lock | Go

definition mutex_step :: "mutex_op \<Rightarrow> nat \<Rightarrow> Mutex \<Rightarrow> Mutex option" where
  "mutex_step op i m =
     (case m_pc m i of
        M_idle \<Rightarrow>
          (case op of
             Try \<Rightarrow> Some (let (ok, m') = Mutex_tryLock m in set_pc i (if ok then M_holding else M_idle) m')
           | Lock \<Rightarrow> Some (LockAwaiter_await_ready i m)
           | Go \<Rightarrow> None)
      | M_load \<Rightarrow> Some (set_pc i (M_loop (m_state m)) m)
      | M_loop oldValue \<Rightarrow> Some (lockAsyncImpl_turn i oldValue m)
      | M_holding \<Rightarrow> Some (unlock_start i m)
      | M_unlock_cas \<Rightarrow> Some (unlock_cas i m)
      | M_unlock_exchange \<Rightarrow> unlock_exchange i m
      | M_suspended \<Rightarrow> None
      | M_assert_failed \<Rightarrow> None)"

inductive mutex_reachable :: "Mutex \<Rightarrow> bool" where
  mutex_start: "mutex_reachable Mutex_new"
| mutex_next: "mutex_reachable m \<Longrightarrow> mutex_step op i m = Some m' \<Longrightarrow> mutex_reachable m'"

section \<open>What the mutex promises\<close>

text \<open>A lock with a queue: the tasks that wait, in the order they queued.\<close>

record fifo_lock =
  holder :: "nat option"
  queued :: "nat list"

inductive fifo_step :: "fifo_lock \<Rightarrow> fifo_lock \<Rightarrow> bool" where
  fifo_acquire: "fifo_step \<lparr>holder = None, queued = []\<rparr> \<lparr>holder = Some i, queued = []\<rparr>"
| fifo_enqueue: "fifo_step \<lparr>holder = Some h, queued = q\<rparr> \<lparr>holder = Some h, queued = q @ [i]\<rparr>"
| fifo_release: "fifo_step \<lparr>holder = Some h, queued = []\<rparr> \<lparr>holder = None, queued = []\<rparr>"
| fifo_handover: "fifo_step \<lparr>holder = Some h, queued = i # q\<rparr> \<lparr>holder = Some i, queued = q\<rparr>"

inductive_cases fifo_step_cases: "fifo_step a b"

end
