(* ===== verification/Coro_Mutex_Props.thy ===== *)
theory Coro_Mutex_Props
  imports Coro_Mutex
begin

text \<open>
  The mutex implements a FIFO lock: the lists in the heap represent the queue, every step of a task is
  a step of the lock or changes nothing it shows, and the assertions of the code hold.
\<close>

section \<open>Linked lists\<close>

fun is_list :: "(nat \<Rightarrow> nat option) \<Rightarrow> nat option \<Rightarrow> nat list \<Rightarrow> bool" where
  "is_list nx p [] \<longleftrightarrow> p = None"
| "is_list nx p (x # xs) \<longleftrightarrow> p = Some x \<and> is_list nx (nx x) xs"

lemma is_list_upd [simp]: "i \<notin> set xs \<Longrightarrow> is_list (nx(i := v)) p xs = is_list nx p xs"
  by (induction xs arbitrary: p) auto

lemma is_list_None [simp]: "is_list nx None xs \<longleftrightarrow> xs = []"
  by (cases xs) auto

lemma is_list_Some: "is_list nx (Some x) xs \<longleftrightarrow> (\<exists>ys. xs = x # ys \<and> is_list nx (nx x) ys)"
  by (cases xs) auto

lemma reverse_waiters_list:
  "is_list nx (Some w) xs \<Longrightarrow> is_list nx hd0 ys \<Longrightarrow> distinct (xs @ ys) \<Longrightarrow>
   \<exists>nx' h. reverse_waiters nx w hd0 = Some (nx', h) \<and> is_list nx' (Some h) (rev xs @ ys) \<and>
     (\<forall>i. i \<notin> set xs \<longrightarrow> nx' i = nx i)"
proof (induction xs arbitrary: nx w hd0 ys)
  case (Cons x xs)
  then have x: "x = w" "is_list nx (nx w) xs" by auto
  show ?case
  proof (cases "nx w")
    case None
    with x Cons.prems show ?thesis by (subst reverse_waiters.simps) (simp add: Let_def)
  next
    case (Some w')
    let ?nx = "nx(w := hd0)"
    have "is_list ?nx (Some w') xs" "is_list ?nx (Some w) (w # ys)" "distinct (xs @ (w # ys))"
      using x Some Cons.prems by auto
    from Cons.IH[OF this] obtain nx' h where
      "reverse_waiters ?nx w' (Some w) = Some (nx', h)" "is_list nx' (Some h) (rev xs @ w # ys)"
      "\<forall>i. i \<notin> set xs \<longrightarrow> nx' i = ?nx i" by blast
    with x Some show ?thesis by (subst reverse_waiters.simps) (auto simp: Let_def)
  qed
qed simp

section \<open>The representation\<close>

definition holds :: "mutex_pc \<Rightarrow> bool" where
  "holds pc \<longleftrightarrow> pc \<in> {M_holding, M_unlock_cas, M_unlock_exchange}"

definition lists_rep :: "Mutex \<Rightarrow> nat list \<Rightarrow> nat list \<Rightarrow> bool" where
  "lists_rep m ws ls \<longleftrightarrow>
     is_list (m_next m) (m_waiters m) ws \<and>
     (case m_state m of unlockedState \<Rightarrow> ws = [] \<and> ls = [] | Awaiters p \<Rightarrow> is_list (m_next m) p ls) \<and>
     distinct (ws @ ls) \<and> (\<forall>i. m_pc m i = M_suspended \<longleftrightarrow> i \<in> set (ws @ ls))"

definition pcs_rep :: "Mutex \<Rightarrow> nat option \<Rightarrow> bool" where
  "pcs_rep m h \<longleftrightarrow>
     (h = None \<longleftrightarrow> m_state m = unlockedState) \<and>
     (\<forall>i. holds (m_pc m i) \<longleftrightarrow> h = Some i) \<and>
     (\<forall>i. m_pc m i = M_unlock_cas \<longrightarrow> m_waiters m = None) \<and>
     (\<forall>i. m_pc m i = M_unlock_exchange \<longrightarrow> m_waiters m = None \<and> m_state m \<noteq> Awaiters None) \<and>
     (\<forall>i. m_pc m i \<noteq> M_assert_failed)"

definition mutex_rep :: "Mutex \<Rightarrow> fifo_lock \<Rightarrow> bool" where
  "mutex_rep m a \<longleftrightarrow> pcs_rep m (holder a) \<and> (\<exists>ws ls. lists_rep m ws ls \<and> queued a = ws @ rev ls)"

lemma mutex_repI:
  "lists_rep m ws ls \<Longrightarrow> pcs_rep m h \<Longrightarrow> q = ws @ rev ls \<Longrightarrow> mutex_rep m \<lparr>holder = h, queued = q\<rparr>"
  by (auto simp: mutex_rep_def)

lemma mutex_rep_new: "mutex_rep Mutex_new \<lparr>holder = None, queued = []\<rparr>"
  by (rule mutex_repI[of _ "[]" "[]"]) (auto simp: Mutex_new_def lists_rep_def pcs_rep_def holds_def)

lemma holds_simps [simp]:
  "holds M_holding" "holds M_unlock_cas" "holds M_unlock_exchange" "\<not> holds M_idle" "\<not> holds M_load"
  "\<not> holds (M_loop s)" "\<not> holds M_suspended" "\<not> holds M_assert_failed"
  by (simp_all add: holds_def)

definition simulated :: "fifo_lock \<Rightarrow> Mutex \<Rightarrow> bool" where
  "simulated a m' \<longleftrightarrow> (\<exists>a'. mutex_rep m' a' \<and> (a' = a \<or> fifo_step a a'))"

lemma simulated_same: "mutex_rep m' a \<Longrightarrow> simulated a m'"
  by (auto simp: simulated_def)

lemma simulated_step: "mutex_rep m' a' \<Longrightarrow> fifo_step a a' \<Longrightarrow> simulated a m'"
  by (auto simp: simulated_def)

lemma mutex_repE:
  assumes "mutex_rep m a"
  obtains h ws ls where "a = \<lparr>holder = h, queued = ws @ rev ls\<rparr>" "lists_rep m ws ls" "pcs_rep m h"
  using assms by (cases a) (auto simp: mutex_rep_def)

lemma lists_rep_pc:
  "lists_rep m ws ls \<Longrightarrow> m_pc m i \<noteq> M_suspended \<Longrightarrow> pc \<noteq> M_suspended \<Longrightarrow> lists_rep (set_pc i pc m) ws ls"
  by (auto simp: lists_rep_def split: mutex_state.splits)

text \<open>A step that only moves a task between program counters that neither hold nor wait.\<close>

lemma rep_local_pc:
  assumes "mutex_rep m a" and "\<not> holds (m_pc m i)" "m_pc m i \<noteq> M_suspended"
    and "\<not> holds pc" "pc \<noteq> M_suspended" "pc \<noteq> M_assert_failed"
  shows "mutex_rep (set_pc i pc m) a"
proof -
  from assms(1) obtain h ws ls where a: "a = \<lparr>holder = h, queued = ws @ rev ls\<rparr>" "lists_rep m ws ls" "pcs_rep m h"
    by (rule mutex_repE)
  have "lists_rep (set_pc i pc m) ws ls" using a(2) assms(3,5) by (auto simp: lists_rep_def split: mutex_state.splits)
  moreover have "pcs_rep (set_pc i pc m) h" using a(3) assms(2,4,6) by (auto simp: pcs_rep_def)
  ultimately show ?thesis unfolding a(1) by (rule mutex_repI) simp
qed

lemma rep_acquire:
  assumes "mutex_rep m a" and "\<not> holds (m_pc m i)" "m_pc m i \<noteq> M_suspended" and "m_state m = unlockedState"
  shows "simulated a (set_pc i M_holding (m\<lparr>m_state := Awaiters None\<rparr>))"
proof -
  from assms(1) obtain h ws ls where a: "a = \<lparr>holder = h, queued = ws @ rev ls\<rparr>" "lists_rep m ws ls" "pcs_rep m h"
    by (rule mutex_repE)
  let ?m = "set_pc i M_holding (m\<lparr>m_state := Awaiters None\<rparr>)"
  have e: "ws = []" "ls = []" "h = None" using a assms(4) by (auto simp: lists_rep_def pcs_rep_def)
  have free: "\<not> holds (m_pc m t)" for t using a(3) e by (simp add: pcs_rep_def)
  then have "m_pc m t \<noteq> M_unlock_cas" "m_pc m t \<noteq> M_unlock_exchange" for t by (metis holds_simps)+
  then have "pcs_rep ?m (Some i)" using a(3) e free by (simp add: pcs_rep_def)
  moreover have "lists_rep ?m [] []" using a(2) assms(3) e by (auto simp: lists_rep_def)
  ultimately have "mutex_rep ?m \<lparr>holder = Some i, queued = []\<rparr>" by (intro mutex_repI) simp_all
  then show ?thesis unfolding a(1) e by (rule simulated_step) (simp add: fifo_acquire)
qed

lemma rep_enqueue:
  assumes "mutex_rep m a" and "\<not> holds (m_pc m i)" "m_pc m i \<noteq> M_suspended" and "m_state m = Awaiters p"
  shows "simulated a (set_pc i M_suspended (m\<lparr>m_next := (m_next m)(i := p), m_state := Awaiters (Some i)\<rparr>))"
proof -
  from assms(1) obtain h ws ls where a: "a = \<lparr>holder = h, queued = ws @ rev ls\<rparr>" "lists_rep m ws ls" "pcs_rep m h"
    by (rule mutex_repE)
  let ?m = "set_pc i M_suspended (m\<lparr>m_next := (m_next m)(i := p), m_state := Awaiters (Some i)\<rparr>)"
  obtain t where h: "h = Some t" "t \<noteq> i" using a(3) assms(2,4) by (cases h) (auto simp: pcs_rep_def)
  have "lists_rep ?m ws (i # ls)" using a(2) assms(3,4) by (auto simp: lists_rep_def)
  moreover have "pcs_rep ?m h" using a(3) assms(2,4) h by (auto simp: pcs_rep_def)
  ultimately have "mutex_rep ?m \<lparr>holder = h, queued = (ws @ rev ls) @ [i]\<rparr>" by (rule mutex_repI) simp
  then show ?thesis unfolding a(1) h by (rule simulated_step) (rule fifo_enqueue)
qed

lemma rep_next:
  assumes "mutex_rep m a" and "m_pc m i \<noteq> M_suspended"
  shows "mutex_rep (m\<lparr>m_next := (m_next m)(i := p)\<rparr>) a"
proof -
  from assms(1) obtain h ws ls where a: "a = \<lparr>holder = h, queued = ws @ rev ls\<rparr>" "lists_rep m ws ls" "pcs_rep m h"
    by (rule mutex_repE)
  then have "lists_rep (m\<lparr>m_next := (m_next m)(i := p)\<rparr>) ws ls" "pcs_rep (m\<lparr>m_next := (m_next m)(i := p)\<rparr>) h"
    using assms(2) by (auto simp: lists_rep_def pcs_rep_def split: mutex_state.splits)
  then show ?thesis unfolding a(1) by (rule mutex_repI) simp
qed


lemma pcs_rep_holder: "pcs_rep m h \<Longrightarrow> holds (m_pc m i) \<Longrightarrow> h = Some i"
  by (simp add: pcs_rep_def)

lemma rep_resume:
  assumes "lists_rep m (x # ws) ls" and "m_state m \<noteq> unlockedState"
    and "\<forall>j. holds (m_pc m j) \<longleftrightarrow> j = i" and "\<forall>j. m_pc m j \<noteq> M_assert_failed"
  shows "mutex_rep (resume_head i x m) \<lparr>holder = Some x, queued = ws @ rev ls\<rparr>"
proof -
  let ?m = "resume_head i x m"
  have x: "m_pc m x = M_suspended" using assms(1) by (auto simp: lists_rep_def)
  then have "x \<noteq> i" and ni: "m_pc m i \<noteq> M_suspended" using assms(3) by (metis holds_simps(7))+
  have other: "m_pc m j \<noteq> M_unlock_cas" "m_pc m j \<noteq> M_unlock_exchange" if "j \<noteq> i" for j
    using assms(3) that by (metis holds_simps)+
  have "lists_rep ?m ws ls"
    using assms(1,2) \<open>x \<noteq> i\<close> ni
    by (auto simp: lists_rep_def resume_head_def Let_def split: mutex_state.splits)
  moreover have "pcs_rep ?m (Some x)"
    using assms(2-4) \<open>x \<noteq> i\<close> other x
    by (auto simp: pcs_rep_def resume_head_def Let_def)
  ultimately show ?thesis by (rule mutex_repI) simp
qed

lemma rep_unlock_start:
  assumes "mutex_rep m a" and "m_pc m i = M_holding"
  shows "simulated a (unlock_start i m)"
proof -
  from assms(1) obtain h ws ls where a: "a = \<lparr>holder = h, queued = ws @ rev ls\<rparr>" "lists_rep m ws ls" "pcs_rep m h"
    by (rule mutex_repE)
  have h: "h = Some i" using pcs_rep_holder[OF a(3), of i] assms(2) by simp
  have hold: "\<forall>j. holds (m_pc m j) \<longleftrightarrow> j = i" and nf: "\<forall>j. m_pc m j \<noteq> M_assert_failed"
    and locked: "m_state m \<noteq> unlockedState"
    using a(3) h by (auto simp: pcs_rep_def)
  show ?thesis
  proof (cases "m_waiters m")
    case (Some x)
    then obtain ws' where ws: "ws = x # ws'" using a(2) by (auto simp: lists_rep_def is_list_Some)
    have "unlock_start i m = resume_head i x m" using Some locked by (simp add: unlock_start_def)
    with rep_resume[OF a(2)[unfolded ws] locked hold nf] show ?thesis
      unfolding a(1) h ws by (auto intro!: simulated_step fifo_handover)
  next
    case None
    define pc where "pc = (if m_state m = Awaiters None then M_unlock_cas else M_unlock_exchange)"
    have "unlock_start i m = set_pc i pc m" using None locked by (simp add: unlock_start_def pc_def)
    moreover have "lists_rep (set_pc i pc m) ws ls"
      using lists_rep_pc[OF a(2)] assms(2) by (simp add: pc_def)
    moreover have "pcs_rep (set_pc i pc m) h"
      using a(3) None h locked by (auto simp: pcs_rep_def pc_def)
    ultimately show ?thesis unfolding a(1) by (intro simulated_same mutex_repI) simp_all
  qed
qed

lemma rep_unlock_cas:
  assumes "mutex_rep m a" and "m_pc m i = M_unlock_cas"
  shows "simulated a (unlock_cas i m)"
proof -
  from assms(1) obtain h ws ls where a: "a = \<lparr>holder = h, queued = ws @ rev ls\<rparr>" "lists_rep m ws ls" "pcs_rep m h"
    by (rule mutex_repE)
  have h: "h = Some i" using pcs_rep_holder[OF a(3), of i] assms(2) by simp
  have w: "m_waiters m = None" and locked: "m_state m \<noteq> unlockedState"
    using a(3) assms(2) h by (auto simp: pcs_rep_def)
  then have ws: "ws = []" using a(2) by (simp add: lists_rep_def)
  show ?thesis
  proof (cases "m_state m = Awaiters None")
    case True
    let ?m = "set_pc i M_idle (m\<lparr>m_state := unlockedState\<rparr>)"
    have ls: "ls = []" using a(2) True by (simp add: lists_rep_def)
    have "lists_rep ?m [] []" using a(2) assms(2) w ws ls by (auto simp: lists_rep_def)
    moreover have "pcs_rep ?m None" using a(3) h w by (auto simp: pcs_rep_def)
    ultimately have "mutex_rep ?m \<lparr>holder = None, queued = []\<rparr>" by (rule mutex_repI) simp
    moreover have "unlock_cas i m = ?m" using True by (simp add: unlock_cas_def compare_exchange_def)
    ultimately show ?thesis unfolding a(1) h ws ls by (auto intro: simulated_step fifo_release)
  next
    case False
    let ?m = "set_pc i M_unlock_exchange m"
    have "lists_rep ?m ws ls" using lists_rep_pc[OF a(2)] assms(2) by simp
    moreover have "pcs_rep ?m h" using a(3) h w False by (auto simp: pcs_rep_def)
    ultimately have "mutex_rep ?m a" unfolding a(1) by (rule mutex_repI) simp
    moreover have "unlock_cas i m = ?m" using False by (simp add: unlock_cas_def compare_exchange_def)
    ultimately show ?thesis by (simp add: simulated_same)
  qed
qed

lemma rep_unlock_exchange:
  assumes "mutex_rep m a" and "m_pc m i = M_unlock_exchange"
  shows "\<exists>m'. unlock_exchange i m = Some m' \<and> simulated a m'"
proof -
  from assms(1) obtain h ws ls where a: "a = \<lparr>holder = h, queued = ws @ rev ls\<rparr>" "lists_rep m ws ls" "pcs_rep m h"
    by (rule mutex_repE)
  have h: "h = Some i" using pcs_rep_holder[OF a(3), of i] assms(2) by simp
  have w: "m_waiters m = None" and locked: "m_state m \<noteq> unlockedState" "m_state m \<noteq> Awaiters None"
    using a(3) assms(2) h by (auto simp: pcs_rep_def)
  then have ws: "ws = []" using a(2) by (simp add: lists_rep_def)
  obtain p where st: "m_state m = Awaiters (Some p)" using locked by (cases "m_state m") auto
  then have ls: "is_list (m_next m) (Some p) ls" "distinct (ls @ [])" using a(2) ws by (auto simp: lists_rep_def)
  obtain nx' x where rv: "reverse_waiters (m_next m) p None = Some (nx', x)" "is_list nx' (Some x) (rev ls @ [])"
    using reverse_waiters_list[OF ls(1) _ ls(2)] by auto
  then obtain q where q: "rev ls = x # q" by (auto simp: is_list_Some)
  let ?m = "m\<lparr>m_state := Awaiters None, m_waiters := Some x, m_next := nx'\<rparr>"
  have "set (x # q) = set ls" using q by (metis set_rev)
  moreover have "distinct (x # q)" using ls(2) q by (metis append_Nil2 distinct_rev)
  ultimately have "lists_rep ?m (x # q) []" using a(2) ws rv(2) q by (auto simp: lists_rep_def)
  moreover have "\<forall>j. holds (m_pc ?m j) \<longleftrightarrow> j = i" "\<forall>j. m_pc ?m j \<noteq> M_assert_failed"
    using a(3) h by (auto simp: pcs_rep_def)
  ultimately have "mutex_rep (resume_head i x ?m) \<lparr>holder = Some x, queued = q @ rev []\<rparr>"
    by (intro rep_resume) simp_all
  moreover have "unlock_exchange i m = Some (resume_head i x (m\<lparr>m_state := Awaiters None, m_next := nx'\<rparr>))"
    using st w rv(1) by (simp add: unlock_exchange_def Let_def)
  moreover have "resume_head i x (m\<lparr>m_state := Awaiters None, m_next := nx'\<rparr>) = resume_head i x ?m"
    by (simp add: resume_head_def Let_def)
  ultimately show ?thesis unfolding a(1) h ws using q by (auto intro!: simulated_step fifo_handover)
qed

section \<open>Every step\<close>

lemma simulated_try:
  assumes "mutex_rep m a" "\<not> holds (m_pc m i)" "m_pc m i \<noteq> M_suspended"
    and "\<not> holds pc" "pc \<noteq> M_suspended" "pc \<noteq> M_assert_failed"
  shows "simulated a (let (ok, m') = compare_exchange unlockedState (Awaiters None) m
    in set_pc i (if ok then M_holding else pc) m')"
proof (cases "m_state m = unlockedState")
  case True
  then show ?thesis using rep_acquire[OF assms(1-3)] by (simp add: compare_exchange_def)
next
  case False
  then show ?thesis using simulated_same[OF rep_local_pc[OF assms]] by (simp add: compare_exchange_def)
qed

lemma simulated_turn:
  assumes "mutex_rep m a" "m_pc m i = M_loop old"
  shows "simulated a (lockAsyncImpl_turn i old m)"
proof (cases old)
  case unlockedState
  then show ?thesis using simulated_try[OF assms(1), of i "M_loop (m_state m)"] assms(2)
    by (simp add: lockAsyncImpl_turn_def)
next
  case (Awaiters p)
  let ?m = "m\<lparr>m_next := (m_next m)(i := p)\<rparr>"
  have rep: "mutex_rep ?m a" using rep_next[OF assms(1)] assms(2) by simp
  show ?thesis
  proof (cases "m_state m = Awaiters p")
    case True
    then show ?thesis using rep_enqueue[OF assms(1), of i p] assms(2) Awaiters
      by (simp add: lockAsyncImpl_turn_def compare_exchange_def Let_def)
  next
    case False
    then show ?thesis using simulated_same[OF rep_local_pc[OF rep, of i "M_loop (m_state m)"]] assms(2) Awaiters
      by (simp add: lockAsyncImpl_turn_def compare_exchange_def Let_def)
  qed
qed

lemma mutex_step_simulated:
  assumes "mutex_rep m a" and "mutex_step op i m = Some m'"
  shows "simulated a m'"
proof (cases "m_pc m i")
  case M_idle
  with assms simulated_try[OF assms(1), of i M_idle] simulated_try[OF assms(1), of i M_load] show ?thesis
    by (auto simp: mutex_step_def Mutex_tryLock_def LockAwaiter_await_ready_def split: mutex_op.splits)
next
  case M_load
  with assms simulated_same[OF rep_local_pc[OF assms(1), of i "M_loop (m_state m)"]] show ?thesis
    by (simp add: mutex_step_def)
next
  case (M_loop old)
  with assms simulated_turn show ?thesis by (auto simp: mutex_step_def)
next
  case M_holding
  with assms rep_unlock_start show ?thesis by (auto simp: mutex_step_def)
next
  case M_unlock_cas
  with assms rep_unlock_cas show ?thesis by (auto simp: mutex_step_def)
next
  case M_unlock_exchange
  with assms(2) rep_unlock_exchange[OF assms(1), of i] show ?thesis by (auto simp: mutex_step_def)
qed (use assms(2) in \<open>simp_all add: mutex_step_def\<close>)

lemma reachable_rep: "mutex_reachable m \<Longrightarrow> \<exists>a. mutex_rep m a"
proof (induction rule: mutex_reachable.induct)
  case mutex_start
  show ?case using mutex_rep_new by blast
next
  case (mutex_next m op i m')
  then show ?case using mutex_step_simulated by (fastforce simp: simulated_def)
qed


text \<open>Two tasks: 0 locks, 1 queues behind it.\<close>

definition mutex_contended :: Mutex where
  "mutex_contended = \<lparr>m_state = Awaiters (Some 1), m_waiters = None, m_next = (\<lambda>_. None)(1 := None),
     m_pc = (\<lambda>_. M_idle)(0 := M_holding, 1 := M_suspended)\<rparr>"

lemma mutex_contended_reachable: "mutex_reachable mutex_contended"
proof -
  note defs = mutex_step_def Mutex_new_def LockAwaiter_await_ready_def Mutex_tryLock_def compare_exchange_def
    lockAsyncImpl_turn_def mutex_contended_def
  let ?m = "\<lambda>pc. \<lparr>m_state = Awaiters None, m_waiters = None, m_next = (\<lambda>_. None), m_pc = (\<lambda>_. M_idle)(0 := M_holding, 1 := pc)\<rparr>"
  have "mutex_step Lock 0 Mutex_new = Some (?m M_idle)" by (simp add: defs fun_eq_iff)
  from mutex_next[OF mutex_start this] have "mutex_reachable (?m M_idle)" .
  from mutex_next[OF this, of Lock 1 "?m M_load"] have "mutex_reachable (?m M_load)" by (simp add: defs)
  from mutex_next[OF this, of Go 1 "?m (M_loop (Awaiters None))"] have "mutex_reachable (?m (M_loop (Awaiters None)))"
    by (simp add: defs)
  from mutex_next[OF this, of Go 1 mutex_contended] show ?thesis by (simp add: defs fun_upd_twist)
qed

text \<open>C10: The mutex refines a FIFO lock. The heap of a reachable state represents a lock state, the waiters
  being \<^verbatim>\<open>waiters_\<close> followed by the reversed queue of newly queued awaiters, and every atomic step of
  every task leads to a heap that represents the same lock state or one FIFO lock step after it.\<close>

theorem mutex_refines_fifo_lock:
  assumes "mutex_reachable m" and "mutex_step op i m = Some m'"
  shows "\<exists>a a'. mutex_rep m a \<and> mutex_rep m' a' \<and> (a' = a \<or> fifo_step a a')"
proof -
  obtain a where "mutex_rep m a" using reachable_rep[OF assms(1)] by blast
  with mutex_step_simulated[OF this assms(2)] show ?thesis by (auto simp: simulated_def)
qed

theorem mutex_refines_fifo_lock_witness:
  "\<exists>a a'. mutex_rep mutex_contended a \<and> mutex_rep (set_pc 0 M_unlock_exchange mutex_contended) a' \<and>
     (a' = a \<or> fifo_step a a')"
proof (rule mutex_refines_fifo_lock[OF mutex_contended_reachable, of Go 0])
  show "mutex_step Go 0 mutex_contended = Some (set_pc 0 M_unlock_exchange mutex_contended)"
    by (simp add: mutex_step_def unlock_start_def mutex_contended_def)
qed

text \<open>In every reachable state at most one task holds the mutex, counting a task inside \<^verbatim>\<open>unlock\<close>
  until it has given the mutex up.\<close>

theorem mutex_exclusion:
  assumes "mutex_reachable m" and "holds (m_pc m i)" and "holds (m_pc m j)"
  shows "i = j"
  using reachable_rep[OF assms(1)] assms(2,3) by (auto simp: mutex_rep_def pcs_rep_def)

theorem mutex_exclusion_witness:
  "\<exists>m :: Mutex. m_pc m 1 = M_suspended \<and> (\<forall>j. holds (m_pc m j) \<longrightarrow> j = 0)"
proof -
  have "holds (m_pc mutex_contended 0)" by (simp add: mutex_contended_def)
  then have "\<forall>j. holds (m_pc mutex_contended j) \<longrightarrow> j = 0"
    using mutex_exclusion[OF mutex_contended_reachable] by blast
  then show ?thesis by (intro exI[of _ mutex_contended]) (simp add: mutex_contended_def)
qed

text \<open>C25: No wake-up is lost and no call gets stuck: while a task is suspended some task holds the mutex,
  and a task that is neither idle nor suspended can always take its next step, so the reversal of the
  queue ends and no assertion of the code fails.\<close>

theorem mutex_no_lost_waiter:
  assumes "mutex_reachable m" and "m_pc m i \<noteq> M_idle"
  shows "if m_pc m i = M_suspended then \<exists>h. holds (m_pc m h)
    else \<exists>m'. mutex_step Go i m = Some m' \<and> (\<forall>j. m_pc m' j \<noteq> M_assert_failed)"
proof -
  obtain a where a: "mutex_rep m a" using reachable_rep[OF assms(1)] by blast
  show ?thesis
  proof (cases "m_pc m i = M_suspended")
    case True
    from a obtain h ws ls where r: "lists_rep m ws ls" "pcs_rep m h" by (rule mutex_repE)
    then have "m_state m \<noteq> unlockedState" using True by (auto simp: lists_rep_def)
    with r(2) True show ?thesis by (cases h) (auto simp: pcs_rep_def)
  next
    case False
    have "\<exists>m'. mutex_step Go i m = Some m'"
      using a assms(2) False rep_unlock_exchange[OF a, of i]
      by (cases "m_pc m i") (auto simp: mutex_step_def mutex_rep_def pcs_rep_def)
    then obtain m' where m': "mutex_step Go i m = Some m'" by blast
    from mutex_step_simulated[OF a this] have "\<forall>j. m_pc m' j \<noteq> M_assert_failed"
      by (auto simp: simulated_def mutex_rep_def pcs_rep_def)
    with m' False show ?thesis by auto
  qed
qed

theorem mutex_no_lost_waiter_witness: "\<exists>h. holds (m_pc mutex_contended h)"
proof -
  have "m_pc mutex_contended 1 = M_suspended" by (simp add: mutex_contended_def)
  with mutex_no_lost_waiter[OF mutex_contended_reachable, of 1] show ?thesis by simp
qed

end
