(* ===== verification/Coro_Sync_Props.thy ===== *)
theory Coro_Sync_Props
  imports Coro_Sync
begin

text \<open>
  Properties of the synchronisation primitives: exclusion and signals of the shared mutex, the tries
  through the interface of a lock, the yields of the spin lock, and the counters of the semaphore and
  the latches.
\<close>


section \<open>The state word of the shared mutex\<close>

definition rw_rep :: "u32 \<Rightarrow> nat \<Rightarrow> bool \<Rightarrow> bool" where
  "rw_rep st n w \<longleftrightarrow> unat st = n + (if w then 2 ^ 31 else 0) \<and> n < 2 ^ 31"

lemma flag_eq: "write_entered_flag = 0x80000000" and max_eq: "max_readers = 0x7FFFFFFF"
  by (simp_all add: write_entered_flag_def max_readers_def)

lemma bit_31_unat: "bit (st :: u32) 31 \<longleftrightarrow> 2 ^ 31 \<le> unat st"
proof -
  have "bit st 31 \<longleftrightarrow> bit (unat st) 31" by (simp add: bit_unsigned_iff)
  also have "\<dots> \<longleftrightarrow> odd (unat st div 2 ^ 31)" by (rule bit_iff_odd)
  also have "\<dots> \<longleftrightarrow> 2 ^ 31 \<le> unat st"
  proof -
    have "unat st < 2 * 2 ^ 31" using unsigned_less[of st] by simp
    then have "unat st div 2 ^ 31 < 2" by (simp add: less_mult_imp_div_less)
    then have "unat st div 2 ^ 31 \<in> {0, 1}" by auto
    moreover have "unat st div 2 ^ 31 = 0 \<longleftrightarrow> unat st < 2 ^ 31" by (simp add: div_eq_0_iff)
    ultimately show ?thesis by auto
  qed
  finally show ?thesis .
qed

lemma rw_rep_write_entered: "rw_rep st n w \<Longrightarrow> write_entered st \<longleftrightarrow> w"
proof -
  assume r: "rw_rep st n w"
  have "write_entered_flag = 2 ^ 31" by (simp add: flag_eq)
  then have "write_entered st \<longleftrightarrow> bit st 31"
    using and_exp_eq_0_iff_not_bit[of st 31] unfolding write_entered_def by presburger
  with r show ?thesis by (auto simp: bit_31_unat rw_rep_def)
qed

lemma rw_rep_readers: "rw_rep st n w \<Longrightarrow> unat (readers st) = n"
proof -
  assume r: "rw_rep st n w"
  have "max_readers = mask 31" by (simp add: max_eq mask_eq_exp_minus_1)
  then have "readers st = take_bit 31 st" by (simp add: readers_def take_bit_eq_mask)
  then have "unat (readers st) = take_bit 31 (unat st)" by (simp add: unsigned_take_bit_eq)
  also have "\<dots> = n" using r by (auto simp: take_bit_eq_mod rw_rep_def)
  finally show ?thesis .
qed

lemma rw_rep_flag: "rw_rep st n False \<Longrightarrow> rw_rep (st OR write_entered_flag) n True"
proof -
  assume r: "rw_rep st n False"
  then have nb: "\<not> bit st 31" by (simp add: bit_31_unat rw_rep_def)
  have f: "write_entered_flag = 2 ^ 31" by (simp add: flag_eq)
  have "st OR 2 ^ 31 = st + 2 ^ 31"
    by (rule disjunctive_add[symmetric]) (use nb in \<open>unfold bit_exp_iff; blast\<close>)
  with f r show ?thesis by (simp add: rw_rep_def unat_word_ariths flag_eq)
qed

lemma rw_rep_inc: "rw_rep st n False \<Longrightarrow> n < 2 ^ 31 - 1 \<Longrightarrow> rw_rep (st + 1) (Suc n) False"
  by (simp add: rw_rep_def unat_word_ariths)

lemma rw_rep_dec: "rw_rep st (Suc n) w \<Longrightarrow> rw_rep (st - 1) n w"
  by (cases "st = 0") (auto simp: rw_rep_def unat_minus_one_word)

lemma rw_rep_less_max: "rw_rep st n w \<Longrightarrow> st < max_readers \<longleftrightarrow> \<not> w \<and> n < 2 ^ 31 - 1"
  by (auto simp: rw_rep_def word_less_nat_alt max_eq)

lemma rw_rep_eq_max: "rw_rep st n w \<Longrightarrow> st = max_readers \<longleftrightarrow> \<not> w \<and> n = 2 ^ 31 - 1"
  by (auto simp: rw_rep_def word_unat_eq_iff max_eq)

lemma rw_rep_eq_0: "rw_rep st n w \<Longrightarrow> st = 0 \<longleftrightarrow> \<not> w \<and> n = 0"
  by (auto simp: rw_rep_def unat_eq_0[symmetric])

lemma rw_rep_0: "rw_rep 0 0 False"
  by (simp add: rw_rep_def)

lemma rw_rep_flag_only: "rw_rep write_entered_flag 0 True"
  by (simp add: rw_rep_def flag_eq)

lemmas rw_rep_simps = rw_rep_write_entered rw_rep_less_max rw_rep_eq_max rw_rep_eq_0

section \<open>Readers and writers\<close>

definition rd :: "(nat \<Rightarrow> rw_pc) \<Rightarrow> nat" where
  "rd pcs = card {i. pcs i = RW_read}"

definition owners :: "(nat \<Rightarrow> rw_pc) \<Rightarrow> nat set" where
  "owners pcs = {i. pcs i = RW_gate2_write \<or> pcs i = RW_write}"

definition rw_inv :: "u32 \<Rightarrow> (nat \<Rightarrow> rw_pc) \<Rightarrow> bool" where
  "rw_inv st pcs \<longleftrightarrow>
     finite {i. pcs i = RW_read} \<and> rw_rep st (rd pcs) (owners pcs \<noteq> {}) \<and>
     (\<forall>i j. i \<in> owners pcs \<longrightarrow> j \<in> owners pcs \<longrightarrow> i = j) \<and>
     (\<forall>i. pcs i = RW_write \<longrightarrow> rd pcs = 0) \<and> (\<forall>i. pcs i \<noteq> RW_assert_failed)"

lemma rd_upd_other: "pcs i \<noteq> RW_read \<Longrightarrow> q \<noteq> RW_read \<Longrightarrow> {j. (pcs(i := q)) j = RW_read} = {j. pcs j = RW_read}"
  by auto

lemma rd_upd_in: "pcs i \<noteq> RW_read \<Longrightarrow> {j. (pcs(i := RW_read)) j = RW_read} = insert i {j. pcs j = RW_read}"
  by auto

lemma rd_upd_out: "q \<noteq> RW_read \<Longrightarrow> {j. (pcs(i := q)) j = RW_read} = {j. pcs j = RW_read} - {i}"
  by auto


lemma owners_upd: "owners (pcs(i := q)) = (if q = RW_gate2_write \<or> q = RW_write then insert i (owners pcs) else owners pcs - {i})"
  by (auto simp: owners_def)

lemma rd_upd:
  assumes "finite {j. pcs j = RW_read}"
  shows "rd (pcs(i := q)) = (if q = RW_read then (if pcs i = RW_read then rd pcs else Suc (rd pcs))
    else (if pcs i = RW_read then rd pcs - 1 else rd pcs))"
    and "finite {j. (pcs(i := q)) j = RW_read}"
    and "pcs i = RW_read \<Longrightarrow> rd pcs \<noteq> 0"
proof -
  show "finite {j. (pcs(i := q)) j = RW_read}"
    by (rule finite_subset[OF _ finite.insertI[OF assms, of i]]) auto
  show "pcs i = RW_read \<Longrightarrow> rd pcs \<noteq> 0" using assms by (auto simp: rd_def)
  show "rd (pcs(i := q)) = (if q = RW_read then (if pcs i = RW_read then rd pcs else Suc (rd pcs))
    else (if pcs i = RW_read then rd pcs - 1 else rd pcs))"
  proof (cases "q = RW_read")
    case True
    have "{j. (pcs(i := q)) j = RW_read} = insert i {j. pcs j = RW_read}" using True by auto
    with True assms show ?thesis by (auto simp: rd_def insert_absorb)
  next
    case False
    have "{j. (pcs(i := q)) j = RW_read} = {j. pcs j = RW_read} - {i}" using False by auto
    with False assms show ?thesis by (auto simp: rd_def)
  qed
qed

lemma rw_inv_neutral:
  assumes "rw_inv st pcs" and "pcs i \<notin> {RW_read, RW_gate2_write, RW_write}"
    and "q \<notin> {RW_read, RW_gate2_write, RW_write, RW_assert_failed}"
  shows "rw_inv st (pcs(i := q))"
proof -
  have "owners (pcs(i := q)) = owners pcs" using assms(2,3) by (auto simp: owners_def)
  with assms rd_upd(1,2)[of pcs i q] show ?thesis by (auto simp: rw_inv_def)
qed

lemma rw_inv_read:
  assumes "rw_inv st pcs" and "pcs i \<notin> {RW_read, RW_gate2_write, RW_write}"
    and "st < max_readers"
  shows "rw_inv (st + 1) (pcs(i := RW_read))"
proof -
  have rep: "rw_rep st (rd pcs) (owners pcs \<noteq> {})" and fin: "finite {i. pcs i = RW_read}" using assms(1) by (auto simp: rw_inv_def)
  with assms(3) have free: "owners pcs = {}" "rd pcs < 2 ^ 31 - 1" by (simp_all add: rw_rep_less_max)
  then have "owners (pcs(i := RW_read)) = {}" and "\<And>j. pcs j \<noteq> RW_write" using assms(2) by (auto simp: owners_def)
  moreover have "rw_rep (st + 1) (Suc (rd pcs)) False" using rep free by (intro rw_rep_inc) simp_all
  ultimately show ?thesis using assms rd_upd(1,2)[OF fin, of i RW_read] by (simp add: rw_inv_def)
qed

lemma rw_inv_owner:
  assumes "rw_inv st pcs" and "pcs i \<notin> {RW_read, RW_gate2_write, RW_write}" and "\<not> write_entered st"
    and "q = (if readers (st OR write_entered_flag) \<noteq> 0 then RW_gate2_write else RW_write)"
  shows "rw_inv (st OR write_entered_flag) (pcs(i := q))"
proof -
  have rep: "rw_rep st (rd pcs) (owners pcs \<noteq> {})" and fin: "finite {i. pcs i = RW_read}" using assms(1) by (auto simp: rw_inv_def)
  with assms(3) have free: "owners pcs = {}" by (simp add: rw_rep_write_entered)
  then have nw: "\<And>j. pcs j \<noteq> RW_write" by (auto simp: owners_def)
  have rep': "rw_rep (st OR write_entered_flag) (rd pcs) True" using rep free by (intro rw_rep_flag) simp
  have "q = RW_write \<Longrightarrow> rd pcs = 0" using rw_rep_readers[OF rep'] assms(4) by (auto split: if_splits)
  moreover have "owners (pcs(i := q)) = {i}" using free assms(4) by (simp add: owners_upd)
  moreover have "rd (pcs(i := q)) = rd pcs" using rd_upd(1)[OF fin, of i q] assms(2,4) by auto
  ultimately show ?thesis using assms rd_upd(2)[OF fin, of i q] rep' nw by (auto simp: rw_inv_def)
qed

lemma rw_inv_write:
  assumes "rw_inv st pcs" and "pcs i = RW_gate2_write" and "readers st = 0"
  shows "rw_inv st (pcs(i := RW_write))"
proof -
  have rep: "rw_rep st (rd pcs) (owners pcs \<noteq> {})" and fin: "finite {i. pcs i = RW_read}" using assms(1) by (auto simp: rw_inv_def)
  have "rd pcs = 0" using rw_rep_readers[OF rep] assms(3) by simp
  moreover have "owners (pcs(i := RW_write)) = owners pcs" using assms(2) by (auto simp: owners_def)
  ultimately show ?thesis using assms rd_upd(1,2)[OF fin, of i RW_write] by (auto simp: rw_inv_def)
qed

lemma rw_inv_unlock:
  assumes "rw_inv st pcs" and "pcs i = RW_write"
  shows "write_entered st \<and> rw_inv 0 (pcs(i := RW_idle))"
proof -
  have rep: "rw_rep st (rd pcs) (owners pcs \<noteq> {})" and fin: "finite {i. pcs i = RW_read}" 
    and i: "i \<in> owners pcs" and z: "rd pcs = 0" using assms by (auto simp: rw_inv_def owners_def)
  have "owners pcs = {i}" using assms(1) i by (auto simp: rw_inv_def)
  then have "owners (pcs(i := RW_idle)) = {}" by (simp add: owners_upd)
  then show ?thesis
    using rw_rep_write_entered[OF rep] i z assms rd_upd(1,2)[OF fin, of i RW_idle] rw_rep_0 by (auto simp: rw_inv_def owners_def)
qed

lemma rw_inv_unlock_shared:
  assumes "rw_inv st pcs" and "pcs i = RW_read"
  shows "readers st > 0 \<and> rw_inv (st - 1) (pcs(i := RW_idle))"
proof -
  have rep: "rw_rep st (rd pcs) (owners pcs \<noteq> {})" and fin: "finite {i. pcs i = RW_read}" using assms by (auto simp: rw_inv_def)
  obtain k where k: "rd pcs = Suc k" using rd_upd(3)[OF fin assms(2)] by (cases "rd pcs") auto
  have "owners (pcs(i := RW_idle)) = owners pcs" using assms(2) by (auto simp: owners_def)
  moreover have "rw_rep (st - 1) k (owners pcs \<noteq> {})" using rep k by (intro rw_rep_dec) simp
  moreover have "readers st > 0" using rw_rep_readers[OF rep] k by (simp add: word_gt_0 word_unat_eq_iff)
  ultimately show ?thesis using assms rd_upd(1,2)[OF fin, of i RW_idle] k by (auto simp: rw_inv_def)
qed

lemma rw_step_inv:
  assumes "rw_inv st pcs" and "rw_section op (pcs i) st = Some (pc', st', sigs)"
  shows "rw_inv st' (pcs(i := pc'))"
proof -
  have rep: "rw_rep st (rd pcs) (owners pcs \<noteq> {})" and na: "pcs i \<noteq> RW_assert_failed" using assms(1) by (auto simp: rw_inv_def)
  have flag0: "st = 0 \<Longrightarrow> st OR write_entered_flag = write_entered_flag" by simp
  have lt: "\<not> st \<ge> max_readers \<Longrightarrow> st < max_readers" by simp
  note sec = assms(2)[unfolded rw_section_def]
  show ?thesis
  proof (cases "pcs i")
    case RW_idle
    show ?thesis
    proof (cases op)
      case Op_lock
      with sec RW_idle show ?thesis
        using rw_inv_neutral[OF assms(1), of i] rw_inv_owner[OF assms(1), of i]
        by (auto simp: SharedMutex_coLock_def coLock_flagged_def Let_def split: if_splits)
    next
      case Op_try_lock
      have "st = 0 \<Longrightarrow> \<not> write_entered st" using rw_rep_write_entered[OF rw_rep_0] by blast
      moreover have "readers write_entered_flag = 0" using rw_rep_readers[OF rw_rep_flag_only] by (simp add: unat_eq_0)
      ultimately show ?thesis
        using sec RW_idle Op_try_lock rw_inv_neutral[OF assms(1), of i RW_idle] rw_inv_owner[OF assms(1), of i]
        by (auto simp: SharedMutex_tryLock_def Let_def split: if_splits)
    next
      case Op_lock_shared
      with sec RW_idle show ?thesis
        using rw_inv_neutral[OF assms(1), of i] rw_inv_read[OF assms(1), of i] 
        by (auto simp: SharedMutex_coLockShared_def not_le split: if_splits)
    next
      case Op_try_lock_shared
      with sec RW_idle show ?thesis
        using rw_inv_neutral[OF assms(1), of i RW_idle] rw_inv_read[OF assms(1), of i]
        by (auto simp: SharedMutex_tryLockShared_def Let_def split: if_splits)
    qed (use sec RW_idle in simp)
  next
    case RW_gate1_write
    with sec show ?thesis using assms(1) rw_inv_owner[OF assms(1), of i]
      by (auto simp: coLock_flagged_def Let_def fun_upd_idem split: if_splits)
  next
    case RW_gate2_write
    with sec show ?thesis using assms(1) rw_inv_write[OF assms(1), of i]
      by (auto simp: fun_upd_idem split: if_splits)
  next
    case RW_write
    with sec show ?thesis using rw_inv_unlock[OF assms(1), of i] by (auto simp: SharedMutex_unlock_def)
  next
    case RW_gate1_read
    with sec show ?thesis using assms(1) rw_inv_read[OF assms(1), of i]
      by (auto simp: fun_upd_idem split: if_splits)
  next
    case RW_read
    with sec show ?thesis using rw_inv_unlock_shared[OF assms(1), of i]
      by (auto simp: SharedMutex_unlockShared_def Let_def split: if_splits)
  qed (use na in simp)
qed

lemma rw_reachable_inv: "rw_reachable s \<Longrightarrow> rw_inv (fst s) (snd s)"
proof (induction rule: rw_reachable.induct)
  case rw_start
  show ?case by (simp add: rw_inv_def rd_def owners_def rw_rep_def)
next
  case (rw_next s sigs s')
  from rw_next.hyps(2) show ?case
  proof (cases rule: rw_step.cases)
    case (1 op pcs i st pc' st')
    with rw_next.IH rw_step_inv[of st pcs op i pc' st'] show ?thesis by (simp del: fun_upd_apply)
  qed
qed

text \<open>C26: In every reachable state of the shared mutex a writer excludes every other writer and every
  reader, and the state word counts the readers exactly, below its top bit.\<close>

theorem shared_mutex_exclusion:
  assumes "rw_reachable (st, pcs)"
  shows "unat (readers st) = card {i. pcs i = RW_read} \<and>
    (\<forall>i j. pcs i = RW_write \<and> pcs j \<in> {RW_write, RW_read} \<longrightarrow> i = j \<and> pcs j = RW_write)"
proof -
  have inv: "rw_inv st pcs" using rw_reachable_inv[OF assms] by simp
  have "rd pcs \<noteq> 0" if "pcs j = RW_read" for j using inv that rd_upd(3)[of pcs j] by (auto simp: rw_inv_def)
  then have "pcs j \<noteq> RW_read" if "pcs i = RW_write" for i j using inv that by (auto simp: rw_inv_def)
  with inv have "\<forall>i j. pcs i = RW_write \<and> pcs j \<in> {RW_write, RW_read} \<longrightarrow> i = j \<and> pcs j = RW_write"
    by (auto simp: rw_inv_def owners_def)
  moreover have "unat (readers st) = card {i. pcs i = RW_read}"
    using inv rw_rep_readers by (auto simp: rw_inv_def rd_def)
  ultimately show ?thesis by blast
qed

theorem shared_mutex_exclusion_witness:
  "unat (readers 1) = card {i. ((\<lambda>_. RW_idle)(7 :: nat := RW_read)) i = RW_read}"
proof -
  have "rw_section Op_lock_shared ((\<lambda>_. RW_idle) (7::nat)) 0 = Some (RW_read, 1, [])"
    by (simp add: rw_section_def SharedMutex_coLockShared_def max_eq)
  from shared_mutex_exclusion[OF rw_next[OF rw_start rw_step.intros[where pcs = "\<lambda>_. RW_idle" and i = 7, OF this]]]
  show ?thesis by blast
qed

lemma rw_signal_aux:
  assumes "rw_inv st pcs" and sec: "rw_section op (pcs i) st = Some (pc', st', sigs)"
    and "i \<noteq> k" and "\<not> rw_predicate (pcs k) st" and "rw_predicate (pcs k) st'"
  shows "Notify_all (rw_gate (pcs k)) \<in> set sigs \<or> Notify_one (rw_gate (pcs k)) \<in> set sigs"
proof -
  define n w where "n = rd pcs" and "w = (owners pcs \<noteq> {})"
  have rep: "rw_rep st n w" using assms(1) by (simp add: rw_inv_def n_def w_def)
  define n' w' where "n' = rd (pcs(i := pc'))" and "w' = (owners (pcs(i := pc')) \<noteq> {})"
  have rep': "rw_rep st' n' w'" using rw_step_inv[OF assms(1) sec] by (simp add: rw_inv_def n'_def w'_def)
  have fin: "finite {j. pcs j = RW_read}" using assms(1) by (simp add: rw_inv_def)
  have rds: "readers st = 0 \<longleftrightarrow> n = 0" "readers st' = 0 \<longleftrightarrow> n' = 0"
    using rw_rep_readers[OF rep] rw_rep_readers[OF rep'] by (auto simp flip: unat_eq_0)
  note facts = rw_rep_simps[OF rep] rw_rep_simps[OF rep'] rds
  have k: "pcs k = RW_gate1_write \<and> w \<and> \<not> w' \<or> pcs k = RW_gate2_write \<and> n \<noteq> 0 \<and> n' = 0 \<or>
      pcs k = RW_gate1_read \<and> (w \<or> n = 2 ^ 31 - 1) \<and> \<not> w' \<and> n' \<noteq> 2 ^ 31 - 1"
    using assms(4,5) facts rep rep' by (cases "pcs k") (auto simp: rw_rep_def)
  have busy: ?thesis if "pcs i \<noteq> RW_read" "pcs i \<noteq> RW_write"
  proof -
    have "pcs i = RW_gate2_write \<Longrightarrow> pc' \<in> {RW_gate2_write, RW_write}"
      using sec by (auto simp: rw_section_def split: if_splits)
    then have "owners pcs \<subseteq> owners (pcs(i := pc'))" using that by (auto simp: owners_def)
    then have "w \<longrightarrow> w'" unfolding w_def w'_def by blast
    moreover have "n \<le> n'" using rd_upd(1)[OF fin, of i pc'] that by (auto simp: n_def n'_def)
    ultimately show ?thesis using k rep rep' by (auto simp: rw_rep_def)
  qed
  show ?thesis
  proof (cases "pcs i")
    case RW_write
    with sec k rw_inv_unlock[OF assms(1) RW_write] assms(1) show ?thesis
      by (auto simp: rw_section_def SharedMutex_unlock_def rw_inv_def n_def)
  next
    case RW_read
    have own: "owners (pcs(i := RW_idle)) = owners pcs" using RW_read by (auto simp: owners_def)
    have sg: "sigs = (if write_entered (st - 1) then if readers (st - 1) = 0 then [Notify_one 2] else []
         else if st = max_readers then [Notify_one 1] else [])" "st' = st - 1" "pc' = RW_idle"
      using sec RW_read rw_inv_unlock_shared[OF assms(1) RW_read]
      by (auto simp: rw_section_def SharedMutex_unlockShared_def Let_def split: if_splits)
    have "w' = w" using own sg(3) by (simp add: w_def w'_def)
    moreover have "pcs k = RW_gate2_write \<Longrightarrow> w" by (auto simp: w_def owners_def)
    ultimately show ?thesis
      using k facts unfolding sg by auto
  qed (use busy in simp_all)
qed

text \<open>No wake-up is missed: when a section of one task makes true what another task at a gate waits
  for, that section signals the gate.\<close>

theorem shared_mutex_signals:
  assumes "rw_reachable (st, pcs)" and "rw_section op (pcs i) st = Some (pc', st', sigs)"
    and "i \<noteq> k" and "\<not> rw_predicate (pcs k) st" and "rw_predicate (pcs k) st'"
  shows "Notify_all (rw_gate (pcs k)) \<in> set sigs \<or> Notify_one (rw_gate (pcs k)) \<in> set sigs"
  using rw_reachable_inv[OF assms(1)] rw_signal_aux[OF _ assms(2-5)] by simp

theorem shared_mutex_signals_witness:
  "Notify_all 1 \<in> set [Notify_all 1] \<or> Notify_one 1 \<in> set [Notify_all 1]"
proof -
  note defs = rw_section_def SharedMutex_coLock_def coLock_flagged_def SharedMutex_unlock_def Let_def
    SharedMutex_coLockShared_def write_entered_def readers_def flag_eq max_eq
  let ?p1 = "(\<lambda>_ :: nat. RW_idle)(0 := RW_write)"
  have "rw_section Op_lock ((\<lambda>_. RW_idle) (0 :: nat)) 0 = Some (RW_write, 0x80000000, [])" by (simp add: defs)
  from rw_next[OF rw_start rw_step.intros[where pcs = "\<lambda>_. RW_idle" and i = 0, OF this]]
  have "rw_reachable (0x80000000, ?p1)" .
  moreover have "rw_section Op_lock_shared (?p1 1) 0x80000000 = Some (RW_gate1_read, 0x80000000, [])" by (simp add: defs)
  ultimately have r: "rw_reachable (0x80000000, ?p1(1 := RW_gate1_read))"
    using rw_next[OF _ rw_step.intros[where pcs = ?p1 and i = 1]] by blast
  have "rw_section Op_go ((?p1(1 := RW_gate1_read)) 0) 0x80000000 = Some (RW_idle, 0, [Notify_all 1])"
    by (simp add: defs)
  from shared_mutex_signals[OF r this, of 1] show ?thesis by (simp add: max_eq)
qed

section \<open>Trying a lock\<close>

context try_lock
begin

text \<open>A try of the shared mutex leaves the inner lock free if it was free, and else changes nothing.\<close>

lemma tryLock_spec:
  "SharedMutex_tryLock trylk unlk s =
     (if is_locked (mut s) then (False, s)
      else (sm_state s = 0, s\<lparr>mut := unlk (snd (trylk (mut s))),
              sm_state := if sm_state s = 0 then write_entered_flag else sm_state s\<rparr>))"
  using try_iff[of "mut s"] try_fails[of "mut s"]
  by (cases "trylk (mut s)") (auto simp: SharedMutex_tryLock_def Let_def)

lemma tryLockShared_spec:
  "SharedMutex_tryLockShared trylk unlk s =
     (if is_locked (mut s) then (False, s)
      else (sm_state s < max_readers, s\<lparr>mut := unlk (snd (trylk (mut s))),
              sm_state := if sm_state s < max_readers then sm_state s + 1 else sm_state s\<rparr>))"
  using try_iff[of "mut s"] try_fails[of "mut s"]
  by (cases "trylk (mut s)") (auto simp: SharedMutex_tryLockShared_def Let_def)

lemma try_releases:
  "\<not> is_locked (mut s) \<Longrightarrow> \<not> is_locked (mut (snd (SharedMutex_tryLock trylk unlk s)))"
  "\<not> is_locked (mut s) \<Longrightarrow> \<not> is_locked (mut (snd (SharedMutex_tryLockShared trylk unlk s)))"
  by (simp_all add: tryLock_spec tryLockShared_spec unlock_frees)

end

text \<open>Trying the shared mutex exclusively and then trying it shared never both succeed, and a try
  under a taken inner lock fails without any change.\<close>

theorem shared_mutex_tries_exclude:
  "let (w, s1) = SharedMutex_tryLock SpinLock_tryLock SpinLock_unlock s;
       (r, s2) = SharedMutex_tryLockShared SpinLock_tryLock SpinLock_unlock s1
   in (locked (mut s) \<longrightarrow> \<not> w \<and> \<not> r \<and> s2 = s) \<and> \<not> (w \<and> r) \<and> locked (mut s2) = locked (mut s)"
  using spin.try_releases(1)[of s]
    spin.try_releases(2)[of "snd (SharedMutex_tryLock SpinLock_tryLock SpinLock_unlock s)"]
  by (auto simp: Let_def spin.tryLock_spec spin.tryLockShared_spec flag_eq max_eq split: prod.splits if_splits)

lemma shared_mutex_tries_exclude_witness:
  "let s = \<lparr>mut = \<lparr>spinCount = 4, locked = True\<rparr>, sm_state = 0\<rparr>;
       (w, s1) = SharedMutex_tryLock SpinLock_tryLock SpinLock_unlock s;
       (r, s2) = SharedMutex_tryLockShared SpinLock_tryLock SpinLock_unlock s1
   in locked (mut s) \<and> \<not> w \<and> \<not> r \<and> s2 = s"
  using shared_mutex_tries_exclude [of "\<lparr>mut = \<lparr>spinCount = 4, locked = True\<rparr>, sm_state = 0\<rparr>"]
  by (simp add: Let_def split: prod.splits)

section \<open>SpinLock\<close>

lemma spin_reads_taken:
  assumes "locked s" "0 \<le> c" "c \<le> spinCount s"
  shows "snd (spin_reads n (Spin_read c) s) = (n + nat (spinCount s - c)) div nat (spinCount s + 1)"
  using assms
proof (induction n arbitrary: c)
  case 0
  have "nat (spinCount s - c) < nat (spinCount s + 1)" using 0 by auto
  then show ?case by simp
next
  case (Suc n)
  show ?case
  proof (cases "c = 0")
    case True
    define K where "K = nat (spinCount s + 1)"
    have "K > 0" "Suc n + nat (spinCount s - c) = n + K" using Suc.prems True by (auto simp: K_def)
    then have "(Suc n + nat (spinCount s - c)) div K = Suc (n div K)" by (simp only: div_add_self2)
    moreover have "snd (spin_reads n (Spin_read (spinCount s)) s) = n div K"
      using Suc.IH[of "spinCount s"] Suc.prems by (simp add: K_def)
    ultimately show ?thesis using Suc.prems True by (simp add: split_beta K_def)
  next
    case False
    then have "Suc n + nat (spinCount s - c) = n + nat (spinCount s - (c - 1))" using Suc.prems by simp
    then show ?thesis
      unfolding \<open>Suc n + nat (spinCount s - c) = _\<close>
      using Suc.IH[of "c - 1"] Suc.prems False by (simp add: split_beta)
  qed
qed

text \<open>A task that spins on a taken lock with a non-negative spin count yields once in every
  \<open>spinCount + 1\<close> reads, and takes the lock only by the exchange that finds it free.\<close>

theorem spin_yields:
  assumes "locked s" and "0 \<le> spinCount s"
  shows "snd (spin_reads (Suc n) (SpinLock_lock_start s) s) = n div nat (spinCount s + 1)"
proof -
  have "SpinLock_lock_step (SpinLock_lock_start s) s = (Spin_read (spinCount s), s, False)"
    using assms(1) by (cases s) (simp add: SpinLock_lock_start_def SpinLock_tryLock_def)
  with assms spin_reads_taken[of s "spinCount s" n] show ?thesis by (simp add: split_beta)
qed

theorem spin_yields_witness:
  "snd (spin_reads 10 (SpinLock_lock_start \<lparr>spinCount = 2, locked = True\<rparr>) \<lparr>spinCount = 2, locked = True\<rparr>) = 3"
  using spin_yields[of "\<lparr>spinCount = 2, locked = True\<rparr>" 9] by simp


section \<open>CountingSemaphore\<close>

lemma sem_run_inv:
  assumes "sem_run lim desired a r c"
  shows "unat c + a = unat desired + r \<and> (desired \<le> lim \<longrightarrow> c \<le> lim)"
  using assms
proof (induction rule: sem_run.induct)
  case (sem_acq a r c c')
  then have "c \<noteq> 0" "c' = c - 1" by (auto simp: sem_acquire_def split: if_splits)
  moreover from this(1) have "0 < unat c" by (simp add: unat_gt_0)
  ultimately show ?case using sem_acq.IH by (auto simp: unat_minus_one_word word_le_nat_alt)
next
  case (sem_try a r c ok c')
  then have "ok \<longleftrightarrow> c \<noteq> 0" "c' = (if ok then c - 1 else c)" by (auto simp: sem_try_acquire_def split: if_splits)
  moreover have "c \<noteq> 0 \<Longrightarrow> 0 < unat c" by (simp add: unat_gt_0)
  ultimately show ?case using sem_try.IH by (auto simp: unat_minus_one_word word_le_nat_alt)
next
  case (sem_rel a r c update c' sig)
  then have u: "update \<le> lim" "c \<le> lim - update" and c': "c' = c + update"
    by (auto simp: sem_release_def outcome_simps split: if_splits)
  have "unat (lim - update) = unat lim - unat update" using u(1) by (rule unat_sub)
  then have "unat c + unat update \<le> unat lim" using u by (simp add: word_le_nat_alt)
  moreover have "unat lim < 2 ^ 64" using unsigned_less[of lim] by simp
  ultimately have "unat c' = unat c + unat update" using c' by (simp add: unat_plus_small)
  with sem_rel.IH \<open>unat c + unat update \<le> unat lim\<close> show ?case by (simp add: word_le_nat_alt)
qed simp

text \<open>In every run of a semaphore whose assertions hold, the counter is the initial value plus what
  was released minus what was acquired, without wrapping around, and it never exceeds the maximum if
  it did not at the start.\<close>

theorem semaphore_counts:
  assumes "sem_run lim desired a r c"
  shows "unat c + a = unat desired + r \<and> (desired \<le> lim \<longrightarrow> c \<le> lim)"
  by (rule sem_run_inv[OF assms])

theorem semaphore_counts_witness: "unat (2 :: u64) + 1 = unat (0 :: u64) + 3"
proof -
  have "sem_run 5 0 0 (0 + unat (3 :: u64)) 3"
    by (rule sem_rel[OF sem_start, of 5 3 0 _ "Notify_all 0"]) (simp add: sem_release_def outcome_simps)
  then have "sem_run 5 0 (Suc 0) (0 + unat (3 :: u64)) 2" by (rule sem_acq) (simp add: sem_acquire_def)
  from semaphore_counts[OF this] show ?thesis by simp
qed

section \<open>Latches\<close>

lemma latch_run_spec:
  "latch_run us c = Inr (c', sigs) \<Longrightarrow>
   unat c = unat c' + sum_list (map unat us) \<and> (c' \<noteq> 0 \<longrightarrow> sigs = []) \<and>
   (c' = 0 \<and> us \<noteq> [] \<longrightarrow> Notify_all 0 \<in> set sigs)"
proof (induction us arbitrary: c sigs)
  case (Cons u us)
  obtain c1 s1 s2 where st: "latch_count_down u c = Inr (c1, s1)" "latch_run us c1 = Inr (c', s2)" "sigs = s1 @ s2"
    using Cons.prems by (auto simp: bind_Inr_iff)
  from st(1) have u: "u \<le> c" "c1 = c - u" "s1 = (if c1 = 0 then [Notify_all 0] else [])"
    by (auto simp: latch_count_down_def outcome_simps Let_def split: if_splits)
  have c1: "unat c = unat c1 + unat u" using u unat_sub[OF u(1)] by (simp add: word_le_nat_alt)
  note IH = Cons.IH[OF st(2)]
  have "c' \<noteq> 0 \<Longrightarrow> c1 \<noteq> 0" using IH by (metis add_is_0 unat_eq_0)
  moreover have "us = [] \<Longrightarrow> c' = c1" using st(2) by simp
  ultimately show ?case using IH c1 u(3) st(3) by auto
qed simp

text \<open>Counting a latch down by any amounts leaves exactly the difference; no waiter is signalled
  before zero is reached, and all of them are when it is.\<close>

theorem latch_signals_at_zero:
  assumes "latch_run us c = Inr (c', sigs)" and "us \<noteq> []"
  shows "unat c = unat c' + sum_list (map unat us) \<and> (sigs \<noteq> [] \<longleftrightarrow> latch_try_wait c')"
  using latch_run_spec[OF assms(1)] assms(2) by (auto simp: latch_try_wait_def)

theorem latch_signals_at_zero_witness:
  "unat (3 :: u64) = unat (0 :: u64) + sum_list (map unat [1, 2 :: u64])"
proof -
  have "latch_run [1, 2] 3 = Inr (0, [Notify_all 0])"
    by (simp add: latch_count_down_def outcome_simps Let_def)
  from latch_signals_at_zero[OF this] show ?thesis by simp
qed

lemma CountEvent_downs_ones:
  "ce_count e = word_of_nat (Suc k) \<Longrightarrow> Suc k < 2 ^ 64 \<Longrightarrow>
   fst (CountEvent_downs (replicate (Suc k) 1) e) = replicate k None @ [ce_awaitingCoro e]"
proof (induction k arbitrary: e)
  case 0
  then show ?case by (simp add: CountEvent_down_def Let_def)
next
  case (Suc k)
  have "ce_count e \<noteq> 1"
  proof
    assume "ce_count e = 1"
    then have "unat (word_of_nat (Suc (Suc k)) :: u64) = 1" using Suc.prems(1) by simp
    moreover have "unat (word_of_nat (Suc (Suc k)) :: u64) = Suc (Suc k)"
      using Suc.prems(2) by (simp only: unsigned_of_nat) (simp add: take_bit_nat_eq_self)
    ultimately show False by simp
  qed
  then have "CountEvent_down 1 e = (None, e\<lparr>ce_count := word_of_nat (Suc k)\<rparr>)"
    using Suc.prems(1) by (simp add: CountEvent_down_def Let_def)
  with Suc.IH[of "e\<lparr>ce_count := word_of_nat (Suc k)\<rparr>"] Suc.prems(2) show ?case
    by (simp add: split_beta)
qed


text \<open>Counting a \<^verbatim>\<open>CountEvent\<close> for \<open>n\<close> coroutines down \<open>n + 1\<close> times by one hands out the awaiting
  coroutine exactly at the last time.\<close>

theorem CountEvent_last_down:
  assumes "n < 2 ^ 64 - 1"
  shows "fst (CountEvent_downs (replicate (Suc n) 1)
      (CountEvent_setAwaitingCoro h (CountEvent_new (word_of_nat n)))) = replicate n None @ [h]"
proof -
  let ?e = "CountEvent_setAwaitingCoro h (CountEvent_new (word_of_nat n))"
  have "ce_count ?e = word_of_nat (Suc n)" "ce_awaitingCoro ?e = h"
    by (simp_all add: CountEvent_setAwaitingCoro_def CountEvent_new_def)
  moreover have "Suc n < 2 ^ 64" using assms by linarith
  ultimately show ?thesis using CountEvent_downs_ones[of ?e n] by (simp only:)
qed

theorem CountEvent_last_down_witness:
  "fst (CountEvent_downs [1, 1, 1] (CountEvent_setAwaitingCoro (Some 7) (CountEvent_new 2))) = [None, None, Some 7]"
proof -
  have "replicate (Suc 2) (1 :: u64) = [1, 1, 1]" "replicate 2 None @ [Some 7 :: nat option] = [None, None, Some 7]"
    "(word_of_nat 2 :: u64) = 2"
    by (simp_all add: numeral_2_eq_2)
  moreover have "(2 :: nat) < 2 ^ 64 - 1" by simp
  ultimately show ?thesis using CountEvent_last_down[of 2 "Some 7"] by (simp only:)
qed

text \<open>Counting down by more than one can reach zero without the event happening: a
  \<^verbatim>\<open>CountEvent\<close> keeps its coroutine and a uthread latch does not set its promise, because both only
  test whether the old count was one.\<close>

theorem down_by_more_misses:
  assumes "1 < n"
  shows "(ce_count e = n \<longrightarrow> CountEvent_down n e = (None, e\<lparr>ce_count := 0\<rparr>)) \<and>
    (ul_count l = n \<and> \<not> ul_skip l \<longrightarrow> uLatch_downCount n l = l\<lparr>ul_count := 0\<rparr>)"
  using assms by (auto simp: CountEvent_down_def uLatch_downCount_def Let_def)

theorem down_by_more_misses_witness:
  "uLatch_downCount 2 (uLatch_new 2) = \<lparr>ul_count = 0, ul_skip = False, ul_set = 0\<rparr>"
  using down_by_more_misses[of 2 "CountEvent_new 1" "uLatch_new 2"] by (simp add: uLatch_new_def)

end
