(* ===== verification/Spec2Isabelle.thy ===== *)
theory Spec2Isabelle
  imports Uthread_Props Io_Context_Props Coro_Epoll_Props Coro_Io_Props Rate_Limiter_Props Meta_String_Props Move_Only_Function_Props Coro_File_Props Client_Pool_Props Generator_Props Lazy_Bridge Future_Awaiters Easylog_Props Promise_Allocator Map_Sharded_Props Load_Balancer_Props Lazy_Props Collect_All_Props
    Thread_Pool_Props Executors_Props Time_Parse Coro_Mutex_Props Coro_Sync_Props
begin

text \<open>
  A verification library for async-framework, a C++20 port of async\_simple with parts of ylt.

  \<^bold>\<open>The program.\<close> A \<^verbatim>\<open>Promise\<close> and its \<^verbatim>\<open>Future\<close> (\<^verbatim>\<open>src/Promise.h\<close>, \<^verbatim>\<open>src/Future.h\<close>) share a \<^verbatim>\<open>FutureState\<close>
  (\<^verbatim>\<open>src/FutureState.h\<close>), an atomic state machine on which one thread puts a result, a \<^verbatim>\<open>Try\<close> (\<^verbatim>\<open>src/Try.h\<close>),
  and another a continuation; whoever comes second runs the continuation, in place or on an \<^verbatim>\<open>Executor\<close>
  (\<^verbatim>\<open>src/Executor.h\<close>). The executors of \<^verbatim>\<open>src/executors\<close> put tasks on the \<^verbatim>\<open>ThreadPool\<close> of \<^verbatim>\<open>src/util\<close>, a queue
  per thread with work stealing. Coroutines return a \<^verbatim>\<open>Lazy\<close> (\<^verbatim>\<open>src/coro/Lazy.h\<close>), whose frame is allocated
  by \<^verbatim>\<open>src/coro/PromiseAllocator.h\<close>, which another coroutine awaits, several await together
  (\<^verbatim>\<open>src/coro/Collect.h\<close>), or a detached coroutine starts; they synchronise with the mutex, the shared
  mutex, the semaphore and the latches of \<^verbatim>\<open>src/coro\<close>. \<^verbatim>\<open>src/coro_apps\<close> holds applications: time formats, a
  sharded map, a load balancer over client pools, logging and network I/O.

  \<^bold>\<open>Theories.\<close> A theory \<open>X\<close> holds the model of a component and \<open>X_Props\<close>, where there is one, its properties.

  \<^item> \<open>Prelude\<close>: exceptions, failed assertions and undefined behaviour as values of a sum, machine
    integers, generic lemmas.
  \<^item> \<open>Try_Value\<close>: \<^verbatim>\<open>Try\<close>, \<^verbatim>\<open>Try<void>\<close>, \<^verbatim>\<open>Unit\<close>, \<^verbatim>\<open>makeTryCall\<close>, \<^verbatim>\<open>LocalState\<close>.
  \<^item> \<open>Future_State\<close>: the state of \<^verbatim>\<open>FutureState\<close> as a record, its members, and \<^verbatim>\<open>setResult\<close> and
    \<^verbatim>\<open>setContinuation\<close> with one step per atomic access. \<open>Future_Race\<close>: every interleaving of the two, as a step
    relation, with the invariant by which the continuation runs exactly once, and the measure (16 steps) by
    which every run ends.
  \<^item> \<open>Future_Api\<close>: a heap of shared states, \<^verbatim>\<open>Promise\<close>, \<^verbatim>\<open>Future\<close>, \<^verbatim>\<open>thenTry\<close>, \<^verbatim>\<open>thenValue\<close>, with the work that
    running a continuation leaves as a list. \<open>Future_Chain\<close>: a chain of \<open>n\<close> calls of \<^verbatim>\<open>thenValue\<close> is Kleisli
    composition, run in \<open>6 * n\<close> units of work; broken promises and single use.
  \<^item> \<open>Thread_Pool\<close>: \<^verbatim>\<open>Queue\<close> and \<^verbatim>\<open>ThreadPool\<close>, a round of a worker as a function; whether a try-lock succeeds
    and the random queue are parameters. No task is lost or run twice, and a stopped worker drains its queue
    within one round for each item and one to leave.
  \<^item> \<open>Executors\<close>: the base class \<^verbatim>\<open>Executor\<close>, \<^verbatim>\<open>SimpleExecutor\<close>, and \<^verbatim>\<open>SimpleIOExecutor\<close> with its event loop. The
    locale \<open>executor\<close> is the contract of scheduling and of contexts, interpreted on \<^verbatim>\<open>SimpleExecutor\<close>.
  \<^item> \<open>Lazy\<close>: coroutine bodies as programs over what \<^verbatim>\<open>await_transform\<close> accepts, frames and detached coroutines
    in a heap, control transfers as steps of a machine; \<^verbatim>\<open>via\<close>, \<^verbatim>\<open>setEx\<close>, \<^verbatim>\<open>start\<close>, \<^verbatim>\<open>detach\<close>, lazy locals. Its properties say
    that the machine computes what a direct-style evaluation of the body says, for every body: the number
    of steps needed exists and from then on nothing changes.
  \<^item> \<open>Collect\<close>: the awaiters of \<^verbatim>\<open>collectAny\<close> and \<^verbatim>\<open>collectAll\<close>, with an input seen as finishing while it is started or
    later. \<open>Collect_Props\<close>: the locale \<open>any_awaiter\<close>, interpreted on the four callbacks of \<^verbatim>\<open>collectAny\<close>; the first
    completion wins. \<open>Collect_All_Props\<close>: what \<^verbatim>\<open>collectAll\<close> does (it resumes too early, or never), and the windows.
  \<^item> \<open>Promise_Allocator\<close>: sizes and addresses in 64 bits of what lies behind a coroutine frame.
  \<^item> \<open>Coro_Mutex\<close>: the mutex of coroutines with one step per atomic access and its awaiters as linked nodes;
    it refines a FIFO lock. \<open>Coro_Sync\<close>: \<^verbatim>\<open>SpinLock\<close>, \<^verbatim>\<open>SharedMutex\<close>, \<^verbatim>\<open>CountingSemaphore\<close>, \<^verbatim>\<open>Latch\<close>, \<^verbatim>\<open>CountEvent\<close> and the
    latch of \<^verbatim>\<open>src/uthread\<close>; the locale \<open>try_lock\<close> is interpreted on \<^verbatim>\<open>SpinLock\<close>.
  \<^item> \<open>Time_Util\<close>: the conversions of \<^verbatim>\<open>time_util.h\<close> in 64-bit and 32-bit arithmetic, the parser of HTTP dates by
    format components, and the formatting. \<open>Time_Calendar\<close>, \<open>Time_Props\<close>, \<open>Time_Parse\<close>: the fast day count
    agrees with the calendar, dates survive printing and parsing, and what the parser accepts is a date.
  \<^item> \<open>Generator\<close>: the stack of nested \<^verbatim>\<open>Generator\<close> coroutines (\<^verbatim>\<open>src/coro/Generator.h\<close>) in a heap of promises with
    the link to the resumed leaf and to the caller, bodies as a codatatype. \<open>Generator_Chain\<close>: the shape of that stack.
    \<open>Generator_Props\<close>: iterating gives the elements of the recursive body in order, for bodies that end.
  \<^item> \<open>Lazy_Bridge\<close>: \<^verbatim>\<open>dispatch\<close> and \<^verbatim>\<open>syncAwait\<close> on the machine of \<open>Lazy\<close>. \<open>Future_Awaiters\<close>: awaiting a future
    from a coroutine (\<^verbatim>\<open>FutureAwaiter.h\<close>, \<^verbatim>\<open>ResumeBySchedule.h\<close>) and \<^verbatim>\<open>collectAll\<close> of futures (\<^verbatim>\<open>src/Collect.h\<close>).
  \<^item> \<open>Easylog\<close>: \<^verbatim>\<open>record.hpp\<close>, \<^verbatim>\<open>appender.hpp\<close> and \<^verbatim>\<open>easylog.hpp\<close>: formatting a record, the files of the appender and
    their rolling, the queue and the writer thread. \<open>Easylog_Props\<close>: which lines the files hold.
  \<^item> \<open>Client_Queue\<close>: the idle clients of a pool (\<^verbatim>\<open>src/coro_apps/coro_io\<close>), two bags that the collector swaps, with
    one step per atomic access; idle clients are watched by exactly one collector. \<open>Client_Pool\<close>: requests on a pool over
    any client type, the attempts to connect, the detector of live hosts, and the table of pools.
  \<^item> \<open>Coro_File\<close>: the files of \<^verbatim>\<open>coro_file.hpp\<close> over a model of the standard library's streams and of \<^verbatim>\<open>pread\<close>, and
    \<^verbatim>\<open>async_sendfile\<close>; what reading to the end gives, and that a stream is of no use afterwards.
  \<^item> \<open>Map_Sharded\<close>: a shard and the sharded map; the locale \<open>map_contract\<close>, interpreted on both, gives that
    sharding cannot be seen. \<open>Load_Balancer\<close>: the three ways to pick a host, and the choice of a live one.

  \<^bold>\<open>How the code is modelled.\<close> A class is a record, its members are functions that return the new state; an
  exception or a failed assertion is the left of a sum, and so is behaviour that C++ leaves undefined,
  where the code can reach it. Concurrent code is a step relation or a step function with one step per
  atomic access, or per critical section under a lock; memory orders are taken as sequentially
  consistent. A callable is what calling it gives. Loops that end are recursive functions; where a loop
  may not, it is a partial function into an option, with a proof that it returns (the selection of a host,
  the windows, the reversal of the mutex' waiters, a generator's resumptions, the change of an executor, the
  waiters of a condition variable), or it takes fuel, with a bound that is enough.

  \<^bold>\<open>Not modelled.\<close> The source does not compile as it stands (misspelt names, missing returns): each such
  place that a definition touches is a finding of the manifest, and the definition says what the line means
  where that is not in doubt. ViaCoroutine is left out because it is undefined as written. Left out are
  also the context switches of \<^verbatim>\<open>src/uthread\<close> (assembly), input and output over sockets and epoll, files through \<^verbatim>\<open>io_uring\<close>,
  rate limiting (floating point), \<^verbatim>\<open>Sleep.h\<close>, whose waiting is the executor's, type-level helpers, and the vendored
  concurrent queue, Dragonbox and expected. The requests of a client pool run one after the other; its queue and the table of
  pools are interleaved. Clients and the vendored queue are parameters.
\<close>

end
